(* ===== verification/Prelude.thy ===== *)
theory Prelude
  imports Main "HOL-Library.Word" "HOL-Library.Monad_Syntax"
begin

unbundle bit_operations_syntax

text \<open>
  What every component of the development shares: the names of the machine
  integer types, byte strings and their C library operations, arrays whose
  out-of-range access is a value (\<open>None\<close>) instead of an unspecified one, byte
  addressed memory with little-endian fields, the decimal text \<open>%d\<close> prints, and
  the collections of facts the component theories fill.

  Convention: a function of the code that may run into undefined behaviour (an
  out-of-range array access, a null dereference), hang in a failed assertion or
  block for ever has an \<open>option\<close> result, and \<open>None\<close> stands for "does not return
  normally". Error codes the code itself returns are ordinary values.
\<close>

section \<open>Collections\<close>

named_theorems defined_simps \<open>facts that say when an operation returns\<close>
named_theorems frame_simps \<open>facts that say what an operation leaves unchanged\<close>
named_theorems codec_simps \<open>facts on encoded and decoded bytes\<close>

section \<open>Machine integers\<close>

type_synonym u8 = "8 word"
type_synonym u16 = "16 word"
type_synonym u32 = "32 word"

text \<open>\<open>int32_t\<close> and \<open>int\<close> of the code are 32-bit words read through \<^const>\<open>sint\<close>;
  their comparisons are \<^const>\<open>word_sless\<close> and \<^const>\<open>word_sle\<close>.\<close>

type_synonym s32 = "32 word"

lemma sless_sint: "(a :: s32) <s b \<longleftrightarrow> sint a < sint b"
  by (simp add: word_sless_alt)

lemma sle_sint: "(a :: s32) \<le>s b \<longleftrightarrow> sint a \<le> sint b"
  by (simp add: word_sle_eq)

lemma of_int_sint_s32 [simp]: "(word_of_int (sint w) :: s32) = w"
  by simp

lemma unat_u32_less: "unat (w :: u32) < 4294967296"
  using unsigned_less [of w] by simp

lemma unat_u16_less: "unat (w :: u16) < 65536"
  using unsigned_less [of w] by simp

lemma sint_s32_bounds: "- 2147483648 \<le> sint (w :: s32) \<and> sint w < 2147483648"
  using sint_greater_eq [of w] sint_less [of w] by simp

section \<open>Arrays\<close>

text \<open>Reading and writing an element of a C array; outside the bounds the code has
  undefined behaviour and the model has no value.\<close>

definition aget :: "'a list \<Rightarrow> nat \<Rightarrow> 'a option" where
  "aget xs i = (if i < length xs then Some (xs ! i) else None)"

definition aset :: "'a list \<Rightarrow> nat \<Rightarrow> 'a \<Rightarrow> 'a list option" where
  "aset xs i x = (if i < length xs then Some (xs[i := x]) else None)"

lemma aget_in [defined_simps]: "i < length xs \<Longrightarrow> aget xs i = Some (xs ! i)"
  by (simp add: aget_def)

lemma aget_out [defined_simps]: "length xs \<le> i \<Longrightarrow> aget xs i = None"
  by (simp add: aget_def)

lemma aset_in [defined_simps]: "i < length xs \<Longrightarrow> aset xs i x = Some (xs[i := x])"
  by (simp add: aset_def)

lemma aset_out [defined_simps]: "length xs \<le> i \<Longrightarrow> aset xs i x = None"
  by (simp add: aset_def)

lemma aget_SomeD: "aget xs i = Some x \<Longrightarrow> i < length xs \<and> x = xs ! i"
  by (simp add: aget_def split: if_splits)

lemma aset_SomeD: "aset xs i x = Some ys \<Longrightarrow> i < length xs \<and> ys = xs[i := x]"
  by (simp add: aset_def split: if_splits)

lemma aset_length [dest]: "aset xs i x = Some ys \<Longrightarrow> length ys = length xs"
  by (auto dest: aset_SomeD)

section \<open>Searching an array from the front\<close>

text \<open>The loops \<open>for (i = 0; i < n; i++) if (p(a[i])) ...\<close> of the code: the first
  index whose element satisfies the test.\<close>

fun find_index :: "('a \<Rightarrow> bool) \<Rightarrow> 'a list \<Rightarrow> nat option" where
  "find_index p [] = None"
| "find_index p (x # xs) = (if p x then Some 0 else map_option Suc (find_index p xs))"

lemma find_index_None_iff: "find_index p xs = None \<longleftrightarrow> (\<forall>x \<in> set xs. \<not> p x)"
  by (induction xs) auto

lemma find_index_SomeD:
  "find_index p xs = Some i \<Longrightarrow> i < length xs \<and> p (xs ! i) \<and> (\<forall>j < i. \<not> p (xs ! j))"
proof (induction xs arbitrary: i)
  case Nil
  then show ?case by simp
next
  case (Cons x xs)
  show ?case
  proof (cases "p x")
    case True
    with Cons.prems show ?thesis by simp
  next
    case False
    with Cons.prems obtain k where k: "find_index p xs = Some k" "i = Suc k" by auto
    from Cons.IH [OF k(1)] False k(2) show ?thesis
      by (auto simp: nth_Cons split: nat.splits)
  qed
qed

lemma find_index_SomeI:
  "i < length xs \<Longrightarrow> p (xs ! i) \<Longrightarrow> (\<And>j. j < i \<Longrightarrow> \<not> p (xs ! j)) \<Longrightarrow> find_index p xs = Some i"
proof (induction xs arbitrary: i)
  case Nil
  then show ?case by simp
next
  case (Cons x xs)
  show ?case
  proof (cases i)
    case 0
    with Cons.prems show ?thesis by simp
  next
    case (Suc k)
    have "\<not> p x" using Cons.prems(3) [of 0] Suc by simp
    moreover have "find_index p xs = Some k"
      using Cons.prems Suc by (intro Cons.IH) force+
    ultimately show ?thesis using Suc by simp
  qed
qed

section \<open>Byte strings\<close>

text \<open>Text is kept as the bytes the C code moves around. \<open>cstr\<close> gives the bytes of
  a literal, without its terminating zero.\<close>

definition cstr :: "string \<Rightarrow> u8 list" where
  "cstr cs = map of_char cs"

lemma length_cstr [simp]: "length (cstr cs) = length cs"
  by (simp add: cstr_def)

text \<open>The string a \<open>char\<close> buffer holds: its bytes up to the first zero.\<close>

definition cstring_of :: "u8 list \<Rightarrow> u8 list" where
  "cstring_of bs = takeWhile (\<lambda>b. b \<noteq> 0) bs"

text \<open>\<open>strncpy(dst, src, n)\<close>: at most \<open>n\<close> bytes of \<open>src\<close>, padded with zeros up to
  \<open>n\<close>, the rest of the destination kept.\<close>

definition strncpy :: "u8 list \<Rightarrow> u8 list \<Rightarrow> nat \<Rightarrow> u8 list" where
  "strncpy dst src n = take n (src @ replicate n 0) @ drop n dst"

lemma length_strncpy [simp]: "n \<le> length dst \<Longrightarrow> length (strncpy dst src n) = length dst"
  by (simp add: strncpy_def)

lemma take_strncpy: "n \<le> length src \<Longrightarrow> take n (strncpy dst src n) = take n src"
  by (simp add: strncpy_def)

text \<open>\<open>memcpy\<close> to the front of a buffer.\<close>

definition memcpy_to :: "u8 list \<Rightarrow> u8 list \<Rightarrow> u8 list" where
  "memcpy_to dst src = src @ drop (length src) dst"

lemma length_memcpy_to [simp]: "length src \<le> length dst \<Longrightarrow> length (memcpy_to dst src) = length dst"
  by (simp add: memcpy_to_def)

lemma take_memcpy_to [simp]: "take (length src) (memcpy_to dst src) = src"
  by (simp add: memcpy_to_def)

section \<open>Decimal text\<close>

fun digits10 :: "nat \<Rightarrow> nat list" where
  "digits10 n = (if n < 10 then [n] else digits10 (n div 10) @ [n mod 10])"

declare digits10.simps [simp del]

definition digit_byte :: "nat \<Rightarrow> u8" where
  "digit_byte d = of_nat (48 + d)"

text \<open>What \<open>printf("%d")\<close> writes for an \<open>int\<close>.\<close>

definition dec :: "int \<Rightarrow> u8 list" where
  "dec i = (if i < 0 then [45] else []) @ map digit_byte (digits10 (nat \<bar>i\<bar>))"

lemma digits10_nonempty [simp]: "digits10 n \<noteq> []"
  by (subst digits10.simps) simp

lemma digits10_lt10: "d \<in> set (digits10 n) \<Longrightarrow> d < 10"
proof (induction n rule: digits10.induct)
  case (1 n)
  show ?case
  proof (cases "n < 10")
    case True
    with "1.prems" show ?thesis by (simp add: digits10.simps [of n])
  next
    case False
    with "1.prems" "1.IH" show ?thesis by (auto simp: digits10.simps [of n])
  qed
qed

lemma length_digits10: "n < 10 ^ Suc k \<Longrightarrow> length (digits10 n) \<le> Suc k"
proof (induction k arbitrary: n)
  case 0
  then show ?case by (subst digits10.simps) simp
next
  case (Suc k)
  show ?case
  proof (cases "n < 10")
    case True
    then show ?thesis by (subst digits10.simps) simp
  next
    case False
    have "n div 10 < 10 ^ Suc k"
      using Suc.prems by (simp add: less_mult_imp_div_less mult.commute)
    with Suc.IH False show ?thesis by (subst digits10.simps) simp
  qed
qed

text \<open>The value a digit string denotes, most significant digit first.\<close>

definition undigits :: "nat list \<Rightarrow> nat" where
  "undigits ds = foldl (\<lambda>a d. 10 * a + d) 0 ds"

lemma undigits_digits10 [simp]: "undigits (digits10 n) = n"
proof (induction n rule: digits10.induct)
  case (1 n)
  show ?case
  proof (cases "n < 10")
    case True
    then show ?thesis by (simp add: digits10.simps [of n] undigits_def)
  next
    case False
    with "1.IH" have "foldl (\<lambda>a d. 10 * a + d) 0 (digits10 (n div 10)) = n div 10"
      by (simp add: undigits_def)
    with False show ?thesis by (simp add: digits10.simps [of n] undigits_def)
  qed
qed

lemma unat_digit_byte: "d < 10 \<Longrightarrow> unat (digit_byte d) = 48 + d"
  by (simp add: digit_byte_def unat_of_nat del: of_nat_add)

lemma digit_byte_not [simp]:
  assumes "d < 10"
  shows "digit_byte d \<noteq> 0" "digit_byte d \<noteq> 45" "digit_byte d \<noteq> 10"
  using unat_digit_byte [OF assms] by auto

text \<open>Every \<open>int32_t\<close> prints in at most eleven characters.\<close>

lemma length_dec_s32: "length (dec (sint (w :: s32))) \<le> 11"
proof -
  have "nat \<bar>sint w\<bar> < 10 ^ Suc 9"
    using sint_s32_bounds [of w] by auto
  then have "length (digits10 (nat \<bar>sint w\<bar>)) \<le> 10"
    using length_digits10 [of _ 9] by simp
  then show ?thesis by (cases "sint w < 0") (simp_all add: dec_def)
qed

lemma dec_nonempty [simp]: "dec i \<noteq> []"
  by (simp add: dec_def)

lemma last_dec_not_newline: "last (dec i) \<noteq> 10"
proof -
  have "last (digits10 (nat \<bar>i\<bar>)) < 10"
    by (rule digits10_lt10 [OF last_in_set]) simp
  then show ?thesis by (simp add: dec_def last_map)
qed

lemma dec_no_nul: "0 \<notin> set (dec i)"
  by (auto simp: dec_def dest: digits10_lt10)

text \<open>\<open>%x\<close> and \<open>%08x\<close>.\<close>

fun digits16 :: "nat \<Rightarrow> nat list" where
  "digits16 n = (if n < 16 then [n] else digits16 (n div 16) @ [n mod 16])"

declare digits16.simps [simp del]

definition hex_byte :: "nat \<Rightarrow> u8" where
  "hex_byte d = of_nat (if d < 10 then 48 + d else 87 + d)"

definition hexstr :: "u32 \<Rightarrow> u8 list" where
  "hexstr w = map hex_byte (digits16 (unat w))"

definition hex08 :: "u32 \<Rightarrow> u8 list" where
  "hex08 w = replicate (8 - length (hexstr w)) 48 @ hexstr w"

section \<open>Little-endian fields\<close>

definition le16 :: "u16 \<Rightarrow> u8 list" where
  "le16 w = [ucast w, ucast (drop_bit 8 w)]"

definition le32 :: "u32 \<Rightarrow> u8 list" where
  "le32 w = [ucast w, ucast (drop_bit 8 w), ucast (drop_bit 16 w), ucast (drop_bit 24 w)]"

definition un16 :: "u8 list \<Rightarrow> u16" where
  "un16 bs = ucast (bs ! 0) OR push_bit 8 (ucast (bs ! 1))"

definition un32 :: "u8 list \<Rightarrow> u32" where
  "un32 bs = ucast (bs ! 0) OR push_bit 8 (ucast (bs ! 1))
     OR push_bit 16 (ucast (bs ! 2)) OR push_bit 24 (ucast (bs ! 3))"

lemma length_le [simp]: "length (le16 h) = 2" "length (le32 w) = 4"
  by (simp_all add: le16_def le32_def)

lemma un16_le16 [codec_simps]: "un16 (le16 w) = w"
  by (rule bit_word_eqI) (auto simp: un16_def le16_def bit_simps)

lemma un32_le32 [codec_simps]: "un32 (le32 w) = w"
proof (rule bit_word_eqI)
  fix n assume "n < LENGTH(32)"
  then consider "n < 8" | "8 \<le> n" "n < 16" | "16 \<le> n" "n < 24" | "24 \<le> n" "n < 32"
    by fastforce
  then show "bit (un32 (le32 w)) n = bit w n"
    by cases (auto simp: un32_def le32_def bit_simps)
qed

section \<open>Byte addressed memory\<close>

type_synonym memory = "u32 \<Rightarrow> u8"

definition rd_bytes :: "memory \<Rightarrow> u32 \<Rightarrow> nat \<Rightarrow> u8 list" where
  "rd_bytes m a n = map (\<lambda>i. m (a + of_nat i)) [0..<n]"

definition wr_bytes :: "memory \<Rightarrow> u32 \<Rightarrow> u8 list \<Rightarrow> memory" where
  "wr_bytes m a bs = (\<lambda>x. if unat (x - a) < length bs then bs ! unat (x - a) else m x)"

lemma length_rd_bytes [simp]: "length (rd_bytes m a n) = n"
  by (simp add: rd_bytes_def)

lemma take_rd_bytes [simp]: "k \<le> n \<Longrightarrow> take k (rd_bytes m a n) = rd_bytes m a k"
  by (simp add: rd_bytes_def take_map)

lemma rd_bytes_drop: "drop k (rd_bytes m a n) = rd_bytes m (a + of_nat k) (n - k)"
  by (rule nth_equalityI) (auto simp: rd_bytes_def add.assoc)

lemma rd_bytes_0 [simp]: "rd_bytes m a 0 = []"
  by (simp add: rd_bytes_def)

lemma rd_bytes_Suc: "rd_bytes m a (Suc n) = m a # rd_bytes m (a + 1) n"
proof (rule nth_equalityI)
  fix i assume "i < length (rd_bytes m a (Suc n))"
  then show "rd_bytes m a (Suc n) ! i = (m a # rd_bytes m (a + 1) n) ! i"
    by (cases i) (simp_all add: rd_bytes_def add.assoc del: upt_Suc)
qed simp

lemma rd_wr_bytes [codec_simps]:
  assumes "length bs \<le> 4294967296"
  shows "rd_bytes (wr_bytes m a bs) a (length bs) = bs"
  using assms by (intro nth_equalityI) (auto simp: rd_bytes_def wr_bytes_def unat_of_nat)

text \<open>A write leaves every byte outside its range alone.\<close>

lemma wr_bytes_outside:
  "length bs \<le> unat (x - a) \<Longrightarrow> wr_bytes m a bs x = m x"
  by (simp add: wr_bytes_def)

lemma rd_wr_inside [codec_simps]:
  assumes "k + n \<le> length bs" and "length bs \<le> 4294967296"
  shows "rd_bytes (wr_bytes m a bs) (a + of_nat k) n = take n (drop k bs)"
proof -
  have "rd_bytes (wr_bytes m a bs) a (length bs) = bs" by (rule rd_wr_bytes [OF assms(2)])
  then have "drop k (rd_bytes (wr_bytes m a bs) a (length bs)) = drop k bs" by simp
  then have "take n (rd_bytes (wr_bytes m a bs) (a + of_nat k) (length bs - k)) = take n (drop k bs)"
    by (simp add: rd_bytes_drop)
  with assms(1) show ?thesis by simp
qed

definition apart :: "u32 \<Rightarrow> nat \<Rightarrow> u32 \<Rightarrow> nat \<Rightarrow> bool" where
  "apart a n b k \<longleftrightarrow> (\<forall>x. \<not> (unat (x - a) < n \<and> unat (x - b) < k))"

lemma apart_next:
  assumes "n + k \<le> 4294967296"
  shows "apart (a + of_nat n) k a n"
  unfolding apart_def
proof (intro allI notI)
  fix x
  assume x: "unat (x - (a + of_nat n)) < k \<and> unat (x - a) < n"
  define j where "j = unat (x - (a + of_nat n))"
  have "x - a = of_nat (n + j)"
    by (simp add: j_def)
  moreover have "n + j < 4294967296" using x assms by (simp add: j_def)
  ultimately have "unat (x - a) = n + j" by (simp add: unat_of_nat del: of_nat_add)
  with x show False by simp
qed

text \<open>Writing two adjoining pieces is writing their concatenation, and the order of
  writes to disjoint ranges does not matter.\<close>

lemma wr_bytes_append:
  assumes "length xs + length ys \<le> 4294967296"
  shows "wr_bytes (wr_bytes m a xs) (a + of_nat (length xs)) ys = wr_bytes m a (xs @ ys)"
proof
  fix x
  define k where "k = unat (x - a)"
  have x: "x = a + of_nat k" by (simp add: k_def)
  have k: "k < 4294967296" using unat_u32_less [of "x - a"] by (simp add: k_def)
  have off: "unat (x - (a + of_nat (length xs))) = k - length xs" if "length xs \<le> k"
    using that k by (simp add: x unat_of_nat flip: of_nat_diff)
  have out: "\<not> unat (x - (a + of_nat (length xs))) < length ys" if "k < length xs"
    using apart_next [OF assms, of a] that unfolding apart_def k_def by blast
  show "wr_bytes (wr_bytes m a xs) (a + of_nat (length xs)) ys x = wr_bytes m a (xs @ ys) x"
    using off out by (cases "k < length xs") (auto simp: wr_bytes_def nth_append k_def [symmetric])
qed

lemma wr_bytes_commute:
  "apart a (length xs) b (length ys) \<Longrightarrow>
   wr_bytes (wr_bytes m a xs) b ys = wr_bytes (wr_bytes m b ys) a xs"
  by (rule ext) (auto simp: wr_bytes_def apart_def)

lemma rd_wr_apart:
  assumes "apart a n b (length bs)" and "n \<le> 4294967296"
  shows "rd_bytes (wr_bytes m b bs) a n = rd_bytes m a n"
proof -
  have "\<not> unat (a + of_nat i - b) < length bs" if "i < n" for i
  proof -
    have "unat (a + of_nat i - a) < n" using that assms(2) by (simp add: unat_of_nat)
    with assms(1) show ?thesis unfolding apart_def by blast
  qed
  then show ?thesis by (simp add: rd_bytes_def wr_bytes_def)
qed

lemma apart_sub: "apart a n b k \<Longrightarrow> n' \<le> n \<Longrightarrow> k' \<le> k \<Longrightarrow> apart a n' b k'"
  unfolding apart_def by (meson less_le_trans)

lemma apart_below:
  assumes "unat a + n \<le> unat b" and "unat b + k \<le> 4294967296"
  shows "apart a n b k"
  unfolding apart_def
proof (intro allI notI)
  fix x
  assume x: "unat (x - a) < n \<and> unat (x - b) < k"
  have "unat (a + (x - a)) = unat a + unat (x - a)"
    using x assms unat_u32_less [of b] by (subst unat_add_lem [THEN iffD1]) auto
  moreover have "unat (b + (x - b)) = unat b + unat (x - b)"
    using x assms by (subst unat_add_lem [THEN iffD1]) auto
  ultimately have "unat a + unat (x - a) = unat b + unat (x - b)" by simp
  with x assms show False by simp
qed

lemma apart_sym: "apart a n b k \<longleftrightarrow> apart b k a n"
  by (auto simp: apart_def)

definition rd16 :: "memory \<Rightarrow> u32 \<Rightarrow> u16" where
  "rd16 m a = un16 (rd_bytes m a 2)"

definition rd32 :: "memory \<Rightarrow> u32 \<Rightarrow> u32" where
  "rd32 m a = un32 (rd_bytes m a 4)"

definition wr32 :: "memory \<Rightarrow> u32 \<Rightarrow> u32 \<Rightarrow> memory" where
  "wr32 m a w = wr_bytes m a (le32 w)"

lemma rd32_wr32 [codec_simps]: "rd32 (wr32 m a w) a = w"
  using rd_wr_bytes [of "le32 w" m a] by (simp add: rd32_def wr32_def un32_le32)

end
