(* ===== verification/Machine.thy ===== *)
theory Machine
  imports Prelude
begin

text \<open>
  The part of the processor the drivers touch (bsp/cortexa9/xil_io.c, xil_mmu.c).
  Device registers are not modelled as storage: what a device answers is decided
  outside the program, so the values successive register reads return are a tape
  of the state (\<open>io_tape\<close>) and every access is recorded in order in \<open>io_log\<close>. A
  theorem about a driver then holds for every device. A read from an empty tape
  has no value. Accesses to registers of the system coprocessor and the barrier
  instructions, which the cache maintenance uses, go into the same record.
  Ordinary memory is byte addressed (\<open>mem\<close>); \<open>tlb\<close> is the translation
  table \<open>MMUTable\<close>, indexed by the 1 MB section number.
\<close>

datatype cp_reg = XREG_CP15_CACHE_SIZE_SEL | XREG_CP15_SYS_CONTROL | XREG_CP15_INVAL_DC_LINE_SW |
  XREG_CP15_CLEAN_INVAL_DC_LINE_SW | XREG_CP15_INVAL_DC_LINE_MVA_POC | XREG_CP15_CLEAN_INVAL_DC_LINE_MVA_POC |
  XREG_CP15_CLEAN_DC_LINE_MVA_POC | XREG_CP15_INVAL_IC_LINE_MVA_POU | XREG_CP15_INVAL_IC_POU |
  XREG_CP15_INVAL_UTLB_UNLOCKED | XREG_CP15_INVAL_BRANCH_ARRAY | XREG_CP15_COUNT_ENABLE_CLR |
  XREG_CP15_COUNT_ENABLE_SET | XREG_CP15_PERF_MONITOR_CTRL | XREG_CP15_EVENT_CNTR_SEL | XREG_CP15_EVENT_TYPE_SEL |
  XREG_CP15_PERF_MONITOR_COUNT

datatype io_event = IoRead u32 u32 | IoWrite u32 u32 | IoRead16 u32 u16 | IoWrite16 u32 u16 |
  IoRead8 u32 u8 | IoWrite8 u32 u8 | CpRead cp_reg u32 | CpWrite cp_reg u32 | DSB | ISB

record machine =
  mem :: memory
  io_tape :: "u32 list"
  io_log :: "io_event list"
  tlb :: "u32 \<Rightarrow> u32"

section \<open>Register access\<close>

definition Xil_In32 :: "u32 \<Rightarrow> 'a machine_scheme \<Rightarrow> (u32 \<times> 'a machine_scheme) option" where
  "Xil_In32 a s = (case io_tape s of [] \<Rightarrow> None
     | v # t \<Rightarrow> Some (v, s\<lparr>io_tape := t, io_log := io_log s @ [IoRead a v]\<rparr>))"

definition Xil_Out32 :: "u32 \<Rightarrow> u32 \<Rightarrow> 'a machine_scheme \<Rightarrow> 'a machine_scheme" where
  "Xil_Out32 a v s = s\<lparr>io_log := io_log s @ [IoWrite a v]\<rparr>"

lemma Xil_In32_Cons [defined_simps]:
  "io_tape s = v # t \<Longrightarrow>
   Xil_In32 a s = Some (v, s\<lparr>io_tape := t, io_log := io_log s @ [IoRead a v]\<rparr>)"
  by (simp add: Xil_In32_def)

lemma Xil_Out32_sel [simp]:
  "mem (Xil_Out32 a v s) = mem s"
  "io_tape (Xil_Out32 a v s) = io_tape s"
  "io_log (Xil_Out32 a v s) = io_log s @ [IoWrite a v]"
  "tlb (Xil_Out32 a v s) = tlb s"
  "machine.more (Xil_Out32 a v s) = machine.more s"
  by (simp_all add: Xil_Out32_def)

section \<open>Counted loops over registers\<close>

text \<open>The indices of \<open>for (i = lo; i < hi; i += st)\<close>.\<close>

definition range_step :: "nat \<Rightarrow> nat \<Rightarrow> nat \<Rightarrow> nat list" where
  "range_step lo hi st = filter (\<lambda>i. (i - lo) mod st = 0) [lo..<hi]"

lemma set_range_step: "i \<in> set (range_step lo hi st) \<longleftrightarrow> lo \<le> i \<and> i < hi \<and> (i - lo) mod st = 0"
  by (auto simp: range_step_def)

text \<open>A loop whose body writes one register.\<close>

definition write_all :: "(nat \<Rightarrow> u32) \<Rightarrow> (nat \<Rightarrow> u32) \<Rightarrow> nat list \<Rightarrow> 'a machine_scheme \<Rightarrow> 'a machine_scheme" where
  "write_all addr val ids s = fold (\<lambda>i. Xil_Out32 (addr i) (val i)) ids s"

lemma write_all_eq:
  "write_all addr val ids s = s\<lparr>io_log := io_log s @ map (\<lambda>i. IoWrite (addr i) (val i)) ids\<rparr>"
  unfolding write_all_def
  by (induction ids arbitrary: s) (simp_all add: Xil_Out32_def)

section \<open>Bit fields of a register\<close>

text \<open>\<open>reg &= ~(msk << sh); reg |= v << sh\<close>, and \<open>(reg >> sh) & msk\<close>.\<close>

definition put_field :: "u32 \<Rightarrow> nat \<Rightarrow> u32 \<Rightarrow> u32 \<Rightarrow> u32" where
  "put_field reg sh msk v = (reg AND NOT (push_bit sh msk)) OR push_bit sh v"

definition get_field :: "u32 \<Rightarrow> nat \<Rightarrow> u32 \<Rightarrow> u32" where
  "get_field reg sh msk = drop_bit sh reg AND msk"

text \<open>A field that was put is read back, if it fits the mask and the register.\<close>

lemma get_put_field:
  assumes "v AND msk = v" and "drop_bit sh (push_bit sh msk) = msk"
  shows "get_field (put_field reg sh msk v) sh msk = v"
proof (rule bit_word_eqI)
  fix n assume n: "n < LENGTH(32)"
  have v: "bit v n \<longleftrightarrow> bit v n \<and> bit msk n" for n
    using assms(1) by (metis bit_and_iff)
  have m: "bit msk n \<longrightarrow> n + sh < 32"
  proof
    assume "bit msk n"
    with assms(2) have "bit (drop_bit sh (push_bit sh msk)) n" by simp
    then show "n + sh < 32" by (auto simp: bit_simps add.commute dest: bit_imp_le_length)
  qed
  show "bit (get_field (put_field reg sh msk v) sh msk) n = bit v n"
    using v [of n] m
    by (auto simp: get_field_def put_field_def bit_simps add.commute)
qed

text \<open>The bits outside the field are kept.\<close>

lemma put_field_other:
  assumes "v AND msk = v" and "n < 32" and "\<not> bit (push_bit sh msk :: u32) n"
  shows "bit (put_field reg sh msk v) n = bit reg n"
proof -
  have "bit v k \<longrightarrow> bit msk k" for k
    using assms(1) by (metis bit_and_iff)
  with assms(2,3) show ?thesis
    by (auto simp: put_field_def bit_simps)
qed

section \<open>The translation table\<close>

text \<open>xil_mmu.c: the entry of the section that holds \<open>addr\<close> gets the section's base
  address and the attribute bits. The cache and predictor maintenance that follows
  is in theory Cache, with a proof that it leaves the table as it is.\<close>

definition Xil_SetTlbAttributes :: "u32 \<Rightarrow> u32 \<Rightarrow> 'a machine_scheme \<Rightarrow> 'a machine_scheme" where
  "Xil_SetTlbAttributes addr attrib s =
     s\<lparr>tlb := (tlb s)(addr div 0x100000 := (addr AND 0xFFF00000) OR attrib)\<rparr>"

lemma Xil_SetTlbAttributes_sel [simp]:
  "mem (Xil_SetTlbAttributes a v s) = mem s"
  "io_tape (Xil_SetTlbAttributes a v s) = io_tape s"
  "io_log (Xil_SetTlbAttributes a v s) = io_log s"
  "machine.more (Xil_SetTlbAttributes a v s) = machine.more s"
  by (simp_all add: Xil_SetTlbAttributes_def)

end
