(* ===== verification/Exceptions.thy ===== *)
theory Exceptions
  imports Machine
begin

text \<open>
  Exceptions of the processor (bsp/cortexa9/xil_exception.c, xil_exception.h, vectors.c): the
  table of handlers, the functions that change it, the mask bits of the status register, and the
  dispatchers the assembler vectors call. The default handlers never return.
\<close>

section \<open>The table\<close>

text \<open>The functions of type \<open>Xil_ExceptionHandler\<close> that are put into the table, and the data
  pointers they are registered with.\<close>

datatype exc_handler = Xil_ExceptionNullHandler | Xil_DataAbortHandler | Xil_PrefetchAbortHandler |
  Exc_XScuGic_InterruptHandler

datatype cbref = RefNull | RefGic | RefUart

record exc_entry =
  eHandler :: exc_handler
  eData :: cbref

record exc = machine +
  XExc_VectorTable :: "exc_entry list"
  cpsr :: u32

abbreviation (input) "XIL_EXCEPTION_FIQ \<equiv> (0x40 :: u32)"
abbreviation (input) "XIL_EXCEPTION_IRQ \<equiv> (0x80 :: u32)"
abbreviation (input) "XIL_EXCEPTION_ALL \<equiv> (0xC0 :: u32)"
abbreviation (input) "XIL_EXCEPTION_ID_SWI_INT \<equiv> (2 :: nat)"
abbreviation (input) "XIL_EXCEPTION_ID_PREFETCH_ABORT_INT \<equiv> (3 :: nat)"
abbreviation (input) "XIL_EXCEPTION_ID_DATA_ABORT_INT \<equiv> (4 :: nat)"
abbreviation (input) "XIL_EXCEPTION_ID_INT \<equiv> (5 :: nat)"
abbreviation (input) "XIL_EXCEPTION_ID_FIQ_INT \<equiv> (6 :: nat)"
abbreviation (input) "XIL_EXCEPTION_ID_LAST \<equiv> (6 :: nat)"

definition exc_table_init :: "exc_entry list" where
  "exc_table_init = map (\<lambda>h. \<lparr>eHandler = h, eData = RefNull\<rparr>)
     [Xil_ExceptionNullHandler, Xil_ExceptionNullHandler, Xil_ExceptionNullHandler, Xil_PrefetchAbortHandler,
      Xil_DataAbortHandler, Xil_ExceptionNullHandler, Xil_ExceptionNullHandler]"

definition Xil_ExceptionInit :: "'a exc_scheme \<Rightarrow> 'a exc_scheme" where
  "Xil_ExceptionInit s = s"

definition Xil_ExceptionRegisterHandler ::
    "nat \<Rightarrow> exc_handler \<Rightarrow> cbref \<Rightarrow> 'a exc_scheme \<Rightarrow> 'a exc_scheme option" where
  "Xil_ExceptionRegisterHandler exception_id h d s = do {
     t \<leftarrow> aset (XExc_VectorTable s) exception_id \<lparr>eHandler = h, eData = d\<rparr>;
     Some (s\<lparr>XExc_VectorTable := t\<rparr>) }"

definition Xil_ExceptionRemoveHandler :: "nat \<Rightarrow> 'a exc_scheme \<Rightarrow> 'a exc_scheme option" where
  "Xil_ExceptionRemoveHandler exception_id s =
     Xil_ExceptionRegisterHandler exception_id Xil_ExceptionNullHandler RefNull s"

section \<open>Masking\<close>

definition Xil_ExceptionEnableMask :: "u32 \<Rightarrow> 'a exc_scheme \<Rightarrow> 'a exc_scheme" where
  "Xil_ExceptionEnableMask Mask s = s\<lparr>cpsr := cpsr s AND NOT (Mask AND XIL_EXCEPTION_ALL)\<rparr>"

definition Xil_ExceptionEnable :: "'a exc_scheme \<Rightarrow> 'a exc_scheme" where
  "Xil_ExceptionEnable s = Xil_ExceptionEnableMask XIL_EXCEPTION_IRQ s"

definition Xil_ExceptionDisableMask :: "u32 \<Rightarrow> 'a exc_scheme \<Rightarrow> 'a exc_scheme" where
  "Xil_ExceptionDisableMask Mask s = s\<lparr>cpsr := cpsr s OR (Mask AND XIL_EXCEPTION_ALL)\<rparr>"

definition Xil_ExceptionDisable :: "'a exc_scheme \<Rightarrow> 'a exc_scheme" where
  "Xil_ExceptionDisable s = Xil_ExceptionDisableMask XIL_EXCEPTION_IRQ s"

section \<open>Dispatch\<close>

text \<open>The C functions behind the vectors; \<open>run\<close> calls a handler of the table.\<close>

definition call_vector ::
    "(exc_handler \<Rightarrow> cbref \<Rightarrow> 'a exc_scheme \<Rightarrow> 'a exc_scheme option) \<Rightarrow> nat \<Rightarrow> 'a exc_scheme \<Rightarrow> 'a exc_scheme option" where
  "call_vector run i s = do { e \<leftarrow> aget (XExc_VectorTable s) i; run (eHandler e) (eData e) s }"

definition IRQInterrupt where
  "IRQInterrupt run s = call_vector run XIL_EXCEPTION_ID_INT s"

definition FIQInterrupt where
  "FIQInterrupt run s = call_vector run XIL_EXCEPTION_ID_FIQ_INT s"

definition SWInterrupt where
  "SWInterrupt run s = call_vector run XIL_EXCEPTION_ID_SWI_INT s"

definition DataAbortInterrupt where
  "DataAbortInterrupt run s = call_vector run XIL_EXCEPTION_ID_DATA_ABORT_INT s"

definition PrefetchAbortInterrupt where
  "PrefetchAbortInterrupt run s = call_vector run XIL_EXCEPTION_ID_PREFETCH_ABORT_INT s"

section \<open>Masks and handlers\<close>

definition irqs_masked :: "'a exc_scheme \<Rightarrow> bool" where
  "irqs_masked s \<longleftrightarrow> cpsr s AND XIL_EXCEPTION_IRQ \<noteq> 0"

lemma irqs_masked_set [simp]:
  "\<not> irqs_masked (Xil_ExceptionEnable s)" "irqs_masked (Xil_ExceptionDisable s)"
  by (simp_all add: irqs_masked_def Xil_ExceptionEnable_def Xil_ExceptionEnableMask_def Xil_ExceptionDisable_def
      Xil_ExceptionDisableMask_def bit.conj_disj_distrib2 word_bw_assocs)

text \<open>Interrupts are on and go to the driver of the controller.\<close>

definition irqs_routed :: "'a exc_scheme \<Rightarrow> bool" where
  "irqs_routed s \<longleftrightarrow> \<not> irqs_masked s \<and> length (XExc_VectorTable s) = 7 \<and>
     XExc_VectorTable s ! 5 = \<lparr>eHandler = Exc_XScuGic_InterruptHandler, eData = RefGic\<rparr>"

lemma irqs_routed_frame:
  "XExc_VectorTable s' = XExc_VectorTable s \<Longrightarrow> cpsr s' = cpsr s \<Longrightarrow> irqs_routed s' = irqs_routed s"
  by (simp add: irqs_routed_def irqs_masked_def)

text \<open>A registered handler is the one its exception calls; removing it brings the stub back.\<close>

lemma registered_is_called:
  assumes "length (XExc_VectorTable s) = 7" and "i \<le> XIL_EXCEPTION_ID_LAST"
  shows "\<exists>s'. Xil_ExceptionRegisterHandler i h d s = Some s' \<and> call_vector run i s' = run h d s' \<and>
    length (XExc_VectorTable s') = 7 \<and> (\<forall>j. j \<noteq> i \<longrightarrow> XExc_VectorTable s' ! j = XExc_VectorTable s ! j) \<and>
    cpsr s' = cpsr s"
  using assms by (simp add: Xil_ExceptionRegisterHandler_def call_vector_def defined_simps)

end
