(* ===== verification/Gic.thy ===== *)
theory Gic
  imports Exceptions
begin

text \<open>
  The interrupt controller driver (iplib/scugic_v2_1/src): the vector table and its
  invariant, initialisation, connecting and dispatching handlers, the priority and
  trigger fields, and software interrupts. A failed \<open>Xil_Assert\<close> loops for ever
  (\<open>Xil_AssertWait\<close> is never cleared), so it has no value. \<open>USE_AMP\<close>, a build flag
  of the driver, is an argument of the functions it changes.
\<close>

section \<open>Constants\<close>

abbreviation (input) "XSCUGIC_MAX_NUM_INTR_INPUTS \<equiv> (95 :: nat)"
abbreviation (input) "XIL_COMPONENT_IS_READY \<equiv> (0x11111111 :: u32)"
abbreviation (input) "XST_SUCCESS \<equiv> (0 :: s32)"
abbreviation (input) "XST_FAILURE \<equiv> (1 :: s32)"
abbreviation (input) "XPAR_CPU_ID \<equiv> (1 :: u32)"
abbreviation (input) "XSCUGIC_DIST_EN_OFFSET \<equiv> (0x000 :: u32)"
abbreviation (input) "XSCUGIC_ENABLE_SET_OFFSET \<equiv> (0x100 :: u32)"
abbreviation (input) "XSCUGIC_DISABLE_OFFSET \<equiv> (0x180 :: u32)"
abbreviation (input) "XSCUGIC_PRIORITY_OFFSET \<equiv> (0x400 :: u32)"
abbreviation (input) "XSCUGIC_SPI_TARGET_OFFSET \<equiv> (0x800 :: u32)"
abbreviation (input) "XSCUGIC_INT_CFG_OFFSET \<equiv> (0xC00 :: u32)"
abbreviation (input) "XSCUGIC_SFI_TRIG_OFFSET \<equiv> (0xF00 :: u32)"
abbreviation (input) "XSCUGIC_PCELLID_OFFSET \<equiv> (0xFF0 :: u32)"
abbreviation (input) "XSCUGIC_CONTROL_OFFSET \<equiv> (0x00 :: u32)"
abbreviation (input) "XSCUGIC_CPU_PRIOR_OFFSET \<equiv> (0x04 :: u32)"
abbreviation (input) "XSCUGIC_INT_ACK_OFFSET \<equiv> (0x0C :: u32)"
abbreviation (input) "XSCUGIC_EOI_OFFSET \<equiv> (0x10 :: u32)"

section \<open>State\<close>

text \<open>The functions of type \<open>Xil_InterruptHandler\<close> in the program.\<close>

datatype isr = StubHandler | Isr_txvring_irq | Isr_rxvring_irq | Isr_sys_timer | Isr_uart

record vector_entry =
  Handler :: "isr option"
  CallBackRef :: cbref

text \<open>\<open>XScuGic\<close> and the one entry of \<open>XScuGic_ConfigTable\<close> it points to.\<close>

record gic = exc +
  CpuBaseAddress :: u32
  DistBaseAddress :: u32
  HandlerTable :: "vector_entry list"
  gicConfig :: bool \<comment> \<open>the \<open>Config\<close> pointer of the instance is set\<close>
  gicIsReady :: u32
  UnhandledInterrupts :: u32

definition gic_ready :: "'a gic_scheme \<Rightarrow> bool" where
  "gic_ready s \<longleftrightarrow> gicIsReady s = XIL_COMPONENT_IS_READY"

text \<open>Once the driver is ready, every vector of the table has a handler and the
  \<open>Config\<close> pointer is set.\<close>

definition gic_inv :: "'a gic_scheme \<Rightarrow> bool" where
  "gic_inv s \<longleftrightarrow> length (HandlerTable s) = XSCUGIC_MAX_NUM_INTR_INPUTS \<and>
     (gic_ready s \<longrightarrow> gicConfig s \<and> (\<forall>e \<in> set (HandlerTable s). Handler e \<noteq> None))"

section \<open>Register access\<close>

definition XScuGic_DistWriteReg :: "u32 \<Rightarrow> u32 \<Rightarrow> 'a gic_scheme \<Rightarrow> 'a gic_scheme" where
  "XScuGic_DistWriteReg off v s = Xil_Out32 (DistBaseAddress s + off) v s"

definition XScuGic_CPUWriteReg :: "u32 \<Rightarrow> u32 \<Rightarrow> 'a gic_scheme \<Rightarrow> 'a gic_scheme" where
  "XScuGic_CPUWriteReg off v s = Xil_Out32 (CpuBaseAddress s + off) v s"

definition XScuGic_DistReadReg :: "u32 \<Rightarrow> 'a gic_scheme \<Rightarrow> (u32 \<times> 'a gic_scheme) option" where
  "XScuGic_DistReadReg off s = Xil_In32 (DistBaseAddress s + off) s"

definition XScuGic_CPUReadReg :: "u32 \<Rightarrow> 'a gic_scheme \<Rightarrow> (u32 \<times> 'a gic_scheme) option" where
  "XScuGic_CPUReadReg off s = Xil_In32 (CpuBaseAddress s + off) s"

definition INT_CFG_OFFSET_CALC :: "nat \<Rightarrow> u32" where
  "INT_CFG_OFFSET_CALC i = XSCUGIC_INT_CFG_OFFSET + of_nat (i div 16 * 4)"

definition PRIORITY_OFFSET_CALC :: "nat \<Rightarrow> u32" where
  "PRIORITY_OFFSET_CALC i = XSCUGIC_PRIORITY_OFFSET + of_nat (i div 4 * 4)"

definition SPI_TARGET_OFFSET_CALC :: "nat \<Rightarrow> u32" where
  "SPI_TARGET_OFFSET_CALC i = XSCUGIC_SPI_TARGET_OFFSET + of_nat (i div 4 * 4)"

definition ENABLE_DISABLE_OFFSET_CALC :: "u32 \<Rightarrow> nat \<Rightarrow> u32" where
  "ENABLE_DISABLE_OFFSET_CALC reg i = reg + of_nat (i div 32 * 4)"

section \<open>Initialisation\<close>

text \<open>The target loop of \<open>DistInit\<close> widens \<open>CpuID\<close> again in every round.\<close>

definition widen_cpu :: "u32 \<Rightarrow> u32" where
  "widen_cpu c = (let d = c OR push_bit 8 c in d OR push_bit 16 d)"

fun spi_targets :: "u32 \<Rightarrow> nat list \<Rightarrow> 'a gic_scheme \<Rightarrow> 'a gic_scheme" where
  "spi_targets c [] s = s"
| "spi_targets c (i # is) s =
     spi_targets (widen_cpu c) is (XScuGic_DistWriteReg (SPI_TARGET_OFFSET_CALC i) (widen_cpu c) s)"

definition DistInit :: "bool \<Rightarrow> u32 \<Rightarrow> 'a gic_scheme \<Rightarrow> 'a gic_scheme" where
  "DistInit use_amp CpuID s0 =
     (if use_amp then s0 else
      let base = DistBaseAddress s0;
          s1 = XScuGic_DistWriteReg XSCUGIC_DIST_EN_OFFSET 0 s0;
          s2 = write_all (\<lambda>i. base + INT_CFG_OFFSET_CALC i) (\<lambda>_. 0)
                 (range_step 32 XSCUGIC_MAX_NUM_INTR_INPUTS 16) s1;
          s3 = write_all (\<lambda>i. base + PRIORITY_OFFSET_CALC i) (\<lambda>_. 0xa0a0a0a0)
                 (range_step 0 XSCUGIC_MAX_NUM_INTR_INPUTS 4) s2;
          s4 = spi_targets CpuID (range_step 32 XSCUGIC_MAX_NUM_INTR_INPUTS 4) s3;
          s5 = write_all (\<lambda>i. base + ENABLE_DISABLE_OFFSET_CALC XSCUGIC_DISABLE_OFFSET i)
                 (\<lambda>_. 0xFFFFFFFF) (range_step 0 XSCUGIC_MAX_NUM_INTR_INPUTS 32) s4
      in XScuGic_DistWriteReg XSCUGIC_DIST_EN_OFFSET 1 s5)"

definition CPUInit :: "'a gic_scheme \<Rightarrow> 'a gic_scheme" where
  "CPUInit s = XScuGic_CPUWriteReg XSCUGIC_CONTROL_OFFSET 0x07
     (XScuGic_CPUWriteReg XSCUGIC_CPU_PRIOR_OFFSET 0xF0 s)"

definition init_vector :: "vector_entry \<Rightarrow> vector_entry" where
  "init_vector e = (case Handler e of
     None \<Rightarrow> e\<lparr>Handler := Some StubHandler, CallBackRef := RefGic\<rparr>
   | Some _ \<Rightarrow> e\<lparr>CallBackRef := RefGic\<rparr>)"

text \<open>\<open>XScuGic_ConfigTable\<close> has one entry, with device id 0; a pointer into it is its
  index, \<open>NULL\<close> is \<^const>\<open>None\<close>.\<close>

abbreviation (input) "XPAR_SCUGIC_0_DEVICE_ID \<equiv> (0 :: u16)"

definition XScuGic_LookupConfig :: "u16 \<Rightarrow> nat option" where
  "XScuGic_LookupConfig DeviceId = find_index (\<lambda>d. d = DeviceId) [XPAR_SCUGIC_0_DEVICE_ID]"

definition XScuGic_CfgInitialize ::
    "bool \<Rightarrow> nat option \<Rightarrow> 'a gic_scheme \<Rightarrow> (s32 \<times> 'a gic_scheme) option" where
  "XScuGic_CfgInitialize use_amp ConfigPtr s =
     (if ConfigPtr = None then None
      else if gicIsReady s \<noteq> XIL_COMPONENT_IS_READY then
        let s1 = s\<lparr>gicIsReady := 0, gicConfig := True,
                   HandlerTable := map init_vector (HandlerTable s)\<rparr>;
            s2 = CPUInit (DistInit use_amp (XPAR_CPU_ID + 1) s1)
        in Some (XST_SUCCESS, s2\<lparr>gicIsReady := XIL_COMPONENT_IS_READY\<rparr>)
      else Some (XST_SUCCESS, s))"

section \<open>Handlers\<close>

definition XScuGic_Connect ::
    "nat \<Rightarrow> isr option \<Rightarrow> cbref \<Rightarrow> 'a gic_scheme \<Rightarrow> (s32 \<times> 'a gic_scheme) option" where
  "XScuGic_Connect Int_Id h ref s =
     (if Int_Id < XSCUGIC_MAX_NUM_INTR_INPUTS \<and> h \<noteq> None \<and> gic_ready s then do {
        t \<leftarrow> aset (HandlerTable s) Int_Id \<lparr>Handler = h, CallBackRef = ref\<rparr>;
        Some (XST_SUCCESS, s\<lparr>HandlerTable := t\<rparr>)
      } else None)"

definition XScuGic_Disconnect :: "nat \<Rightarrow> 'a gic_scheme \<Rightarrow> 'a gic_scheme option" where
  "XScuGic_Disconnect Int_Id s =
     (if Int_Id < XSCUGIC_MAX_NUM_INTR_INPUTS \<and> gic_ready s then do {
        let s1 = XScuGic_DistWriteReg (ENABLE_DISABLE_OFFSET_CALC XSCUGIC_DISABLE_OFFSET Int_Id)
                   (push_bit (Int_Id mod 32) 1) s;
        t \<leftarrow> aset (HandlerTable s1) Int_Id \<lparr>Handler = Some StubHandler, CallBackRef = RefGic\<rparr>;
        Some (s1\<lparr>HandlerTable := t\<rparr>)
      } else None)"

definition XScuGic_Enable :: "nat \<Rightarrow> 'a gic_scheme \<Rightarrow> 'a gic_scheme option" where
  "XScuGic_Enable Int_Id s =
     (if Int_Id < XSCUGIC_MAX_NUM_INTR_INPUTS \<and> gic_ready s then
        Some (XScuGic_DistWriteReg (ENABLE_DISABLE_OFFSET_CALC XSCUGIC_ENABLE_SET_OFFSET Int_Id)
                (push_bit (Int_Id mod 32) 1) s)
      else None)"

definition XScuGic_Disable :: "nat \<Rightarrow> 'a gic_scheme \<Rightarrow> 'a gic_scheme option" where
  "XScuGic_Disable Int_Id s =
     (if Int_Id < XSCUGIC_MAX_NUM_INTR_INPUTS \<and> gic_ready s then
        Some (XScuGic_DistWriteReg (ENABLE_DISABLE_OFFSET_CALC XSCUGIC_DISABLE_OFFSET Int_Id)
                (push_bit (Int_Id mod 32) 1) s)
      else None)"

definition XScuGic_SoftwareIntr :: "u32 \<Rightarrow> u32 \<Rightarrow> 'a gic_scheme \<Rightarrow> (s32 \<times> 'a gic_scheme) option" where
  "XScuGic_SoftwareIntr Int_Id Cpu_Id s =
     (if gic_ready s \<and> Int_Id \<le> 15 \<and> Cpu_Id \<le> 255 then
        let Mask = (push_bit 16 Cpu_Id OR Int_Id) AND (0x00FF0000 OR 0x0000000F)
        in Some (XST_SUCCESS, XScuGic_DistWriteReg XSCUGIC_SFI_TRIG_OFFSET Mask s)
      else None)"

definition run_StubHandler :: "cbref \<Rightarrow> 'a gic_scheme \<Rightarrow> 'a gic_scheme option" where
  "run_StubHandler ref s = (case ref of
     RefGic \<Rightarrow> Some (s\<lparr>UnhandledInterrupts := UnhandledInterrupts s + 1\<rparr>)
   | _ \<Rightarrow> None)"

text \<open>The dispatcher of xscugic_intr.c. \<open>run\<close> calls the function an \<^typ>\<open>isr\<close> names;
  the table is read with its bounds checked, which the code does not do.\<close>

definition XScuGic_InterruptHandler ::
    "(isr \<Rightarrow> cbref \<Rightarrow> 'a gic_scheme \<Rightarrow> 'a gic_scheme option) \<Rightarrow> 'a gic_scheme \<Rightarrow> 'a gic_scheme option" where
  "XScuGic_InterruptHandler run s0 = do {
     (IntIDFull, s1) \<leftarrow> XScuGic_CPUReadReg XSCUGIC_INT_ACK_OFFSET s0;
     let IntID = unat (IntIDFull AND 0x3FF);
     if XSCUGIC_MAX_NUM_INTR_INPUTS < IntID
     then Some (XScuGic_CPUWriteReg XSCUGIC_EOI_OFFSET IntIDFull s1)
     else do {
       e \<leftarrow> aget (HandlerTable s1) IntID;
       h \<leftarrow> Handler e;
       s2 \<leftarrow> run h (CallBackRef e) s1;
       Some (XScuGic_CPUWriteReg XSCUGIC_EOI_OFFSET IntIDFull s2)
     }
   }"

section \<open>Priority and trigger\<close>

definition XScuGic_SetPriorityTriggerType ::
    "nat \<Rightarrow> u8 \<Rightarrow> u8 \<Rightarrow> 'a gic_scheme \<Rightarrow> 'a gic_scheme option" where
  "XScuGic_SetPriorityTriggerType Int_Id Priority Trigger s =
     (if gic_ready s \<and> Int_Id < XSCUGIC_MAX_NUM_INTR_INPUTS \<and> Trigger \<le> 3 \<and> Priority \<le> 248 then do {
        (r, s1) \<leftarrow> XScuGic_DistReadReg (PRIORITY_OFFSET_CALC Int_Id) s;
        let p = Priority AND 0xF8;
        let s2 = XScuGic_DistWriteReg (PRIORITY_OFFSET_CALC Int_Id)
                   (put_field r (Int_Id mod 4 * 8) 0xFF (ucast p)) s1;
        (r, s3) \<leftarrow> XScuGic_DistReadReg (INT_CFG_OFFSET_CALC Int_Id) s2;
        Some (XScuGic_DistWriteReg (INT_CFG_OFFSET_CALC Int_Id)
                (put_field r (Int_Id mod 16 * 2) 3 (ucast Trigger)) s3)
      } else None)"

definition XScuGic_GetPriorityTriggerType ::
    "nat \<Rightarrow> 'a gic_scheme \<Rightarrow> ((u8 \<times> u8) \<times> 'a gic_scheme) option" where
  "XScuGic_GetPriorityTriggerType Int_Id s =
     (if gic_ready s \<and> Int_Id < XSCUGIC_MAX_NUM_INTR_INPUTS then do {
        (r, s1) \<leftarrow> XScuGic_DistReadReg (PRIORITY_OFFSET_CALC Int_Id) s;
        let Priority = ucast (get_field r (Int_Id mod 4 * 8) 0xFF);
        (r, s2) \<leftarrow> XScuGic_DistReadReg (INT_CFG_OFFSET_CALC Int_Id) s1;
        let Trigger = ucast (get_field r (Int_Id mod 16 * 2) 3);
        Some ((Priority, Trigger), s2)
      } else None)"

definition XScuGic_SelfTest :: "'a gic_scheme \<Rightarrow> (s32 \<times> 'a gic_scheme) option" where
  "XScuGic_SelfTest s =
     (if gic_ready s then do {
        (r0, s0) \<leftarrow> XScuGic_DistReadReg (XSCUGIC_PCELLID_OFFSET + 0) s;
        (r1, s1) \<leftarrow> XScuGic_DistReadReg (XSCUGIC_PCELLID_OFFSET + 4) s0;
        (r2, s2) \<leftarrow> XScuGic_DistReadReg (XSCUGIC_PCELLID_OFFSET + 8) s1;
        (r3, s3) \<leftarrow> XScuGic_DistReadReg (XSCUGIC_PCELLID_OFFSET + 12) s2;
        let v = r0 OR push_bit 8 r1 OR push_bit 16 r2 OR push_bit 24 r3;
        Some (if v \<noteq> 0xB105F00D then XST_FAILURE else XST_SUCCESS, s3)
      } else None)"

section \<open>The low level interface\<close>

text \<open>xscugic_hw.c has the same services for callers without an instance. They find the
  configuration entry by device id, by base address, or take a distributor address.\<close>

definition hw_DistInit :: "bool \<Rightarrow> u32 \<Rightarrow> u32 \<Rightarrow> 'a machine_scheme \<Rightarrow> 'a machine_scheme" where
  "hw_DistInit use_amp base CpuID s0 =
     (if use_amp then s0 else
      let s1 = Xil_Out32 (base + XSCUGIC_DIST_EN_OFFSET) 0 s0;
          s2 = write_all (\<lambda>i. base + INT_CFG_OFFSET_CALC i) (\<lambda>_. 0)
                 (range_step 32 XSCUGIC_MAX_NUM_INTR_INPUTS 16) s1;
          s3 = write_all (\<lambda>i. base + PRIORITY_OFFSET_CALC i) (\<lambda>_. 0xa0a0a0a0)
                 (range_step 0 XSCUGIC_MAX_NUM_INTR_INPUTS 4) s2;
          (c, s4) = fold (\<lambda>i (c, s). (widen_cpu c,
                            Xil_Out32 (base + SPI_TARGET_OFFSET_CALC i) (widen_cpu c) s))
                      (range_step 32 XSCUGIC_MAX_NUM_INTR_INPUTS 4) (CpuID, s3);
          s5 = write_all (\<lambda>i. base + ENABLE_DISABLE_OFFSET_CALC XSCUGIC_DISABLE_OFFSET i)
                 (\<lambda>_. 0xFFFFFFFF) (range_step 0 XSCUGIC_MAX_NUM_INTR_INPUTS 32) s4
      in Xil_Out32 (base + XSCUGIC_DIST_EN_OFFSET) 1 s5)"

definition hw_CPUInit :: "u32 \<Rightarrow> 'a machine_scheme \<Rightarrow> 'a machine_scheme" where
  "hw_CPUInit base s =
     Xil_Out32 (base + XSCUGIC_CONTROL_OFFSET) 0x07 (Xil_Out32 (base + XSCUGIC_CPU_PRIOR_OFFSET) 0xF0 s)"

text \<open>The device id indexes the table, which has one entry.\<close>

definition XScuGic_DeviceInitialize ::
    "bool \<Rightarrow> u32 \<Rightarrow> 'a gic_scheme \<Rightarrow> (s32 \<times> 'a gic_scheme) option" where
  "XScuGic_DeviceInitialize use_amp DeviceId s =
     (if DeviceId = 0
      then Some (XST_SUCCESS, hw_CPUInit (CpuBaseAddress s)
             (hw_DistInit use_amp (DistBaseAddress s) (XPAR_CPU_ID + 1) s))
      else None)"

definition XScuGic_DeviceInterruptHandler ::
    "(isr \<Rightarrow> cbref \<Rightarrow> 'a gic_scheme \<Rightarrow> 'a gic_scheme option) \<Rightarrow> u32 \<Rightarrow>
     'a gic_scheme \<Rightarrow> 'a gic_scheme option" where
  "XScuGic_DeviceInterruptHandler run DeviceId s0 = (if DeviceId \<noteq> 0 then None else do {
     (r, s1) \<leftarrow> Xil_In32 (CpuBaseAddress s0 + XSCUGIC_INT_ACK_OFFSET) s0;
     let IntID = r AND 0x3FF;
     if XSCUGIC_MAX_NUM_INTR_INPUTS < unat IntID
     then Some (Xil_Out32 (CpuBaseAddress s1 + XSCUGIC_EOI_OFFSET) IntID s1)
     else do {
       e \<leftarrow> aget (HandlerTable s1) (unat IntID);
       h \<leftarrow> Handler e;
       s2 \<leftarrow> run h (CallBackRef e) s1;
       Some (Xil_Out32 (CpuBaseAddress s2 + XSCUGIC_EOI_OFFSET) IntID s2)
     }
   })"

definition LookupConfigByBaseAddress :: "u32 \<Rightarrow> 'a gic_scheme \<Rightarrow> nat option" where
  "LookupConfigByBaseAddress base s = find_index (\<lambda>a. a = base) [CpuBaseAddress s]"

text \<open>The interrupt id is not checked.\<close>

definition XScuGic_RegisterHandler ::
    "u32 \<Rightarrow> nat \<Rightarrow> isr option \<Rightarrow> cbref \<Rightarrow> 'a gic_scheme \<Rightarrow> 'a gic_scheme option" where
  "XScuGic_RegisterHandler base i h ref s = (case LookupConfigByBaseAddress base s of
     None \<Rightarrow> Some s
   | Some _ \<Rightarrow> do {
       t \<leftarrow> aset (HandlerTable s) i \<lparr>Handler = h, CallBackRef = ref\<rparr>;
       Some (s\<lparr>HandlerTable := t\<rparr>)
     })"

definition XScuGic_SetPriTrigTypeByDistAddr ::
    "u32 \<Rightarrow> nat \<Rightarrow> u8 \<Rightarrow> u8 \<Rightarrow> 'a machine_scheme \<Rightarrow> 'a machine_scheme option" where
  "XScuGic_SetPriTrigTypeByDistAddr base Int_Id Priority Trigger s =
     (if Int_Id < XSCUGIC_MAX_NUM_INTR_INPUTS \<and> Trigger \<le> 3 \<and> Priority \<le> 248 then do {
        (r, s1) \<leftarrow> Xil_In32 (base + PRIORITY_OFFSET_CALC Int_Id) s;
        let p = Priority AND 0xF8;
        let s2 = Xil_Out32 (base + PRIORITY_OFFSET_CALC Int_Id)
                   (put_field r (Int_Id mod 4 * 8) 0xFF (ucast p)) s1;
        (r, s3) \<leftarrow> Xil_In32 (base + INT_CFG_OFFSET_CALC Int_Id) s2;
        Some (Xil_Out32 (base + INT_CFG_OFFSET_CALC Int_Id)
                (put_field r (Int_Id mod 16 * 2) 3 (ucast Trigger)) s3)
      } else None)"

definition XScuGic_GetPriTrigTypeByDistAddr ::
    "u32 \<Rightarrow> nat \<Rightarrow> 'a machine_scheme \<Rightarrow> ((u8 \<times> u8) \<times> 'a machine_scheme) option" where
  "XScuGic_GetPriTrigTypeByDistAddr base Int_Id s =
     (if Int_Id < XSCUGIC_MAX_NUM_INTR_INPUTS then do {
        (r, s1) \<leftarrow> Xil_In32 (base + PRIORITY_OFFSET_CALC Int_Id) s;
        let Priority = ucast (get_field r (Int_Id mod 4 * 8) 0xFF);
        (r, s2) \<leftarrow> Xil_In32 (base + INT_CFG_OFFSET_CALC Int_Id) s1;
        Some ((Priority, ucast (get_field r (Int_Id mod 16 * 2) 3)), s2)
      } else None)"

section \<open>What the operations leave alone\<close>

text \<open>\<open>only_io s s'\<close>: nothing but register writes happened between the two states.\<close>

definition only_io :: "'a machine_scheme \<Rightarrow> 'a machine_scheme \<Rightarrow> bool" where
  "only_io s s' \<longleftrightarrow> (\<exists>l. s' = s\<lparr>io_log := io_log s @ l\<rparr>)"

lemma only_io_refl [simp]: "only_io s s"
  unfolding only_io_def by (rule exI [of _ "[]"]) simp

lemma only_io_Out32 [simp]: "only_io s (Xil_Out32 a v s)"
  unfolding only_io_def Xil_Out32_def by blast

lemma only_io_trans: "only_io s s' \<Longrightarrow> only_io s' s'' \<Longrightarrow> only_io s s''"
  unfolding only_io_def by fastforce

lemma only_io_write_all: "only_io s (write_all f g is s)"
  unfolding only_io_def write_all_eq by blast

lemma Xil_Out32_gic [simp]:
  "DistBaseAddress (Xil_Out32 a v s) = DistBaseAddress s"
  "CpuBaseAddress (Xil_Out32 a v s) = CpuBaseAddress s"
  "HandlerTable (Xil_Out32 a v s) = HandlerTable s"
  "gicConfig (Xil_Out32 a v s) = gicConfig s"
  "gicIsReady (Xil_Out32 a v s) = gicIsReady s"
  "UnhandledInterrupts (Xil_Out32 a v s) = UnhandledInterrupts s"
  "gic.more (Xil_Out32 a v s) = gic.more s"
  by (simp_all add: Xil_Out32_def)

lemmas reg_defs = XScuGic_DistWriteReg_def XScuGic_CPUWriteReg_def
  XScuGic_DistReadReg_def XScuGic_CPUReadReg_def

lemma only_io_step [intro]:
  "only_io s s' \<Longrightarrow> only_io s (Xil_Out32 a v s')"
  "only_io s s' \<Longrightarrow> only_io s (write_all f g is s')"
  using only_io_trans only_io_Out32 only_io_write_all by blast+

lemma only_io_spi_targets [intro]: "only_io s s' \<Longrightarrow> only_io s (spi_targets c is s')"
  by (induction "is" arbitrary: c s') (auto simp: reg_defs)

lemma DistInit_only_io: "only_io s (DistInit amp c s)"
  unfolding DistInit_def reg_defs Let_def by (simp, intro impI only_io_step only_io_spi_targets only_io_refl)

lemma CPUInit_only_io: "only_io s (CPUInit s)"
  unfolding CPUInit_def reg_defs by (intro only_io_step only_io_refl)

lemma only_io_gic:
  "only_io s s' \<Longrightarrow> HandlerTable s' = HandlerTable s \<and> gicConfig s' = gicConfig s \<and>
     gicIsReady s' = gicIsReady s \<and> gic.more s' = gic.more s \<and> mem s' = mem s"
  by (auto simp: only_io_def)

lemma only_io_exc: "only_io s s' \<Longrightarrow> XExc_VectorTable s' = XExc_VectorTable s \<and> cpsr s' = cpsr s"
  by (auto simp: only_io_def)

lemma only_io_inv: "only_io s s' \<Longrightarrow> gic_inv s' = gic_inv s \<and> gic_ready s' = gic_ready s"
  using only_io_gic [of s s'] by (simp add: gic_inv_def gic_ready_def)

lemma Xil_In32_SomeD:
  "Xil_In32 a s = Some (v, s') \<Longrightarrow>
   \<exists>t. io_tape s = v # t \<and> s' = s\<lparr>io_tape := t, io_log := io_log s @ [IoRead a v]\<rparr>"
  by (auto simp: Xil_In32_def split: list.splits)

lemma gic_inv_upd [simp]:
  "gic_inv (s\<lparr>io_tape := t\<rparr>) = gic_inv s" "gic_inv (s\<lparr>io_log := l\<rparr>) = gic_inv s"
  "gic_inv (s\<lparr>mem := m\<rparr>) = gic_inv s" "gic_inv (s\<lparr>UnhandledInterrupts := n\<rparr>) = gic_inv s"
  "gic_ready (s\<lparr>io_tape := t\<rparr>) = gic_ready s" "gic_ready (s\<lparr>io_log := l\<rparr>) = gic_ready s"
  "gic_ready (s\<lparr>mem := m\<rparr>) = gic_ready s" "gic_ready (s\<lparr>UnhandledInterrupts := n\<rparr>) = gic_ready s"
  "gic_ready (s\<lparr>HandlerTable := ht\<rparr>) = gic_ready s"
  by (simp_all add: gic_inv_def gic_ready_def)

lemma gic_inv_Out32 [simp]:
  "gic_inv (Xil_Out32 a v s) = gic_inv s" "gic_ready (Xil_Out32 a v s) = gic_ready s"
  using only_io_inv [OF only_io_Out32] by blast+

lemma gic_inv_In32:
  "Xil_In32 a s = Some (v, s') \<Longrightarrow>
   gic_inv s' = gic_inv s \<and> gic_ready s' = gic_ready s \<and> HandlerTable s' = HandlerTable s"
  by (auto dest!: Xil_In32_SomeD)

section \<open>The invariant is kept\<close>

text \<open>Initialisation establishes it whatever the table held, keeps handlers that were
  registered statically, and does nothing when it ran before.\<close>

lemma CfgInitialize_ready:
  assumes "length (HandlerTable s) = XSCUGIC_MAX_NUM_INTR_INPUTS" and "\<not> gic_ready s"
  obtains s' where "XScuGic_CfgInitialize amp (Some c) s = Some (XST_SUCCESS, s')" "gic_inv s'" "gic_ready s'"
    "HandlerTable s' = map init_vector (HandlerTable s)"
proof -
  let ?s1 = "s\<lparr>gicIsReady := 0, gicConfig := True, HandlerTable := map init_vector (HandlerTable s)\<rparr>"
  let ?s2 = "CPUInit (DistInit amp (XPAR_CPU_ID + 1) ?s1)"
  have "only_io ?s1 ?s2" by (rule only_io_trans [OF DistInit_only_io CPUInit_only_io])
  note f = only_io_gic [OF this]
  show thesis
  proof (rule that)
    show "XScuGic_CfgInitialize amp (Some c) s = Some (XST_SUCCESS, ?s2\<lparr>gicIsReady := XIL_COMPONENT_IS_READY\<rparr>)"
      using assms(2) by (simp add: XScuGic_CfgInitialize_def gic_ready_def Let_def)
    show "gic_inv (?s2\<lparr>gicIsReady := XIL_COMPONENT_IS_READY\<rparr>)"
      using f assms(1) by (auto simp: gic_inv_def init_vector_def split: option.splits)
    show "gic_ready (?s2\<lparr>gicIsReady := XIL_COMPONENT_IS_READY\<rparr>)" by (simp add: gic_ready_def)
    show "HandlerTable (?s2\<lparr>gicIsReady := XIL_COMPONENT_IS_READY\<rparr>) = map init_vector (HandlerTable s)"
      using f by simp
  qed
qed

lemma CfgInitialize_eq:
  assumes "\<not> gic_ready s"
  shows "\<exists>l. XScuGic_CfgInitialize amp (Some c) s = Some (XST_SUCCESS, s\<lparr>io_log := io_log s @ l,
    HandlerTable := map init_vector (HandlerTable s), gicConfig := True, gicIsReady := XIL_COMPONENT_IS_READY\<rparr>)"
proof -
  let ?s1 = "s\<lparr>gicIsReady := 0, gicConfig := True, HandlerTable := map init_vector (HandlerTable s)\<rparr>"
  have "only_io ?s1 (CPUInit (DistInit amp (XPAR_CPU_ID + 1) ?s1))"
    by (rule only_io_trans [OF DistInit_only_io CPUInit_only_io])
  then obtain l where "CPUInit (DistInit amp (XPAR_CPU_ID + 1) ?s1) = ?s1\<lparr>io_log := io_log s @ l\<rparr>"
    by (auto simp: only_io_def)
  then show ?thesis
    using assms by (intro exI [of _ l]) (simp add: XScuGic_CfgInitialize_def gic_ready_def Let_def)
qed

lemma init_vector_inv:
  "length (HandlerTable s) = XSCUGIC_MAX_NUM_INTR_INPUTS \<Longrightarrow>
     gic_inv (s\<lparr>HandlerTable := map init_vector (HandlerTable s), gicConfig := True, gicIsReady := r\<rparr>)"
  by (auto simp: gic_inv_def init_vector_def split: option.splits)

lemma gic_inv_table:
  "gic_inv s \<Longrightarrow> Handler e \<noteq> None \<Longrightarrow> gic_inv (s\<lparr>HandlerTable := (HandlerTable s)[i := e]\<rparr>)"
  by (auto simp: gic_inv_def gic_ready_def dest!: set_update_subset_insert [THEN subsetD])

lemma Connect_inv:
  "gic_inv s \<Longrightarrow> XScuGic_Connect i h ref s = Some (r, s') \<Longrightarrow> gic_inv s' \<and> gic_ready s'"
  by (auto simp: XScuGic_Connect_def gic_inv_table split: if_splits bind_splits dest!: aset_SomeD)

lemma Disconnect_inv:
  "gic_inv s \<Longrightarrow> XScuGic_Disconnect i s = Some s' \<Longrightarrow> gic_inv s' \<and> gic_ready s'"
  by (auto simp: XScuGic_Disconnect_def reg_defs Let_def split: if_splits bind_splits
      dest!: aset_SomeD intro: gic_inv_table [of "Xil_Out32 _ _ s", simplified])

lemma Enable_inv: "gic_inv s \<Longrightarrow> XScuGic_Enable i s = Some s' \<Longrightarrow> gic_inv s' \<and> gic_ready s'"
  by (auto simp: XScuGic_Enable_def reg_defs split: if_splits)

lemma Disable_inv: "gic_inv s \<Longrightarrow> XScuGic_Disable i s = Some s' \<Longrightarrow> gic_inv s' \<and> gic_ready s'"
  by (auto simp: XScuGic_Disable_def reg_defs split: if_splits)

lemma StubHandler_inv: "gic_inv s \<Longrightarrow> run_StubHandler ref s = Some s' \<Longrightarrow> gic_inv s'"
  by (auto simp: run_StubHandler_def split: cbref.splits)

lemma SetPriorityTriggerType_inv:
  "gic_inv s \<Longrightarrow> XScuGic_SetPriorityTriggerType i p t s = Some s' \<Longrightarrow> gic_inv s' \<and> gic_ready s'"
  by (auto simp: XScuGic_SetPriorityTriggerType_def reg_defs Let_def
      split: if_splits bind_splits dest!: gic_inv_In32)

lemma SoftwareIntr_inv:
  "gic_inv s \<Longrightarrow> XScuGic_SoftwareIntr i c s = Some (r, s') \<Longrightarrow> gic_inv s' \<and> gic_ready s'"
  by (auto simp: XScuGic_SoftwareIntr_def reg_defs Let_def split: if_splits)

text \<open>Dispatching keeps it when every handler does, and so does the low level dispatcher.\<close>

lemma InterruptHandler_inv:
  assumes run: "\<And>h ref s s'. gic_inv s \<Longrightarrow> run h ref s = Some s' \<Longrightarrow> gic_inv s'"
    and inv: "gic_inv s" and step: "XScuGic_InterruptHandler run s = Some s'"
  shows "gic_inv s'"
proof -
  from step obtain v s1 where r: "Xil_In32 (CpuBaseAddress s + XSCUGIC_INT_ACK_OFFSET) s = Some (v, s1)"
    by (auto simp: XScuGic_InterruptHandler_def reg_defs split: bind_splits)
  have s1: "gic_inv s1" using gic_inv_In32 [OF r] inv by simp
  consider "s' = XScuGic_CPUWriteReg XSCUGIC_EOI_OFFSET v s1"
    | h ref s2 where "run h ref s1 = Some s2" "s' = XScuGic_CPUWriteReg XSCUGIC_EOI_OFFSET v s2"
    using step r by (auto simp: XScuGic_InterruptHandler_def reg_defs Let_def split: if_splits bind_splits)
  then show ?thesis
    by cases (use s1 run in \<open>simp_all add: reg_defs\<close>)
qed

section \<open>Dispatch\<close>

definition vector_of :: "nat \<Rightarrow> 'a gic_scheme \<Rightarrow> (isr \<times> cbref) option" where
  "vector_of i s = (if i < length (HandlerTable s)
     then map_option (\<lambda>h. (h, CallBackRef (HandlerTable s ! i))) (Handler (HandlerTable s ! i)) else None)"

lemma vector_of_frame:
  "HandlerTable s' = HandlerTable s \<Longrightarrow> vector_of i s' = vector_of i s"
  by (simp add: vector_of_def)

text \<open>The state after the acknowledge register answered \<open>v\<close>.\<close>

definition acked :: "u32 \<Rightarrow> u32 list \<Rightarrow> 'a gic_scheme \<Rightarrow> 'a gic_scheme" where
  "acked v t s = s\<lparr>io_tape := t, io_log := io_log s @ [IoRead (CpuBaseAddress s + XSCUGIC_INT_ACK_OFFSET) v]\<rparr>"

lemma dispatch_vector:
  assumes "io_tape s = v # t" and "vector_of (unat (v AND 0x3FF)) s = Some (h, ref)"
    and "length (HandlerTable s) = XSCUGIC_MAX_NUM_INTR_INPUTS"
  shows "XScuGic_InterruptHandler run s =
    map_option (XScuGic_CPUWriteReg XSCUGIC_EOI_OFFSET v) (run h ref (acked v t s))"
  using assms
  by (cases "run h ref (acked v t s)")
    (auto simp: XScuGic_InterruptHandler_def reg_defs Let_def defined_simps vector_of_def acked_def
      split: if_splits)

lemma dispatch_spurious:
  assumes "io_tape s = v # t" and "XSCUGIC_MAX_NUM_INTR_INPUTS < unat (v AND 0x3FF)"
  shows "XScuGic_InterruptHandler run s = Some (XScuGic_CPUWriteReg XSCUGIC_EOI_OFFSET v (acked v t s))"
  using assms by (simp add: XScuGic_InterruptHandler_def reg_defs Let_def defined_simps acked_def)

lemma dispatch_edge:
  assumes "io_tape s = v # t" and "unat (v AND 0x3FF) = XSCUGIC_MAX_NUM_INTR_INPUTS"
    and "length (HandlerTable s) = XSCUGIC_MAX_NUM_INTR_INPUTS"
  shows "XScuGic_InterruptHandler run s = None"
  using assms by (simp add: XScuGic_InterruptHandler_def reg_defs Let_def defined_simps)

text \<open>The two dispatchers differ in the value they write to the end-of-interrupt
  register: the low level one drops the source CPU bits of the acknowledged value.\<close>

lemma device_dispatch:
  assumes "io_tape s = v # t" and "v AND 0x3FF = v"
  shows "XScuGic_DeviceInterruptHandler run 0 s = XScuGic_InterruptHandler run s"
  using assms by (simp add: XScuGic_DeviceInterruptHandler_def XScuGic_InterruptHandler_def reg_defs
      Let_def defined_simps)

section \<open>The vector table as an interface\<close>

text \<open>What the users of the controller rely on: a connected vector is found again, the
  other vectors are kept, and so is the invariant.\<close>

locale vector_table =
  fixes connect :: "nat \<Rightarrow> 'h \<Rightarrow> 's \<Rightarrow> 's option"
    and lookup :: "nat \<Rightarrow> 's \<Rightarrow> 'h option"
    and inv :: "'s \<Rightarrow> bool"
    and size :: nat
  assumes connect_ok: "inv s \<Longrightarrow> i < size \<Longrightarrow> \<exists>s'. connect i h s = Some s' \<and> inv s'"
    and connect_same: "inv s \<Longrightarrow> connect i h s = Some s' \<Longrightarrow> lookup i s' = Some h"
    and connect_other: "inv s \<Longrightarrow> connect i h s = Some s' \<Longrightarrow> j \<noteq> i \<Longrightarrow> lookup j s' = lookup j s"
begin

fun connect_all :: "(nat \<times> 'h) list \<Rightarrow> 's \<Rightarrow> 's option" where
  "connect_all [] s = Some s"
| "connect_all ((i, h) # r) s = (case connect i h s of None \<Rightarrow> None | Some s' \<Rightarrow> connect_all r s')"

lemma connect_all_ok:
  "inv s \<Longrightarrow> \<forall>(i, h) \<in> set r. i < size \<Longrightarrow> distinct (map fst r) \<Longrightarrow>
   \<exists>s'. connect_all r s = Some s' \<and> inv s' \<and>
     (\<forall>i. lookup i s' = (case map_of r i of Some h \<Rightarrow> Some h | None \<Rightarrow> lookup i s))"
proof (induction r arbitrary: s)
  case Nil
  then show ?case by simp
next
  case (Cons ih r)
  obtain i h where ih: "ih = (i, h)" by (cases ih)
  obtain s1 where s1: "connect i h s = Some s1" "inv s1"
    using connect_ok Cons.prems ih by fastforce
  obtain s' where s': "connect_all r s1 = Some s'" "inv s'"
    "\<forall>i. lookup i s' = (case map_of r i of Some h \<Rightarrow> Some h | None \<Rightarrow> lookup i s1)"
    using Cons.IH [OF s1(2)] Cons.prems by auto
  have "map_of r i = None" using Cons.prems ih by (simp add: map_of_eq_None_iff)
  with s' s1 ih connect_same [OF Cons.prems(1) s1(1)] connect_other [OF Cons.prems(1) s1(1)]
  show ?case by (auto split: option.splits)
qed

end

definition gic_connect :: "nat \<Rightarrow> isr \<times> cbref \<Rightarrow> 'a gic_scheme \<Rightarrow> 'a gic_scheme option" where
  "gic_connect i = (\<lambda>(h, ref) s. map_option snd (XScuGic_Connect i (Some h) ref s))"

lemma gic_connect_eq:
  "gic_inv s \<Longrightarrow> gic_ready s \<Longrightarrow> i < XSCUGIC_MAX_NUM_INTR_INPUTS \<Longrightarrow>
   gic_connect i (h, ref) s =
     Some (s\<lparr>HandlerTable := (HandlerTable s)[i := \<lparr>Handler = Some h, CallBackRef = ref\<rparr>]\<rparr>)"
  by (simp add: gic_connect_def XScuGic_Connect_def gic_inv_def defined_simps)

lemma gic_connect_None: "XSCUGIC_MAX_NUM_INTR_INPUTS \<le> i \<Longrightarrow> gic_connect i hr s = None"
  by (cases hr) (simp add: gic_connect_def XScuGic_Connect_def)

interpretation vt: vector_table gic_connect vector_of "\<lambda>s. gic_inv s \<and> gic_ready s" 95
proof unfold_locales
  fix s :: "'a gic_scheme" and i j s' and hr :: "isr \<times> cbref"
  assume inv: "gic_inv s \<and> gic_ready s"
  obtain h ref where hr: "hr = (h, ref)" by (cases hr)
  show "\<exists>s'. gic_connect i hr s = Some s' \<and> gic_inv s' \<and> gic_ready s'" if "i < 95"
    using inv that hr by (simp add: gic_connect_eq gic_inv_table)
  have len: "length (HandlerTable s) = 95" using inv by (simp add: gic_inv_def)
  assume c: "gic_connect i hr s = Some s'"
  then have i: "i < 95" using gic_connect_None [of i hr s] by (cases "i < 95") auto
  with c inv hr have s': "s' = s\<lparr>HandlerTable := (HandlerTable s)[i := \<lparr>Handler = Some h, CallBackRef = ref\<rparr>]\<rparr>"
    by (simp add: gic_connect_eq)
  show "vector_of i s' = Some hr" using s' i len hr by (simp add: vector_of_def)
  show "vector_of j s' = vector_of j s" if "j \<noteq> i" using s' that by (simp add: vector_of_def)
qed

section \<open>Properties of the controller driver\<close>

text \<open>The state before \<open>main\<close> runs, and one with the driver initialised; \<open>t\<close> is what the
  registers answer.\<close>

definition gic_reset :: "u32 list \<Rightarrow> gic" where
  "gic_reset t = \<lparr>mem = (\<lambda>_. 0), io_tape = t, io_log = [], tlb = (\<lambda>_. 0),
     XExc_VectorTable = exc_table_init, cpsr = 0xD3, CpuBaseAddress = 0xF8F00100, DistBaseAddress = 0xF8F01000,
     HandlerTable = replicate 95 \<lparr>Handler = None, CallBackRef = RefNull\<rparr>,
     gicConfig = False, gicIsReady = 0, UnhandledInterrupts = 0\<rparr>"

definition gic_up :: "u32 list \<Rightarrow> gic" where
  "gic_up t = (gic_reset t)\<lparr>HandlerTable := replicate 95 \<lparr>Handler = Some StubHandler, CallBackRef = RefGic\<rparr>,
     gicConfig := True, gicIsReady := XIL_COMPONENT_IS_READY\<rparr>"

lemma gic_up_ok: "gic_inv (gic_up t)" "gic_ready (gic_up t)" "io_tape (gic_up t) = t" "io_log (gic_up t) = []"
  by (simp_all add: gic_up_def gic_reset_def gic_inv_def gic_ready_def)

text \<open>C16: Initialisation makes the driver ready with a handler for every interrupt, keeps
  handlers that were registered before, and succeeds.\<close>

theorem initialise_establishes_invariant:
  assumes "length (HandlerTable s) = XSCUGIC_MAX_NUM_INTR_INPUTS" and "\<not> gic_ready s"
  shows "\<exists>s'. XScuGic_CfgInitialize amp (XScuGic_LookupConfig 0) s = Some (XST_SUCCESS, s') \<and>
    gic_inv s' \<and> gic_ready s' \<and>
    (\<forall>i < XSCUGIC_MAX_NUM_INTR_INPUTS. Handler (HandlerTable s' ! i) =
       (case Handler (HandlerTable s ! i) of None \<Rightarrow> Some StubHandler | Some h \<Rightarrow> Some h))"
proof -
  from CfgInitialize_ready [OF assms, of amp 0] obtain s' where
    "XScuGic_CfgInitialize amp (Some 0) s = Some (XST_SUCCESS, s')" "gic_inv s'" "gic_ready s'"
    "HandlerTable s' = map init_vector (HandlerTable s)" by blast
  with assms(1) show ?thesis
    by (auto simp: XScuGic_LookupConfig_def init_vector_def split: option.split)
qed

theorem initialise_establishes_invariant_witness:
  "\<exists>s'. XScuGic_CfgInitialize True (XScuGic_LookupConfig 0) (gic_reset []) = Some (XST_SUCCESS, s') \<and> gic_inv s'"
  using initialise_establishes_invariant [of "gic_reset []" True] by (auto simp: gic_reset_def gic_ready_def)

lemma spi_targets_fold:
  "snd (fold (\<lambda>i (c, s). (widen_cpu c, Xil_Out32 (DistBaseAddress s0 + SPI_TARGET_OFFSET_CALC i) (widen_cpu c) s)) js (c, s))
   = spi_targets c js s" if "DistBaseAddress s = DistBaseAddress s0"
  using that by (induction js arbitrary: c s) (simp_all add: reg_defs)

lemma write_all_base [simp]: "DistBaseAddress (write_all f g is s) = DistBaseAddress s"
  by (simp add: write_all_eq)

lemma spi_targets_base [simp]: "DistBaseAddress (spi_targets c js s) = DistBaseAddress s"
  by (induction js arbitrary: c s) (simp_all add: reg_defs)

lemma hw_DistInit_eq: "hw_DistInit amp (DistBaseAddress s) c s = DistInit amp c s"
  by (simp add: hw_DistInit_def DistInit_def Let_def reg_defs spi_targets_fold case_prod_beta)

text \<open>The low level interface programs the controller with exactly the register
  writes, in the same order, that the instance based initialisation performs.\<close>

theorem low_level_initialisation_agrees:
  "XScuGic_DeviceInitialize amp 0 s = Some (XST_SUCCESS, CPUInit (DistInit amp (XPAR_CPU_ID + 1) s))"
proof -
  have "CpuBaseAddress (DistInit amp (XPAR_CPU_ID + 1) s) = CpuBaseAddress s"
    using DistInit_only_io [of s amp "XPAR_CPU_ID + 1"] by (auto simp: only_io_def)
  then show ?thesis
    by (simp add: XScuGic_DeviceInitialize_def hw_DistInit_eq hw_CPUInit_def CPUInit_def reg_defs)
qed


lemma masks_u32: "(0xFF :: u32) = mask 8" "(3 :: u32) = mask 2"
  by (simp_all add: mask_eq_exp_minus_1)

lemma ucast_u8_u32 [simp]: "(ucast (ucast (b :: u8) :: u32) :: u8) = b"
  by (rule bit_word_eqI) (simp add: bit_simps)

lemma ucast_and_u32: "(ucast (b :: u8) :: u32) AND 0xFF = ucast b"
  unfolding masks_u32 by (rule bit_word_eqI) (auto simp: bit_simps dest: bit_imp_le_length)

lemma field_fits:
  "k < 4 \<Longrightarrow> drop_bit (k * 8) (push_bit (k * 8) (0xFF :: u32)) = 0xFF"
  "k < 16 \<Longrightarrow> drop_bit (k * 2) (push_bit (k * 2) (3 :: u32)) = 3"
  unfolding masks_u32 by (auto intro!: bit_word_eqI simp: bit_simps)

lemma trigger_fits:
  assumes "(t :: u8) \<le> 3"
  shows "(ucast t :: u32) AND 3 = ucast t"
proof -
  have "unat t < 4" using assms by (simp add: word_le_nat_alt)
  then have "take_bit 2 t = t" by (simp add: take_bit_eq_mod word_unat_eq_iff unat_mod)
  then have "\<not> bit t n" if "2 \<le> n" for n using that by (metis bit_take_bit_iff not_le)
  then show ?thesis unfolding masks_u32 by (intro bit_word_eqI) (auto simp: bit_simps not_le [symmetric])
qed

lemma priority_field:
  "k < 4 \<Longrightarrow> ucast (get_field (put_field r (k * 8) 0xFF (ucast (p :: u8))) (k * 8) 0xFF) = p"
  by (simp add: get_put_field ucast_and_u32 field_fits)

lemma trigger_field:
  "k < 16 \<Longrightarrow> (t :: u8) \<le> 3 \<Longrightarrow>
   ucast (get_field (put_field r (k * 2) 3 (ucast t)) (k * 2) 3) = t"
  by (simp add: get_put_field trigger_fits field_fits)

text \<open>C17: A handler connected to an interrupt is the one, with its callback reference,
  that the dispatcher calls when the controller acknowledges that interrupt, and the end of
  interrupt is then signalled with exactly the acknowledged value.\<close>

theorem connected_handler_dispatched:
  assumes "gic_inv s" and "XScuGic_Connect i (Some h) ref s = Some (r, s1)"
    and "io_tape s1 = v # t" and "unat (v AND 0x3FF) = i"
  shows "XScuGic_InterruptHandler run s1 =
    map_option (XScuGic_CPUWriteReg XSCUGIC_EOI_OFFSET v) (run h ref (acked v t s1))"
proof -
  have c: "gic_connect i (h, ref) s = Some s1" using assms(2) by (simp add: gic_connect_def)
  have "gic_ready s" using assms(2) by (simp add: XScuGic_Connect_def split: if_splits)
  with assms(1) c have "vector_of i s1 = Some (h, ref)" by (intro vt.connect_same) auto
  moreover have "length (HandlerTable s1) = XSCUGIC_MAX_NUM_INTR_INPUTS"
    using Connect_inv [OF assms(1,2)] by (simp add: gic_inv_def)
  ultimately show ?thesis using assms(3,4) by (intro dispatch_vector) auto
qed

text \<open>\<open>XScuGic_SetPriorityTriggerType\<close> and \<open>XScuGic_GetPriorityTriggerType\<close> agree:
  on registers that hold what was last written to them, the getter returns the priority that
  was set, rounded down to a multiple of 8, and the trigger type that was set.\<close>

theorem priority_trigger_roundtrip:
  assumes "XScuGic_SetPriorityTriggerType i p t s = Some s'"
    and "io_log s' = io_log s @ [IoRead a1 r1, IoWrite b1 w1, IoRead a2 r2, IoWrite b2 w2]"
    and "io_tape s' = w1 # w2 # rest"
  shows "\<exists>s''. XScuGic_GetPriorityTriggerType i s' = Some ((p AND 0xF8, t), s'')"
proof -
  from assms(1) have ok: "gic_ready s" "i < XSCUGIC_MAX_NUM_INTR_INPUTS" "t \<le> 3"
    by (simp_all add: XScuGic_SetPriorityTriggerType_def split: if_splits)
  from assms(1) ok obtain r1' r2' tl' where
    "io_tape s = r1' # r2' # tl'" and
    "w1 = put_field r1' (i mod 4 * 8) 0xFF (ucast (p AND 0xF8))" and
    "w2 = put_field r2' (i mod 16 * 2) 3 (ucast t)" and "gic_ready s'"
    using assms(2)
    by (auto simp: XScuGic_SetPriorityTriggerType_def reg_defs Let_def gic_ready_def
        split: if_splits bind_splits dest!: Xil_In32_SomeD)
  then show ?thesis
    using ok assms(3) priority_field [of "i mod 4" r1' "p AND 0xF8"] trigger_field [of "i mod 16" t r2']
    by (simp add: XScuGic_GetPriorityTriggerType_def reg_defs Let_def defined_simps gic_ready_def)
qed

theorem connected_handler_dispatched_witness:
  "\<exists>s1. XScuGic_Connect 9 (Some Isr_rxvring_irq) RefNull (gic_up [0x409]) = Some (XST_SUCCESS, s1) \<and>
    XScuGic_InterruptHandler (\<lambda>h ref s. Some (s\<lparr>UnhandledInterrupts := 7\<rparr>)) s1 =
      Some (XScuGic_CPUWriteReg XSCUGIC_EOI_OFFSET 0x409 ((acked 0x409 [] s1)\<lparr>UnhandledInterrupts := 7\<rparr>))"
proof -
  have c: "XScuGic_Connect 9 (Some Isr_rxvring_irq) RefNull (gic_up [0x409]) = Some (XST_SUCCESS,
      (gic_up [0x409])\<lparr>HandlerTable := (HandlerTable (gic_up [0x409]))[9 := \<lparr>Handler = Some Isr_rxvring_irq, CallBackRef = RefNull\<rparr>]\<rparr>)"
    using gic_up_ok [of "[0x409]"] by (simp add: XScuGic_Connect_def gic_inv_def defined_simps)
  show ?thesis
    using connected_handler_dispatched [OF gic_up_ok(1) c, where v = "0x409" and t = "[]"] c by (simp add: gic_up_ok)
qed

theorem priority_trigger_roundtrip_witness:
  "\<exists>s' s''. XScuGic_SetPriorityTriggerType 29 12 3 (gic_up [0xA0A0A0A0, 0, 0xA0A008A0, 0xC000000]) = Some s' \<and>
    XScuGic_GetPriorityTriggerType 29 s' = Some ((8, 3), s'')"
proof -
  let ?s = "gic_up [0xA0A0A0A0, 0, 0xA0A008A0, 0xC000000]"
  obtain s' where s': "XScuGic_SetPriorityTriggerType 29 12 3 ?s = Some s'"
    "io_log s' = io_log ?s @ [IoRead 0xF8F0141C 0xA0A0A0A0, IoWrite 0xF8F0141C 0xA0A008A0, IoRead 0xF8F01C04 0, IoWrite 0xF8F01C04 0xC000000]"
    "io_tape s' = 0xA0A008A0 # 0xC000000 # []"
    by (simp add: XScuGic_SetPriorityTriggerType_def gic_up_def gic_reset_def gic_ready_def reg_defs Xil_In32_def
        Xil_Out32_def Let_def put_field_def PRIORITY_OFFSET_CALC_def INT_CFG_OFFSET_CALC_def)
  from priority_trigger_roundtrip [OF s'] s'(1) show ?thesis by auto
qed

end
