(* ===== verification/Irq.thy ===== *)
theory Irq
  imports Gic
begin

text \<open>
  Interrupt context of the firmware (bm_fw/src/remoteproc.c and main.c): the service
  routines, the counters they share with the main loop, and the arrival of an
  interrupt through the controller's dispatcher.
\<close>

section \<open>Shared counters\<close>

abbreviation (input) "NOTIFY_LINUX_IRQ \<equiv> (8 :: u32)"
abbreviation (input) "TXVRING_IRQ \<equiv> (8 :: nat)"
abbreviation (input) "RXVRING_IRQ \<equiv> (9 :: nat)"
abbreviation (input) "XPAR_SCUTIMER_INTR \<equiv> (29 :: nat)"
abbreviation (input) "pLed \<equiv> (0x41210000 :: u32)"

record irq = gic +
  txvring_kicks :: u32
  rxvring_kicks :: u32
  sys_tick :: u32
  timer_led :: u32 \<comment> \<open>the static \<open>led\<close> of \<open>sys_timer_ISR\<close>\<close>

section \<open>Service routines\<close>

definition txvring_irq :: "'a irq_scheme \<Rightarrow> 'a irq_scheme" where
  "txvring_irq s = s\<lparr>txvring_kicks := txvring_kicks s + 1\<rparr>"

definition rxvring_irq :: "'a irq_scheme \<Rightarrow> 'a irq_scheme" where
  "rxvring_irq s = s\<lparr>rxvring_kicks := rxvring_kicks s + 1\<rparr>"

definition sys_timer_ISR :: "'a irq_scheme \<Rightarrow> 'a irq_scheme" where
  "sys_timer_ISR s =
     (let s1 = s\<lparr>sys_tick := sys_tick s + 1\<rparr>
      in if sys_tick s1 mod 1000 = 0
         then (Xil_Out32 pLed (timer_led s1) s1)\<lparr>timer_led := timer_led s1 + 1\<rparr>
         else s1)"

text \<open>The state of this theory has no serial port: the firmware's \<open>main\<close> does not connect its interrupt.\<close>

definition run_isr :: "isr \<Rightarrow> cbref \<Rightarrow> 'a irq_scheme \<Rightarrow> 'a irq_scheme option" where
  "run_isr h ref s = (case h of
     StubHandler \<Rightarrow> run_StubHandler ref s
   | Isr_txvring_irq \<Rightarrow> Some (txvring_irq s)
   | Isr_rxvring_irq \<Rightarrow> Some (rxvring_irq s)
   | Isr_sys_timer \<Rightarrow> Some (sys_timer_ISR s)
   | Isr_uart \<Rightarrow> None)"

text \<open>What the entries of the exception table do; the default handlers loop for ever.\<close>

definition run_exc :: "exc_handler \<Rightarrow> cbref \<Rightarrow> 'a irq_scheme \<Rightarrow> 'a irq_scheme option" where
  "run_exc h d s = (case h of
     Exc_XScuGic_InterruptHandler \<Rightarrow> if d = RefGic then XScuGic_InterruptHandler run_isr s else None
   | Xil_ExceptionNullHandler \<Rightarrow> None
   | Xil_DataAbortHandler \<Rightarrow> None
   | Xil_PrefetchAbortHandler \<Rightarrow> None)"

text \<open>An interrupt whose acknowledge register answers \<open>v\<close>. While interrupts are masked the
  processor does not take it.\<close>

definition take_irq :: "u32 \<Rightarrow> 'a irq_scheme \<Rightarrow> 'a irq_scheme option" where
  "take_irq v s = (if irqs_masked s then Some s
     else IRQInterrupt run_exc (s\<lparr>io_tape := v # io_tape s\<rparr>))"

section \<open>What an interrupt changes\<close>

text \<open>Everything beyond the counters, the log of register accesses and the count of
  unhandled interrupts is left alone.\<close>

definition irq_frame :: "'a irq_scheme \<Rightarrow> 'a irq_scheme \<Rightarrow> bool" where
  "irq_frame s s' \<longleftrightarrow> mem s' = mem s \<and> io_tape s' = io_tape s \<and> tlb s' = tlb s \<and> XExc_VectorTable s' = XExc_VectorTable s \<and> cpsr s' = cpsr s \<and>
     CpuBaseAddress s' = CpuBaseAddress s \<and> DistBaseAddress s' = DistBaseAddress s \<and>
     HandlerTable s' = HandlerTable s \<and> gicConfig s' = gicConfig s \<and> gicIsReady s' = gicIsReady s \<and>
     irq.more s' = irq.more s"

lemma irq_frame_refl [simp]: "irq_frame s s"
  by (simp add: irq_frame_def)

lemma irq_frame_trans: "irq_frame s s' \<Longrightarrow> irq_frame s' s'' \<Longrightarrow> irq_frame s s''"
  by (simp add: irq_frame_def)

lemma irq_frame_inv: "irq_frame s s' \<Longrightarrow> gic_inv s' = gic_inv s \<and> gic_ready s' = gic_ready s"
  by (simp add: irq_frame_def gic_inv_def gic_ready_def)

lemma run_isr_frame: "run_isr h ref s = Some s' \<Longrightarrow> irq_frame s s'"
  by (auto simp: irq_frame_def run_isr_def run_StubHandler_def txvring_irq_def rxvring_irq_def
      sys_timer_ISR_def Xil_Out32_def Let_def split: isr.splits cbref.splits if_splits)

lemma take_irq_frame: "take_irq v s = Some s' \<Longrightarrow> irq_frame s s'"
  by (auto simp: take_irq_def IRQInterrupt_def call_vector_def run_exc_def XScuGic_InterruptHandler_def reg_defs Let_def Xil_In32_def
      irq_frame_def Xil_Out32_def split: if_splits bind_splits exc_handler.splits dest!: run_isr_frame)

lemma take_irq_inv: "gic_inv s \<Longrightarrow> take_irq v s = Some s' \<Longrightarrow> gic_inv s'"
  using irq_frame_inv [OF take_irq_frame] by blast

text \<open>An interrupt of a connected vector runs its service routine and is then completed.\<close>

lemma take_irq_eq:
  assumes "irqs_routed s" and "gic_inv s" and "vector_of (unat (v AND 0x3FF)) s = Some (h, ref)"
  shows "take_irq v s = map_option (XScuGic_CPUWriteReg XSCUGIC_EOI_OFFSET v)
    (run_isr h ref (acked v (io_tape s) s))"
proof -
  have "vector_of (unat (v AND 0x3FF)) (s\<lparr>io_tape := v # io_tape s\<rparr>) = Some (h, ref)"
    using assms(3) vector_of_frame [of "s\<lparr>io_tape := v # io_tape s\<rparr>" s] by simp
  then show ?thesis
    using assms(1,2) dispatch_vector [of "s\<lparr>io_tape := v # io_tape s\<rparr>" v "io_tape s" h ref run_isr]
    by (simp add: take_irq_def irqs_routed_def IRQInterrupt_def call_vector_def run_exc_def defined_simps
        gic_inv_def acked_def)
qed

lemma take_irq_tx:
  assumes "irqs_routed s" and "gic_inv s" and "vector_of TXVRING_IRQ s = Some (Isr_txvring_irq, ref)"
    and "unat (v AND 0x3FF) = TXVRING_IRQ"
  shows "\<exists>s'. take_irq v s = Some s' \<and> txvring_kicks s' = txvring_kicks s + 1 \<and>
    rxvring_kicks s' = rxvring_kicks s \<and> irq_frame s s'"
  using assms take_irq_eq [of s v Isr_txvring_irq ref]
  by (auto simp: run_isr_def txvring_irq_def acked_def reg_defs Xil_Out32_def irq_frame_def)

lemma take_irq_rx:
  assumes "irqs_routed s" and "gic_inv s" and "vector_of RXVRING_IRQ s = Some (Isr_rxvring_irq, ref)"
    and "unat (v AND 0x3FF) = RXVRING_IRQ"
  shows "\<exists>s'. take_irq v s = Some s' \<and> rxvring_kicks s' = rxvring_kicks s + 1 \<and>
    txvring_kicks s' = txvring_kicks s \<and> irq_frame s s'"
  using assms take_irq_eq [of s v Isr_rxvring_irq ref]
  by (auto simp: run_isr_def rxvring_irq_def acked_def reg_defs Xil_Out32_def irq_frame_def)

end
