(* ===== verification/VirtioRing.thy ===== *)
theory VirtioRing
  imports Prelude
begin

text \<open>
  The vring of bm_fw/src/virtio_ring.{h,c}. The memory shared with the kernel is the
  record \<open>vmem\<close> (descriptors, available ring, used ring, field by field as the
  packed structs of the header); \<open>vring\<close> is the private structure with the addresses
  \<open>vring_init\<close> computes, the tail index and the notify function. The ring indices are
  free running 16-bit counters.
\<close>

section \<open>Structures\<close>

abbreviation (input) "VRING_SIZE \<equiv> (256 :: nat)"
abbreviation (input) "VRING_DESC_F_NEXT \<equiv> (1 :: u16)"
abbreviation (input) "VRING_AVAIL_F_NO_INTERRUPT \<equiv> (1 :: nat)"

record vring_desc =
  desc_addr :: u32
  addr_hi :: u32
  desc_len :: u32
  desc_flags :: u16
  desc_next :: u16

record vring_used_elem =
  elem_id :: u32
  elem_len :: u32

record vring_avail =
  avail_flags :: u16
  avail_idx :: u16
  avail_ring :: "u16 list"
  used_event_idx :: u16

record vring_used =
  used_flags :: u16
  used_idx :: u16
  used_ring :: "vring_used_elem list"

record vmem =
  desc :: "vring_desc list"
  avail :: vring_avail
  used :: vring_used

datatype notify_fn = kick_linux_fn

record vring =
  desc_p :: u32
  avail_p :: u32
  used_p :: u32
  avail_tail :: u16
  dbg_print :: u16
  notify :: "notify_fn option"
  vring_len :: u32

text \<open>\<open>sizeof\<close> of the packed structures.\<close>

abbreviation (input) "sizeof_vring_desc \<equiv> (16 :: u32)"
abbreviation (input) "sizeof_vring_avail \<equiv> (518 :: u32)"
abbreviation (input) "sizeof_vring_used \<equiv> (2052 :: u32)"

section \<open>Operations\<close>

text \<open>The rounding of \<open>vring_init\<close> to the next 4 kB boundary.\<close>

definition page_align :: "u32 \<Rightarrow> u32" where
  "page_align a = (if a AND 0xFFF \<noteq> 0 then push_bit 12 (drop_bit 12 a + 1) else a)"

definition vring_init :: "u32 \<Rightarrow> notify_fn option \<Rightarrow> vmem \<Rightarrow> vring \<times> vmem" where
  "vring_init addr ntf m =
     (let d = addr;
          a = addr + 256 * sizeof_vring_desc;
          u = page_align (a + sizeof_vring_avail)
      in (\<lparr>desc_p = d, avail_p = a, used_p = u, avail_tail = 0, dbg_print = 0, notify = ntf,
           vring_len = u + sizeof_vring_used - d\<rparr>,
          m\<lparr>used := (used m)\<lparr>used_flags := 0\<rparr>\<rparr>))"

text \<open>The descriptor index, or \<open>-1\<close> as an \<open>int32_t\<close>.\<close>

definition vring_get_buf :: "vring \<times> vmem \<Rightarrow> (s32 \<times> vring \<times> vmem) option" where
  "vring_get_buf = (\<lambda>(vr, m).
     let krnl_avail_idx = avail_idx (avail m) in
     if krnl_avail_idx = avail_tail vr then Some (-1, vr, m)
     else do {
       let a_index = unat (avail_tail vr) mod VRING_SIZE;
       available_desc_ind \<leftarrow> aget (avail_ring (avail m)) a_index;
       Some (ucast available_desc_ind, vr\<lparr>avail_tail := avail_tail vr + 1\<rparr>, m)
     })"

text \<open>\<open>vring_publish_buf\<close>: the returned flag says whether \<open>vr->notify()\<close> is called,
  which is the last thing the function does.\<close>

definition vring_publish_buf ::
    "u16 \<Rightarrow> u32 \<Rightarrow> bool \<Rightarrow> vring \<times> vmem \<Rightarrow> (bool \<times> vring \<times> vmem) option" where
  "vring_publish_buf idx len kick = (\<lambda>(vr, m).
     let u = unat (used_idx (used m)) mod VRING_SIZE in
     if unat idx > VRING_SIZE then Some (False, vr, m)
     else do {
       d \<leftarrow> aget (desc m) (unat idx);
       ds \<leftarrow> aset (desc m) (unat idx)
               (d\<lparr>desc_flags := desc_flags d AND NOT VRING_DESC_F_NEXT, desc_next := 0\<rparr>);
       us \<leftarrow> aset (used_ring (used m)) u \<lparr>elem_id = ucast idx, elem_len = len\<rparr>;
       let m' = m\<lparr>desc := ds, used := (used m)\<lparr>used_ring := us, used_idx := used_idx (used m) + 1\<rparr>\<rparr>;
       if kick \<and> notify vr \<noteq> None then
         (if avail_flags (avail m') AND push_bit VRING_AVAIL_F_NO_INTERRUPT 1 \<noteq> 0
          then Some (False, vr, m')
          else Some (True, vr, m'))
       else Some (False, vr, m')
     })"

definition vring_available :: "vring \<times> vmem \<Rightarrow> bool" where
  "vring_available = (\<lambda>(vr, m). avail_idx (avail m) \<noteq> avail_tail vr)"

lemma and_page_mask: "unat (a AND 0xFFF :: u32) = unat a mod 4096"
proof -
  have "a AND 0xFFF = take_bit 12 a" by (simp add: take_bit_eq_mask mask_eq_exp_minus_1)
  then show ?thesis by (simp add: take_bit_eq_mod unat_mod)
qed

lemma unat_page_align:
  assumes "unat a + 4096 < 4294967296"
  shows "unat (page_align a) = (unat a + 4095) div 4096 * 4096"
proof (cases "a AND 0xFFF = 0")
  case True
  then have "unat a mod 4096 = 0" using and_page_mask [of a] by simp
  then show ?thesis using True by (auto simp: page_align_def)
next
  case False
  then have nz: "unat a mod 4096 \<noteq> 0" using and_page_mask [of a] by (metis unat_eq_0)
  have d: "unat (drop_bit 12 a) = unat a div 4096"
    by (simp add: drop_bit_eq_div unat_div)
  define w where "w = drop_bit 12 a + 1"
  have w: "unat w = unat a div 4096 + 1"
    using assms d by (simp add: unat_word_ariths w_def)
  have "unat w * 4096 < 4294967296" using assms w by auto
  then have "unat (push_bit 12 w) = unat w * 4096"
    using unat_mult_lem [of w 4096] by (simp add: push_bit_eq_mult mult.commute [of w])
  then have "unat (push_bit 12 (drop_bit 12 a + 1)) = (unat a div 4096 + 1) * 4096"
    using w unfolding w_def by (simp only:)
  moreover have "unat a div 4096 + 1 = (unat a + 4095) div 4096"
  proof -
    define q r where "q = unat a div 4096" and "r = unat a mod 4096"
    then have qr: "unat a = 4096 * q + r" "0 < r" "r < 4096" using nz by simp_all
    then have "(unat a + 4095) div 4096 = q + 1" by (intro div_nat_eqI) simp_all
    then show ?thesis by (simp add: q_def)
  qed
  ultimately show ?thesis using False by (simp add: page_align_def)
qed

text \<open>The three areas \<open>vring_init\<close> lays out follow one another without overlap, the
  used ring starts on a page, and the length covers all of them.\<close>

lemma vring_init_areas:
  assumes "unat addr + 16384 < 4294967296"
  shows "case vring_init addr ntf m of (vr, m') \<Rightarrow>
    unat (desc_p vr) = unat addr \<and> unat (avail_p vr) = unat addr + 4096 \<and>
    unat (avail_p vr) + 518 \<le> unat (used_p vr) \<and> unat (used_p vr) mod 4096 = 0 \<and>
    unat (used_p vr) + 2052 = unat addr + unat (vring_len vr) \<and>
    unat (vring_len vr) < 10762 \<and> avail_tail vr = 0 \<and> notify vr = ntf \<and>
    m' = m\<lparr>used := (used m)\<lparr>used_flags := 0\<rparr>\<rparr>"
proof -
  have a: "unat (addr + 4096) = unat addr + 4096" "unat (addr + 4614) = unat addr + 4614"
    using assms by (simp_all add: unat_word_ariths)
  define u where "u = page_align (addr + 4614)"
  have u: "unat u = (unat addr + 4614 + 4095) div 4096 * 4096"
    using unat_page_align [of "addr + 4614"] a assms by (simp add: u_def)
  then have b: "unat addr + 4614 \<le> unat u" "unat u < unat addr + 4614 + 4096" by auto
  have "unat (u + 2052 - addr) = unat u + 2052 - unat addr"
  proof -
    have "unat (u + 2052) = unat u + 2052" using b assms by (simp add: unat_word_ariths)
    moreover then have "addr \<le> u + 2052" using b by (simp add: word_le_nat_alt)
    ultimately show ?thesis by (simp add: unat_sub)
  qed
  moreover have "vring_init addr ntf m =
    (\<lparr>desc_p = addr, avail_p = addr + 4096, used_p = u, avail_tail = 0, dbg_print = 0, notify = ntf,
      vring_len = u + 2052 - addr\<rparr>, m\<lparr>used := (used m)\<lparr>used_flags := 0\<rparr>\<rparr>)"
    by (simp add: vring_init_def Let_def u_def add.commute)
  moreover have "unat u mod 4096 = 0" using u by simp
  ultimately show ?thesis using a(1) b assms by simp
qed

section \<open>Slices of a ring\<close>

text \<open>\<open>n\<close> consecutive elements of a ring of \<^const>\<open>length\<close> 256, from position \<open>t\<close> on.\<close>

definition ring_slice :: "'a list \<Rightarrow> nat \<Rightarrow> nat \<Rightarrow> 'a list" where
  "ring_slice xs t n = map (\<lambda>k. xs ! ((t + k) mod VRING_SIZE)) [0..<n]"

lemma length_ring_slice [simp]: "length (ring_slice xs t n) = n"
  by (simp add: ring_slice_def)

lemma ring_slice_0 [simp]: "ring_slice xs t 0 = []"
  by (simp add: ring_slice_def)

lemma ring_slice_start_mod: "t mod VRING_SIZE = u mod VRING_SIZE \<Longrightarrow> ring_slice xs t n = ring_slice xs u n"
  by (simp add: ring_slice_def) (metis mod_add_left_eq)

lemma ring_slice_Cons: "ring_slice xs t (Suc n) = xs ! (t mod VRING_SIZE) # ring_slice xs (Suc t) n"
proof -
  have "[0..<Suc n] = 0 # map Suc [0..<n]"
    by (simp add: upt_conv_Cons map_Suc_upt del: upt_Suc)
  then show ?thesis by (simp add: ring_slice_def del: upt_Suc)
qed

lemma ring_pos_distinct:
  assumes "k < n" and "n < VRING_SIZE"
  shows "(t + k) mod VRING_SIZE \<noteq> (t + n) mod VRING_SIZE"
proof
  assume "(t + k) mod VRING_SIZE = (t + n) mod VRING_SIZE"
  then have "VRING_SIZE dvd (t + n) - (t + k)"
    using assms by (metis mod_eq_dvd_iff_nat nat_add_left_cancel_le less_imp_le)
  then have "VRING_SIZE dvd n - k" by simp
  moreover have "0 < n - k" and "n - k < VRING_SIZE" using assms by auto
  ultimately show False using nat_dvd_not_less by blast
qed

text \<open>Storing behind a slice that does not fill the ring appends to it.\<close>

lemma ring_slice_snoc:
  assumes "length xs = VRING_SIZE" and "n < VRING_SIZE"
  shows "ring_slice (xs[(t + n) mod VRING_SIZE := x]) t (Suc n) = ring_slice xs t n @ [x]"
proof -
  have "xs[(t + n) mod VRING_SIZE := x] ! ((t + k) mod VRING_SIZE) = xs ! ((t + k) mod VRING_SIZE)"
    if "k < n" for k
    using ring_pos_distinct [OF that assms(2), of t] by (metis nth_list_update_neq)
  then show ?thesis using assms(1) by (simp add: ring_slice_def)
qed

section \<open>Free running indices\<close>

lemma unat_add_of_nat_mod:
  "unat ((i :: u16) + of_nat k) mod VRING_SIZE = (unat i + k) mod VRING_SIZE"
proof -
  have "unat (i + of_nat k) = (unat i + k) mod 65536"
    by (simp add: unat_word_ariths unat_of_nat mod_add_right_eq)
  moreover have "(x mod 65536) mod 256 = x mod 256" for x :: nat
    by (rule mod_mod_cancel) simp
  ultimately show ?thesis by simp
qed

text \<open>The position an index names is its distance from an earlier index, whatever
  the number of times the 16-bit counters wrapped.\<close>

lemma index_distance:
  "unat (i :: u16) mod VRING_SIZE = (unat t + unat (i - t)) mod VRING_SIZE"
  using unat_add_of_nat_mod [of t "unat (i - t)"] by simp

lemma unat_succ_diff:
  assumes "(i :: u16) \<noteq> t"
  shows "unat (i - t) = Suc (unat (i - (t + 1)))"
proof -
  have "i - t \<noteq> 0" using assms by simp
  then have "1 \<le> i - t" by (metis word_less_1 not_le)
  then have "unat (i - t - 1) = unat (i - t) - unat (1 :: u16)" by (rule unat_sub)
  moreover have "unat (i - t) \<noteq> 0" using \<open>i - t \<noteq> 0\<close> by (simp add: unat_eq_0)
  ultimately show ?thesis by (simp add: diff_diff_eq)
qed

lemma unat_diff_succ:
  assumes "unat ((i :: u16) - t) < 65535"
  shows "unat (i + 1 - t) = Suc (unat (i - t))"
proof -
  have "unat ((i - t) + 1) = unat (i - t) + 1"
    using assms by (simp add: unat_word_ariths)
  then show ?thesis by (simp add: algebra_simps)
qed

section \<open>What the rings hold\<close>

text \<open>The abstract state of a vring: the descriptor indices the kernel has made
  available and the firmware has not taken yet, oldest first, and the buffers handed
  back since the used index had the value \<open>u0\<close>.\<close>

definition in_flight :: "vring \<times> vmem \<Rightarrow> nat" where
  "in_flight = (\<lambda>(vr, m). unat (avail_idx (avail m) - avail_tail vr))"

definition pending_bufs :: "vring \<times> vmem \<Rightarrow> u16 list" where
  "pending_bufs v = (case v of (vr, m) \<Rightarrow>
     ring_slice (avail_ring (avail m)) (unat (avail_tail vr)) (in_flight (vr, m)))"

definition used_count :: "u16 \<Rightarrow> vring \<times> vmem \<Rightarrow> nat" where
  "used_count u0 = (\<lambda>(vr, m). unat (used_idx (used m) - u0))"

definition used_since :: "u16 \<Rightarrow> vring \<times> vmem \<Rightarrow> vring_used_elem list" where
  "used_since u0 v = (case v of (vr, m) \<Rightarrow>
     ring_slice (used_ring (used m)) (unat u0) (used_count u0 (vr, m)))"

definition vring_wf :: "vring \<times> vmem \<Rightarrow> bool" where
  "vring_wf = (\<lambda>(vr, m). length (desc m) = VRING_SIZE \<and> length (avail_ring (avail m)) = VRING_SIZE \<and>
     length (used_ring (used m)) = VRING_SIZE \<and> in_flight (vr, m) \<le> VRING_SIZE)"

text \<open>The kernel's side of the available ring: it stores a descriptor index at the
  position its own index names and advances the index.\<close>

definition kernel_offer :: "u16 \<Rightarrow> vring \<times> vmem \<Rightarrow> vring \<times> vmem" where
  "kernel_offer d = (\<lambda>(vr, m).
     let a = avail m in
     (vr, m\<lparr>avail := a\<lparr>avail_ring := (avail_ring a)[unat (avail_idx a) mod VRING_SIZE := d],
                      avail_idx := avail_idx a + 1\<rparr>\<rparr>))"

lemma length_pending [simp]: "length (pending_bufs v) = in_flight v"
  by (cases v) (simp add: pending_bufs_def)

lemma length_used_since [simp]: "length (used_since u0 v) = used_count u0 v"
  by (cases v) (simp add: used_since_def)

lemma used_frame:
  "used (snd v') = used (snd v) \<Longrightarrow> used_count u0 v' = used_count u0 v \<and> used_since u0 v' = used_since u0 v"
  by (cases v; cases v') (simp add: used_count_def used_since_def)

lemma used_since_start: "used_idx (used (snd v)) = u0 \<Longrightarrow> used_since u0 v = []"
  by (cases v) (simp add: used_since_def used_count_def)

lemma pending_frame:
  "avail (snd v') = avail (snd v) \<Longrightarrow> avail_tail (fst v') = avail_tail (fst v) \<Longrightarrow>
   pending_bufs v' = pending_bufs v \<and> in_flight v' = in_flight v"
  by (cases v; cases v') (simp add: pending_bufs_def in_flight_def)

lemma pending_Nil_iff: "pending_bufs (vr, m) = [] \<longleftrightarrow> avail_idx (avail m) = avail_tail vr"
proof -
  have "pending_bufs (vr, m) = [] \<longleftrightarrow> in_flight (vr, m) = 0"
    using length_pending [of "(vr, m)"] by (metis length_0_conv)
  then show ?thesis by (simp add: in_flight_def unat_eq_0)
qed

lemma vring_available_iff: "vring_available v \<longleftrightarrow> pending_bufs v \<noteq> []"
  by (cases v) (simp add: vring_available_def pending_Nil_iff)

section \<open>The available ring as a queue\<close>

lemma vring_get_buf_empty:
  "pending_bufs v = [] \<Longrightarrow> vring_get_buf v = Some (-1, v)"
  by (cases v) (simp add: vring_get_buf_def pending_Nil_iff)

lemma vring_get_buf_Cons:
  assumes wf: "vring_wf (vr, m)" and p: "pending_bufs (vr, m) = d # ds"
  shows "vring_get_buf (vr, m) = Some (ucast d, vr\<lparr>avail_tail := avail_tail vr + 1\<rparr>, m)"
    and "pending_bufs (vr\<lparr>avail_tail := avail_tail vr + 1\<rparr>, m) = ds"
    and "vring_wf (vr\<lparr>avail_tail := avail_tail vr + 1\<rparr>, m)"
proof -
  let ?v' = "(vr\<lparr>avail_tail := avail_tail vr + 1\<rparr>, m)"
  have ne: "avail_idx (avail m) \<noteq> avail_tail vr"
    using p pending_Nil_iff [of vr m] by auto
  have n: "in_flight (vr, m) = Suc (in_flight ?v')"
    using unat_succ_diff [OF ne] by (simp add: in_flight_def)
  have "unat (avail_tail vr + 1) mod VRING_SIZE = Suc (unat (avail_tail vr)) mod VRING_SIZE"
    using unat_add_of_nat_mod [of "avail_tail vr" 1] by simp
  then have "pending_bufs (vr, m) = avail_ring (avail m) ! (unat (avail_tail vr) mod VRING_SIZE) # pending_bufs ?v'"
    using n by (simp add: pending_bufs_def ring_slice_Cons ring_slice_start_mod [of "unat (avail_tail vr + 1)"])
  with p have hd: "avail_ring (avail m) ! (unat (avail_tail vr) mod VRING_SIZE) = d"
    and tl: "pending_bufs ?v' = ds" by simp_all
  show "vring_get_buf (vr, m) = Some (ucast d, ?v')"
    using wf ne hd by (simp add: vring_get_buf_def vring_wf_def aget_def)
  show "pending_bufs ?v' = ds" by (rule tl)
  show "vring_wf ?v'" using wf n by (simp add: vring_wf_def)
qed

lemma kernel_offer_pending:
  assumes wf: "vring_wf v" and room: "in_flight v < VRING_SIZE"
  shows "pending_bufs (kernel_offer d v) = pending_bufs v @ [d]" and "vring_wf (kernel_offer d v)"
proof -
  obtain vr m where v: "v = (vr, m)" by (cases v)
  have n: "in_flight (kernel_offer d v) = Suc (in_flight v)"
    using room unat_diff_succ [of "avail_idx (avail m)" "avail_tail vr"] v
    by (simp add: in_flight_def kernel_offer_def Let_def)
  show "pending_bufs (kernel_offer d v) = pending_bufs v @ [d]"
    using n wf room v index_distance [of "avail_idx (avail m)" "avail_tail vr"]
    by (simp add: pending_bufs_def kernel_offer_def Let_def vring_wf_def ring_slice_snoc in_flight_def)
  show "vring_wf (kernel_offer d v)"
    using wf room n v by (simp add: vring_wf_def kernel_offer_def Let_def)
qed

section \<open>Handing buffers back\<close>

text \<open>Whether the kernel is to be notified. The code tests the bit whose number is the
  value of the flag \<open>VRING_AVAIL_F_NO_INTERRUPT\<close>.\<close>

definition notifies :: "bool \<Rightarrow> vring \<times> vmem \<Rightarrow> bool" where
  "notifies kick = (\<lambda>(vr, m). kick \<and> notify vr \<noteq> None \<and> avail_flags (avail m) AND 2 = 0)"

lemma vring_publish_buf_Some:
  assumes wf: "vring_wf (vr, m)" and idx: "unat idx < VRING_SIZE"
    and room: "used_count u0 (vr, m) < VRING_SIZE"
  shows "\<exists>m'. vring_publish_buf idx len kick (vr, m) = Some (notifies kick (vr, m), vr, m') \<and>
    used_since u0 (vr, m') = used_since u0 (vr, m) @ [\<lparr>elem_id = ucast idx, elem_len = len\<rparr>] \<and>
    avail m' = avail m \<and> map desc_addr (desc m') = map desc_addr (desc m) \<and>
    pending_bufs (vr, m') = pending_bufs (vr, m) \<and> vring_wf (vr, m')"
proof -
  let ?d = "desc m ! unat idx" and ?u = "used m"
  let ?us = "(used_ring ?u)[unat (used_idx ?u) mod VRING_SIZE := \<lparr>elem_id = ucast idx, elem_len = len\<rparr>]"
  let ?m' = "m\<lparr>desc := (desc m)[unat idx := ?d\<lparr>desc_flags := desc_flags ?d AND NOT VRING_DESC_F_NEXT, desc_next := 0\<rparr>],
               used := ?u\<lparr>used_ring := ?us, used_idx := used_idx ?u + 1\<rparr>\<rparr>"
  have "vring_publish_buf idx len kick (vr, m) = Some (notifies kick (vr, m), vr, ?m')"
    using wf idx by (auto simp: vring_publish_buf_def vring_wf_def aget_def aset_def Let_def notifies_def)
  moreover have "used_since u0 (vr, ?m') = used_since u0 (vr, m) @ [\<lparr>elem_id = ucast idx, elem_len = len\<rparr>]"
    using wf room unat_diff_succ [of "used_idx ?u" u0] index_distance [of "used_idx ?u" u0]
    by (simp add: used_since_def used_count_def vring_wf_def ring_slice_snoc)
  moreover have "map desc_addr (desc ?m') = map desc_addr (desc m)"
    using idx wf by (intro nth_equalityI) (auto simp: nth_list_update vring_wf_def)
  moreover have "pending_bufs (vr, ?m') = pending_bufs (vr, m)"
    by (simp add: pending_bufs_def in_flight_def)
  moreover have "vring_wf (vr, ?m')"
    using wf by (simp add: vring_wf_def in_flight_def)
  ultimately show ?thesis by fastforce
qed

text \<open>An index beyond the ring is refused, except \<open>VRING_SIZE\<close> itself, which the
  guard lets through to an access outside the descriptor array.\<close>

lemma vring_publish_buf_refused:
  "VRING_SIZE < unat idx \<Longrightarrow> vring_publish_buf idx len kick (vr, m) = Some (False, vr, m)"
  by (simp add: vring_publish_buf_def Let_def)

lemma vring_publish_buf_edge:
  "vring_wf (vr, m) \<Longrightarrow> unat idx = VRING_SIZE \<Longrightarrow> vring_publish_buf idx len kick (vr, m) = None"
  by (simp add: vring_publish_buf_def Let_def vring_wf_def aget_out)

section \<open>The queue interface\<close>

text \<open>What the message layer relies on: \<open>get\<close> takes the oldest available buffer and
  answers a negative index exactly when there is none, \<open>nonempty\<close> tells the two
  cases apart.\<close>

locale buf_queue =
  fixes get :: "'v \<Rightarrow> (s32 \<times> 'v) option"
    and nonempty :: "'v \<Rightarrow> bool"
    and pending :: "'v \<Rightarrow> u16 list"
    and inv :: "'v \<Rightarrow> bool"
  assumes nonempty_iff: "inv v \<Longrightarrow> nonempty v \<longleftrightarrow> pending v \<noteq> []"
    and get_empty: "inv v \<Longrightarrow> pending v = [] \<Longrightarrow> get v = Some (-1, v)"
    and get_Cons: "inv v \<Longrightarrow> pending v = d # ds \<Longrightarrow>
      \<exists>v'. get v = Some (ucast d, v') \<and> pending v' = ds \<and> inv v'"
begin

lemma get_returns:
  assumes "inv v"
  shows "\<exists>r v'. get v = Some (r, v') \<and> inv v' \<and> pending v' = tl (pending v)"
proof (cases "pending v")
  case Nil
  with assms get_empty show ?thesis by simp
next
  case (Cons d ds)
  with get_Cons [OF assms Cons] show ?thesis by auto
qed

lemma index_nonneg: "\<not> (ucast (d :: u16) :: s32) <s 0"
proof -
  have "uint d < 65536" using uint_lt2p [of d] by simp
  then have "sint (ucast d :: s32) = uint d"
    using signed_take_bit_int_eq_self [of 31 "uint d"] uint_ge_0 [of d]
    by (simp add: sint_uint uint_up_ucast is_up del: uint_ge_0)
  then show ?thesis by (simp add: sless_sint)
qed

lemma get_negative_iff:
  assumes "inv v" and "get v = Some (r, v')"
  shows "r <s 0 \<longleftrightarrow> pending v = []"
proof (cases "pending v")
  case Nil
  with assms get_empty have "r = -1" by auto
  with Nil show ?thesis by (simp add: sless_sint)
next
  case (Cons d ds)
  with assms get_Cons [OF assms(1) Cons] have "r = ucast d" by auto
  with Cons index_nonneg show ?thesis by simp
qed

text \<open>The buffers come out in the order they were offered.\<close>

fun take_all :: "nat \<Rightarrow> 'v \<Rightarrow> (s32 list \<times> 'v) option" where
  "take_all 0 v = Some ([], v)"
| "take_all (Suc n) v = (case get v of None \<Rightarrow> None | Some (r, v') \<Rightarrow>
     map_option (apfst (Cons r)) (take_all n v'))"

lemma take_all_pending:
  "inv v \<Longrightarrow> \<exists>v'. take_all (length (pending v)) v = Some (map ucast (pending v), v') \<and>
     pending v' = [] \<and> inv v'"
proof (induction "pending v" arbitrary: v)
  case Nil
  then show ?case by simp
next
  case (Cons d ds)
  from get_Cons [OF Cons.prems Cons.hyps(2) [symmetric]] obtain v1
    where v1: "get v = Some (ucast d, v1)" "pending v1 = ds" "inv v1" by blast
  from Cons.hyps(1) [OF v1(2) [symmetric] v1(3)] v1 Cons.hyps(2) [symmetric]
  show ?case by fastforce
qed

end

interpretation vq: buf_queue vring_get_buf vring_available pending_bufs vring_wf
proof unfold_locales
  fix v :: "vring \<times> vmem" and d ds
  show "vring_available v \<longleftrightarrow> pending_bufs v \<noteq> []" by (rule vring_available_iff)
  show "pending_bufs v = [] \<Longrightarrow> vring_get_buf v = Some (-1, v)" by (rule vring_get_buf_empty)
  assume "vring_wf v" and "pending_bufs v = d # ds"
  then show "\<exists>v'. vring_get_buf v = Some (ucast d, v') \<and> pending_bufs v' = ds \<and> vring_wf v'"
    by (cases v) (auto dest: vring_get_buf_Cons)
qed

section \<open>Properties of the ring\<close>

text \<open>Cleared ring memory, and a ring with the given descriptors on offer.\<close>

definition zero_desc :: vring_desc where
  "zero_desc = \<lparr>desc_addr = 0, addr_hi = 0, desc_len = 0, desc_flags = 0, desc_next = 0\<rparr>"

definition vmem_zero :: vmem where
  "vmem_zero = \<lparr>desc = replicate 256 zero_desc,
     avail = \<lparr>avail_flags = 0, avail_idx = 0, avail_ring = replicate 256 0, used_event_idx = 0\<rparr>,
     used = \<lparr>used_flags = 0, used_idx = 0, used_ring = replicate 256 \<lparr>elem_id = 0, elem_len = 0\<rparr>\<rparr>\<rparr>"

definition demo_ring :: "u16 list \<Rightarrow> vring \<times> vmem" where
  "demo_ring ds = fold kernel_offer ds (vring_init 0x1000 (Some kick_linux_fn) vmem_zero)"

lemma vring_zero: "vring_wf (vring_init a f vmem_zero)" "pending_bufs (vring_init a f vmem_zero) = []"
  by (simp_all add: vring_init_def vmem_zero_def vring_wf_def in_flight_def pending_bufs_def Let_def)

lemma demo_ring_ok:
  "length ds \<le> VRING_SIZE \<Longrightarrow> vring_wf (demo_ring ds) \<and> pending_bufs (demo_ring ds) = ds"
proof (induction ds rule: rev_induct)
  case Nil
  show ?case by (simp add: demo_ring_def vring_zero)
next
  case (snoc d ds)
  then have "vring_wf (demo_ring ds)" "pending_bufs (demo_ring ds) = ds" "in_flight (demo_ring ds) < VRING_SIZE"
    using length_pending [of "demo_ring ds"] by simp_all
  with kernel_offer_pending [of "demo_ring ds" d] show ?case by (simp add: demo_ring_def)
qed

text \<open>C18: The buffers the kernel makes available are taken in the order it offered them,
  each exactly once, whatever values the free running 16-bit indices have.\<close>

theorem buffers_taken_in_order:
  assumes "vring_wf v" and "pending_bufs v = d # ds"
  shows "\<exists>v'. vring_get_buf v = Some (ucast d, v') \<and> pending_bufs v' = ds \<and> vring_wf v'"
  using assms by (rule vq.get_Cons)

theorem buffers_taken_in_order_witness:
  "\<exists>v'. vring_get_buf (demo_ring [7, 3]) = Some (7, v') \<and> pending_bufs v' = [3] \<and> vring_wf v'"
  using buffers_taken_in_order [of "demo_ring [7, 3]" 7 "[3]"] demo_ring_ok [of "[7, 3]"] by simp

text \<open>\<open>vring_get_buf\<close> returns in every well-formed state, and its result is negative
  exactly when the kernel has nothing on offer, in which case the ring is unchanged.\<close>

theorem get_buf_negative_iff_empty:
  assumes "vring_wf v"
  shows "\<exists>r v'. vring_get_buf v = Some (r, v') \<and> vring_wf v' \<and> (r <s 0 \<longleftrightarrow> pending_bufs v = []) \<and>
    (pending_bufs v = [] \<longrightarrow> v' = v)"
proof -
  from vq.get_returns [OF assms] obtain r v' where "vring_get_buf v = Some (r, v')" "vring_wf v'" by blast
  with vq.get_negative_iff [OF assms] vring_get_buf_empty [of v] show ?thesis by auto
qed

theorem get_buf_negative_iff_empty_witness:
  "\<exists>r v'. vring_get_buf (demo_ring []) = Some (r, v') \<and> r <s 0 \<and> v' = demo_ring []"
  using get_buf_negative_iff_empty [of "demo_ring []"] demo_ring_ok [of "[]"] by auto



text \<open>The index check of \<open>vring_publish_buf\<close> refuses what lies beyond the ring without
  touching it, but lets \<open>VRING_SIZE\<close> itself through, where the access leaves the
  descriptor array.\<close>

theorem publish_index_check:
  assumes "vring_wf v" and "VRING_SIZE \<le> unat idx"
  shows "vring_publish_buf idx len kick v = (if unat idx = VRING_SIZE then None else Some (False, v))"
  using assms vring_publish_buf_edge [of "fst v" "snd v" idx len kick]
    vring_publish_buf_refused [of idx len kick "fst v" "snd v"] by auto

theorem publish_index_check_witness:
  "vring_publish_buf 256 512 True (demo_ring []) = None \<and>
   vring_publish_buf 257 512 True (demo_ring []) = Some (False, demo_ring [])"
  using publish_index_check [of "demo_ring []" 256 512 True] publish_index_check [of "demo_ring []" 257 512 True]
    demo_ring_ok [of "[]"] by simp

text \<open>\<open>vring_init\<close> lays the descriptor table, the available ring and the used ring out
  one after another without overlap, puts the used ring on a page boundary, and reports a
  length that ends exactly with the used ring.\<close>

theorem vring_init_layout:
  assumes "unat addr + 16384 < 4294967296"
  shows "case vring_init addr ntf m of (vr, m') \<Rightarrow>
    unat (desc_p vr) = unat addr \<and> unat (avail_p vr) = unat addr + 4096 \<and>
    unat (avail_p vr) + 518 \<le> unat (used_p vr) \<and> unat (used_p vr) mod 4096 = 0 \<and>
    unat (used_p vr) + 2052 = unat addr + unat (vring_len vr) \<and> unat (vring_len vr) < 10762"
  using vring_init_areas [OF assms, of ntf m] by (auto split: prod.splits)

theorem vring_init_layout_witness:
  "unat (used_p (fst (vring_init 0x1000 None vmem_zero))) mod 4096 = 0"
  using vring_init_layout [where addr = "0x1000" and ntf = None and m = vmem_zero] by (auto split: prod.splits)

end
