(* ===== verification/Remoteproc.thy ===== *)
theory Remoteproc
  imports Irq VirtioRing
begin

text \<open>
  The message layer of the firmware (bm_fw/src/remoteproc.{c,h}, remoteproc_kernel.h):
  the resource table, the trace buffer writer of \<open>_write\<close> (main.c) every diagnostic
  goes through, channels, sending, receiving and the polling tasks.

  The kernel and the interrupts are the environment. Where the processor sleeps
  (\<open>wfe\<close>) or waits (\<open>usleep\<close>) it consumes one batch of the schedule \<open>sched\<close>: buffers the
  kernel makes available, messages it delivers, interrupts it raises. A \<open>wfe\<close> with an
  empty schedule never returns. The rings (\<open>vmem\<close>) are kept apart from the byte memory
  \<open>mem\<close> that holds the message buffers and the trace buffer.
\<close>

section \<open>Constants and structures\<close>

abbreviation (input) "RPMSG_NAME_SIZE \<equiv> (32 :: nat)"
abbreviation (input) "MAX_RPMSG_CH \<equiv> (5 :: nat)"
abbreviation (input) "APP_ADDR_START \<equiv> (0x50 :: u32)"
abbreviation (input) "RPMSG_ADDR_ANY \<equiv> (0xFFFFFFFF :: u32)"
abbreviation (input) "RPMSG_NS_CREATE \<equiv> (0 :: u32)"
abbreviation (input) "LINUX_SERVICE_ANNOUNCEMENT_ADDR \<equiv> (0x35 :: u32)"
abbreviation (input) "PACKET_LEN_MAX \<equiv> (512 :: u32)"
abbreviation (input) "DATA_LEN_MAX \<equiv> (496 :: u32)"
abbreviation (input) "TRACE_BUFFER_SIZE \<equiv> (0x8000 :: u32)"

datatype rpmsg_ch_state = CH_UNUSED | CH_ANNOUNCED | CH_UP

text \<open>The receive callbacks of the program.\<close>

datatype rpmsg_rx_callback = config_msg_handler_cb | stdio_msg_handler_cb

record rpmsg_channel =
  local_addr :: u32
  remote_addr :: u32
  ch_state :: rpmsg_ch_state
  ch_name :: "u8 list"
  ch_cb :: "rpmsg_rx_callback option"

record fw_rsc_carveout =
  co_type :: u32
  co_da :: u32
  co_pa :: u32
  co_len :: u32
  co_flags :: u32
  co_reserved :: u32
  co_name :: "u8 list"

record fw_rsc_trace =
  trace_type :: u32
  trace_da :: u32
  trace_len :: u32
  trace_reserved :: u32
  trace_name :: "u8 list"

record fw_rsc_vdev_vring =
  vring_da :: u32
  vring_align :: u32
  vring_num :: u32
  vring_notifyid :: u32
  vring_reserved :: u32

record fw_rsc_vdev =
  vdev_type :: u32
  vdev_id :: u32
  vdev_notifyid :: u32
  vdev_dfeatures :: u32
  vdev_gfeatures :: u32
  vdev_config_len :: u32
  vdev_status :: u8
  vdev_num_of_vrings :: u8
  vdev_reserved :: "u8 list"

record resource_table =
  rt_version :: u32
  rt_num :: u32
  rt_reserved :: "u32 list"
  rt_offset :: "u32 list"
  text_cout :: fw_rsc_carveout
  rpmsg_vdev :: fw_rsc_vdev
  rpmsg_vring0 :: fw_rsc_vdev_vring
  rpmsg_vring1 :: fw_rsc_vdev_vring
  trace :: fw_rsc_trace

text \<open>\<open>resources\<close> as the linker loads it; the addresses are symbols of the linker
  script. The kernel fills in \<open>vring_da\<close> before it starts the firmware. The three
  offsets are those of the table, which has no padding: 4 + 4 + 8 + 13 * 4 bytes precede the first
  entry.\<close>

definition zname :: "string \<Rightarrow> u8 list" where
  "zname n = strncpy (replicate RPMSG_NAME_SIZE 0) (cstr n) RPMSG_NAME_SIZE"

definition resources_init :: "u32 \<Rightarrow> u32 \<Rightarrow> u32 \<Rightarrow> resource_table" where
  "resources_init ELF_START ELF_LEN TRACE_BUFFER_START =
     \<lparr>rt_version = 1, rt_num = 3, rt_reserved = [0, 0],
      rt_offset = [68, 124, 192] @ replicate 10 0,
      text_cout = \<lparr>co_type = 0, co_da = ELF_START, co_pa = ELF_START, co_len = ELF_LEN,
                   co_flags = 0, co_reserved = 0, co_name = zname ''TEXT/DATA''\<rparr>,
      rpmsg_vdev = \<lparr>vdev_type = 3, vdev_id = 7, vdev_notifyid = 0, vdev_dfeatures = 1,
                    vdev_gfeatures = 0, vdev_config_len = 0, vdev_status = 0,
                    vdev_num_of_vrings = 2, vdev_reserved = [0, 0]\<rparr>,
      rpmsg_vring0 = \<lparr>vring_da = 0, vring_align = 0x1000, vring_num = 256, vring_notifyid = 1,
                      vring_reserved = 0\<rparr>,
      rpmsg_vring1 = \<lparr>vring_da = 0, vring_align = 0x1000, vring_num = 256, vring_notifyid = 2,
                      vring_reserved = 0\<rparr>,
      trace = \<lparr>trace_type = 2, trace_da = TRACE_BUFFER_START, trace_len = TRACE_BUFFER_SIZE,
               trace_reserved = 0, trace_name = zname ''trace_buffer''\<rparr>\<rparr>"

text \<open>What the environment may do while the firmware waits.\<close>

datatype env_action =
    EnvTxAvail u16 \<comment> \<open>the kernel offers an empty buffer for transmission\<close>
  | EnvRxMsg u16 "u8 list" \<comment> \<open>the kernel fills a buffer and makes it available\<close>
  | EnvIrq u32 \<comment> \<open>an interrupt with this acknowledge value\<close>

record rproc = irq +
  resources :: resource_table
  channels :: "rpmsg_channel list"
  next_rpmsg_addr :: u32
  tx_vring :: "vring \<times> vmem"
  rx_vring :: "vring \<times> vmem"
  tx_processed :: u32 \<comment> \<open>the static of \<open>txvring_task\<close>\<close>
  rx_processed :: u32 \<comment> \<open>the static of \<open>rxvring_task\<close>\<close>
  trace_buf :: u32 \<comment> \<open>the three statics of \<open>_write\<close>\<close>
  trace_ind :: u32
  trace_size :: u32
  sched :: "env_action list list"

lemma gic_rproc_upd [simp]:
  "gic_ready (s\<lparr>channels := c\<rparr>) = gic_ready s" "gic_inv (s\<lparr>channels := c\<rparr>) = gic_inv s"
  "gic_ready (s\<lparr>next_rpmsg_addr := n\<rparr>) = gic_ready s" "gic_inv (s\<lparr>next_rpmsg_addr := n\<rparr>) = gic_inv s"
  "gic_ready (s\<lparr>tx_vring := v\<rparr>) = gic_ready s" "gic_inv (s\<lparr>tx_vring := v\<rparr>) = gic_inv s"
  "gic_ready (s\<lparr>rx_vring := v\<rparr>) = gic_ready s" "gic_inv (s\<lparr>rx_vring := v\<rparr>) = gic_inv s"
  "gic_ready (s\<lparr>tx_processed := n\<rparr>) = gic_ready s" "gic_inv (s\<lparr>tx_processed := n\<rparr>) = gic_inv s"
  "gic_ready (s\<lparr>rx_processed := n\<rparr>) = gic_ready s" "gic_inv (s\<lparr>rx_processed := n\<rparr>) = gic_inv s"
  "gic_ready (s\<lparr>trace_buf := n\<rparr>) = gic_ready s" "gic_inv (s\<lparr>trace_buf := n\<rparr>) = gic_inv s"
  "gic_ready (s\<lparr>trace_ind := n\<rparr>) = gic_ready s" "gic_inv (s\<lparr>trace_ind := n\<rparr>) = gic_inv s"
  "gic_ready (s\<lparr>trace_size := n\<rparr>) = gic_ready s" "gic_inv (s\<lparr>trace_size := n\<rparr>) = gic_inv s"
  "gic_ready (s\<lparr>sched := b\<rparr>) = gic_ready s" "gic_inv (s\<lparr>sched := b\<rparr>) = gic_inv s"
  by (simp_all add: gic_ready_def gic_inv_def)

section \<open>Trace output\<close>

definition rpmsg_get_trace_buf_settings :: "'a rproc_scheme \<Rightarrow> fw_rsc_trace" where
  "rpmsg_get_trace_buf_settings s = trace (resources s)"

text \<open>The static initialisation at the head of \<open>_write\<close> and its trace buffer case, which is
  where everything printed on \<open>stderr\<close> ends (the stream is not buffered). The C code
  compares \<open>trace_size - trace_ind\<close> with the length as unsigned numbers.\<close>

definition trace_setup :: "'a rproc_scheme \<Rightarrow> 'a rproc_scheme" where
  "trace_setup s = (if trace_buf s = 0
     then (let t = rpmsg_get_trace_buf_settings s
           in s\<lparr>trace_buf := trace_da t, trace_size := trace_len t, trace_ind := 0\<rparr>)
     else s)"

definition trace_write :: "u8 list \<Rightarrow> 'a rproc_scheme \<Rightarrow> nat \<times> 'a rproc_scheme" where
  "trace_write data s =
     (if trace_buf s \<noteq> 0 then
        (let len = length data;
             s1 = (if len < unat (trace_size s - trace_ind s)
                   then s\<lparr>mem := wr_bytes (mem s) (trace_buf s + trace_ind s) data,
                          trace_ind := trace_ind s + of_nat len\<rparr>
                   else s)
         in (len, s1))
      else (0, s))"

definition fprintf_stderr :: "u8 list \<Rightarrow> 'a rproc_scheme \<Rightarrow> 'a rproc_scheme" where
  "fprintf_stderr text s = snd (trace_write text (trace_setup s))"

section \<open>The environment's turn\<close>

definition env_act :: "env_action \<Rightarrow> 'a rproc_scheme \<Rightarrow> 'a rproc_scheme option" where
  "env_act a s = (case a of
     EnvTxAvail d \<Rightarrow> Some (s\<lparr>tx_vring := kernel_offer d (tx_vring s)\<rparr>)
   | EnvRxMsg d bs \<Rightarrow> do {
       e \<leftarrow> aget (desc (snd (rx_vring s))) (unat d);
       Some (s\<lparr>mem := wr_bytes (mem s) (desc_addr e) bs, rx_vring := kernel_offer d (rx_vring s)\<rparr>)
     }
   | EnvIrq v \<Rightarrow> take_irq v s)"

fun env_acts :: "env_action list \<Rightarrow> 'a rproc_scheme \<Rightarrow> 'a rproc_scheme option" where
  "env_acts [] s = Some s"
| "env_acts (a # as) s = env_act a s \<bind> env_acts as"

definition wfe :: "'a rproc_scheme \<Rightarrow> 'a rproc_scheme option" where
  "wfe s = (case sched s of [] \<Rightarrow> None | b # bs \<Rightarrow> env_acts b (s\<lparr>sched := bs\<rparr>))"

definition usleep :: "'a rproc_scheme \<Rightarrow> 'a rproc_scheme option" where
  "usleep s = (case sched s of [] \<Rightarrow> Some s | b # bs \<Rightarrow> env_acts b (s\<lparr>sched := bs\<rparr>))"

section \<open>Kicks\<close>

definition kick_linux :: "'a rproc_scheme \<Rightarrow> 'a rproc_scheme option" where
  "kick_linux s = map_option snd (XScuGic_SoftwareIntr NOTIFY_LINUX_IRQ 1 s)"

text \<open>The function pointer \<open>vr->notify\<close>, called when \<open>vring_publish_buf\<close> says so.\<close>

definition run_notify :: "bool \<Rightarrow> notify_fn option \<Rightarrow> 'a rproc_scheme \<Rightarrow> 'a rproc_scheme option" where
  "run_notify go f s = (if \<not> go then Some s else (case f of
     None \<Rightarrow> None | Some kick_linux_fn \<Rightarrow> kick_linux s))"

definition publish_tx :: "u16 \<Rightarrow> u32 \<Rightarrow> bool \<Rightarrow> 'a rproc_scheme \<Rightarrow> 'a rproc_scheme option" where
  "publish_tx idx len kick s = do {
     (go, v) \<leftarrow> vring_publish_buf idx len kick (tx_vring s);
     run_notify go (notify (fst v)) (s\<lparr>tx_vring := v\<rparr>)
   }"

definition publish_rx :: "u16 \<Rightarrow> u32 \<Rightarrow> bool \<Rightarrow> 'a rproc_scheme \<Rightarrow> 'a rproc_scheme option" where
  "publish_rx idx len kick s = do {
     (go, v) \<leftarrow> vring_publish_buf idx len kick (rx_vring s);
     run_notify go (notify (fst v)) (s\<lparr>rx_vring := v\<rparr>)
   }"

definition txvring_task :: "'a rproc_scheme \<Rightarrow> bool \<times> 'a rproc_scheme" where
  "txvring_task s = (if txvring_kicks s \<noteq> tx_processed s
     then (True, s\<lparr>tx_processed := tx_processed s + 1\<rparr>) else (False, s))"

section \<open>Sending\<close>

text \<open>The header the message layer puts before the payload (\<open>struct rpmsg_hdr\<close>), as the
  fields at an address of memory.\<close>

definition put_hdr :: "u32 \<Rightarrow> u32 \<Rightarrow> u32 \<Rightarrow> memory \<Rightarrow> memory" where
  "put_hdr hdr src dst m =
     wr_bytes (wr32 (wr32 (wr32 m hdr src) (hdr + 4) dst) (hdr + 8) 0) (hdr + 14) (le16 0)"

definition too_long_msg :: "u32 \<Rightarrow> u8 list" where
  "too_long_msg len = cstr ''rpmsg __send_message: len='' @ dec (sint len) @
     cstr '' is too long, truncating, ie data loss'' @ [10]"

text \<open>The result is 1 when there is no buffer. Reading the payload beyond the end of \<open>data\<close>
  is undefined.\<close>

definition send_message :: "u32 \<Rightarrow> u32 \<Rightarrow> u8 list \<Rightarrow> u32 \<Rightarrow> 'a rproc_scheme \<Rightarrow> (s32 \<times> 'a rproc_scheme) option" where
  "send_message src dst data len s = do {
     (idx, tx) \<leftarrow> vring_get_buf (tx_vring s);
     let s0 = s\<lparr>tx_vring := tx\<rparr>;
     if idx <s 0 then Some (1, s0)
     else do {
       d \<leftarrow> aget (desc (snd tx)) (unat idx);
       let hdr = desc_addr d;
       let s1 = s0\<lparr>mem := put_hdr hdr src dst (mem s0)\<rparr>;
       let (len', s2) = (if len > DATA_LEN_MAX
                         then (DATA_LEN_MAX, fprintf_stderr (too_long_msg len) s1) else (len, s1));
       let hlen = (ucast len' :: u16);
       let s3 = s2\<lparr>mem := wr_bytes (mem s2) (hdr + 12) (le16 hlen)\<rparr>;
       if length data < unat hlen then None
       else do {
         let s4 = s3\<lparr>mem := wr_bytes (mem s3) (hdr + 16) (take (unat hlen) data)\<rparr>;
         s5 \<leftarrow> publish_tx (ucast idx) PACKET_LEN_MAX True s4;
         Some (0, s5)
       }
     }
   }"

lemma irq_frame_rproc:
  "irq_frame s s' \<Longrightarrow> resources s' = resources s \<and> channels s' = channels s \<and>
     next_rpmsg_addr s' = next_rpmsg_addr s \<and> tx_vring s' = tx_vring s \<and> rx_vring s' = rx_vring s \<and>
     tx_processed s' = tx_processed s \<and> rx_processed s' = rx_processed s \<and>
     trace_buf s' = trace_buf s \<and> trace_ind s' = trace_ind s \<and> trace_size s' = trace_size s \<and>
     sched s' = sched s \<and> rproc.more s' = rproc.more s"
  by (cases s; cases s') (simp add: irq_frame_def)

lemma env_act_sched: "env_act a s = Some s' \<Longrightarrow> sched s' = sched s"
  by (auto simp: env_act_def split: env_action.splits bind_splits
      dest!: take_irq_frame irq_frame_rproc)

lemma env_acts_sched: "env_acts as s = Some s' \<Longrightarrow> sched s' = sched s"
  by (induction as arbitrary: s) (auto split: bind_splits dest!: env_act_sched)

lemma wfe_sched: "wfe s = Some s' \<Longrightarrow> length (sched s') < length (sched s)"
  by (auto simp: wfe_def split: list.splits dest!: env_acts_sched)

lemma fprintf_stderr_sched [simp]: "sched (fprintf_stderr t s) = sched s"
  by (simp add: fprintf_stderr_def trace_write_def trace_setup_def Let_def)

lemma kick_linux_only_io: "kick_linux s = Some s' \<Longrightarrow> only_io s s'"
  by (auto simp: kick_linux_def XScuGic_SoftwareIntr_def reg_defs Let_def split: if_splits)

lemma only_io_rproc:
  "only_io s s' \<Longrightarrow> resources s' = resources s \<and> channels s' = channels s \<and>
     next_rpmsg_addr s' = next_rpmsg_addr s \<and> tx_vring s' = tx_vring s \<and> rx_vring s' = rx_vring s \<and>
     tx_processed s' = tx_processed s \<and> rx_processed s' = rx_processed s \<and>
     trace_buf s' = trace_buf s \<and> trace_ind s' = trace_ind s \<and> trace_size s' = trace_size s \<and>
     sched s' = sched s \<and> rproc.more s' = rproc.more s \<and> mem s' = mem s"
  by (auto simp: only_io_def)

lemma run_notify_only_io: "run_notify go f s = Some s' \<Longrightarrow> only_io s s'"
  by (auto simp: run_notify_def split: if_splits option.splits notify_fn.splits dest: kick_linux_only_io)

lemma send_message_sched: "send_message src dst data len s = Some (r, s') \<Longrightarrow> sched s' = sched s"
  by (auto simp: send_message_def publish_tx_def Let_def split: bind_splits if_splits prod.splits
      dest!: run_notify_only_io only_io_rproc)

text \<open>\<open>block_send_message\<close>: every \<open>wfe\<close> takes a batch of the schedule, so the loop ends
  at the latest with it.\<close>

function block_send_message ::
    "u32 \<Rightarrow> u32 \<Rightarrow> u8 list \<Rightarrow> u32 \<Rightarrow> 'a rproc_scheme \<Rightarrow> 'a rproc_scheme option" where
  "block_send_message src dst data len s = (case send_message src dst data len s of
     None \<Rightarrow> None
   | Some (r, s1) \<Rightarrow> if r = 0 then Some s1
       else (case wfe s1 of None \<Rightarrow> None
             | Some s2 \<Rightarrow> block_send_message src dst data len (snd (txvring_task s2))))"
  by auto
termination
  by (relation "measure (\<lambda>(_, _, _, _, s). length (sched s))")
    (auto simp: txvring_task_def dest!: send_message_sched wfe_sched)

declare block_send_message.simps [simp del]

section \<open>Receiving\<close>

text \<open>The channel loop of \<open>read_message\<close>. \<open>deliver\<close> calls the callback with the channel,
  the address of the payload in the buffer, and its length. The loop goes on after a
  channel without a callback, and the header is read again for every channel.\<close>

fun deliver_to ::
    "(rpmsg_rx_callback \<Rightarrow> nat \<Rightarrow> u32 \<Rightarrow> u32 \<Rightarrow> 'a rproc_scheme \<Rightarrow> 'a rproc_scheme option) \<Rightarrow>
     u32 \<Rightarrow> nat list \<Rightarrow> 'a rproc_scheme \<Rightarrow> 'a rproc_scheme option" where
  "deliver_to deliver hdr [] s = Some s"
| "deliver_to deliver hdr (i # is) s = do {
     ch \<leftarrow> aget (channels s) i;
     if (ch_state ch = CH_ANNOUNCED \<or> ch_state ch = CH_UP) \<and> rd32 (mem s) (hdr + 4) = local_addr ch
     then let s1 = s\<lparr>channels := (channels s)[i := ch\<lparr>remote_addr := rd32 (mem s) hdr, ch_state := CH_UP\<rparr>]\<rparr>
          in case ch_cb ch of
               Some cb \<Rightarrow> deliver cb i (hdr + 16) (ucast (rd16 (mem s1) (hdr + 12))) s1
             | None \<Rightarrow> deliver_to deliver hdr is s1
     else deliver_to deliver hdr is s
   }"

definition read_message ::
    "(rpmsg_rx_callback \<Rightarrow> nat \<Rightarrow> u32 \<Rightarrow> u32 \<Rightarrow> 'a rproc_scheme \<Rightarrow> 'a rproc_scheme option) \<Rightarrow>
     'a rproc_scheme \<Rightarrow> 'a rproc_scheme option" where
  "read_message deliver s = do {
     (index, rx) \<leftarrow> vring_get_buf (rx_vring s);
     let s0 = s\<lparr>rx_vring := rx\<rparr>;
     if index <s 0
     then Some (fprintf_stderr (cstr ''read_message: no buffer available in rx_vring'' @ [10]) s0)
     else do {
       d \<leftarrow> aget (desc (snd rx)) (unat index);
       s1 \<leftarrow> deliver_to deliver (desc_addr d) [0..<MAX_RPMSG_CH] s0;
       publish_rx (ucast index) PACKET_LEN_MAX False s1
     }
   }"

partial_function (option) rx_loop ::
    "(rpmsg_rx_callback \<Rightarrow> nat \<Rightarrow> u32 \<Rightarrow> u32 \<Rightarrow> 'a rproc_scheme \<Rightarrow> 'a rproc_scheme option) \<Rightarrow>
     'a rproc_scheme \<Rightarrow> 'a rproc_scheme option" where
  "rx_loop deliver s = (if vring_available (rx_vring s)
     then read_message deliver s \<bind> rx_loop deliver else Some s)"

definition rxvring_task ::
    "(rpmsg_rx_callback \<Rightarrow> nat \<Rightarrow> u32 \<Rightarrow> u32 \<Rightarrow> 'a rproc_scheme \<Rightarrow> 'a rproc_scheme option) \<Rightarrow>
     'a rproc_scheme \<Rightarrow> (bool \<times> 'a rproc_scheme) option" where
  "rxvring_task deliver s = (if rxvring_kicks s \<noteq> rx_processed s
     then do {
       s1 \<leftarrow> rx_loop deliver (s\<lparr>rx_processed := rx_processed s + 1\<rparr>);
       Some (True, s1)
     } else Some (False, s))"

definition rpmsg_poll ::
    "(rpmsg_rx_callback \<Rightarrow> nat \<Rightarrow> u32 \<Rightarrow> u32 \<Rightarrow> 'a rproc_scheme \<Rightarrow> 'a rproc_scheme option) \<Rightarrow>
     'a rproc_scheme \<Rightarrow> (bool \<times> 'a rproc_scheme) option" where
  "rpmsg_poll deliver s = (let (r1, s1) = txvring_task s in do {
     (r2, s2) \<leftarrow> rxvring_task deliver s1;
     Some (r1 \<or> r2, s2)
   })"

section \<open>Channels\<close>

definition ns_msg :: "u8 list \<Rightarrow> u32 \<Rightarrow> u8 list" where
  "ns_msg name addr =
     strncpy (replicate RPMSG_NAME_SIZE 0) name RPMSG_NAME_SIZE @ le32 addr @ le32 RPMSG_NS_CREATE"

definition announce_text :: "u8 list \<Rightarrow> u32 \<Rightarrow> u8 list" where
  "announce_text name addr =
     cstr ''announcing channel '' @ [39] @ name @ [39] @ cstr '' with addr x'' @ hexstr addr @ [10]"

text \<open>The result is the index of the channel, \<open>None\<close> for \<open>NULL\<close>.\<close>

definition rpmsg_create_ch ::
    "u8 list \<Rightarrow> rpmsg_rx_callback option \<Rightarrow> 'a rproc_scheme \<Rightarrow> (nat option \<times> 'a rproc_scheme) option" where
  "rpmsg_create_ch name cb s = (case find_index (\<lambda>c. ch_state c = CH_UNUSED) (channels s) of
     None \<Rightarrow> Some (None, fprintf_stderr
               (cstr ''Can'' @ [39] @ cstr ''t create channel: no channel struct available.'' @ [10]) s)
   | Some i \<Rightarrow>
       let a = next_rpmsg_addr s;
           ch = (channels s ! i)\<lparr>local_addr := a, remote_addr := RPMSG_ADDR_ANY,
                  ch_name := strncpy (ch_name (channels s ! i)) name RPMSG_NAME_SIZE,
                  ch_state := CH_ANNOUNCED, ch_cb := cb\<rparr>;
           s1 = s\<lparr>next_rpmsg_addr := a + 1, channels := (channels s)[i := ch]\<rparr>;
           s2 = fprintf_stderr (announce_text name a) s1
       in do {
         s3 \<leftarrow> block_send_message a LINUX_SERVICE_ANNOUNCEMENT_ADDR (ns_msg name a) 40 s2;
         Some (Some i, s3)
       })"

definition rpmsg_send :: "nat option \<Rightarrow> u8 list \<Rightarrow> u32 \<Rightarrow> 'a rproc_scheme \<Rightarrow> 'a rproc_scheme option" where
  "rpmsg_send ch data len s = (case ch of
     None \<Rightarrow> Some s
   | Some i \<Rightarrow> do {
       c \<leftarrow> aget (channels s) i;
       if ch_state c \<noteq> CH_ANNOUNCED \<and> ch_state c \<noteq> CH_UP then Some s
       else block_send_message (local_addr c) (remote_addr c) data len s
     })"

section \<open>Initialisation\<close>

definition zero_channel :: rpmsg_channel where
  "zero_channel = \<lparr>local_addr = 0, remote_addr = 0, ch_state = CH_UNUSED,
     ch_name = replicate RPMSG_NAME_SIZE 0, ch_cb = None\<rparr>"

definition remoteproc_init :: "'a rproc_scheme \<Rightarrow> 'a rproc_scheme option" where
  "remoteproc_init s0 = do {
     let s1 = s0\<lparr>channels := replicate MAX_RPMSG_CH zero_channel\<rparr>;
     let s2 = Xil_SetTlbAttributes (vring_da (rpmsg_vring0 (resources s1)) AND 0xFFF00000) 0x15dea s1;
     let s3 = s2\<lparr>tx_vring := vring_init (vring_da (rpmsg_vring0 (resources s2)))
                              (Some kick_linux_fn) (snd (tx_vring s2))\<rparr>;
     let s4 = s3\<lparr>rx_vring := vring_init (vring_da (rpmsg_vring1 (resources s3)))
                              (Some kick_linux_fn) (snd (rx_vring s3))\<rparr>;
     (_, s5) \<leftarrow> XScuGic_Connect TXVRING_IRQ (Some Isr_txvring_irq) RefNull s4;
     s6 \<leftarrow> XScuGic_Enable TXVRING_IRQ s5;
     (_, s7) \<leftarrow> XScuGic_Connect RXVRING_IRQ (Some Isr_rxvring_irq) RefNull s6;
     XScuGic_Enable RXVRING_IRQ s7
   }"

section \<open>Messages in memory\<close>

definition enc_hdr :: "u32 \<Rightarrow> u32 \<Rightarrow> u16 \<Rightarrow> u8 list" where
  "enc_hdr src dst len = le32 src @ le32 dst @ le32 0 @ le16 len @ le16 0"

lemma length_enc_hdr [simp]: "length (enc_hdr src dst len) = 16"
  by (simp add: enc_hdr_def)

text \<open>The message at an address: source, destination, flags and payload.\<close>

definition rpmsg_at :: "memory \<Rightarrow> u32 \<Rightarrow> u32 \<times> u32 \<times> u16 \<times> u8 list" where
  "rpmsg_at m a = (rd32 m a, rd32 m (a + 4), rd16 m (a + 14),
     rd_bytes m (a + 16) (unat (rd16 m (a + 12))))"

lemma rpmsg_at_enc [codec_simps]:
  assumes "length payload = unat len"
  shows "rpmsg_at (wr_bytes m a (enc_hdr src dst len @ payload)) a = (src, dst, 0, payload)"
proof -
  let ?bs = "enc_hdr src dst len @ payload"
  have l: "length ?bs \<le> 4294967296" using assms unat_u16_less [of len] by simp
  note rd = rd_wr_inside [of _ _ ?bs m a, OF _ l]
  have "rd_bytes (wr_bytes m a ?bs) a 4 = le32 src"
    using rd [of 0 4] by (simp add: enc_hdr_def)
  moreover have "rd_bytes (wr_bytes m a ?bs) (a + 4) 4 = le32 dst"
    using rd [of 4 4] by (simp add: enc_hdr_def)
  moreover have "rd_bytes (wr_bytes m a ?bs) (a + 12) 2 = le16 len"
    using rd [of 12 2] by (simp add: enc_hdr_def)
  moreover have "rd_bytes (wr_bytes m a ?bs) (a + 14) 2 = le16 0"
    using rd [of 14 2] by (simp add: enc_hdr_def)
  moreover have "rd_bytes (wr_bytes m a ?bs) (a + 16) (unat len) = payload"
    using rd [of 16 "unat len"] assms by simp
  ultimately show ?thesis
    by (simp add: rpmsg_at_def rd32_def rd16_def codec_simps)
qed

text \<open>The field by field stores of \<open>__send_message\<close> amount to storing the encoded header.\<close>

lemma put_hdr_enc:
  "wr_bytes (put_hdr h src dst m) (h + 12) (le16 len) = wr_bytes m h (enc_hdr src dst len)"
proof -
  have p4: "wr_bytes (wr_bytes m h (le32 src)) (h + 4) (le32 dst) = wr_bytes m h (le32 src @ le32 dst)"
    using wr_bytes_append [of "le32 src" "le32 dst" m h] by simp
  have p8: "wr_bytes (wr_bytes m h (le32 src @ le32 dst)) (h + 8) (le32 0) =
      wr_bytes m h (le32 src @ le32 dst @ le32 0)"
    using wr_bytes_append [of "le32 src @ le32 dst" "le32 0" m h] by simp
  let ?m = "wr_bytes m h (le32 src @ le32 dst @ le32 0)"
  have "apart (h + 14) 2 (h + 12) 2"
    using apart_next [of 2 2 "h + 12"] by (simp add: add.assoc)
  then have "wr_bytes (wr_bytes ?m (h + 14) (le16 0)) (h + 12) (le16 len) =
      wr_bytes (wr_bytes ?m (h + 12) (le16 len)) (h + 14) (le16 0)"
    by (intro wr_bytes_commute) simp
  also have "wr_bytes ?m (h + 12) (le16 len) = wr_bytes m h (le32 src @ le32 dst @ le32 0 @ le16 len)"
    using wr_bytes_append [of "le32 src @ le32 dst @ le32 0" "le16 len" m h] by simp
  also have "wr_bytes \<dots> (h + 14) (le16 0) = wr_bytes m h (enc_hdr src dst len)"
    using wr_bytes_append [of "le32 src @ le32 dst @ le32 0 @ le16 len" "le16 0" m h]
    by (simp add: enc_hdr_def)
  finally show ?thesis by (simp add: put_hdr_def wr32_def p4 p8)
qed

lemma wr_hdr_payload:
  "length data \<le> 65536 \<Longrightarrow>
   wr_bytes (wr_bytes m h (enc_hdr src dst len)) (h + 16) data = wr_bytes m h (enc_hdr src dst len @ data)"
  using wr_bytes_append [of "enc_hdr src dst len" data m h] by simp

section \<open>The message layer's invariant\<close>

text \<open>Channels are handed out in order and never returned; channel \<open>i\<close> has the local
  address \<open>base + i\<close>, where \<open>base\<close> was the next address when the channels were cleared.\<close>

definition ch_inv :: "u32 \<Rightarrow> 'a rproc_scheme \<Rightarrow> bool" where
  "ch_inv base s \<longleftrightarrow> length (channels s) = MAX_RPMSG_CH \<and> (\<exists>k \<le> MAX_RPMSG_CH.
     next_rpmsg_addr s = base + of_nat k \<and>
     (\<forall>i < MAX_RPMSG_CH. (ch_state (channels s ! i) = CH_UNUSED \<longleftrightarrow> k \<le> i) \<and>
        (i < k \<longrightarrow> local_addr (channels s ! i) = base + of_nat i)))"

definition rings_inv :: "'a rproc_scheme \<Rightarrow> bool" where
  "rings_inv s \<longleftrightarrow> vring_wf (tx_vring s) \<and> vring_wf (rx_vring s) \<and>
     notify (fst (tx_vring s)) = Some kick_linux_fn \<and> notify (fst (rx_vring s)) = Some kick_linux_fn \<and>
     gic_inv s \<and> gic_ready s"

text \<open>Buffer indices the kernel puts in the available ring are indices of descriptors; the
  code relies on it.\<close>

definition heads_ok :: "vring \<times> vmem \<Rightarrow> bool" where
  "heads_ok v \<longleftrightarrow> (\<forall>d \<in> set (pending_bufs v). unat d < VRING_SIZE)"

lemma ucast_u16_s32 [simp]: "(ucast (ucast (d :: u16) :: s32) :: u16) = d"
  by (rule bit_word_eqI) (simp add: bit_simps)

lemma unat_ucast_u16_s32 [simp]: "unat (ucast (d :: u16) :: s32) = unat d"
  using unat_u16_less [of d] by (simp add: unsigned_ucast_eq take_bit_nat_eq_self)

lemma kick_linux_ready:
  "gic_ready s \<Longrightarrow> \<exists>s'. kick_linux s = Some s' \<and> only_io s s' \<and>
     io_log s' = io_log s @ [IoWrite (DistBaseAddress s + XSCUGIC_SFI_TRIG_OFFSET) 0x10008]"
  by (auto simp: kick_linux_def XScuGic_SoftwareIntr_def reg_defs Let_def)

text \<open>The register write of \<open>kick_linux\<close>: software interrupt 8 to the first processor.\<close>

definition kick_event :: "'a gic_scheme \<Rightarrow> io_event" where
  "kick_event s = IoWrite (DistBaseAddress s + XSCUGIC_SFI_TRIG_OFFSET) 0x10008"

lemma run_notify_ok:
  "gic_ready s \<Longrightarrow> run_notify go (Some kick_linux_fn) s =
     Some (s\<lparr>io_log := io_log s @ (if go then [kick_event s] else [])\<rparr>)"
  by (simp add: run_notify_def kick_linux_def XScuGic_SoftwareIntr_def reg_defs Let_def kick_event_def
      Xil_Out32_def)

lemma publish_tx_ok:
  assumes "vring_wf (tx_vring s)" and "unat d < VRING_SIZE" and "used_count u0 (tx_vring s) < VRING_SIZE"
    and "gic_ready s" and "notify (fst (tx_vring s)) = Some kick_linux_fn"
  shows "\<exists>v. publish_tx d len kick s = Some (s\<lparr>tx_vring := v,
        io_log := io_log s @ (if notifies kick (tx_vring s) then [kick_event s] else [])\<rparr>) \<and>
      used_since u0 v = used_since u0 (tx_vring s) @ [\<lparr>elem_id = ucast d, elem_len = len\<rparr>] \<and>
      pending_bufs v = pending_bufs (tx_vring s) \<and> vring_wf v \<and> fst v = fst (tx_vring s) \<and>
      map desc_addr (desc (snd v)) = map desc_addr (desc (snd (tx_vring s)))"
proof -
  obtain vr m where v: "tx_vring s = (vr, m)" by (cases "tx_vring s")
  from vring_publish_buf_Some [OF assms(1) [unfolded v] assms(2) assms(3) [unfolded v], of len kick]
  obtain m' where m': "vring_publish_buf d len kick (vr, m) = Some (notifies kick (vr, m), vr, m')"
    "used_since u0 (vr, m') = used_since u0 (vr, m) @ [\<lparr>elem_id = ucast d, elem_len = len\<rparr>]"
    "map desc_addr (desc m') = map desc_addr (desc m)" "pending_bufs (vr, m') = pending_bufs (vr, m)"
    "vring_wf (vr, m')" by blast
  have "publish_tx d len kick s = Some (s\<lparr>tx_vring := (vr, m'),
      io_log := io_log s @ (if notifies kick (tx_vring s) then [kick_event s] else [])\<rparr>)"
    using m'(1) assms(4,5) v by (simp add: publish_tx_def run_notify_ok kick_event_def)
  with m' v show ?thesis by (intro exI [of _ "(vr, m')"]) simp
qed

text \<open>Sending a message that fits takes the oldest free buffer, leaves exactly the encoded
  message in it and hands it over.\<close>

lemma send_message_ok:
  assumes inv: "rings_inv s" and p: "pending_bufs (tx_vring s) = d # ds" and d: "unat d < VRING_SIZE"
    and room: "used_count u0 (tx_vring s) < VRING_SIZE"
    and len: "len \<le> DATA_LEN_MAX" "unat len \<le> length data"
  defines "a \<equiv> desc_addr (desc (snd (tx_vring s)) ! unat d)"
  shows "\<exists>v. send_message src dst data len s = Some (0, s\<lparr>tx_vring := v,
        mem := wr_bytes (mem s) a (enc_hdr src dst (ucast len) @ take (unat len) data),
        io_log := io_log s @ (if notifies True (tx_vring s) then [kick_event s] else [])\<rparr>) \<and>
      used_since u0 v = used_since u0 (tx_vring s) @ [\<lparr>elem_id = ucast d, elem_len = PACKET_LEN_MAX\<rparr>] \<and>
      pending_bufs v = ds \<and> vring_wf v \<and> notify (fst v) = notify (fst (tx_vring s)) \<and>
      map desc_addr (desc (snd v)) = map desc_addr (desc (snd (tx_vring s)))"
proof -
  obtain vr m where v: "tx_vring s = (vr, m)" by (cases "tx_vring s")
  let ?tx = "(vr\<lparr>avail_tail := avail_tail vr + 1\<rparr>, m)"
  from inv v have wf: "vring_wf (vr, m)" and gr: "gic_ready s" and nf: "notify vr = Some kick_linux_fn"
    by (simp_all add: rings_inv_def)
  note get = vring_get_buf_Cons [OF wf p [unfolded v]]
  have l16: "unat (ucast len :: u16) = unat len"
    using len(1) by (simp add: unsigned_ucast_eq take_bit_nat_eq_self word_le_nat_alt)
  let ?s4 = "s\<lparr>tx_vring := ?tx, mem := wr_bytes (mem s) a (enc_hdr src dst (ucast len) @ take (unat len) data)\<rparr>"
  have "desc m ! unat d = desc (snd (tx_vring s)) ! unat d" "unat d < length (desc m)"
    using v d wf by (simp_all add: vring_wf_def)
  moreover have "\<not> DATA_LEN_MAX < len" "\<not> length data < unat len" "length (take (unat len) data) \<le> 65536"
    using len unat_u16_less [of "ucast len"] l16 by simp_all
  ultimately have "send_message src dst data len s = publish_tx d PACKET_LEN_MAX True ?s4 \<bind> (\<lambda>s5. Some (0, s5))"
    using get(1) v l16 wr_hdr_payload [of "take (unat len) data" "mem s" a src dst "ucast len"]
    by (simp add: send_message_def vq.index_nonneg defined_simps Let_def put_hdr_enc a_def)
  moreover have "used_count u0 ?tx < VRING_SIZE" "used_since u0 ?tx = used_since u0 (vr, m)"
    "notifies True ?tx = notifies True (vr, m)"
    using room v by (simp_all add: used_count_def used_since_def notifies_def)
  moreover from this obtain v' where "publish_tx d PACKET_LEN_MAX True ?s4 = Some (?s4\<lparr>tx_vring := v',
        io_log := io_log ?s4 @ (if notifies True ?tx then [kick_event ?s4] else [])\<rparr>)"
    "used_since u0 v' = used_since u0 (vr, m) @ [\<lparr>elem_id = ucast d, elem_len = PACKET_LEN_MAX\<rparr>]"
    "pending_bufs v' = ds" "vring_wf v'" "fst v' = fst ?tx" "map desc_addr (desc (snd v')) = map desc_addr (desc m)"
    using publish_tx_ok [of ?s4 d u0 PACKET_LEN_MAX True] get(2,3) d gr nf by auto
  ultimately show ?thesis using v nf by (intro exI [of _ v']) (simp add: kick_event_def)
qed

lemma send_message_busy:
  assumes "pending_bufs (tx_vring s) = []"
  shows "send_message src dst data len s = Some (1, s)"
proof -
  have "(-1 :: s32) <s 0" by (simp add: sless_sint)
  then show ?thesis using vring_get_buf_empty [OF assms] by (simp add: send_message_def)
qed

section \<open>Blocking\<close>

text \<open>What the wait loop changes before a buffer arrives.\<close>

definition waited :: "'a rproc_scheme \<Rightarrow> 'a rproc_scheme" where
  "waited s = s\<lparr>sched := tl (sched s), tx_processed := tx_processed s + (if txvring_kicks s \<noteq> tx_processed s then 1 else 0)\<rparr>"

lemma block_send_spurious:
  assumes "pending_bufs (tx_vring s) = []" and "sched s = [] # b"
  shows "block_send_message src dst data len s = block_send_message src dst data len (waited s)"
  using assms by (subst block_send_message.simps)
    (simp add: send_message_busy wfe_def txvring_task_def waited_def)

lemma block_send_stuck:
  assumes "pending_bufs (tx_vring s) = []" and "sched s = []"
  shows "block_send_message src dst data len s = None"
  using assms by (subst block_send_message.simps) (simp add: send_message_busy wfe_def)

lemma block_send_ready:
  "send_message src dst data len s = Some (0, s') \<Longrightarrow> block_send_message src dst data len s = Some s'"
  by (subst block_send_message.simps) simp

lemma sched_tx_commute: "s\<lparr>sched := b, tx_vring := v\<rparr> = s\<lparr>tx_vring := v, sched := b\<rparr>"
  by simp

lemma block_send_offer:
  assumes "pending_bufs (tx_vring s) = []" and "sched s = [EnvTxAvail d] # b"
  shows "block_send_message src dst data len s =
    block_send_message src dst data len (waited (s\<lparr>tx_vring := kernel_offer d (tx_vring s)\<rparr>))"
  using assms by (subst block_send_message.simps)
    (simp add: send_message_busy wfe_def env_act_def txvring_task_def waited_def sched_tx_commute)

lemma kernel_offer_frame:
  "desc (snd (kernel_offer d v)) = desc (snd v) \<and> fst (kernel_offer d v) = fst v \<and>
   used (snd (kernel_offer d v)) = used (snd v)"
  by (cases v) (simp add: kernel_offer_def Let_def)

lemma waited_sel [simp]:
  "tx_vring (waited s) = tx_vring s" "mem (waited s) = mem s" "sched (waited s) = tl (sched s)"
  "rings_inv (waited s) = rings_inv s" "channels (waited s) = channels s"
  by (simp_all add: waited_def rings_inv_def)

text \<open>After any number of spurious wake-ups, the buffer the kernel offers carries the
  message.\<close>

lemma block_send_delivers:
  assumes "rings_inv s" and "pending_bufs (tx_vring s) = []" and "sched s = replicate n [] @ [EnvTxAvail d] # rest"
    and d: "unat d < VRING_SIZE" and room: "used_count u0 (tx_vring s) < VRING_SIZE"
    and len: "len \<le> DATA_LEN_MAX" "unat len \<le> length data"
  shows "\<exists>s'. block_send_message src dst data len s = Some s' \<and>
    rpmsg_at (mem s') (desc_addr (desc (snd (tx_vring s)) ! unat d)) = (src, dst, 0, take (unat len) data) \<and>
    used_since u0 (tx_vring s') = used_since u0 (tx_vring s) @ [\<lparr>elem_id = ucast d, elem_len = PACKET_LEN_MAX\<rparr>] \<and>
    sched s' = rest"
  using assms
proof (induction n arbitrary: s)
  case (Suc n)
  have "\<exists>s'. block_send_message src dst data len (waited s) = Some s' \<and>
    rpmsg_at (mem s') (desc_addr (desc (snd (tx_vring (waited s))) ! unat d)) = (src, dst, 0, take (unat len) data) \<and>
    used_since u0 (tx_vring s') = used_since u0 (tx_vring (waited s)) @ [\<lparr>elem_id = ucast d, elem_len = PACKET_LEN_MAX\<rparr>] \<and>
    sched s' = rest"
    by (rule Suc.IH) (use Suc.prems in simp_all)
  then show ?case using Suc.prems by (simp add: block_send_spurious)
next
  case 0
  let ?v = "kernel_offer d (tx_vring s)" and ?s = "waited (s\<lparr>tx_vring := kernel_offer d (tx_vring s)\<rparr>)"
  have wf: "vring_wf (tx_vring s)" using 0 by (simp add: rings_inv_def)
  have "in_flight (tx_vring s) = 0" using 0(2) length_pending [of "tx_vring s"] by simp
  note off = kernel_offer_pending [OF wf, of d] kernel_offer_frame [of d "tx_vring s"]
  have "rings_inv (s\<lparr>tx_vring := ?v\<rparr>)"
    using 0(1) off \<open>in_flight (tx_vring s) = 0\<close> by (simp add: rings_inv_def)
  then have inv: "rings_inv ?s" by simp
  have p: "pending_bufs (tx_vring ?s) = d # []" using off 0(2) \<open>in_flight (tx_vring s) = 0\<close> by simp
  have u: "used_count u0 (tx_vring ?s) < VRING_SIZE" "used_since u0 ?v = used_since u0 (tx_vring s)"
    using 0(5) used_frame [of ?v "tx_vring s"] off by simp_all
  have l16: "unat (ucast len :: u16) = unat len"
    using len(1) by (simp add: unsigned_ucast_eq take_bit_nat_eq_self word_le_nat_alt)
  from send_message_ok [OF inv p d u(1) len, of src dst] obtain v where
    v: "send_message src dst data len ?s = Some (0, ?s\<lparr>tx_vring := v,
        mem := wr_bytes (mem ?s) (desc_addr (desc (snd (tx_vring ?s)) ! unat d))
                 (enc_hdr src dst (ucast len) @ take (unat len) data),
        io_log := io_log ?s @ (if notifies True (tx_vring ?s) then [kick_event ?s] else [])\<rparr>)"
    "used_since u0 v = used_since u0 (tx_vring ?s) @ [\<lparr>elem_id = ucast d, elem_len = PACKET_LEN_MAX\<rparr>]"
    by blast
  show ?case
    using block_send_ready [OF v(1)] v(2) u(2) off len l16 0(2,3)
    by (simp add: block_send_offer rpmsg_at_enc)
qed

section \<open>The messages handed to the kernel\<close>

text \<open>The abstract state of the transmit side: the messages in the buffers handed over
  since the used index had the value \<open>u0\<close>, oldest first.\<close>

definition buf_addr :: "vring \<times> vmem \<Rightarrow> nat \<Rightarrow> u32" where
  "buf_addr v i = desc_addr (desc (snd v) ! i)"

definition tx_sent :: "u16 \<Rightarrow> 'a rproc_scheme \<Rightarrow> (u32 \<times> u32 \<times> u16 \<times> u8 list) list" where
  "tx_sent u0 s = map (\<lambda>e. rpmsg_at (mem s) (buf_addr (tx_vring s) (unat (elem_id e))))
     (used_since u0 (tx_vring s))"

text \<open>Buffer ownership: no descriptor is pending twice or pending and handed over, the
  buffers do not overlap, and what was handed over fits its buffer.\<close>

definition tx_ids :: "u16 \<Rightarrow> vring \<times> vmem \<Rightarrow> nat list" where
  "tx_ids u0 v = map (\<lambda>e. unat (elem_id e)) (used_since u0 v) @ map unat (pending_bufs v)"

definition bufs_apart :: "vring \<times> vmem \<Rightarrow> bool" where
  "bufs_apart v \<longleftrightarrow> (\<forall>i < VRING_SIZE. \<forall>j < VRING_SIZE. i \<noteq> j \<longrightarrow> apart (buf_addr v i) 512 (buf_addr v j) 512)"

definition tx_own :: "u16 \<Rightarrow> 'a rproc_scheme \<Rightarrow> bool" where
  "tx_own u0 s \<longleftrightarrow> distinct (tx_ids u0 (tx_vring s)) \<and> (\<forall>i \<in> set (tx_ids u0 (tx_vring s)). i < VRING_SIZE) \<and>
     bufs_apart (tx_vring s) \<and>
     (\<forall>e \<in> set (used_since u0 (tx_vring s)).
        unat (rd16 (mem s) (buf_addr (tx_vring s) (unat (elem_id e)) + 12)) \<le> 496)"

lemma rd_bytes_part:
  "k + n \<le> N \<Longrightarrow> rd_bytes m (a + of_nat k) n = take n (drop k (rd_bytes m a N))"
  by (simp add: rd_bytes_drop)

lemma rpmsg_at_cong:
  assumes eq: "rd_bytes m' a 512 = rd_bytes m a 512" and len: "unat (rd16 m (a + 12)) \<le> 496"
  shows "rpmsg_at m' a = rpmsg_at m a" and "rd16 m' (a + 12) = rd16 m (a + 12)"
proof -
  have part: "rd_bytes m' (a + of_nat k) n = rd_bytes m (a + of_nat k) n" if "k + n \<le> 512" for k n
    using rd_bytes_part [OF that] eq by simp
  show l: "rd16 m' (a + 12) = rd16 m (a + 12)" using part [of 12 2] by (simp add: rd16_def)
  show "rpmsg_at m' a = rpmsg_at m a"
    using part [of 0 4] part [of 4 4] part [of 14 2] part [of 16 "unat (rd16 m (a + 12))"] len
    unfolding rpmsg_at_def l by (simp add: rd16_def rd32_def)
qed

lemma tx_own_room:
  assumes "tx_own u0 s" and "pending_bufs (tx_vring s) = d # ds"
  shows "unat d < VRING_SIZE" and "used_count u0 (tx_vring s) < VRING_SIZE"
proof -
  show "unat d < VRING_SIZE" using assms by (simp add: tx_own_def tx_ids_def)
  let ?I = "set (tx_ids u0 (tx_vring s))"
  have "?I \<subseteq> {..<VRING_SIZE}" using assms(1) by (auto simp: tx_own_def)
  then have "card ?I \<le> VRING_SIZE" using card_mono [of "{..<VRING_SIZE}" ?I] by simp
  moreover have "card ?I = length (tx_ids u0 (tx_vring s))"
    using assms(1) by (simp add: tx_own_def distinct_card)
  ultimately show "used_count u0 (tx_vring s) < VRING_SIZE"
    using assms(2) by (simp add: tx_ids_def)
qed

text \<open>Writing a message into the oldest free buffer leaves the messages handed over as they are.\<close>

lemma sent_undisturbed:
  assumes own: "tx_own u0 s" and p: "pending_bufs (tx_vring s) = d # ds" and len: "length msg \<le> 512"
    and e: "e \<in> set (used_since u0 (tx_vring s))"
  defines "i \<equiv> unat (elem_id e)" and "m \<equiv> wr_bytes (mem s) (buf_addr (tx_vring s) (unat d)) msg"
  shows "i < VRING_SIZE" and "unat (rd16 (mem s) (buf_addr (tx_vring s) i + 12)) \<le> 496"
    and "rpmsg_at m (buf_addr (tx_vring s) i) = rpmsg_at (mem s) (buf_addr (tx_vring s) i)"
    and "rd16 m (buf_addr (tx_vring s) i + 12) = rd16 (mem s) (buf_addr (tx_vring s) i + 12)"
proof -
  let ?w = "tx_vring s"
  have "i \<in> (\<lambda>e. unat (elem_id e)) ` set (used_since u0 ?w)" using e by (auto simp: i_def)
  moreover have "unat d \<notin> (\<lambda>e. unat (elem_id e)) ` set (used_since u0 ?w)"
    using own p by (simp add: tx_own_def tx_ids_def)
  ultimately have ne: "i \<noteq> unat d" by metis
  show i: "i < VRING_SIZE" and lt: "unat (rd16 (mem s) (buf_addr ?w i + 12)) \<le> 496"
    using own e by (simp_all add: tx_own_def tx_ids_def i_def)
  have "apart (buf_addr ?w i) 512 (buf_addr ?w (unat d)) 512"
    using own i ne tx_own_room(1) [OF own p] by (simp add: tx_own_def bufs_apart_def)
  then have eq: "rd_bytes m (buf_addr ?w i) 512 = rd_bytes (mem s) (buf_addr ?w i) 512"
    unfolding m_def using len by (intro rd_wr_apart) (auto elim: apart_sub)
  show "rpmsg_at m (buf_addr ?w i) = rpmsg_at (mem s) (buf_addr ?w i)"
    "rd16 m (buf_addr ?w i + 12) = rd16 (mem s) (buf_addr ?w i + 12)"
    using rpmsg_at_cong [OF eq lt] by simp_all
qed

text \<open>Refinement: sending appends the message to the messages handed over, uses the
  oldest free buffer, keeps ownership, and changes nothing else of the firmware.\<close>

lemma block_send_appends:
  assumes inv: "rings_inv s" and own: "tx_own u0 s" and p: "pending_bufs (tx_vring s) = d # ds"
    and len: "len \<le> DATA_LEN_MAX" "unat len \<le> length data"
  shows "\<exists>v m. block_send_message src dst data len s = Some (s\<lparr>tx_vring := v, mem := m,
        io_log := io_log s @ (if notifies True (tx_vring s) then [kick_event s] else [])\<rparr>) \<and>
      tx_sent u0 (s\<lparr>tx_vring := v, mem := m\<rparr>) = tx_sent u0 s @ [(src, dst, 0, take (unat len) data)] \<and>
      tx_own u0 (s\<lparr>tx_vring := v, mem := m\<rparr>) \<and> pending_bufs v = ds \<and> vring_wf v \<and>
      notify (fst v) = notify (fst (tx_vring s)) \<and>
      map desc_addr (desc (snd v)) = map desc_addr (desc (snd (tx_vring s)))"
proof -
  let ?w = "tx_vring s" and ?a = "buf_addr (tx_vring s) (unat d)"
  let ?msg = "enc_hdr src dst (ucast len) @ take (unat len) data"
  let ?m = "wr_bytes (mem s) ?a ?msg"
  note room = tx_own_room [OF own p]
  from send_message_ok [OF inv p room len, of src dst] obtain v where
    v: "send_message src dst data len s = Some (0, s\<lparr>tx_vring := v, mem := ?m,
        io_log := io_log s @ (if notifies True (tx_vring s) then [kick_event s] else [])\<rparr>)"
    "used_since u0 v = used_since u0 ?w @ [\<lparr>elem_id = ucast d, elem_len = PACKET_LEN_MAX\<rparr>]"
    "pending_bufs v = ds" "vring_wf v" "notify (fst v) = notify (fst ?w)"
    "map desc_addr (desc (snd v)) = map desc_addr (desc (snd ?w))"
    by (auto simp: buf_addr_def)
  have "length (desc (snd v)) = VRING_SIZE" "length (desc (snd ?w)) = VRING_SIZE"
    using v(4) inv by (cases v; cases ?w; simp add: rings_inv_def vring_wf_def)+
  then have addr: "buf_addr v i = buf_addr ?w i" if "i < VRING_SIZE" for i
    using v(6) that unfolding buf_addr_def by (metis nth_map)
  have idd: "unat (ucast d :: u32) = unat d" by simp
  have l16: "unat (ucast len :: u16) = unat len"
    using len(1) by (simp add: unsigned_ucast_eq take_bit_nat_eq_self word_le_nat_alt)
  have msg: "length ?msg \<le> 512" using len(1) by (simp add: word_le_nat_alt)
  have ap: "bufs_apart ?w" using own by (simp add: tx_own_def)
  have old: "rpmsg_at ?m (buf_addr v i) = rpmsg_at (mem s) (buf_addr ?w i)"
    "rd16 ?m (buf_addr v i + 12) = rd16 (mem s) (buf_addr ?w i + 12)"
    "i < VRING_SIZE" "unat (rd16 (mem s) (buf_addr ?w i + 12)) \<le> 496"
    if e: "e \<in> set (used_since u0 ?w)" and i: "i = unat (elem_id e)" for e i
    using sent_undisturbed [OF own p msg e] addr by (simp_all add: i)
  have new: "rpmsg_at ?m (buf_addr v (unat d)) = (src, dst, 0, take (unat len) data)"
    using addr [OF room(1)] l16 len rpmsg_at_enc [of "take (unat len) data" "ucast len"] by simp
  have new_len: "rd16 ?m (buf_addr v (unat d) + 12) = ucast len"
    using addr [OF room(1)] rd_wr_inside [of 12 2 ?msg "mem s" ?a] msg
    by (simp add: rd16_def enc_hdr_def codec_simps)
  have "bufs_apart v" using ap addr by (simp add: bufs_apart_def)
  moreover have "tx_ids u0 v = map (\<lambda>e. unat (elem_id e)) (used_since u0 ?w) @ unat d # map unat ds"
    using v(2,3) by (simp add: tx_ids_def)
  moreover have "tx_ids u0 ?w = map (\<lambda>e. unat (elem_id e)) (used_since u0 ?w) @ unat d # map unat ds"
    using p by (simp add: tx_ids_def)
  ultimately have "tx_own u0 (s\<lparr>tx_vring := v, mem := ?m\<rparr>)"
    using own old new_len v(2) l16 len(1) by (auto simp: tx_own_def word_le_nat_alt)
  moreover have "tx_sent u0 (s\<lparr>tx_vring := v, mem := ?m\<rparr>) = tx_sent u0 s @ [(src, dst, 0, take (unat len) data)]"
    using v(2) old(1) new by (simp add: tx_sent_def)
  ultimately show ?thesis using block_send_ready [OF v(1)] v by blast
qed

section \<open>Diagnostics do not disturb messages\<close>

definition trace_region :: "'a rproc_scheme \<Rightarrow> u32 \<times> u32" where
  "trace_region s = (if trace_buf s = 0 then (trace_da (trace (resources s)), trace_len (trace (resources s)))
     else (trace_buf s, trace_size s))"

text \<open>The write position is inside the trace buffer, and the buffer overlaps no message
  buffer.\<close>

definition trace_ok :: "'a rproc_scheme \<Rightarrow> bool" where
  "trace_ok s \<longleftrightarrow> (trace_buf s \<noteq> 0 \<longrightarrow> trace_ind s \<le> trace_size s) \<and>
     (\<forall>i < VRING_SIZE. case trace_region s of (b, n) \<Rightarrow> apart (buf_addr (tx_vring s) i) 512 b (unat n))"

lemma trace_write_outside:
  assumes "trace_ind s \<le> trace_size s" and "trace_write data s = (r, s')"
  shows "trace_ind s' \<le> trace_size s' \<and> (\<forall>x. unat (trace_size s) \<le> unat (x - trace_buf s) \<longrightarrow> mem s' x = mem s x)"
proof (cases "trace_buf s \<noteq> 0 \<and> length data < unat (trace_size s - trace_ind s)")
  case False
  with assms show ?thesis by (auto simp: trace_write_def Let_def split: if_splits)
next
  case True
  have d: "unat (trace_size s - trace_ind s) = unat (trace_size s) - unat (trace_ind s)"
    using assms(1) by (simp add: unat_sub word_le_nat_alt)
  moreover have "unat (trace_ind s) \<le> unat (trace_size s)" using assms(1) by (simp add: word_le_nat_alt)
  ultimately have fit: "unat (trace_ind s) + length data < unat (trace_size s)"
    using True by linarith
  have s': "s' = s\<lparr>mem := wr_bytes (mem s) (trace_buf s + trace_ind s) data,
      trace_ind := trace_ind s + of_nat (length data)\<rparr>"
    using True assms(2) by (auto simp: trace_write_def Let_def)
  have "unat (trace_ind s + of_nat (length data)) = unat (trace_ind s) + length data"
    using fit unat_u32_less [of "trace_size s"] by (simp add: unat_word_ariths unat_of_nat)
  with fit s' have "trace_ind s' \<le> trace_size s'" by (simp add: word_le_nat_alt)
  moreover have "mem s' x = mem s x" if x: "unat (trace_size s) \<le> unat (x - trace_buf s)" for x
  proof -
    have "apart (trace_buf s + of_nat (unat (trace_ind s))) (length data) (trace_buf s) (unat (trace_ind s))"
      using fit unat_u32_less [of "trace_size s"] by (intro apart_next) simp
    moreover have "unat (x - trace_buf s - trace_ind s) = unat (x - trace_buf s) - unat (trace_ind s)"
      using x assms(1) by (intro unat_sub) (simp add: word_le_nat_alt)
    then have "unat (x - (trace_buf s + trace_ind s)) = unat (x - trace_buf s) - unat (trace_ind s)"
      by (simp add: diff_diff_eq)
    ultimately have "length data \<le> unat (x - (trace_buf s + trace_ind s))" using x fit by simp
    then show ?thesis using s' by (simp add: wr_bytes_def)
  qed
  ultimately show ?thesis by blast
qed

lemma fprintf_stderr_region:
  assumes "trace_ok s"
  shows "\<exists>m b i n. fprintf_stderr msg s = s\<lparr>mem := m, trace_buf := b, trace_ind := i, trace_size := n\<rparr> \<and>
    trace_region (fprintf_stderr msg s) = trace_region s \<and> (b \<noteq> 0 \<longrightarrow> i \<le> n) \<and>
    (\<forall>x. unat (snd (trace_region s)) \<le> unat (x - fst (trace_region s)) \<longrightarrow> m x = mem s x)"
proof -
  let ?t = "trace_setup s" and ?u = "snd (trace_write msg (trace_setup s))"
  have t: "trace_ind ?t \<le> trace_size ?t \<or> trace_buf ?t = 0" "mem ?t = mem s"
    "trace_buf ?t \<noteq> 0 \<longrightarrow> trace_region s = (trace_buf ?t, trace_size ?t)"
    using assms by (auto simp: trace_setup_def trace_ok_def trace_region_def
        rpmsg_get_trace_buf_settings_def Let_def)
  have eq: "?u = s\<lparr>mem := mem ?u, trace_buf := trace_buf ?t, trace_ind := trace_ind ?u, trace_size := trace_size ?t\<rparr>"
    by (simp add: trace_write_def trace_setup_def Let_def)
  have reg: "trace_region ?u = trace_region s"
    by (simp add: trace_write_def trace_setup_def trace_region_def rpmsg_get_trace_buf_settings_def Let_def)
  show ?thesis
  proof (cases "trace_buf ?t = 0")
    case True
    then have "mem ?u = mem s" using t(2) by (simp add: trace_write_def)
    with True eq reg show ?thesis unfolding fprintf_stderr_def
      by (intro exI [of _ "mem ?u"] exI [of _ "trace_buf ?t"] exI [of _ "trace_ind ?u"] exI [of _ "trace_size ?t"]) simp
  next
    case False
    have "trace_size ?u = trace_size ?t" by (simp add: trace_write_def Let_def)
    with trace_write_outside [of ?t msg "fst (trace_write msg ?t)" ?u] t False eq reg
    show ?thesis unfolding fprintf_stderr_def
      by (intro exI [of _ "mem ?u"] exI [of _ "trace_buf ?t"] exI [of _ "trace_ind ?u"] exI [of _ "trace_size ?t"]) auto
  qed
qed

lemma fprintf_stderr_keeps:
  assumes ok: "trace_ok s"
  shows "trace_ok (fprintf_stderr msg s)" and "tx_vring (fprintf_stderr msg s) = tx_vring s"
    and "rings_inv s \<Longrightarrow> rings_inv (fprintf_stderr msg s)"
    and "channels (fprintf_stderr msg s) = channels s"
    and "next_rpmsg_addr (fprintf_stderr msg s) = next_rpmsg_addr s"
    and "i < VRING_SIZE \<Longrightarrow> rd_bytes (mem (fprintf_stderr msg s)) (buf_addr (tx_vring s) i) 512 =
      rd_bytes (mem s) (buf_addr (tx_vring s) i) 512"
proof -
  from fprintf_stderr_region [OF ok, of msg] obtain m b j n where
    eq: "fprintf_stderr msg s = s\<lparr>mem := m, trace_buf := b, trace_ind := j, trace_size := n\<rparr>"
    and reg: "trace_region (fprintf_stderr msg s) = trace_region s" "b \<noteq> 0 \<longrightarrow> j \<le> n"
    and out: "\<forall>x. unat (snd (trace_region s)) \<le> unat (x - fst (trace_region s)) \<longrightarrow> m x = mem s x" by blast
  show tx: "tx_vring (fprintf_stderr msg s) = tx_vring s" by (simp add: eq)
  show "trace_ok (fprintf_stderr msg s)"
    using ok reg unfolding trace_ok_def tx by (simp add: eq)
  show "rings_inv s \<Longrightarrow> rings_inv (fprintf_stderr msg s)" by (simp add: eq rings_inv_def)
  show "channels (fprintf_stderr msg s) = channels s" "next_rpmsg_addr (fprintf_stderr msg s) = next_rpmsg_addr s"
    by (simp_all add: eq)
  assume "i < VRING_SIZE"
  then have "apart (buf_addr (tx_vring s) i) 512 (fst (trace_region s)) (unat (snd (trace_region s)))"
    using ok by (auto simp: trace_ok_def split: prod.splits)
  then have "m (buf_addr (tx_vring s) i + of_nat k) = mem s (buf_addr (tx_vring s) i + of_nat k)" if "k < 512" for k
    using out that by (auto simp: apart_def unat_of_nat not_less dest!: spec [of _ "buf_addr (tx_vring s) i + of_nat k"])
  then show "rd_bytes (mem (fprintf_stderr msg s)) (buf_addr (tx_vring s) i) 512 =
      rd_bytes (mem s) (buf_addr (tx_vring s) i) 512"
    by (simp add: eq rd_bytes_def)
qed

lemma fprintf_stderr_sent:
  assumes "trace_ok s" and own: "tx_own u0 s"
  shows "tx_sent u0 (fprintf_stderr msg s) = tx_sent u0 s" and "tx_own u0 (fprintf_stderr msg s)"
proof -
  note k = fprintf_stderr_keeps [OF assms(1), where msg = msg]
  have *: "rpmsg_at (mem (fprintf_stderr msg s)) (buf_addr (tx_vring s) (unat (elem_id e))) =
      rpmsg_at (mem s) (buf_addr (tx_vring s) (unat (elem_id e))) \<and>
    rd16 (mem (fprintf_stderr msg s)) (buf_addr (tx_vring s) (unat (elem_id e)) + 12) =
      rd16 (mem s) (buf_addr (tx_vring s) (unat (elem_id e)) + 12)"
    if e: "e \<in> set (used_since u0 (tx_vring s))" for e
  proof -
    have "unat (elem_id e) < VRING_SIZE" "unat (rd16 (mem s) (buf_addr (tx_vring s) (unat (elem_id e)) + 12)) \<le> 496"
      using own e by (auto simp: tx_own_def tx_ids_def)
    with rpmsg_at_cong [OF k(6)] show ?thesis by blast
  qed
  show "tx_sent u0 (fprintf_stderr msg s) = tx_sent u0 s"
    using * by (simp add: tx_sent_def k(2))
  show "tx_own u0 (fprintf_stderr msg s)"
    using * own by (simp add: tx_own_def k(2))
qed

section \<open>Routing\<close>

definition matches :: "u32 \<Rightarrow> rpmsg_channel \<Rightarrow> bool" where
  "matches dst c \<longleftrightarrow> (ch_state c = CH_ANNOUNCED \<or> ch_state c = CH_UP) \<and> dst = local_addr c"

text \<open>The state in which the callback of the addressed channel runs: the partner's address
  is remembered and the channel is up.\<close>

definition bring_up :: "nat \<Rightarrow> u32 \<Rightarrow> 'a rproc_scheme \<Rightarrow> 'a rproc_scheme" where
  "bring_up i src s = s\<lparr>channels := (channels s)[i := (channels s ! i)\<lparr>remote_addr := src, ch_state := CH_UP\<rparr>]\<rparr>"

lemma deliver_to_skip:
  "\<forall>i \<in> set is. i < length (channels s) \<and> \<not> matches (rd32 (mem s) (hdr + 4)) (channels s ! i) \<Longrightarrow>
   deliver_to deliver hdr is s = Some s"
  by (induction "is") (auto simp: defined_simps matches_def)

lemma deliver_to_first:
  assumes "\<forall>j \<in> set is. j < length (channels s) \<and> \<not> matches (rd32 (mem s) (hdr + 4)) (channels s ! j)"
    and "i < length (channels s)" and "matches (rd32 (mem s) (hdr + 4)) (channels s ! i)"
    and "ch_cb (channels s ! i) = Some cb"
  shows "deliver_to deliver hdr (is @ i # js) s =
    deliver cb i (hdr + 16) (ucast (rd16 (mem s) (hdr + 12))) (bring_up i (rd32 (mem s) hdr) s)"
  using assms by (induction "is") (auto simp: defined_simps matches_def bring_up_def)

lemma ch_inv_matches:
  assumes "ch_inv base s" and "i < MAX_RPMSG_CH" and "j < MAX_RPMSG_CH"
    and "matches dst (channels s ! i)" and "matches dst (channels s ! j)"
  shows "i = j"
proof -
  from assms(1) obtain k where k: "k \<le> MAX_RPMSG_CH"
    "\<forall>i < MAX_RPMSG_CH. (ch_state (channels s ! i) = CH_UNUSED \<longleftrightarrow> k \<le> i) \<and>
        (i < k \<longrightarrow> local_addr (channels s ! i) = base + of_nat i)"
    by (auto simp: ch_inv_def)
  have "i < k" "j < k" using k(2) assms(2-5) by (force simp: matches_def not_le [symmetric])+
  with k(2) assms have "base + of_nat i = base + of_nat j" by (auto simp: matches_def)
  then have "unat (of_nat i :: u32) = unat (of_nat j :: u32)" by simp
  then show "i = j" using assms(2,3) by (simp add: unat_of_nat)
qed

lemma deliver_to_unique:
  assumes "ch_inv base s" and "i < MAX_RPMSG_CH" and "matches (rd32 (mem s) (hdr + 4)) (channels s ! i)"
    and "ch_cb (channels s ! i) = Some cb"
  shows "deliver_to deliver hdr [0..<MAX_RPMSG_CH] s =
    deliver cb i (hdr + 16) (ucast (rd16 (mem s) (hdr + 12))) (bring_up i (rd32 (mem s) hdr) s)"
proof -
  have "[0..<MAX_RPMSG_CH] = [0..<i] @ i # [Suc i..<MAX_RPMSG_CH]"
    using assms(2) upt_add_eq_append [of 0 i "MAX_RPMSG_CH - i"] by (simp add: upt_conv_Cons del: upt_Suc)
  moreover have "j < length (channels s) \<and> \<not> matches (rd32 (mem s) (hdr + 4)) (channels s ! j)" if "j < i" for j
    using assms(1,2) that ch_inv_matches [OF assms(1,2) _ assms(3), of j] by (auto simp: ch_inv_def)
  ultimately show ?thesis
    using assms deliver_to_first [of "[0..<i]" s hdr i cb] by (auto simp: ch_inv_def)
qed

lemma publish_rx_ok:
  assumes "vring_wf (rx_vring s)" and "unat d < VRING_SIZE" and "used_count u0 (rx_vring s) < VRING_SIZE"
  shows "\<exists>v. publish_rx d len False s = Some (s\<lparr>rx_vring := v\<rparr>) \<and>
      used_since u0 v = used_since u0 (rx_vring s) @ [\<lparr>elem_id = ucast d, elem_len = len\<rparr>] \<and>
      pending_bufs v = pending_bufs (rx_vring s) \<and> vring_wf v \<and> fst v = fst (rx_vring s) \<and>
      map desc_addr (desc (snd v)) = map desc_addr (desc (snd (rx_vring s)))"
proof -
  obtain vr m where v: "rx_vring s = (vr, m)" by (cases "rx_vring s")
  from vring_publish_buf_Some [OF assms(1) [unfolded v] assms(2) assms(3) [unfolded v], of len False] v
  show ?thesis by (auto simp: publish_rx_def notifies_def run_notify_def)
qed

section \<open>The receive loop and its callbacks\<close>

text \<open>What the receive loop needs of the callbacks: \<open>ok n\<close> says that the state can take
  \<open>n\<close> more messages. A callback that is called in such a state returns, uses up one of
  them and leaves the receive ring alone.\<close>

locale rx_client =
  fixes deliver :: "rpmsg_rx_callback \<Rightarrow> nat \<Rightarrow> u32 \<Rightarrow> u32 \<Rightarrow> 'a rproc_scheme \<Rightarrow> 'a rproc_scheme option"
    and ok :: "nat \<Rightarrow> 'a rproc_scheme \<Rightarrow> bool"
  assumes ok_rx: "ok n s \<Longrightarrow> vring_wf (rx_vring s) \<and> length (channels s) = 5"
    and ok_upd: "ok n s \<Longrightarrow> vring_wf v \<Longrightarrow> notify (fst v) = notify (fst (rx_vring s)) \<Longrightarrow> ok n (s\<lparr>rx_vring := v\<rparr>)"
    and ok_less: "ok (Suc n) s \<Longrightarrow> ok n s"
    and ok_bring_up: "ok n s \<Longrightarrow> i < 5 \<Longrightarrow> ok n (bring_up i src s)"
    and deliver_ok: "ok (Suc n) s \<Longrightarrow> i < 5 \<Longrightarrow>
      \<exists>s'. deliver cb i a l s = Some s' \<and> ok n s' \<and> rx_vring s' = rx_vring s"
begin

lemma deliver_to_ok:
  "ok (Suc n) s \<Longrightarrow> \<forall>i \<in> set is. i < 5 \<Longrightarrow>
   \<exists>s'. deliver_to deliver hdr is s = Some s' \<and> ok n s' \<and> rx_vring s' = rx_vring s"
proof (induction "is" arbitrary: s)
  case Nil
  then show ?case using ok_less by auto
next
  case (Cons i js)
  have i: "i < length (channels s)" "i < 5" using ok_rx [OF Cons.prems(1)] Cons.prems(2) by simp_all
  let ?src = "rd32 (mem s) hdr"
  have up: "ok (Suc n) (bring_up i ?src s)" by (rule ok_bring_up [OF Cons.prems(1) i(2)])
  have rx: "rx_vring (bring_up i ?src s) = rx_vring s" by (simp add: bring_up_def)
  show ?case
  proof (cases "matches (rd32 (mem s) (hdr + 4)) (channels s ! i)")
    case False
    then have "deliver_to deliver hdr (i # js) s = deliver_to deliver hdr js s"
      using i by (auto simp: defined_simps matches_def)
    with Cons show ?thesis by simp
  next
    case True
    then have eq: "deliver_to deliver hdr (i # js) s = (case ch_cb (channels s ! i) of
        Some cb \<Rightarrow> deliver cb i (hdr + 16) (ucast (rd16 (mem s) (hdr + 12))) (bring_up i ?src s)
      | None \<Rightarrow> deliver_to deliver hdr js (bring_up i ?src s))"
      using i by (simp add: defined_simps matches_def bring_up_def Let_def split: option.split)
    show ?thesis
    proof (cases "ch_cb (channels s ! i)")
      case None
      with eq Cons.IH [OF up] Cons.prems(2) rx show ?thesis by simp
    next
      case (Some cb)
      with eq deliver_ok [OF up i(2)] rx show ?thesis by simp
    qed
  qed
qed

lemma read_message_ok:
  assumes "ok (Suc n) s" and p: "pending_bufs (rx_vring s) = d # ds" and d: "unat d < VRING_SIZE"
    and room: "used_count u0 (rx_vring s) < VRING_SIZE"
  shows "\<exists>s'. read_message deliver s = Some s' \<and> ok n s' \<and> pending_bufs (rx_vring s') = ds \<and>
    used_since u0 (rx_vring s') = used_since u0 (rx_vring s) @ [\<lparr>elem_id = ucast d, elem_len = PACKET_LEN_MAX\<rparr>]"
proof -
  obtain vr m where v: "rx_vring s = (vr, m)" by (cases "rx_vring s")
  have wf: "vring_wf (vr, m)" using ok_rx [OF assms(1)] v by simp
  note get = vring_get_buf_Cons [OF wf p [unfolded v]]
  let ?rx = "(vr\<lparr>avail_tail := avail_tail vr + 1\<rparr>, m)"
  have u: "used_count u0 ?rx = used_count u0 (vr, m)" "used_since u0 ?rx = used_since u0 (vr, m)"
    using used_frame [of ?rx "(vr, m)"] by simp_all
  have "ok (Suc n) (s\<lparr>rx_vring := ?rx\<rparr>)" by (rule ok_upd [OF assms(1) get(3)]) (simp add: v)
  from deliver_to_ok [OF this, of "[0..<MAX_RPMSG_CH]" "desc_addr (desc m ! unat d)"] obtain s1 where
    s1: "deliver_to deliver (desc_addr (desc m ! unat d)) [0..<MAX_RPMSG_CH] (s\<lparr>rx_vring := ?rx\<rparr>) = Some s1"
    "ok n s1" "rx_vring s1 = ?rx" by auto
  from publish_rx_ok [of s1 d u0 PACKET_LEN_MAX] get(3) s1(3) d room v u obtain v' where
    v': "publish_rx d PACKET_LEN_MAX False s1 = Some (s1\<lparr>rx_vring := v'\<rparr>)"
    "used_since u0 v' = used_since u0 ?rx @ [\<lparr>elem_id = ucast d, elem_len = PACKET_LEN_MAX\<rparr>]"
    "pending_bufs v' = pending_bufs ?rx" "vring_wf v'" "fst v' = fst ?rx" by auto
  have "ok n (s1\<lparr>rx_vring := v'\<rparr>)" by (rule ok_upd [OF s1(2) v'(4)]) (simp add: v'(5) s1(3))
  moreover have "read_message deliver s = Some (s1\<lparr>rx_vring := v'\<rparr>)"
    using get(1) s1(1) v'(1) v d wf
    by (simp add: read_message_def vq.index_nonneg defined_simps vring_wf_def del: upt_Suc)
  ultimately show ?thesis using v' get(2) u v by simp
qed

text \<open>The loop returns, has handled every message that was pending, in order, and has
  handed all their buffers back.\<close>

lemma rx_loop_ok:
  "ok n s \<Longrightarrow> length (pending_bufs (rx_vring s)) \<le> n \<Longrightarrow> heads_ok (rx_vring s) \<Longrightarrow>
   used_count u0 (rx_vring s) + length (pending_bufs (rx_vring s)) \<le> VRING_SIZE \<Longrightarrow>
   \<exists>s'. rx_loop deliver s = Some s' \<and> pending_bufs (rx_vring s') = [] \<and>
     used_since u0 (rx_vring s') = used_since u0 (rx_vring s) @
       map (\<lambda>d. \<lparr>elem_id = ucast d, elem_len = PACKET_LEN_MAX\<rparr>) (pending_bufs (rx_vring s)) \<and>
     ok (n - length (pending_bufs (rx_vring s))) s'"
proof (induction "pending_bufs (rx_vring s)" arbitrary: s n)
  case Nil
  then show ?case by (simp add: rx_loop.simps vring_available_iff)
next
  case (Cons d ds)
  note p = Cons.hyps(2) [symmetric]
  from Cons.prems(2) p obtain k where n: "n = Suc k"
    by (metis Suc_le_D length_Cons)
  have d: "unat d < VRING_SIZE" and hs: "\<forall>d \<in> set ds. unat d < VRING_SIZE"
    using Cons.prems(3) p by (simp_all add: heads_ok_def)
  have room: "used_count u0 (rx_vring s) + length ds < VRING_SIZE" using Cons.prems(4) p by simp
  then have "used_count u0 (rx_vring s) < VRING_SIZE" by simp
  from read_message_ok [OF Cons.prems(1) [unfolded n] p d this] obtain s1 where
    s1: "read_message deliver s = Some s1" "ok k s1" "pending_bufs (rx_vring s1) = ds"
    "used_since u0 (rx_vring s1) = used_since u0 (rx_vring s) @ [\<lparr>elem_id = ucast d, elem_len = PACKET_LEN_MAX\<rparr>]"
    by blast
  have "used_count u0 (rx_vring s1) = used_count u0 (rx_vring s) + 1"
    using arg_cong [OF s1(4), of length] by simp
  with Cons.hyps(1) [OF s1(3) [symmetric] s1(2)] s1 n Cons.prems(2) p hs room
  obtain s' where "rx_loop deliver s1 = Some s'" "pending_bufs (rx_vring s') = []"
    "used_since u0 (rx_vring s') = used_since u0 (rx_vring s1) @
       map (\<lambda>d. \<lparr>elem_id = ucast d, elem_len = PACKET_LEN_MAX\<rparr>) ds" "ok (k - length ds) s'"
    by (auto simp: heads_ok_def)
  moreover have "rx_loop deliver s = rx_loop deliver s1"
    using s1(1) p by (subst rx_loop.simps) (simp add: vring_available_iff)
  ultimately show ?case using s1(4) p n by simp
qed

end

section \<open>Creating channels\<close>

text \<open>Everything the message layer promises its users while it transmits.\<close>

definition link_ok :: "u16 \<Rightarrow> u32 \<Rightarrow> 'a rproc_scheme \<Rightarrow> bool" where
  "link_ok u0 base s \<longleftrightarrow> rings_inv s \<and> tx_own u0 s \<and> trace_ok s \<and> ch_inv base s"

lemma ch_inv_cong:
  "channels s' = channels s \<Longrightarrow> next_rpmsg_addr s' = next_rpmsg_addr s \<Longrightarrow> ch_inv base s' = ch_inv base s"
  by (simp add: ch_inv_def)

lemma fprintf_stderr_link_ok:
  assumes "link_ok u0 base s"
  shows "link_ok u0 base (fprintf_stderr msg s)"
proof -
  have t: "trace_ok s" and o: "tx_own u0 s" using assms by (simp_all add: link_ok_def)
  note k = fprintf_stderr_keeps [OF t, where msg = msg]
  show ?thesis
    using assms k fprintf_stderr_sent [OF t o] ch_inv_cong [OF k(4,5)] by (simp add: link_ok_def)
qed

text \<open>The rest of the firmware state is not touched by a transmission.\<close>

lemma block_send_link:
  assumes ok: "link_ok u0 base s" and p: "pending_bufs (tx_vring s) = d # ds"
    and len: "len \<le> DATA_LEN_MAX" "unat len \<le> length data"
  shows "\<exists>v m l. block_send_message src dst data len s = Some (s\<lparr>tx_vring := v, mem := m, io_log := l\<rparr>) \<and>
      tx_sent u0 (s\<lparr>tx_vring := v, mem := m, io_log := l\<rparr>) = tx_sent u0 s @ [(src, dst, 0, take (unat len) data)] \<and>
      link_ok u0 base (s\<lparr>tx_vring := v, mem := m, io_log := l\<rparr>) \<and> pending_bufs v = ds"
proof -
  have inv: "rings_inv s" "tx_own u0 s" "trace_ok s" "ch_inv base s" using ok by (simp_all add: link_ok_def)
  let ?l = "io_log s @ (if notifies True (tx_vring s) then [kick_event s] else [])"
  from block_send_appends [OF inv(1,2) p len, of src dst] obtain v m where
    v: "block_send_message src dst data len s = Some (s\<lparr>tx_vring := v, mem := m, io_log := ?l\<rparr>)"
    "tx_sent u0 (s\<lparr>tx_vring := v, mem := m\<rparr>) = tx_sent u0 s @ [(src, dst, 0, take (unat len) data)]"
    "tx_own u0 (s\<lparr>tx_vring := v, mem := m\<rparr>)" "pending_bufs v = ds" "vring_wf v"
    "notify (fst v) = notify (fst (tx_vring s))"
    "map desc_addr (desc (snd v)) = map desc_addr (desc (snd (tx_vring s)))" by blast
  have addr: "buf_addr v i = buf_addr (tx_vring s) i" if "i < VRING_SIZE" for i
  proof -
    have "length (desc (snd v)) = VRING_SIZE" "length (desc (snd (tx_vring s))) = VRING_SIZE"
      using v(5) inv(1) by (cases v; cases "tx_vring s"; simp add: rings_inv_def vring_wf_def)+
    then show ?thesis using that v(7) unfolding buf_addr_def by (metis nth_map)
  qed
  have "link_ok u0 base (s\<lparr>tx_vring := v, mem := m, io_log := ?l\<rparr>)"
  proof -
    have "trace_ok (s\<lparr>tx_vring := v, mem := m, io_log := ?l\<rparr>)"
      using inv(3) addr by (auto simp: trace_ok_def trace_region_def split: if_splits)
    then show ?thesis using inv v by (simp add: link_ok_def rings_inv_def tx_own_def ch_inv_def)
  qed
  moreover have "tx_sent u0 (s\<lparr>tx_vring := v, mem := m, io_log := ?l\<rparr>) = tx_sent u0 s @ [(src, dst, 0, take (unat len) data)]"
    using v(2) by (simp add: tx_sent_def)
  ultimately show ?thesis using v by blast
qed

lemma ch_inv_announce:
  assumes inv: "ch_inv base s" and i: "find_index (\<lambda>c. ch_state c = CH_UNUSED) (channels s) = Some i"
  shows "next_rpmsg_addr s = base + of_nat i" and "i < MAX_RPMSG_CH"
    and "local_addr c = next_rpmsg_addr s \<Longrightarrow> ch_state c \<noteq> CH_UNUSED \<Longrightarrow>
      ch_inv base (s\<lparr>next_rpmsg_addr := next_rpmsg_addr s + 1, channels := (channels s)[i := c]\<rparr>)"
proof -
  from inv obtain k where k: "k \<le> MAX_RPMSG_CH" "length (channels s) = MAX_RPMSG_CH"
    "next_rpmsg_addr s = base + of_nat k"
    "\<And>j. j < MAX_RPMSG_CH \<Longrightarrow> (ch_state (channels s ! j) = CH_UNUSED \<longleftrightarrow> k \<le> j) \<and>
        (j < k \<longrightarrow> local_addr (channels s ! j) = base + of_nat j)"
    by (auto simp: ch_inv_def)
  note f = find_index_SomeD [OF i]
  show i5: "i < MAX_RPMSG_CH" using f k(2) by simp
  have "k \<le> i" using f k(4) [OF i5] by simp
  moreover have "\<not> k < i" using f k(4) [of k] i5 by auto
  ultimately have ki: "k = i" by simp
  show "next_rpmsg_addr s = base + of_nat i" using k(3) ki by simp
  assume c: "local_addr c = next_rpmsg_addr s" "ch_state c \<noteq> CH_UNUSED"
  have "(ch_state ((channels s)[i := c] ! j) = CH_UNUSED \<longleftrightarrow> Suc i \<le> j) \<and>
      (j < Suc i \<longrightarrow> local_addr ((channels s)[i := c] ! j) = base + of_nat j)"
    if "j < MAX_RPMSG_CH" for j
    using k(4) [OF that] c k(2,3) ki that by (cases "j = i") (auto simp: less_Suc_eq)
  then show "ch_inv base (s\<lparr>next_rpmsg_addr := next_rpmsg_addr s + 1, channels := (channels s)[i := c]\<rparr>)"
    using k(2,3) ki i5 unfolding ch_inv_def
    by (intro conjI exI [of _ "Suc i"]) (simp_all add: add.assoc add.commute [of 1])
qed

text \<open>A new channel gets the next address, which no other channel has, is announced to
  the kernel with its name, and can receive from then on.\<close>

lemma create_ch_ok:
  assumes ok: "link_ok u0 base s" and p: "pending_bufs (tx_vring s) = d # ds"
    and i: "find_index (\<lambda>c. ch_state c = CH_UNUSED) (channels s) = Some i"
  shows "\<exists>s'. rpmsg_create_ch name cb s = Some (Some i, s') \<and> link_ok u0 base s' \<and>
    tx_sent u0 s' = tx_sent u0 s @ [(base + of_nat i, LINUX_SERVICE_ANNOUNCEMENT_ADDR, 0, ns_msg name (base + of_nat i))] \<and>
    local_addr (channels s' ! i) = base + of_nat i \<and> ch_state (channels s' ! i) = CH_ANNOUNCED \<and>
    ch_cb (channels s' ! i) = cb \<and> remote_addr (channels s' ! i) = RPMSG_ADDR_ANY \<and>
    (\<forall>j. j \<noteq> i \<longrightarrow> channels s' ! j = channels s ! j) \<and> pending_bufs (tx_vring s') = ds \<and>
    rproc.more s' = rproc.more s"
proof -
  have inv: "rings_inv s" "tx_own u0 s" "trace_ok s" "ch_inv base s" using ok by (simp_all add: link_ok_def)
  note a = ch_inv_announce [OF inv(4) i]
  let ?c = "(channels s ! i)\<lparr>local_addr := next_rpmsg_addr s, remote_addr := RPMSG_ADDR_ANY,
      ch_name := strncpy (ch_name (channels s ! i)) name RPMSG_NAME_SIZE, ch_state := CH_ANNOUNCED, ch_cb := cb\<rparr>"
  let ?s1 = "s\<lparr>next_rpmsg_addr := next_rpmsg_addr s + 1, channels := (channels s)[i := ?c]\<rparr>"
  let ?s2 = "fprintf_stderr (announce_text name (next_rpmsg_addr s)) ?s1"
  have "trace_ok ?s1" using inv(3) by (auto simp: trace_ok_def trace_region_def split: if_splits)
  then have ok1: "link_ok u0 base ?s1"
    using inv a(3) [of ?c] by (simp add: link_ok_def rings_inv_def tx_own_def)
  have ok2: "link_ok u0 base ?s2" by (rule fprintf_stderr_link_ok [OF ok1])
  from ok1 have t1: "trace_ok ?s1" "tx_own u0 ?s1" by (simp_all add: link_ok_def)
  note k = fprintf_stderr_keeps [OF t1(1), where msg = "announce_text name (next_rpmsg_addr s)"]
  have p2: "pending_bufs (tx_vring ?s2) = d # ds" using k(2) p by simp
  have sent2: "tx_sent u0 ?s2 = tx_sent u0 s"
    using fprintf_stderr_sent(1) [OF t1] by (simp add: tx_sent_def)
  have len: "length (ns_msg name (next_rpmsg_addr s)) = 40" by (simp add: ns_msg_def)
  from block_send_link [OF ok2 p2, of 40 "ns_msg name (next_rpmsg_addr s)" "next_rpmsg_addr s" LINUX_SERVICE_ANNOUNCEMENT_ADDR] len
  obtain v m l where b: "block_send_message (next_rpmsg_addr s) LINUX_SERVICE_ANNOUNCEMENT_ADDR
      (ns_msg name (next_rpmsg_addr s)) 40 ?s2 = Some (?s2\<lparr>tx_vring := v, mem := m, io_log := l\<rparr>)"
    "tx_sent u0 (?s2\<lparr>tx_vring := v, mem := m, io_log := l\<rparr>) = tx_sent u0 ?s2 @
      [(next_rpmsg_addr s, LINUX_SERVICE_ANNOUNCEMENT_ADDR, 0, ns_msg name (next_rpmsg_addr s))]"
    "link_ok u0 base (?s2\<lparr>tx_vring := v, mem := m, io_log := l\<rparr>)" "pending_bufs v = ds" by auto
  have len_ch: "i < length (channels s)" using a(2) inv(4) by (simp add: ch_inv_def)
  have more: "rproc.more ?s2 = rproc.more s"
    by (simp add: fprintf_stderr_def trace_write_def trace_setup_def Let_def)
  have "rpmsg_create_ch name cb s = Some (Some i, ?s2\<lparr>tx_vring := v, mem := m, io_log := l\<rparr>)"
    using b(1) i by (simp add: rpmsg_create_ch_def Let_def)
  then show ?thesis using b(2-4) sent2 a(1) k(4) len_ch more
    by (intro exI [of _ "?s2\<lparr>tx_vring := v, mem := m, io_log := l\<rparr>"]) simp
qed

lemma create_ch_full:
  "find_index (\<lambda>c. ch_state c = CH_UNUSED) (channels s) = None \<Longrightarrow>
   \<exists>s'. rpmsg_create_ch name cb s = Some (None, s') \<and> channels s' = channels s \<and> next_rpmsg_addr s' = next_rpmsg_addr s"
  by (simp add: rpmsg_create_ch_def fprintf_stderr_def trace_write_def trace_setup_def Let_def)

section \<open>Initialisation\<close>

definition vmem_wf :: "vmem \<Rightarrow> bool" where
  "vmem_wf m \<longleftrightarrow> length (desc m) = VRING_SIZE \<and> length (avail_ring (avail m)) = VRING_SIZE \<and>
     length (used_ring (used m)) = VRING_SIZE \<and> unat (avail_idx (avail m)) \<le> VRING_SIZE"

lemma vring_init_wf:
  "vmem_wf m \<Longrightarrow> vring_wf (vring_init addr f m) \<and> notify (fst (vring_init addr f m)) = f \<and>
     pending_bufs (vring_init addr f m) = ring_slice (avail_ring (avail m)) 0 (unat (avail_idx (avail m)))"
  by (simp add: vring_init_def vring_wf_def vmem_wf_def in_flight_def pending_bufs_def Let_def)

lemma Connect_ready:
  "gic_inv s \<Longrightarrow> gic_ready s \<Longrightarrow> i < XSCUGIC_MAX_NUM_INTR_INPUTS \<Longrightarrow>
   XScuGic_Connect i (Some h) ref s =
     Some (XST_SUCCESS, s\<lparr>HandlerTable := (HandlerTable s)[i := \<lparr>Handler = Some h, CallBackRef = ref\<rparr>]\<rparr>)"
  by (simp add: XScuGic_Connect_def gic_inv_def defined_simps)

lemma Enable_ready:
  "gic_ready s \<Longrightarrow> i < XSCUGIC_MAX_NUM_INTR_INPUTS \<Longrightarrow>
   \<exists>s'. XScuGic_Enable i s = Some s' \<and> only_io s s'"
  by (simp add: XScuGic_Enable_def reg_defs)

lemma gic_upd_vring [simp]:
  "gic_ready (s\<lparr>tlb := x\<rparr>) = gic_ready s" "gic_inv (s\<lparr>tlb := x\<rparr>) = gic_inv s"
  by (simp_all add: gic_ready_def gic_inv_def)

text \<open>After \<open>remoteproc_init\<close> the rings are usable, the kicks of the kernel reach their
  service routines, and all channels are free.\<close>

lemma remoteproc_init_ok:
  assumes "gic_inv s" and "gic_ready s" and "vmem_wf (snd (tx_vring s))" and "vmem_wf (snd (rx_vring s))"
  shows "\<exists>s'. remoteproc_init s = Some s' \<and> rings_inv s' \<and> ch_inv (next_rpmsg_addr s) s' \<and>
    vector_of TXVRING_IRQ s' = Some (Isr_txvring_irq, RefNull) \<and>
    vector_of RXVRING_IRQ s' = Some (Isr_rxvring_irq, RefNull) \<and>
    find_index (\<lambda>c. ch_state c = CH_UNUSED) (channels s') = Some 0 \<and> mem s' = mem s \<and>
    irqs_routed s' = irqs_routed s"
proof -
  let ?tx = "vring_init (vring_da (rpmsg_vring0 (resources s))) (Some kick_linux_fn) (snd (tx_vring s))"
  let ?rx = "vring_init (vring_da (rpmsg_vring1 (resources s))) (Some kick_linux_fn) (snd (rx_vring s))"
  let ?s4 = "Xil_SetTlbAttributes (vring_da (rpmsg_vring0 (resources s)) AND 0xFFF00000) 0x15dea
      (s\<lparr>channels := replicate MAX_RPMSG_CH zero_channel\<rparr>)\<lparr>tx_vring := ?tx, rx_vring := ?rx\<rparr>"
  have g4: "gic_inv ?s4" "gic_ready ?s4"
    using assms(1,2) by (simp_all add: Xil_SetTlbAttributes_def)
  let ?s5 = "?s4\<lparr>HandlerTable := (HandlerTable ?s4)[TXVRING_IRQ := \<lparr>Handler = Some Isr_txvring_irq, CallBackRef = RefNull\<rparr>]\<rparr>"
  have c5: "XScuGic_Connect TXVRING_IRQ (Some Isr_txvring_irq) RefNull ?s4 = Some (XST_SUCCESS, ?s5)"
    using g4 by (simp add: Connect_ready)
  note g5 = Connect_inv [OF g4(1) c5]
  from Enable_ready [of ?s5 TXVRING_IRQ] g5 obtain s6 where
    s6: "XScuGic_Enable TXVRING_IRQ ?s5 = Some s6" "only_io ?s5 s6" by auto
  then have g6: "gic_inv s6" "gic_ready s6" using g5 only_io_inv [OF s6(2)] by simp_all
  let ?s7 = "s6\<lparr>HandlerTable := (HandlerTable s6)[RXVRING_IRQ := \<lparr>Handler = Some Isr_rxvring_irq, CallBackRef = RefNull\<rparr>]\<rparr>"
  have c7: "XScuGic_Connect RXVRING_IRQ (Some Isr_rxvring_irq) RefNull s6 = Some (XST_SUCCESS, ?s7)"
    using g6 by (simp add: Connect_ready)
  note g7 = Connect_inv [OF g6(1) c7]
  from Enable_ready [of ?s7 RXVRING_IRQ] g7 obtain s8 where
    s8: "XScuGic_Enable RXVRING_IRQ ?s7 = Some s8" "only_io ?s7 s8" by auto
  have run: "remoteproc_init s = Some s8"
    using c5 s6(1) c7 s8(1) by (simp add: remoteproc_init_def Xil_SetTlbAttributes_def Let_def)
  have ht: "HandlerTable s8 = (HandlerTable s)[TXVRING_IRQ := \<lparr>Handler = Some Isr_txvring_irq, CallBackRef = RefNull\<rparr>,
      RXVRING_IRQ := \<lparr>Handler = Some Isr_rxvring_irq, CallBackRef = RefNull\<rparr>]"
    using only_io_gic [OF s8(2)] only_io_gic [OF s6(2)] by (simp add: Xil_SetTlbAttributes_def)
  have len: "length (HandlerTable s) = 95" using assms(1) by (simp add: gic_inv_def)
  note f = only_io_rproc [OF s8(2)] only_io_rproc [OF s6(2)]
  have g8: "gic_inv s8" "gic_ready s8" using only_io_inv [OF s8(2)] g7 by simp_all
  have "rings_inv s8" using f g8 vring_init_wf assms(3,4) by (simp add: rings_inv_def Xil_SetTlbAttributes_def)
  moreover have "ch_inv (next_rpmsg_addr s) s8"
    using f by (auto simp: ch_inv_def zero_channel_def Xil_SetTlbAttributes_def intro!: exI [of _ 0])
  moreover have "irqs_routed s8 = irqs_routed s"
    using only_io_exc [OF s8(2)] only_io_exc [OF s6(2)]
    by (intro irqs_routed_frame) (simp_all add: Xil_SetTlbAttributes_def)
  moreover have "find_index (\<lambda>c. ch_state c = CH_UNUSED) (channels s8) = Some 0"
    using f by (simp add: zero_channel_def Xil_SetTlbAttributes_def numeral_eq_Suc)
  ultimately show ?thesis using run ht len f
    by (simp add: vector_of_def Xil_SetTlbAttributes_def)
qed

section \<open>A running system\<close>

text \<open>The state of a firmware that runs: the controller is initialised, the rings have
  the buffers \<open>txs\<close> and \<open>rxs\<close> on offer, 256 message buffers lie one after another, and the
  stdio and configuration channels are up. \<open>m\<close> holds the state of the upper layers.\<close>

definition demo_desc :: "u32 \<Rightarrow> vmem" where
  "demo_desc base = vmem_zero\<lparr>desc := map (\<lambda>i. zero_desc\<lparr>desc_addr := base + of_nat (512 * i)\<rparr>) [0..<256]\<rparr>"

definition demo_channels :: "rpmsg_channel list" where
  "demo_channels =
     [\<lparr>local_addr = 0x50, remote_addr = 0x400, ch_state = CH_UP, ch_name = zname ''bm_stdio'', ch_cb = Some stdio_msg_handler_cb\<rparr>,
      \<lparr>local_addr = 0x51, remote_addr = 0x401, ch_state = CH_UP, ch_name = zname ''cfg_mgmt'', ch_cb = Some config_msg_handler_cb\<rparr>,
      zero_channel, zero_channel, zero_channel]"

definition running :: "u16 list \<Rightarrow> u16 list \<Rightarrow> memory \<Rightarrow> 'a \<Rightarrow> 'a rproc_scheme" where
  "running txs rxs me m = \<lparr>mem = me, io_tape = [], io_log = [], tlb = (\<lambda>_. 0),
     XExc_VectorTable = exc_table_init[5 := \<lparr>eHandler = Exc_XScuGic_InterruptHandler, eData = RefGic\<rparr>],
     cpsr = 0x13, CpuBaseAddress = 0xF8F00100, DistBaseAddress = 0xF8F01000,
     HandlerTable = (replicate 95 \<lparr>Handler = Some StubHandler, CallBackRef = RefGic\<rparr>)
       [8 := \<lparr>Handler = Some Isr_txvring_irq, CallBackRef = RefNull\<rparr>,
        9 := \<lparr>Handler = Some Isr_rxvring_irq, CallBackRef = RefNull\<rparr>],
     gicConfig = True, gicIsReady = XIL_COMPONENT_IS_READY, UnhandledInterrupts = 0,
     txvring_kicks = 0, rxvring_kicks = 0, sys_tick = 0, timer_led = 0,
     resources = resources_init 0 0x100000 0x100000, channels = demo_channels, next_rpmsg_addr = 0x52,
     tx_vring = fold kernel_offer txs (vring_init 0x3E000000 (Some kick_linux_fn) (demo_desc 0x3E100000)),
     rx_vring = fold kernel_offer rxs (vring_init 0x3E004000 (Some kick_linux_fn) (demo_desc 0x3E200000)),
     tx_processed = 0, rx_processed = 0, trace_buf = 0, trace_ind = 0, trace_size = 0, sched = [], \<dots> = m\<rparr>"

lemma offers_ok:
  fixes a :: u32
  assumes "vmem_wf mm" and "avail_idx (avail mm) = 0" and "length ds \<le> VRING_SIZE"
  defines "v \<equiv> fold kernel_offer ds (vring_init a (Some kick_linux_fn) mm)"
  shows "vring_wf v \<and> pending_bufs v = ds \<and> notify (fst v) = Some kick_linux_fn \<and>
    desc (snd v) = desc mm \<and> used (snd v) = (used mm)\<lparr>used_flags := 0\<rparr>"
  using assms(3) unfolding v_def
proof (induction ds rule: rev_induct)
  case Nil
  then show ?case
    using vring_init_wf [OF assms(1), of a "Some kick_linux_fn"] assms(2) by (simp add: vring_init_def Let_def)
next
  case (snoc d ds)
  let ?w = "fold kernel_offer ds (vring_init a (Some kick_linux_fn) mm)"
  from snoc have w: "vring_wf ?w" "pending_bufs ?w = ds" "in_flight ?w < VRING_SIZE"
    "notify (fst ?w) = Some kick_linux_fn" "desc (snd ?w) = desc mm" "used (snd ?w) = (used mm)\<lparr>used_flags := 0\<rparr>"
    using length_pending [of ?w] by simp_all
  with kernel_offer_pending [of ?w d] kernel_offer_frame [of d ?w] show ?case by simp
qed

lemma demo_desc_ok: "vmem_wf (demo_desc b)" "avail_idx (avail (demo_desc b)) = 0"
  "used (demo_desc b) = used vmem_zero" "i < 256 \<Longrightarrow> desc_addr (desc (demo_desc b) ! i) = b + of_nat (512 * i)"
  by (simp_all add: demo_desc_def vmem_wf_def vmem_zero_def)

lemma demo_addr: "i < 256 \<Longrightarrow> unat ((0x3E100000 :: u32) + of_nat (512 * i)) = 0x3E100000 + 512 * i"
  by (simp add: unat_word_ariths unat_of_nat)

lemma running_ok:
  assumes "distinct (map unat txs)" and "\<forall>d \<in> set txs. unat d < VRING_SIZE" and "length rxs \<le> VRING_SIZE"
  shows "link_ok 0 0x50 (running txs rxs me m)" and "pending_bufs (tx_vring (running txs rxs me m)) = txs"
    and "pending_bufs (rx_vring (running txs rxs me m)) = rxs" and "tx_sent 0 (running txs rxs me m) = []"
proof -
  let ?s = "running txs rxs me m"
  have "card (set (map unat txs)) \<le> VRING_SIZE"
    using assms(2) card_mono [of "{..<VRING_SIZE}" "set (map unat txs)"] by auto
  then have len: "length txs \<le> VRING_SIZE" using assms(1) distinct_card [OF assms(1)] by simp
  note tx = offers_ok [OF demo_desc_ok(1,2) len, of "0x3E000000" "0x3E100000"]
  note rx = offers_ok [OF demo_desc_ok(1,2) assms(3), of "0x3E004000" "0x3E200000"]
  have s: "tx_vring ?s = fold kernel_offer txs (vring_init 0x3E000000 (Some kick_linux_fn) (demo_desc 0x3E100000))"
    "rx_vring ?s = fold kernel_offer rxs (vring_init 0x3E004000 (Some kick_linux_fn) (demo_desc 0x3E200000))"
    by (simp_all add: running_def)
  show p: "pending_bufs (tx_vring ?s) = txs" "pending_bufs (rx_vring ?s) = rxs" using tx rx s by simp_all
  have u: "used_since 0 (tx_vring ?s) = []"
    using tx s by (intro used_since_start) (simp add: demo_desc_ok(3) vmem_zero_def)
  show "tx_sent 0 ?s = []" by (simp add: tx_sent_def u)
  have a: "buf_addr (tx_vring ?s) i = 0x3E100000 + of_nat (512 * i)" if "i < VRING_SIZE" for i
    using tx s demo_desc_ok(4) [OF that] by (simp add: buf_addr_def)
  have "apart (buf_addr (tx_vring ?s) i) 512 (buf_addr (tx_vring ?s) j) 512" if "i < VRING_SIZE" "j < VRING_SIZE" "i < j" for i j
    unfolding a [OF that(1)] a [OF that(2)] using that demo_addr [of i] demo_addr [of j] by (intro apart_below) simp_all
  then have ap: "bufs_apart (tx_vring ?s)"
    unfolding bufs_apart_def by (metis apart_sym linorder_neqE_nat)
  have "tx_own 0 ?s" using assms ap by (simp add: tx_own_def tx_ids_def u p)
  moreover have "gic_inv ?s" "gic_ready ?s"
    by (simp_all add: running_def gic_inv_def gic_ready_def list_update_append set_conv_nth nth_list_update)
      (auto simp: nth_list_update)
  then have "rings_inv ?s" using tx rx s by (simp add: rings_inv_def)
  moreover have "apart (buf_addr (tx_vring ?s) i) 512 0x100000 0x8000" if "i < VRING_SIZE" for i
    unfolding a [OF that] using that demo_addr [of i] by (subst apart_sym) (intro apart_below, simp_all)
  then have "trace_ok ?s" by (simp add: trace_ok_def trace_region_def running_def resources_init_def)
  moreover have "ch_inv 0x50 ?s"
    unfolding ch_inv_def
    by (intro conjI exI [of _ 2]) (auto simp: running_def demo_channels_def zero_channel_def less_Suc_eq numeral_eq_Suc)
  ultimately show "link_ok 0 0x50 ?s" by (simp add: link_ok_def)
qed

section \<open>Properties of the message layer\<close>

text \<open>C5: sending refines appending to a queue of messages: the message (source,
  destination, flags 0, payload) is appended to those handed to the kernel, all of which stay
  intact in their buffers, the oldest free buffer is used up, and nothing but the
  transmit ring, that memory and the register log changes.\<close>

theorem send_refines_message_queue:
  assumes "link_ok u0 base s" and "pending_bufs (tx_vring s) = d # ds"
    and "len \<le> DATA_LEN_MAX" and "unat len = length data"
  shows "\<exists>v m l. block_send_message src dst data len s = Some (s\<lparr>tx_vring := v, mem := m, io_log := l\<rparr>) \<and>
      tx_sent u0 (s\<lparr>tx_vring := v, mem := m, io_log := l\<rparr>) = tx_sent u0 s @ [(src, dst, 0, data)] \<and>
      link_ok u0 base (s\<lparr>tx_vring := v, mem := m, io_log := l\<rparr>) \<and> pending_bufs v = ds"
  using block_send_link [OF assms(1,2,3), of data src dst] assms(4) by simp

theorem send_refines_message_queue_witness:
  "\<exists>s'. block_send_message 0x51 0x401 [1, 2, 3] 3 (running [4, 9] [] (\<lambda>_. 0) ()) = Some s' \<and>
    tx_sent 0 s' = [(0x51, 0x401, 0, [1, 2, 3])] \<and> pending_bufs (tx_vring s') = [9]"
  using send_refines_message_queue [of 0 "0x50" "running [4, 9] [] (\<lambda>_. 0) ()" 4 "[9]" 3 "[1, 2, 3]" "0x51" "0x401"]
    running_ok [of "[4, 9]" "[]" "\<lambda>_. 0" "()"] by auto

text \<open>C21: A send that finds no buffer waits, and returns once the kernel offers one, after
  any number of spurious wake-ups: the message is then in the offered buffer, which has
  been handed over. Nothing of the schedule beyond the offer is consumed.\<close>

theorem send_waits_for_buffer:
  assumes "rings_inv s" and "pending_bufs (tx_vring s) = []"
    and "sched s = replicate n [] @ [EnvTxAvail d] # rest"
    and "unat d < VRING_SIZE" and "used_count u0 (tx_vring s) < VRING_SIZE"
    and "len \<le> DATA_LEN_MAX" and "unat len = length data"
  shows "\<exists>s'. block_send_message src dst data len s = Some s' \<and>
    rpmsg_at (mem s') (buf_addr (tx_vring s) (unat d)) = (src, dst, 0, data) \<and>
    used_since u0 (tx_vring s') = used_since u0 (tx_vring s) @ [\<lparr>elem_id = ucast d, elem_len = PACKET_LEN_MAX\<rparr>] \<and>
    sched s' = rest"
  using block_send_delivers [OF assms(1-6), of data src dst] assms(7) by (simp add: buf_addr_def)

theorem send_waits_for_buffer_witness:
  "\<exists>s'. block_send_message 0x51 0x401 [1, 2, 3] 3 ((running [] [] (\<lambda>_. 0) ())\<lparr>sched := [[], [], [EnvTxAvail 6]]\<rparr>) = Some s' \<and>
    used_since 0 (tx_vring s') = [\<lparr>elem_id = 6, elem_len = PACKET_LEN_MAX\<rparr>] \<and> sched s' = []"
proof -
  let ?s = "(running [] [] (\<lambda>_. 0) ())\<lparr>sched := [[], [], [EnvTxAvail 6]]\<rparr>"
  have ok: "link_ok 0 0x50 (running [] [] (\<lambda>_. 0) ())" "pending_bufs (tx_vring (running [] [] (\<lambda>_. 0) ())) = []"
    using running_ok [of "[]" "[]" "\<lambda>_. 0" "()"] by simp_all
  have u: "used_since 0 (tx_vring ?s) = []"
    by (rule used_since_start) (simp add: running_def vring_init_def demo_desc_def vmem_zero_def Let_def)
  then have "used_count 0 (tx_vring ?s) = 0" using length_used_since [of 0 "tx_vring ?s"] by simp
  moreover have "rings_inv ?s" using ok(1) by (simp add: link_ok_def rings_inv_def)
  moreover have "pending_bufs (tx_vring ?s) = []" "sched ?s = replicate 2 [] @ [EnvTxAvail 6] # []"
    using ok(2) by (simp_all add: numeral_2_eq_2)
  ultimately obtain s' where "block_send_message 0x51 0x401 [1, 2, 3] 3 ?s = Some s'" "sched s' = []"
    "used_since 0 (tx_vring s') = used_since 0 (tx_vring ?s) @ [\<lparr>elem_id = ucast (6 :: u16), elem_len = PACKET_LEN_MAX\<rparr>]"
    using send_waits_for_buffer [of ?s 2 6 "[]" 0 3 "[1, 2, 3]" "0x51" "0x401"] by auto
  then show ?thesis unfolding u by (intro exI [of _ s']) simp
qed

text \<open>C9: a received message is delivered to exactly the channel with the destination
  address of its header: the channel learns the sender's address and comes up, its
  callback runs once with the payload and the length of the header, and the buffer
  is handed back after that, without a kick.\<close>

theorem message_routed_to_channel:
  assumes "rings_inv s" and "ch_inv base s" and "pending_bufs (rx_vring s) = d # ds" and "unat d < VRING_SIZE"
    and "i < MAX_RPMSG_CH" and "ch_cb (channels s ! i) = Some cb"
    and "matches (rd32 (mem s) (buf_addr (rx_vring s) (unat d) + 4)) (channels s ! i)"
  defines "a \<equiv> buf_addr (rx_vring s) (unat d)"
  shows "\<exists>v. vring_get_buf (rx_vring s) = Some (ucast d, v) \<and> pending_bufs v = ds \<and>
    read_message deliver s =
      deliver cb i (a + 16) (ucast (rd16 (mem s) (a + 12))) (bring_up i (rd32 (mem s) a) (s\<lparr>rx_vring := v\<rparr>))
        \<bind> publish_rx d PACKET_LEN_MAX False"
proof -
  obtain v where v: "vring_get_buf (rx_vring s) = Some (ucast d, v)" "pending_bufs v = ds"
    "desc (snd v) = desc (snd (rx_vring s))" "vring_wf v"
    using vring_get_buf_Cons [of "fst (rx_vring s)" "snd (rx_vring s)" d ds] assms(1,3)
    by (fastforce simp: rings_inv_def)
  have "length (desc (snd v)) = VRING_SIZE" using v(4) by (cases v) (simp add: vring_wf_def)
  moreover have "deliver_to deliver a [0..<MAX_RPMSG_CH] (s\<lparr>rx_vring := v\<rparr>) =
      deliver cb i (a + 16) (ucast (rd16 (mem s) (a + 12))) (bring_up i (rd32 (mem s) a) (s\<lparr>rx_vring := v\<rparr>))"
    using deliver_to_unique [of base "s\<lparr>rx_vring := v\<rparr>" i a cb deliver] assms by (simp add: ch_inv_def)
  ultimately show ?thesis
    using v assms(4) by (simp add: read_message_def vq.index_nonneg defined_simps a_def buf_addr_def del: upt_Suc)
qed

theorem message_routed_to_channel_witness:
  "\<exists>v. read_message (\<lambda>cb i p l s. if cb = config_msg_handler_cb \<and> i = 1 \<and> p = 0x3E200010 then Some s else None)
      (running [] [0] (wr_bytes (\<lambda>_. 0) 0x3E200000 (enc_hdr 0x401 0x51 0)) ()) =
    publish_rx 0 PACKET_LEN_MAX False (bring_up 1 0x401
      ((running [] [0] (wr_bytes (\<lambda>_. 0) 0x3E200000 (enc_hdr 0x401 0x51 0)) ())\<lparr>rx_vring := v\<rparr>))"
proof -
  let ?m = "wr_bytes (\<lambda>_. 0) 0x3E200000 (enc_hdr 0x401 0x51 0)"
  let ?s = "running [] [0] ?m ()"
  have ok: "link_ok 0 0x50 ?s" "pending_bufs (rx_vring ?s) = [0]"
    using running_ok [of "[]" "[0]" ?m "()"] by simp_all
  have "desc (snd (rx_vring ?s)) = desc (demo_desc 0x3E200000)"
    using offers_ok [OF demo_desc_ok(1,2), of "[0]" "0x3E004000" "0x3E200000"] by (simp add: running_def)
  then have a: "buf_addr (rx_vring ?s) 0 = 0x3E200000" by (simp add: buf_addr_def demo_desc_ok(4))
  have m: "mem ?s = ?m" "channels ?s = demo_channels" by (simp_all add: running_def)
  have "rpmsg_at ?m 0x3E200000 = (0x401, 0x51, 0, [])"
    using rpmsg_at_enc [of "[]" 0 "\<lambda>_. 0" "0x3E200000" "0x401" "0x51"] by simp
  then have h: "rd32 ?m 0x3E200000 = 0x401" "rd32 ?m (0x3E200000 + 4) = 0x51" by (simp_all add: rpmsg_at_def)
  have p: "rings_inv ?s" "ch_inv 0x50 ?s" "unat (0 :: u16) < VRING_SIZE" "(1 :: nat) < MAX_RPMSG_CH"
    "ch_cb (channels ?s ! 1) = Some config_msg_handler_cb"
    "matches (rd32 (mem ?s) (buf_addr (rx_vring ?s) (unat (0 :: u16)) + 4)) (channels ?s ! 1)"
    using ok(1) a h by (simp_all add: m demo_channels_def matches_def link_ok_def)
  let ?f = "\<lambda>cb (i :: nat) (p :: u32) (l :: u32) (s :: rproc). if cb = config_msg_handler_cb \<and> i = 1 \<and> p = 0x3E200010 then Some s else None"
  from message_routed_to_channel [OF p(1,2) ok(2) p(3-6), where deliver = ?f]
  obtain v where "read_message ?f ?s = ?f config_msg_handler_cb 1 (buf_addr (rx_vring ?s) (unat (0 :: u16)) + 16)
      (ucast (rd16 (mem ?s) (buf_addr (rx_vring ?s) (unat (0 :: u16)) + 12)))
      (bring_up 1 (rd32 (mem ?s) (buf_addr (rx_vring ?s) (unat (0 :: u16)))) (?s\<lparr>rx_vring := v\<rparr>))
        \<bind> publish_rx 0 PACKET_LEN_MAX False"
    by blast
  then show ?thesis using a h m by (intro exI [of _ v]) simp
qed

text \<open>Creating a channel takes the first free entry, gives it an address no other channel
  has, announces it to the kernel's name service with that address and its name, leaves
  the other channels alone and keeps the invariant of the message layer.\<close>

theorem create_channel_announces:
  assumes "link_ok u0 base s" and "pending_bufs (tx_vring s) = d # ds"
    and "find_index (\<lambda>c. ch_state c = CH_UNUSED) (channels s) = Some i"
  shows "\<exists>s'. rpmsg_create_ch name cb s = Some (Some i, s') \<and> link_ok u0 base s' \<and>
    tx_sent u0 s' = tx_sent u0 s @ [(base + of_nat i, LINUX_SERVICE_ANNOUNCEMENT_ADDR, 0, ns_msg name (base + of_nat i))] \<and>
    local_addr (channels s' ! i) = base + of_nat i \<and> ch_cb (channels s' ! i) = cb \<and>
    (\<forall>j < MAX_RPMSG_CH. j \<noteq> i \<longrightarrow> channels s' ! j = channels s ! j \<and>
       (ch_state (channels s ! j) \<noteq> CH_UNUSED \<longrightarrow> local_addr (channels s ! j) \<noteq> base + of_nat i))"
proof -
  from create_ch_ok [OF assms, of name cb] obtain s' where
    s': "rpmsg_create_ch name cb s = Some (Some i, s')" "link_ok u0 base s'"
    "tx_sent u0 s' = tx_sent u0 s @ [(base + of_nat i, LINUX_SERVICE_ANNOUNCEMENT_ADDR, 0, ns_msg name (base + of_nat i))]"
    "local_addr (channels s' ! i) = base + of_nat i" "ch_state (channels s' ! i) = CH_ANNOUNCED"
    "ch_cb (channels s' ! i) = cb" "\<forall>j. j \<noteq> i \<longrightarrow> channels s' ! j = channels s ! j" by blast
  have inv: "ch_inv base s" "ch_inv base s'" using assms(1) s'(2) by (simp_all add: link_ok_def)
  have i: "i < MAX_RPMSG_CH" by (rule ch_inv_announce(2) [OF inv(1) assms(3)])
  have "local_addr (channels s ! j) \<noteq> base + of_nat i"
    if "j < MAX_RPMSG_CH" "j \<noteq> i" "ch_state (channels s ! j) \<noteq> CH_UNUSED" for j
  proof
    assume eq: "local_addr (channels s ! j) = base + of_nat i"
    have "matches (base + of_nat i) (channels s' ! j)" "matches (base + of_nat i) (channels s' ! i)"
      using that s' eq by (auto simp: matches_def intro: rpmsg_ch_state.exhaust)
    with ch_inv_matches [OF inv(2) that(1) i] that(2) show False by blast
  qed
  with s' show ?thesis by blast
qed

theorem create_channel_announces_witness:
  "\<exists>s'. rpmsg_create_ch (cstr ''diag'') None (running [4] [] (\<lambda>_. 0) ()) = Some (Some 2, s') \<and>
    tx_sent 0 s' = [(0x52, LINUX_SERVICE_ANNOUNCEMENT_ADDR, 0, ns_msg (cstr ''diag'') 0x52)]"
proof -
  have f: "find_index (\<lambda>c. ch_state c = CH_UNUSED) (channels (running [4] [] (\<lambda>_. 0) ())) = Some 2"
    by (simp add: running_def demo_channels_def zero_channel_def)
  from create_channel_announces [OF running_ok(1) running_ok(2) f, of "cstr ''diag''" None] show ?thesis
    by (auto simp: running_ok(4))
qed

text \<open>After \<open>remoteproc_init\<close> the rings are usable, all channels are free, and an interrupt
  the kernel raises for either ring reaches its service routine and counts one kick.\<close>

lemma remoteproc_init_connects_kicks:
  assumes "irqs_routed s" and "gic_inv s" and "gic_ready s" and "vmem_wf (snd (tx_vring s))" and "vmem_wf (snd (rx_vring s))"
  shows "\<exists>s'. remoteproc_init s = Some s' \<and> rings_inv s' \<and> ch_inv (next_rpmsg_addr s) s' \<and>
    (\<exists>s''. take_irq 8 s' = Some s'' \<and> txvring_kicks s'' = txvring_kicks s' + 1 \<and> rxvring_kicks s'' = rxvring_kicks s') \<and>
    (\<exists>s''. take_irq 9 s' = Some s'' \<and> rxvring_kicks s'' = rxvring_kicks s' + 1 \<and> txvring_kicks s'' = txvring_kicks s')"
proof -
  from remoteproc_init_ok [OF assms(2-5)] assms(1) obtain s' where
    s': "remoteproc_init s = Some s'" "rings_inv s'" "ch_inv (next_rpmsg_addr s) s'"
    "vector_of TXVRING_IRQ s' = Some (Isr_txvring_irq, RefNull)"
    "vector_of RXVRING_IRQ s' = Some (Isr_rxvring_irq, RefNull)" "irqs_routed s'" by blast
  have g: "gic_inv s'" using s'(2) by (simp add: rings_inv_def)
  from take_irq_tx [OF s'(6) g s'(4), of 8] take_irq_rx [OF s'(6) g s'(5), of 9] s' show ?thesis by auto
qed

text \<open>Diagnostics never leave the trace buffer: the write position stays within it and
  memory outside the buffer keeps its contents, whatever is printed, including the text
  that does not fit and is dropped.\<close>

theorem trace_stays_in_buffer:
  assumes "trace_ind s \<le> trace_size s"
  shows "\<exists>s'. trace_write text s = ((if trace_buf s = 0 then 0 else length text), s') \<and>
    trace_ind s' \<le> trace_size s' \<and>
    (\<forall>x. unat (trace_size s) \<le> unat (x - trace_buf s) \<longrightarrow> mem s' x = mem s x)"
proof -
  obtain n s' where t: "trace_write text s = (n, s')" by (cases "trace_write text s")
  have "n = (if trace_buf s = 0 then 0 else length text)"
    using t by (auto simp: trace_write_def Let_def split: if_splits)
  with t trace_write_outside [OF assms t] show ?thesis by blast
qed

theorem trace_stays_in_buffer_witness:
  "\<exists>s'. trace_write (replicate 9 65) ((running [] [] (\<lambda>_. 0) ())\<lparr>trace_buf := 0x100000, trace_size := 8\<rparr>) = (9, s') \<and>
    mem s' 0x100008 = 0"
  using trace_stays_in_buffer [of "(running [] [] (\<lambda>_. 0) ())\<lparr>trace_buf := 0x100000, trace_size := 8\<rparr>" "replicate 9 65"]
  by (auto simp: running_def)

end
