(* ===== verification/MilliFloat.thy ===== *)
theory MilliFloat
  imports Prelude
begin

text \<open>
  The floating point operations of \<open>cfgFloatMilliCB\<close> (bm_fw/src/config.c): the product
  \<open>*f * 1000\<close> of type \<open>float\<close> converted to \<open>int32_t\<close>, and \<open>val * 1.0e-3\<close>, a product of
  type \<open>double\<close> converted to \<open>float\<close>. Both round to nearest, ties to even, as IEEE 754
  prescribes. A finite number is kept as a sign, a mantissa and a binary exponent.
\<close>

section \<open>Rounding\<close>

fun bitlen :: "nat \<Rightarrow> nat" where
  "bitlen n = (if n = 0 then 0 else Suc (bitlen (n div 2)))"

declare bitlen.simps [simp del]

text \<open>\<open>m * 2 ^ e\<close> rounded to \<open>p\<close> significant bits.\<close>

definition round_sig :: "nat \<Rightarrow> nat \<Rightarrow> int \<Rightarrow> nat \<times> int" where
  "round_sig p m e =
     (if bitlen m \<le> p then (m, e)
      else let k = bitlen m - p; q = m div 2 ^ k; r = m mod 2 ^ k;
               up = (2 ^ (k - 1) < r \<or> (r = 2 ^ (k - 1) \<and> odd q))
           in (if up then q + 1 else q, e + int k))"

text \<open>Exactly \<open>p\<close> bits for a nonzero mantissa of at most \<open>p\<close> bits, or \<open>2 ^ p\<close>.\<close>

definition normalise :: "nat \<Rightarrow> nat \<Rightarrow> int \<Rightarrow> nat \<times> int" where
  "normalise p m e =
     (if bitlen m \<le> p then (m * 2 ^ (p - bitlen m), e - int (p - bitlen m)) else (m div 2, e + 1))"

section \<open>Single precision\<close>

text \<open>Sign, mantissa and exponent of the bits of a \<open>float\<close>; none for infinities and NaN.\<close>

definition float_dec :: "u32 \<Rightarrow> (bool \<times> nat \<times> int) option" where
  "float_dec w =
     (let e = unat (drop_bit 23 w AND 0xFF); m = unat (w AND 0x7FFFFF)
      in if e = 255 then None
         else Some (bit w 31, if e = 0 then (m, -149) else (2 ^ 23 + m, int e - 150)))"

definition float_enc :: "bool \<Rightarrow> nat \<Rightarrow> int \<Rightarrow> u32" where
  "float_enc neg m e =
     (if m = 0 then (if neg then 0x80000000 else 0)
      else let (m', e') = normalise 24 m e
           in (if neg then 0x80000000 else 0) OR push_bit 23 (of_int (e' + 150)) OR of_nat (m' - 2 ^ 23))"

section \<open>The two conversions\<close>

text \<open>\<open>(int32_t)(*f * 1000)\<close>: truncation towards zero; undefined when the value does not
  fit.\<close>

definition float_milli_read :: "u32 \<Rightarrow> s32 option" where
  "float_milli_read w = (case float_dec w of
     None \<Rightarrow> None
   | Some (neg, m, e) \<Rightarrow>
       let (p, f) = round_sig 24 (m * 1000) e;
           n = (if f \<ge> 0 then p * 2 ^ nat f else p div 2 ^ nat (- f));
           i = (if neg then - int n else int n)
       in if - 2147483648 \<le> i \<and> i < 2147483648 then Some (word_of_int i) else None)"

text \<open>\<open>(float)(val * 1.0e-3)\<close>. The \<open>double\<close> nearest to 0.001 is \<open>0x10624DD2F1A9FC * 2 ^ -62\<close>;
  the product is rounded to 53 bits and then to 24.\<close>

definition milli_float_write :: "s32 \<Rightarrow> u32" where
  "milli_float_write v =
     (let (d, e) = round_sig 53 (nat \<bar>sint v\<bar> * 0x10624DD2F1A9FC) (- 62);
          (p, f) = round_sig 24 d e
      in float_enc (sint v < 0) p f)"

section \<open>Small values\<close>

text \<open>Writing a value to the \<open>float\<close> and reading it back.\<close>

definition milli_roundtrip :: "s32 \<Rightarrow> s32 option" where
  "milli_roundtrip v = float_milli_read (milli_float_write v)"

lemmas milli_eval = milli_roundtrip_def float_milli_read_def milli_float_write_def float_dec_def
  float_enc_def normalise_def round_sig_def

lemma bitlen_rec: "n \<noteq> 0 \<Longrightarrow> bitlen n = Suc (bitlen (n div 2))" "bitlen 0 = 0"
  by (simp_all add: bitlen.simps)

lemma milli_write_1: "milli_float_write 1 = 0x3A83126F"
  by (simp add: milli_eval bitlen_rec Let_def)

lemma milli_roundtrip_251: "milli_roundtrip 251 = Some 250"
  by (simp add: milli_eval bitlen_rec Let_def)

lemma milli_roundtrip_neg: "milli_roundtrip (-251) = Some (-250)"
  by (simp add: milli_eval bitlen_rec Let_def)

end
