(* ===== verification/Config.thy ===== *)
theory Config
  imports Remoteproc MilliFloat
begin

text \<open>
  The configuration variables of the firmware (bm_fw/src/config.{c,h}, config_vars.{c,h}):
  the variable table, its getters and setters, the two generic callbacks, and the
  handler that answers the kernel's requests. A pointer to a variable is its index in
  \<open>vars\<close>; the \<open>data\<close> pointer of a callback is an address of the byte memory. \<open>var_cb\<close>, the
  callback of main.c, is an argument \<open>vcb\<close> here and is supplied by the theory of main.c.
\<close>

section \<open>Variables\<close>

datatype cfgCallback = var_cb_fn | cfgCpyCB_fn | cfgFloatMilliCB_fn

record cfgVar =
  cv_id :: s32
  cv_name :: "u8 list"
  cv_desc :: "u8 list"
  cv_val :: s32
  cv_min :: s32
  cv_max :: s32
  cv_rd_cb :: "cfgCallback option"
  cv_rd_cb_data :: u32
  cv_wr_cb :: "cfgCallback option"
  cv_wr_cb_data :: u32

abbreviation (input) "CFG_VAR_1 \<equiv> (1 :: s32)"
abbreviation (input) "CFG_VAR_2 \<equiv> (2 :: s32)"

text \<open>The initialisers \<open>CFG_DFLT_VAR_n\<close>; the members they leave out are zero.\<close>

definition dflt_var :: "s32 \<Rightarrow> string \<Rightarrow> string \<Rightarrow> s32 \<Rightarrow> s32 \<Rightarrow> s32 \<Rightarrow> cfgVar" where
  "dflt_var i n d v lo hi = \<lparr>cv_id = i, cv_name = cstr n, cv_desc = cstr d, cv_val = v, cv_min = lo,
     cv_max = hi, cv_rd_cb = None, cv_rd_cb_data = 0, cv_wr_cb = None, cv_wr_cb_data = 0\<rparr>"

definition vars_init :: "cfgVar list" where
  "vars_init =
     [dflt_var 1 ''var_1'' ''First config variable, possible values are 0 and 1'' 0 0 1,
      dflt_var 2 ''var_2'' ''Second config variable, >0'' 0 0 2147483647,
      dflt_var 3 ''var_3'' ''3rd config variable, >0'' 0 0 2147483647,
      dflt_var 4 ''var_4'' ''4th config variable, >0'' 0 0 2147483647,
      dflt_var 5 ''var_5'' ''5th config variable, >0'' 0 0 2147483647,
      dflt_var 6 ''var_6'' ''6th config variable, >0'' 0 0 2147483647,
      dflt_var 7 ''var_7'' ''7th config variable, >0'' 0 0 2147483647]"

section \<open>Messages\<close>

abbreviation (input) "REQ_NOP \<equiv> (0 :: u32)"
abbreviation (input) "REQ_N_VARS \<equiv> (1 :: u32)"
abbreviation (input) "REQ_WR \<equiv> (2 :: u32)"
abbreviation (input) "REQ_RD \<equiv> (3 :: u32)"
abbreviation (input) "REQ_RD_MIN \<equiv> (4 :: u32)"
abbreviation (input) "REQ_RD_MAX \<equiv> (5 :: u32)"
abbreviation (input) "REQ_NAME \<equiv> (6 :: u32)"
abbreviation (input) "REQ_DESC \<equiv> (7 :: u32)"
abbreviation (input) "RES_OK \<equiv> (128 :: u32)"
abbreviation (input) "RES_N_VARS \<equiv> (129 :: u32)"
abbreviation (input) "RES_ID_ERR \<equiv> (130 :: u32)"
abbreviation (input) "RES_RD_VAL \<equiv> (131 :: u32)"
abbreviation (input) "RES_RD_MIN \<equiv> (132 :: u32)"
abbreviation (input) "RES_RD_MAX \<equiv> (133 :: u32)"
abbreviation (input) "RES_NAME \<equiv> (134 :: u32)"
abbreviation (input) "RES_DESC \<equiv> (135 :: u32)"
abbreviation (input) "RES_REQ_ERR \<equiv> (255 :: u32)"
abbreviation (input) "MSG_DATA_SIZE \<equiv> (400 :: nat)"

text \<open>\<open>cfgMsg_t\<close>, the packed struct both sides exchange, and its bytes. The transmit
  buffer \<open>cfgMsgTxBuf\<close> is only ever used through this type.\<close>

record cfgMsg =
  m_seq :: u32
  m_type :: u32
  m_ind :: s32
  m_val :: s32
  m_len :: u32
  m_data :: "u8 list"

definition enc_msg :: "cfgMsg \<Rightarrow> u8 list" where
  "enc_msg m = le32 (m_seq m) @ le32 (m_type m) @ le32 (m_ind m) @ le32 (m_val m) @ le32 (m_len m) @ m_data m"

definition dec_msg :: "u8 list \<Rightarrow> cfgMsg" where
  "dec_msg bs = \<lparr>m_seq = un32 (take 4 bs), m_type = un32 (take 4 (drop 4 bs)),
     m_ind = un32 (take 4 (drop 8 bs)), m_val = un32 (take 4 (drop 12 bs)),
     m_len = un32 (take 4 (drop 16 bs)), m_data = take MSG_DATA_SIZE (drop 20 bs)\<rparr>"

abbreviation (input) "sizeof_cfgMsg \<equiv> (420 :: u32)"

text \<open>\<open>CFG_BUF_LEN - sizeof(cfgMsg_t)\<close>: the handler's limit for texts.\<close>

abbreviation (input) "TEXT_MAX \<equiv> (DATA_LEN_MAX - sizeof_cfgMsg)"

record cfg = rproc +
  vars :: "cfgVar list"
  cfgMsgTxBuf :: cfgMsg
  rpmsg_config :: "nat option"

definition n_vars :: "'a cfg_scheme \<Rightarrow> s32" where
  "n_vars s = of_nat (length (vars s))"

section \<open>Getters\<close>

definition var_by_id :: "s32 \<Rightarrow> cfgVar list \<Rightarrow> nat option" where
  "var_by_id i vs = find_index (\<lambda>v. cv_id v = i) vs"

definition var_by_name :: "u8 list \<Rightarrow> cfgVar list \<Rightarrow> nat option" where
  "var_by_name n vs = find_index (\<lambda>v. cv_name v = n) vs"

text \<open>An output parameter is the old contents of the location it points to, or \<open>None\<close> for a
  null pointer; the result is the return value and the new contents.\<close>

definition cfgGetValId :: "s32 \<Rightarrow> s32 option \<Rightarrow> 'a cfg_scheme \<Rightarrow> s32 \<times> s32 option" where
  "cfgGetValId i val s = (case val of None \<Rightarrow> (0, None) | Some old \<Rightarrow>
     (case var_by_id i (vars s) of Some k \<Rightarrow> (1, Some (cv_val (vars s ! k))) | None \<Rightarrow> (0, Some old)))"

definition cfgGetValName :: "u8 list \<Rightarrow> s32 option \<Rightarrow> 'a cfg_scheme \<Rightarrow> s32 \<times> s32 option" where
  "cfgGetValName n val s = (case val of None \<Rightarrow> (0, None) | Some old \<Rightarrow>
     (case var_by_name n (vars s) of Some k \<Rightarrow> (1, Some (cv_val (vars s ! k))) | None \<Rightarrow> (0, Some old)))"

definition cfgGetName :: "s32 \<Rightarrow> 'a cfg_scheme \<Rightarrow> u8 list option" where
  "cfgGetName i s = map_option (\<lambda>k. cv_name (vars s ! k)) (var_by_id i (vars s))"

text \<open>A negative index reads before the array.\<close>

definition cfgGetNameList :: "s32 \<Rightarrow> 'a cfg_scheme \<Rightarrow> u8 list option option" where
  "cfgGetNameList i s = (if i <s n_vars s
     then (if i <s 0 then None else map_option (\<lambda>v. Some (cv_name v)) (aget (vars s) (unat i)))
     else Some None)"

definition cfgGetStructId :: "s32 \<Rightarrow> cfgVar option \<Rightarrow> 'a cfg_scheme \<Rightarrow> s32 \<times> cfgVar option" where
  "cfgGetStructId i v s = (case v of None \<Rightarrow> (0, None) | Some old \<Rightarrow>
     (case var_by_id i (vars s) of Some k \<Rightarrow> (1, Some (vars s ! k)) | None \<Rightarrow> (0, Some old)))"

definition cfgGetStructName :: "u8 list \<Rightarrow> cfgVar option \<Rightarrow> 'a cfg_scheme \<Rightarrow> s32 \<times> cfgVar option" where
  "cfgGetStructName n v s = (case v of None \<Rightarrow> (0, None) | Some old \<Rightarrow>
     (case var_by_name n (vars s) of Some k \<Rightarrow> (1, Some (vars s ! k)) | None \<Rightarrow> (0, Some old)))"

section \<open>Setters and callbacks\<close>

definition set_val :: "nat \<Rightarrow> s32 \<Rightarrow> 'a cfg_scheme \<Rightarrow> 'a cfg_scheme" where
  "set_val i v s = s\<lparr>vars := (vars s)[i := (vars s ! i)\<lparr>cv_val := v\<rparr>]\<rparr>"

definition clamp :: "s32 \<Rightarrow> s32 \<Rightarrow> s32 \<Rightarrow> s32" where
  "clamp lo hi v = (let v1 = (if hi <s v then hi else v) in if v1 <s lo then lo else v1)"

text \<open>\<open>cfgSetInd\<close>; \<open>run\<close> calls a callback with the variable, the direction and the data
  pointer. The guard lets \<open>n_vars\<close> itself through to an access beyond the array.\<close>

definition cfgSetInd ::
    "(cfgCallback \<Rightarrow> nat \<Rightarrow> bool \<Rightarrow> u32 \<Rightarrow> 'a cfg_scheme \<Rightarrow> 'a cfg_scheme option) \<Rightarrow>
     s32 \<Rightarrow> s32 \<Rightarrow> bool \<Rightarrow> 'a cfg_scheme \<Rightarrow> (s32 \<times> 'a cfg_scheme) option" where
  "cfgSetInd run i val trigCb s =
     (if i <s 0 then Some (0, s)
      else if n_vars s <s i then Some (0, s)
      else do {
        v \<leftarrow> aget (vars s) (unat i);
        let s1 = set_val (unat i) (clamp (cv_min v) (cv_max v) val) s;
        (case cv_wr_cb v of
           Some cb \<Rightarrow> (if trigCb then do {
               s2 \<leftarrow> run cb (unat i) False (cv_wr_cb_data v) s1;
               Some (1, s2)
             } else Some (1, s1))
         | None \<Rightarrow> Some (1, s1))
      })"

definition cfgSetId ::
    "(cfgCallback \<Rightarrow> nat \<Rightarrow> bool \<Rightarrow> u32 \<Rightarrow> 'a cfg_scheme \<Rightarrow> 'a cfg_scheme option) \<Rightarrow>
     s32 \<Rightarrow> s32 \<Rightarrow> bool \<Rightarrow> 'a cfg_scheme \<Rightarrow> (s32 \<times> 'a cfg_scheme) option" where
  "cfgSetId run i val trigCb s = (case var_by_id i (vars s) of
     Some k \<Rightarrow> cfgSetInd run (of_nat k) val trigCb s
   | None \<Rightarrow> Some (0, s))"

definition cfgSetCallback ::
    "s32 \<Rightarrow> cfgCallback option \<Rightarrow> bool \<Rightarrow> u32 \<Rightarrow> 'a cfg_scheme \<Rightarrow> s32 \<times> 'a cfg_scheme" where
  "cfgSetCallback i cb read data s = (case var_by_id i (vars s) of
     Some k \<Rightarrow>
       let v = vars s ! k;
           v' = (if read then v\<lparr>cv_rd_cb := cb, cv_rd_cb_data := data\<rparr>
                 else v\<lparr>cv_wr_cb := cb, cv_wr_cb_data := data\<rparr>)
       in (1, s\<lparr>vars := (vars s)[k := v']\<rparr>)
   | None \<Rightarrow> (0, s))"

text \<open>\<open>cfgCpyCB\<close> sets without triggering callbacks, so the runner it passes on is never
  used.\<close>

definition cfgCpyCB :: "nat \<Rightarrow> bool \<Rightarrow> u32 \<Rightarrow> 'a cfg_scheme \<Rightarrow> 'a cfg_scheme option" where
  "cfgCpyCB k isread data s =
     (if data = 0 then Some s
      else if isread then do {
        v \<leftarrow> aget (vars s) k;
        (_, s1) \<leftarrow> cfgSetId (\<lambda>_ _ _ _ _. None) (cv_id v) (rd32 (mem s) data) False s;
        Some s1
      } else do {
        v \<leftarrow> aget (vars s) k;
        Some (s\<lparr>mem := wr32 (mem s) data (cv_val v)\<rparr>)
      })"

text \<open>\<open>cfgFloatMilliCB\<close> writes \<open>val\<close> without looking at the limits. A null pointer or a
  value that does not fit is undefined.\<close>

definition cfgFloatMilliCB :: "nat \<Rightarrow> bool \<Rightarrow> u32 \<Rightarrow> 'a cfg_scheme \<Rightarrow> 'a cfg_scheme option" where
  "cfgFloatMilliCB k isread data s =
     (if data = 0 then None
      else if isread then do {
        v \<leftarrow> float_milli_read (rd32 (mem s) data);
        if k < length (vars s) then Some (set_val k v s) else None
      } else do {
        v \<leftarrow> aget (vars s) k;
        Some (s\<lparr>mem := wr32 (mem s) data (milli_float_write (cv_val v))\<rparr>)
      })"

definition run_cb ::
    "(nat \<Rightarrow> bool \<Rightarrow> u32 \<Rightarrow> 'a cfg_scheme \<Rightarrow> 'a cfg_scheme option) \<Rightarrow>
     cfgCallback \<Rightarrow> nat \<Rightarrow> bool \<Rightarrow> u32 \<Rightarrow> 'a cfg_scheme \<Rightarrow> 'a cfg_scheme option" where
  "run_cb vcb cb = (case cb of
     var_cb_fn \<Rightarrow> vcb
   | cfgCpyCB_fn \<Rightarrow> cfgCpyCB
   | cfgFloatMilliCB_fn \<Rightarrow> cfgFloatMilliCB)"

section \<open>The kernel's requests\<close>

definition cfgInit :: "'a cfg_scheme \<Rightarrow> 'a cfg_scheme option" where
  "cfgInit s = do {
     (ch, s1) \<leftarrow> rpmsg_create_ch (cstr ''cfg_mgmt'') (Some config_msg_handler_cb) s;
     Some (s1\<lparr>rpmsg_config := ch\<rparr>)
   }"

definition send_reply :: "'a cfg_scheme \<Rightarrow> 'a cfg_scheme option" where
  "send_reply s = rpmsg_send (rpmsg_config s) (enc_msg (cfgMsgTxBuf s)) sizeof_cfgMsg s"

definition put_rep :: "(cfgMsg \<Rightarrow> cfgMsg) \<Rightarrow> 'a cfg_scheme \<Rightarrow> 'a cfg_scheme" where
  "put_rep f s = s\<lparr>cfgMsgTxBuf := f (cfgMsgTxBuf s)\<rparr>"

text \<open>\<open>REQ_NAME\<close> and \<open>REQ_DESC\<close>: the text, cut at the limit, over the data section, which
  keeps what it held behind it.\<close>

definition put_text :: "u32 \<Rightarrow> u8 list \<Rightarrow> s32 \<Rightarrow> cfgMsg \<Rightarrow> cfgMsg" where
  "put_text t txt val m =
     (let l = (of_nat (length txt) :: u32); l' = (if l > TEXT_MAX then TEXT_MAX else l)
      in m\<lparr>m_len := l', m_data := strncpy (m_data m) txt (unat l'), m_val := val, m_type := t\<rparr>)"

text \<open>The handler reads the request where the message layer found it, whatever the
  length of the message.\<close>

definition config_msg_handler ::
    "(nat \<Rightarrow> bool \<Rightarrow> u32 \<Rightarrow> 'a cfg_scheme \<Rightarrow> 'a cfg_scheme option) \<Rightarrow>
     u32 \<Rightarrow> u32 \<Rightarrow> 'a cfg_scheme \<Rightarrow> 'a cfg_scheme option" where
  "config_msg_handler vcb data len s0 = (
     let run = run_cb vcb;
         s = put_rep (\<lambda>m. m\<lparr>m_seq := rd32 (mem s0) data, m_ind := rd32 (mem s0) (data + 8), m_len := 0\<rparr>) s0;
         typ = rd32 (mem s) (data + 4)
     in if typ = REQ_NOP
        then send_reply (put_rep (\<lambda>m. m\<lparr>m_type := RES_OK, m_val := 0\<rparr>) s)
        else if typ = REQ_N_VARS
        then send_reply (put_rep (\<lambda>m. m\<lparr>m_type := RES_N_VARS, m_val := n_vars s\<rparr>) s)
        else let ind = (rd32 (mem s) (data + 8) :: s32)
        in if n_vars s \<le>s ind \<or> ind <s 0
        then send_reply (put_rep (\<lambda>m. m\<lparr>m_type := RES_ID_ERR\<rparr>) s)
        else do {
          v \<leftarrow> aget (vars s) (unat ind);
          s2 \<leftarrow> (if typ = REQ_WR then do {
                   (r, s1) \<leftarrow> cfgSetInd run ind (rd32 (mem s) (data + 12)) True s;
                   Some (put_rep (\<lambda>m. m\<lparr>m_type := (if r = 1 then RES_OK else RES_ID_ERR)\<rparr>) s1)
                 } else if typ = REQ_RD then do {
                   s1 \<leftarrow> (case cv_rd_cb v of
                            Some cb \<Rightarrow> run cb (unat ind) True (cv_rd_cb_data v) s
                          | None \<Rightarrow> Some s);
                   v1 \<leftarrow> aget (vars s1) (unat ind);
                   Some (put_rep (\<lambda>m. m\<lparr>m_val := cv_val v1, m_type := RES_RD_VAL\<rparr>) s1)
                 } else if typ = REQ_RD_MIN then
                   Some (put_rep (\<lambda>m. m\<lparr>m_val := cv_min v, m_type := RES_RD_MIN\<rparr>) s)
                 else if typ = REQ_RD_MAX then
                   Some (put_rep (\<lambda>m. m\<lparr>m_val := cv_max v, m_type := RES_RD_MAX\<rparr>) s)
                 else if typ = REQ_NAME then
                   Some (put_rep (put_text RES_NAME (cv_name v) (cv_val v)) s)
                 else if typ = REQ_DESC then
                   Some (put_rep (put_text RES_DESC (cv_desc v) (cv_val v)) s)
                 else Some (put_rep (\<lambda>m. m\<lparr>m_type := RES_REQ_ERR\<rparr>) s));
          send_reply s2
        })"

section \<open>The message codec\<close>

lemma length_enc_msg [simp]: "length (enc_msg m) = 20 + length (m_data m)"
  by (simp add: enc_msg_def)

lemma dec_enc_msg [codec_simps]: "length (m_data m) = MSG_DATA_SIZE \<Longrightarrow> dec_msg (enc_msg m) = m"
  by (simp add: dec_msg_def enc_msg_def codec_simps)

lemma length_put_text:
  "length (m_data m) = MSG_DATA_SIZE \<Longrightarrow> length (m_data (put_text t txt v m)) = MSG_DATA_SIZE"
proof -
  assume m: "length (m_data m) = MSG_DATA_SIZE"
  let ?l = "(if (of_nat (length txt) :: u32) > TEXT_MAX then TEXT_MAX else of_nat (length txt))"
  have "unat ?l \<le> 76" by (simp add: word_less_nat_alt)
  with m show ?thesis by (simp add: put_text_def Let_def)
qed

text \<open>The text a reply carries: what the kernel reads from the data section with the
  length of the reply.\<close>

lemma put_text_content:
  assumes "length txt < 4294967296" and "length (m_data m) = MSG_DATA_SIZE"
  shows "take (unat (m_len (put_text t txt v m))) (m_data (put_text t txt v m)) = take 76 txt"
    and "unat (m_len (put_text t txt v m)) = min 76 (length txt)"
proof -
  have l: "unat (of_nat (length txt) :: u32) = length txt" using assms(1) by (simp add: unat_of_nat)
  show "unat (m_len (put_text t txt v m)) = min 76 (length txt)"
    using l by (simp add: put_text_def Let_def word_less_nat_alt)
  then show "take (unat (m_len (put_text t txt v m))) (m_data (put_text t txt v m)) = take 76 txt"
    using l by (simp add: put_text_def Let_def word_less_nat_alt strncpy_def min_def)
qed

section \<open>Keyed lookup\<close>

text \<open>The contract of the search loops: the first variable with the key, if there is one.\<close>

locale keyed_lookup =
  fixes lookup :: "'k \<Rightarrow> 'v list \<Rightarrow> nat option"
    and key :: "'v \<Rightarrow> 'k"
  assumes lookup_first: "lookup k vs = find_index (\<lambda>v. key v = k) vs"
begin

lemma lookup_SomeD: "lookup k vs = Some i \<Longrightarrow> i < length vs \<and> key (vs ! i) = k"
  by (auto simp: lookup_first dest: find_index_SomeD)

lemma lookup_None_iff: "lookup k vs = None \<longleftrightarrow> k \<notin> key ` set vs"
  by (auto simp: lookup_first find_index_None_iff)

lemma lookup_distinct:
  assumes "distinct (map key vs)" and "i < length vs"
  shows "lookup (key (vs ! i)) vs = Some i"
  unfolding lookup_first
proof (rule find_index_SomeI [OF assms(2) refl])
  fix j assume "j < i"
  then show "key (vs ! j) \<noteq> key (vs ! i)"
    using assms nth_eq_iff_index_eq [of "map key vs" j i] by simp
qed

lemma lookup_eq_iff:
  "distinct (map key vs) \<Longrightarrow> lookup k vs = Some i \<longleftrightarrow> i < length vs \<and> key (vs ! i) = k"
  using lookup_SomeD lookup_distinct by blast

text \<open>Updates that keep the key do not disturb lookups.\<close>

lemma lookup_update:
  assumes "i < length vs" and "key v = key (vs ! i)"
  shows "lookup k (vs[i := v]) = lookup k vs"
proof -
  have m: "map key (vs[i := v]) = map key vs"
    using assms by (simp add: map_update list_update_same_conv)
  have f: "find_index (\<lambda>v. key v = k) xs = find_index (\<lambda>x. x = k) (map key xs)" for xs
    by (induction xs) auto
  show ?thesis unfolding lookup_first f m ..
qed

end

interpretation by_id: keyed_lookup var_by_id cv_id
  by unfold_locales (simp add: var_by_id_def)

interpretation by_name: keyed_lookup var_by_name cv_name
  by unfold_locales (simp add: var_by_name_def)

section \<open>The invariant of the variable table\<close>

definition limits_ok :: "cfgVar \<Rightarrow> bool" where
  "limits_ok v \<longleftrightarrow> sint (cv_min v) \<le> sint (cv_val v) \<and> sint (cv_val v) \<le> sint (cv_max v)"

text \<open>Every value lies within its limits; ids and names identify a variable.\<close>

definition vars_inv :: "'a cfg_scheme \<Rightarrow> bool" where
  "vars_inv s \<longleftrightarrow> length (vars s) < 2147483648 \<and> distinct (map cv_id (vars s)) \<and>
     distinct (map cv_name (vars s)) \<and> (\<forall>v \<in> set (vars s). limits_ok v)"

lemma vars_init_ok:
  "length vars_init = 7" "distinct (map cv_id vars_init)" "distinct (map cv_name vars_init)"
  "\<forall>v \<in> set vars_init. limits_ok v"
  by (simp_all add: vars_init_def dflt_var_def limits_ok_def cstr_def)

lemma sint_of_nat_small: "n < 2147483648 \<Longrightarrow> sint (of_nat n :: s32) = int n"
  by (simp add: sint_uint uint_nat signed_take_bit_int_eq_self unat_of_nat)

lemma sint_n_vars: "length (vars s) < 2147483648 \<Longrightarrow> sint (n_vars s) = int (length (vars s))"
  by (simp add: n_vars_def sint_of_nat_small)

lemma clamp_sint:
  "sint lo \<le> sint hi \<Longrightarrow> sint (clamp lo hi v) = max (sint lo) (min (sint hi) (sint v))"
  by (auto simp: clamp_def sless_sint Let_def)

lemma clamp_id: "sint lo \<le> sint v \<Longrightarrow> sint v \<le> sint hi \<Longrightarrow> clamp lo hi v = v"
  by (auto simp: clamp_def sless_sint Let_def)

lemma sint_nonneg_unat:
  assumes "0 \<le> sint (i :: s32)"
  shows "int (unat i) = sint i"
proof -
  define n where "n = nat (sint i)"
  have n: "n < 2147483648" "sint i = int n" using assms sint_s32_bounds [of i] by (simp_all add: n_def)
  have "i = of_nat n" using n(2) by (metis of_int_of_nat_eq of_int_sint_s32)
  then show ?thesis using n by (simp add: unat_of_nat)
qed

section \<open>Setting values\<close>

lemma vars_inv_nth: "vars_inv s \<Longrightarrow> k < length (vars s) \<Longrightarrow> limits_ok (vars s ! k)"
  by (simp add: vars_inv_def)

lemma limits_order: "limits_ok v \<Longrightarrow> sint (cv_min v) \<le> sint (cv_max v)"
  by (simp add: limits_ok_def)

lemma limits_clamp: "limits_ok v \<Longrightarrow> limits_ok (v\<lparr>cv_val := clamp (cv_min v) (cv_max v) w\<rparr>)"
  using clamp_sint [of "cv_min v" "cv_max v" w] by (auto simp: limits_ok_def)

lemma map_update_same: "k < length xs \<Longrightarrow> f x = f (xs ! k) \<Longrightarrow> map f (xs[k := x]) = map f xs"
  by (simp add: map_update list_update_same_conv)

lemma vars_inv_update:
  assumes "vars_inv s" and "k < length (vars s)" and "limits_ok v"
    and "cv_id v = cv_id (vars s ! k)" and "cv_name v = cv_name (vars s ! k)"
  shows "vars_inv (s\<lparr>vars := (vars s)[k := v]\<rparr>)"
  using assms map_update_same [of k "vars s" cv_id v] map_update_same [of k "vars s" cv_name v]
  by (auto simp: vars_inv_def dest!: set_update_subset_insert [THEN subsetD])

lemma vars_inv_clamp:
  "vars_inv s \<Longrightarrow> k < length (vars s) \<Longrightarrow>
   vars_inv (set_val k (clamp (cv_min (vars s ! k)) (cv_max (vars s ! k)) w) s)"
  unfolding set_val_def by (rule vars_inv_update) (simp_all add: limits_clamp vars_inv_nth)

lemma cfgSetInd_in:
  fixes val :: s32
  assumes "vars_inv s" and "0 \<le> sint i" and "sint i < int (length (vars s))"
  defines "v \<equiv> vars s ! unat i"
  defines "s1 \<equiv> set_val (unat i) (clamp (cv_min v) (cv_max v) val) s"
  shows "cfgSetInd run i val trig s = (case cv_wr_cb v of
      Some cb \<Rightarrow> (if trig then map_option (Pair 1) (run cb (unat i) False (cv_wr_cb_data v) s1) else Some (1, s1))
    | None \<Rightarrow> Some (1, s1))"
proof -
  have u: "unat i < length (vars s)" using assms(2,3) sint_nonneg_unat [of i] by linarith
  have "\<not> i <s 0" "\<not> n_vars s <s i"
    using assms(1-3) sint_n_vars [of s] by (simp_all add: sless_sint vars_inv_def)
  with u show ?thesis
    by (simp add: cfgSetInd_def defined_simps v_def s1_def Let_def map_option_case split: option.split Option.bind_split)
qed

lemma cfgSetInd_refused:
  "vars_inv s \<Longrightarrow> sint i < 0 \<or> int (length (vars s)) < sint i \<Longrightarrow> cfgSetInd run i val trig s = Some (0, s)"
  using sint_n_vars [of s] by (auto simp: cfgSetInd_def sless_sint vars_inv_def)

lemma cfgSetInd_edge:
  assumes "vars_inv s" and "sint i = int (length (vars s))"
  shows "cfgSetInd run i val trig s = None"
proof -
  have "unat i = length (vars s)" using assms(2) sint_nonneg_unat [of i] by linarith
  then show ?thesis
    using assms sint_n_vars [of s] by (simp add: cfgSetInd_def sless_sint vars_inv_def aget_out)
qed

lemma cfgSetId_known:
  assumes "vars_inv s" and "k < length (vars s)" and "cv_id (vars s ! k) = i"
  shows "cfgSetId run i val trig s = cfgSetInd run (of_nat k) val trig s"
  using assms by_id.lookup_distinct [of "vars s" k] by (simp add: cfgSetId_def vars_inv_def)

lemma cfgSetId_unknown:
  "i \<notin> cv_id ` set (vars s) \<Longrightarrow> cfgSetId run i val trig s = Some (0, s)"
  using by_id.lookup_None_iff [of i "vars s"] by (simp add: cfgSetId_def)

lemma cfgCpyCB_read:
  assumes "vars_inv s" and "k < length (vars s)" and "data \<noteq> 0"
  shows "cfgCpyCB k True data s =
    Some (set_val k (clamp (cv_min (vars s ! k)) (cv_max (vars s ! k)) (rd32 (mem s) data)) s)"
proof -
  have k: "k < 2147483648" using assms(1,2) by (simp add: vars_inv_def)
  have i: "sint (of_nat k :: s32) = int k" "unat (of_nat k :: s32) = k"
    using k by (simp_all add: sint_of_nat_small unat_of_nat)
  show ?thesis
    using assms cfgSetId_known [of s k "cv_id (vars s ! k)"]
      cfgSetInd_in [OF assms(1), of "of_nat k"] i
    by (simp add: cfgCpyCB_def defined_simps split: option.splits)
qed

lemma cfgCpyCB_write:
  "k < length (vars s) \<Longrightarrow> data \<noteq> 0 \<Longrightarrow>
   cfgCpyCB k False data s = Some (s\<lparr>mem := wr32 (mem s) data (cv_val (vars s ! k))\<rparr>)"
  by (simp add: cfgCpyCB_def defined_simps)

lemma cfgCpyCB_inv:
  "vars_inv s \<Longrightarrow> k < length (vars s) \<Longrightarrow> \<exists>s'. cfgCpyCB k r data s = Some s' \<and> vars_inv s'"
  by (cases "data = 0"; cases r)
    (simp_all add: cfgCpyCB_read cfgCpyCB_write vars_inv_clamp, simp_all add: cfgCpyCB_def vars_inv_def)

lemma cfgSetCallback_inv:
  assumes "vars_inv s"
  shows "vars_inv (snd (cfgSetCallback i cb rd data s))"
proof (cases "var_by_id i (vars s)")
  case None
  with assms show ?thesis by (simp add: cfgSetCallback_def)
next
  case (Some k)
  then have k: "k < length (vars s)" by (auto dest: by_id.lookup_SomeD)
  have "limits_ok (vars s ! k)" by (rule vars_inv_nth [OF assms k])
  with Some k assms show ?thesis
    by (simp add: cfgSetCallback_def Let_def vars_inv_update limits_ok_def)
qed

section \<open>The request protocol, abstractly\<close>

text \<open>The request at an address, and the answer of a server that holds the variables \<open>vs\<close>
  and whose previous reply was \<open>old\<close>: the new variables and the reply. Members a request
  does not determine keep what the previous reply held.\<close>

definition req_at :: "memory \<Rightarrow> u32 \<Rightarrow> cfgMsg" where
  "req_at m a = \<lparr>m_seq = rd32 m a, m_type = rd32 m (a + 4), m_ind = rd32 m (a + 8),
     m_val = rd32 m (a + 12), m_len = rd32 m (a + 16), m_data = rd_bytes m (a + 20) MSG_DATA_SIZE\<rparr>"

definition valid_ind :: "cfgVar list \<Rightarrow> s32 \<Rightarrow> bool" where
  "valid_ind vs i \<longleftrightarrow> 0 \<le> sint i \<and> sint i < int (length vs)"

definition answer :: "cfgVar list \<Rightarrow> cfgMsg \<Rightarrow> cfgMsg \<Rightarrow> cfgVar list \<times> cfgMsg" where
  "answer vs old q =
     (let r = old\<lparr>m_seq := m_seq q, m_ind := m_ind q, m_len := 0\<rparr>;
          i = unat (m_ind q); v = vs ! i; t = m_type q
      in if t = REQ_NOP then (vs, r\<lparr>m_type := RES_OK, m_val := 0\<rparr>)
         else if t = REQ_N_VARS then (vs, r\<lparr>m_type := RES_N_VARS, m_val := of_nat (length vs)\<rparr>)
         else if \<not> valid_ind vs (m_ind q) then (vs, r\<lparr>m_type := RES_ID_ERR\<rparr>)
         else if t = REQ_WR then
           (vs[i := v\<lparr>cv_val := clamp (cv_min v) (cv_max v) (m_val q)\<rparr>], r\<lparr>m_type := RES_OK\<rparr>)
         else if t = REQ_RD then (vs, r\<lparr>m_val := cv_val v, m_type := RES_RD_VAL\<rparr>)
         else if t = REQ_RD_MIN then (vs, r\<lparr>m_val := cv_min v, m_type := RES_RD_MIN\<rparr>)
         else if t = REQ_RD_MAX then (vs, r\<lparr>m_val := cv_max v, m_type := RES_RD_MAX\<rparr>)
         else if t = REQ_NAME then (vs, put_text RES_NAME (cv_name v) (cv_val v) r)
         else if t = REQ_DESC then (vs, put_text RES_DESC (cv_desc v) (cv_val v) r)
         else (vs, r\<lparr>m_type := RES_REQ_ERR\<rparr>))"

text \<open>The request runs no callback.\<close>

definition no_callback :: "cfgVar list \<Rightarrow> cfgMsg \<Rightarrow> bool" where
  "no_callback vs q \<longleftrightarrow> (valid_ind vs (m_ind q) \<longrightarrow>
     (m_type q = REQ_WR \<longrightarrow> cv_wr_cb (vs ! unat (m_ind q)) = None) \<and>
     (m_type q = REQ_RD \<longrightarrow> cv_rd_cb (vs ! unat (m_ind q)) = None))"

lemma valid_ind_code:
  "vars_inv s \<Longrightarrow> (n_vars s \<le>s i \<or> i <s 0) \<longleftrightarrow> \<not> valid_ind (vars s) i"
  using sint_n_vars [of s] by (auto simp: valid_ind_def sless_sint sle_sint vars_inv_def)

lemma valid_ind_unat: "valid_ind vs i \<Longrightarrow> unat i < length vs"
  using sint_nonneg_unat [of i] unfolding valid_ind_def by linarith

text \<open>Without callbacks the handler is the abstract server followed by one transmission.\<close>

lemma config_msg_handler_answer:
  assumes inv: "vars_inv s" and nc: "no_callback (vars s) (req_at (mem s) data)"
  defines "a \<equiv> answer (vars s) (cfgMsgTxBuf s) (req_at (mem s) data)"
  shows "config_msg_handler vcb data len s = send_reply (s\<lparr>vars := fst a, cfgMsgTxBuf := snd a\<rparr>)"
proof -
  let ?q = "req_at (mem s) data"
  let ?s = "put_rep (\<lambda>m. m\<lparr>m_seq := rd32 (mem s) data, m_ind := rd32 (mem s) (data + 8), m_len := 0\<rparr>) s"
  let ?i = "rd32 (mem s) (data + 8)"
  have q: "m_type ?q = rd32 (mem s) (data + 4)" "m_ind ?q = ?i" "m_seq ?q = rd32 (mem s) data"
    "m_val ?q = rd32 (mem s) (data + 12)" by (simp_all add: req_at_def)
  have n: "n_vars ?s = n_vars s" "vars ?s = vars s" "mem ?s = mem s" "vars_inv ?s"
    using inv by (simp_all add: put_rep_def n_vars_def vars_inv_def)
  note vi = valid_ind_code [OF inv, of ?i]
  consider "m_type ?q = REQ_NOP" | "m_type ?q = REQ_N_VARS"
    | "m_type ?q \<noteq> REQ_NOP" "m_type ?q \<noteq> REQ_N_VARS" "\<not> valid_ind (vars s) ?i"
    | "m_type ?q \<noteq> REQ_NOP" "m_type ?q \<noteq> REQ_N_VARS" "valid_ind (vars s) ?i" by blast
  then show ?thesis
  proof cases
    case 4
    note u = valid_ind_unat [OF 4(3)]
    have set: "cfgSetInd (run_cb vcb) ?i w True ?s =
        Some (1, set_val (unat ?i) (clamp (cv_min (vars s ! unat ?i)) (cv_max (vars s ! unat ?i)) w) ?s)"
      if "m_type ?q = REQ_WR" for w
      using cfgSetInd_in [OF n(4), of ?i "run_cb vcb" w True] 4(3) nc that q(2)
      by (simp add: n valid_ind_def no_callback_def)
    show ?thesis
      using 4 u vi nc q set n unfolding config_msg_handler_def a_def answer_def Let_def
      by (auto simp: no_callback_def defined_simps put_rep_def set_val_def split: option.split)
  qed (use vi q n in \<open>simp_all add: config_msg_handler_def a_def answer_def Let_def put_rep_def n_vars_def\<close>)
qed

section \<open>The server on the message layer\<close>

text \<open>The handler can work: the message layer is in order, the variables are within their
  limits, and the configuration channel knows its partner.\<close>

definition server_ok :: "u16 \<Rightarrow> u32 \<Rightarrow> 'a cfg_scheme \<Rightarrow> bool" where
  "server_ok u0 base s \<longleftrightarrow> link_ok u0 base s \<and> vars_inv s \<and> length (m_data (cfgMsgTxBuf s)) = MSG_DATA_SIZE \<and>
     (\<exists>c < MAX_RPMSG_CH. rpmsg_config s = Some c \<and> ch_state (channels s ! c) = CH_UP)"

text \<open>The addresses of the configuration channel.\<close>

definition cfg_ends :: "'a cfg_scheme \<Rightarrow> u32 \<times> u32" where
  "cfg_ends s = (case rpmsg_config s of None \<Rightarrow> (0, 0)
     | Some c \<Rightarrow> (local_addr (channels s ! c), remote_addr (channels s ! c)))"

lemma link_ok_cfg_upd [simp]:
  "link_ok u0 base (s\<lparr>vars := x\<rparr>) = link_ok u0 base s"
  "link_ok u0 base (s\<lparr>cfgMsgTxBuf := b\<rparr>) = link_ok u0 base s"
  "link_ok u0 base (s\<lparr>vars := x, cfgMsgTxBuf := b\<rparr>) = link_ok u0 base s"
  by (simp_all add: link_ok_def rings_inv_def tx_own_def trace_ok_def trace_region_def ch_inv_def
      gic_inv_def gic_ready_def)

lemma tx_sent_cfg_upd [simp]:
  "tx_sent u0 (s\<lparr>vars := x\<rparr>) = tx_sent u0 s" "tx_sent u0 (s\<lparr>cfgMsgTxBuf := b\<rparr>) = tx_sent u0 s"
  "tx_sent u0 (s\<lparr>vars := x, cfgMsgTxBuf := b\<rparr>) = tx_sent u0 s"
  by (simp_all add: tx_sent_def)

text \<open>Sending on an open channel.\<close>

lemma rpmsg_send_link:
  assumes ok: "link_ok u0 base s" and p: "pending_bufs (tx_vring s) = d # ds"
    and c: "c < MAX_RPMSG_CH" "ch_state (channels s ! c) = CH_UP"
    and len: "len \<le> DATA_LEN_MAX" "unat len = length data"
  shows "\<exists>v m l. rpmsg_send (Some c) data len s = Some (s\<lparr>tx_vring := v, mem := m, io_log := l\<rparr>) \<and>
      tx_sent u0 (s\<lparr>tx_vring := v, mem := m, io_log := l\<rparr>) = tx_sent u0 s @
        [(local_addr (channels s ! c), remote_addr (channels s ! c), 0, data)] \<and>
      link_ok u0 base (s\<lparr>tx_vring := v, mem := m, io_log := l\<rparr>) \<and> pending_bufs v = ds"
proof -
  have "length (channels s) = MAX_RPMSG_CH" using ok by (simp add: link_ok_def ch_inv_def)
  with block_send_link [OF ok p len(1), of data "local_addr (channels s ! c)" "remote_addr (channels s ! c)"] c len(2)
  show ?thesis by (simp add: rpmsg_send_def defined_simps)
qed

lemma answer_data:
  "length (m_data old) = MSG_DATA_SIZE \<Longrightarrow> length (m_data (snd (answer vs old q))) = MSG_DATA_SIZE"
  by (simp add: answer_def Let_def length_put_text)

lemma answer_vars:
  assumes "vars_inv s"
  shows "vars_inv (s\<lparr>vars := fst (answer (vars s) old q)\<rparr>)"
proof (cases "valid_ind (vars s) (m_ind q) \<and> m_type q = REQ_WR")
  case True
  then show ?thesis
    using vars_inv_clamp [OF assms valid_ind_unat] by (simp add: answer_def Let_def set_val_def)
next
  case False
  then have "fst (answer (vars s) old q) = vars s" by (auto simp: answer_def Let_def)
  with assms show ?thesis by simp
qed

lemma handler_server:
  assumes ok: "server_ok u0 base s" and p: "pending_bufs (tx_vring s) = d # ds"
    and nc: "no_callback (vars s) (req_at (mem s) data)"
  defines "a \<equiv> answer (vars s) (cfgMsgTxBuf s) (req_at (mem s) data)"
  shows "\<exists>s'. config_msg_handler vcb data len s = Some s' \<and> server_ok u0 base s' \<and>
    vars s' = fst a \<and> cfgMsgTxBuf s' = snd a \<and> cfg_ends s' = cfg_ends s \<and>
    tx_sent u0 s' = tx_sent u0 s @ [(fst (cfg_ends s), snd (cfg_ends s), 0, enc_msg (snd a))] \<and>
    pending_bufs (tx_vring s') = ds \<and> rx_vring s' = rx_vring s \<and>
    channels s' = channels s \<and> rpmsg_config s' = rpmsg_config s \<and> cfg.more s' = cfg.more s"
proof -
  let ?s = "s\<lparr>vars := fst a, cfgMsgTxBuf := snd a\<rparr>"
  from ok obtain c where c: "c < MAX_RPMSG_CH" "rpmsg_config s = Some c" "ch_state (channels s ! c) = CH_UP"
    by (auto simp: server_ok_def)
  have inv: "link_ok u0 base s" "vars_inv s" "length (m_data (cfgMsgTxBuf s)) = MSG_DATA_SIZE"
    using ok by (simp_all add: server_ok_def)
  have data: "length (m_data (snd a)) = MSG_DATA_SIZE" using inv(3) by (simp add: a_def answer_data)
  then obtain v m l where v: "rpmsg_send (Some c) (enc_msg (snd a)) sizeof_cfgMsg ?s = Some (?s\<lparr>tx_vring := v, mem := m, io_log := l\<rparr>)"
    "tx_sent u0 (?s\<lparr>tx_vring := v, mem := m, io_log := l\<rparr>) = tx_sent u0 ?s @
        [(local_addr (channels s ! c), remote_addr (channels s ! c), 0, enc_msg (snd a))]"
    "link_ok u0 base (?s\<lparr>tx_vring := v, mem := m, io_log := l\<rparr>)" "pending_bufs v = ds"
    using rpmsg_send_link [of u0 base ?s d ds c sizeof_cfgMsg "enc_msg (snd a)"] inv(1) p c by auto
  let ?s' = "?s\<lparr>tx_vring := v, mem := m, io_log := l\<rparr>"
  have "config_msg_handler vcb data len s = Some ?s'"
    using config_msg_handler_answer [OF inv(2) nc, of vcb len] v(1) c(2) by (simp add: send_reply_def a_def)
  moreover have "vars_inv ?s'" using answer_vars [OF inv(2)] by (simp add: vars_inv_def a_def)
  then have "server_ok u0 base ?s'" using v(3) data c by (simp add: server_ok_def)
  ultimately show ?thesis using v(2,4) c by (intro exI [of _ ?s']) (simp add: cfg_ends_def)
qed

section \<open>Properties of the variable server\<close>

text \<open>The running system with the initial variables and a cleared reply buffer. The
  request \<open>q\<close> lies at 0x8000.\<close>

definition zero_msg :: cfgMsg where
  "zero_msg = \<lparr>m_seq = 0, m_type = 0, m_ind = 0, m_val = 0, m_len = 0, m_data = replicate 400 0\<rparr>"

definition cfg_demo :: "u16 list \<Rightarrow> cfgMsg \<Rightarrow> cfg" where
  "cfg_demo txs q = running txs [] (wr_bytes (\<lambda>_. 0) 0x8000 (enc_msg q)) (cfg.cfg_ext vars_init zero_msg (Some 1) ())"

lemma cfg_demo_sel:
  "vars (cfg_demo txs q) = vars_init" "cfgMsgTxBuf (cfg_demo txs q) = zero_msg"
  "rpmsg_config (cfg_demo txs q) = Some 1" "channels (cfg_demo txs q) = demo_channels"
  "mem (cfg_demo txs q) = wr_bytes (\<lambda>_. 0) 0x8000 (enc_msg q)"
  by (simp_all add: cfg_demo_def running_def)

lemma cfg_demo_vars_inv: "vars_inv (cfg_demo txs q)"
  using vars_init_ok by (simp add: vars_inv_def cfg_demo_sel)

lemma cfg_demo_ok:
  assumes "distinct (map unat txs)" and "\<forall>d \<in> set txs. unat d < VRING_SIZE"
  shows "server_ok 0 0x50 (cfg_demo txs q)" and "pending_bufs (tx_vring (cfg_demo txs q)) = txs"
    and "tx_sent 0 (cfg_demo txs q) = []" and "cfg_ends (cfg_demo txs q) = (0x51, 0x401)"
  using running_ok [OF assms, of "[]"] cfg_demo_vars_inv [of txs q]
  by (simp_all add: server_ok_def cfg_demo_sel cfg_ends_def zero_msg_def demo_channels_def)
    (simp_all add: cfg_demo_def)

lemma req_at_enc:
  assumes "length (m_data q) = MSG_DATA_SIZE"
  shows "req_at (wr_bytes m a (enc_msg q)) a = q"
proof -
  let ?bs = "enc_msg q"
  have l: "length ?bs \<le> 4294967296" using assms by simp
  note rd = rd_wr_inside [of _ _ ?bs m a, OF _ l]
  show ?thesis
    using rd [of 0 4] rd [of 4 4] rd [of 8 4] rd [of 12 4] rd [of 16 4] rd [of 20 400] assms
    by (simp add: req_at_def rd32_def enc_msg_def codec_simps)
qed

lemma cfg_demo_req: "length (m_data q) = MSG_DATA_SIZE \<Longrightarrow> req_at (mem (cfg_demo txs q)) 0x8000 = q"
  by (simp add: cfg_demo_sel req_at_enc)

text \<open>C4: the request handler refines the abstract server: for every request that runs no
  callback it sends exactly one message, to the partner of the configuration channel; the
  message is the abstract server's reply, the variables change as the abstract server's do,
  and the handler is ready for the next request.\<close>

theorem handler_refines_server:
  assumes "server_ok u0 base s" and "pending_bufs (tx_vring s) = d # ds"
    and "no_callback (vars s) (req_at (mem s) data)"
  shows "\<exists>s'. config_msg_handler vcb data len s = Some s' \<and> server_ok u0 base s' \<and>
    (vars s', cfgMsgTxBuf s') = answer (vars s) (cfgMsgTxBuf s) (req_at (mem s) data) \<and>
    tx_sent u0 s' = tx_sent u0 s @ [(fst (cfg_ends s), snd (cfg_ends s), 0, enc_msg (cfgMsgTxBuf s'))] \<and>
    pending_bufs (tx_vring s') = ds"
  using handler_server [OF assms, of vcb len] by (metis prod.collapse)

theorem handler_refines_server_witness:
  "\<exists>s'. config_msg_handler (\<lambda>_ _ _ _. None) 0x8000 420 (cfg_demo [4] (zero_msg\<lparr>m_seq := 9, m_type := REQ_N_VARS\<rparr>)) = Some s' \<and>
    tx_sent 0 s' = [(0x51, 0x401, 0, enc_msg (zero_msg\<lparr>m_seq := 9, m_type := RES_N_VARS, m_val := 7\<rparr>))]"
proof -
  let ?q = "zero_msg\<lparr>m_seq := 9, m_type := REQ_N_VARS\<rparr>"
  have q: "req_at (mem (cfg_demo [4] ?q)) 0x8000 = ?q" by (rule cfg_demo_req) (simp add: zero_msg_def)
  have nc: "no_callback (vars (cfg_demo [4] ?q)) (req_at (mem (cfg_demo [4] ?q)) 0x8000)"
    unfolding q by (simp add: no_callback_def)
  have "answer vars_init zero_msg ?q = (vars_init, zero_msg\<lparr>m_seq := 9, m_type := RES_N_VARS, m_val := 7\<rparr>)"
    using vars_init_ok(1) by (simp add: answer_def Let_def zero_msg_def)
  with handler_refines_server [OF cfg_demo_ok(1,2) nc, of "\<lambda>_ _ _ _. None" 420] show ?thesis
    unfolding q unfolding cfg_demo_sel by (auto simp: cfg_demo_ok)
qed

text \<open>a write request stores the value cut to the variable's limits, changes no other
  variable and nothing else of this one, and is answered with \<open>RES_OK\<close>, the request's
  sequence number and its index. All values stay within their limits.\<close>

theorem write_request_clamps:
  assumes "server_ok u0 base s" and "pending_bufs (tx_vring s) = d # ds"
    and "m_type (req_at (mem s) data) = REQ_WR" and "valid_ind (vars s) (m_ind (req_at (mem s) data))"
    and "cv_wr_cb (vars s ! unat (m_ind (req_at (mem s) data))) = None"
  defines "q \<equiv> req_at (mem s) data" and "v \<equiv> vars s ! unat (m_ind (req_at (mem s) data))"
  shows "\<exists>s' m. config_msg_handler vcb data len s = Some s' \<and> vars_inv s' \<and>
    (\<exists>w. vars s' = (vars s)[unat (m_ind q) := v\<lparr>cv_val := w\<rparr>] \<and>
       sint w = max (sint (cv_min v)) (min (sint (cv_max v)) (sint (m_val q)))) \<and>
    tx_sent u0 s' = tx_sent u0 s @ [(fst (cfg_ends s), snd (cfg_ends s), 0, enc_msg m)] \<and>
    m_seq m = m_seq q \<and> m_ind m = m_ind q \<and> m_type m = RES_OK \<and> m_len m = 0"
proof -
  let ?i = "unat (m_ind q)"
  have inv: "vars_inv s" using assms(1) by (simp add: server_ok_def)
  have i: "?i < length (vars s)" using valid_ind_unat [OF assms(4)] by (simp add: q_def)
  have lim: "sint (cv_min v) \<le> sint (cv_max v)"
    using limits_order [OF vars_inv_nth [OF inv i]] by (simp add: v_def q_def)
  have nc: "no_callback (vars s) (req_at (mem s) data)" using assms(3,5) by (simp add: no_callback_def)
  have a: "answer (vars s) (cfgMsgTxBuf s) q =
      ((vars s)[?i := v\<lparr>cv_val := clamp (cv_min v) (cv_max v) (m_val q)\<rparr>],
       (cfgMsgTxBuf s)\<lparr>m_seq := m_seq q, m_ind := m_ind q, m_len := 0, m_type := RES_OK\<rparr>)"
    using assms(3,4) by (simp add: answer_def q_def v_def Let_def)
  from handler_server [OF assms(1,2) nc, of vcb len] obtain s' where
    "config_msg_handler vcb data len s = Some s'" "server_ok u0 base s'"
    "vars s' = (vars s)[?i := v\<lparr>cv_val := clamp (cv_min v) (cv_max v) (m_val q)\<rparr>]"
    "tx_sent u0 s' = tx_sent u0 s @ [(fst (cfg_ends s), snd (cfg_ends s), 0, enc_msg
       ((cfgMsgTxBuf s)\<lparr>m_seq := m_seq q, m_ind := m_ind q, m_len := 0, m_type := RES_OK\<rparr>))]"
    using a unfolding q_def by auto
  then show ?thesis
    using clamp_sint [OF lim]
    by (intro exI [of _ s'] exI [of _ "(cfgMsgTxBuf s)\<lparr>m_seq := m_seq q, m_ind := m_ind q, m_len := 0, m_type := RES_OK\<rparr>"])
      (auto simp: server_ok_def)
qed

theorem write_request_clamps_witness:
  "\<exists>s' m. config_msg_handler (\<lambda>_ _ _ _. None) 0x8000 420 (cfg_demo [4] (zero_msg\<lparr>m_seq := 3, m_type := REQ_WR, m_val := 9\<rparr>)) = Some s' \<and>
    sint (cv_val (vars s' ! 0)) = 1 \<and> tx_sent 0 s' = [(0x51, 0x401, 0, enc_msg m)] \<and> m_type m = RES_OK \<and> m_seq m = 3"
proof -
  let ?q = "zero_msg\<lparr>m_seq := 3, m_type := REQ_WR, m_val := 9\<rparr>" and ?s = "cfg_demo [4] (zero_msg\<lparr>m_seq := 3, m_type := REQ_WR, m_val := 9\<rparr>)"
  have q: "req_at (mem ?s) 0x8000 = ?q" by (rule cfg_demo_req) (simp add: zero_msg_def)
  have p: "m_type (req_at (mem ?s) 0x8000) = REQ_WR" "valid_ind (vars ?s) (m_ind (req_at (mem ?s) 0x8000))"
    "cv_wr_cb (vars ?s ! unat (m_ind (req_at (mem ?s) 0x8000))) = None"
    unfolding q unfolding cfg_demo_sel by (simp_all add: valid_ind_def zero_msg_def vars_init_def dflt_var_def)
  have v: "sint (cv_min (vars_init ! 0)) = 0" "sint (cv_max (vars_init ! 0)) = 1" "0 < length vars_init"
    by (simp_all add: vars_init_def dflt_var_def)
  from write_request_clamps [OF cfg_demo_ok(1,2) p, of "\<lambda>_ _ _ _. None" 420] show ?thesis
    unfolding q unfolding cfg_demo_sel using v by (auto simp: cfg_demo_ok zero_msg_def)
qed

text \<open>A read request without callback is answered with \<open>RES_RD_VAL\<close> and the variable's
  current value, and changes no variable.\<close>

theorem read_request_returns_value:
  assumes "server_ok u0 base s" and "pending_bufs (tx_vring s) = d # ds"
    and "m_type (req_at (mem s) data) = REQ_RD" and "valid_ind (vars s) (m_ind (req_at (mem s) data))"
    and "cv_rd_cb (vars s ! unat (m_ind (req_at (mem s) data))) = None"
  defines "q \<equiv> req_at (mem s) data"
  shows "\<exists>s' m. config_msg_handler vcb data len s = Some s' \<and> vars s' = vars s \<and>
    tx_sent u0 s' = tx_sent u0 s @ [(fst (cfg_ends s), snd (cfg_ends s), 0, enc_msg m)] \<and>
    m_seq m = m_seq q \<and> m_ind m = m_ind q \<and> m_type m = RES_RD_VAL \<and> m_val m = cv_val (vars s ! unat (m_ind q))"
proof -
  have nc: "no_callback (vars s) (req_at (mem s) data)" using assms(3,5) by (simp add: no_callback_def)
  let ?m = "(cfgMsgTxBuf s)\<lparr>m_seq := m_seq q, m_ind := m_ind q, m_len := 0, m_val := cv_val (vars s ! unat (m_ind q)), m_type := RES_RD_VAL\<rparr>"
  have a: "answer (vars s) (cfgMsgTxBuf s) q = (vars s, ?m)"
    using assms(3,4) by (simp add: answer_def q_def Let_def)
  from handler_server [OF assms(1,2) nc, of vcb len] obtain s' where
    "config_msg_handler vcb data len s = Some s'" "vars s' = vars s"
    "tx_sent u0 s' = tx_sent u0 s @ [(fst (cfg_ends s), snd (cfg_ends s), 0, enc_msg ?m)]"
    using a unfolding q_def by auto
  then show ?thesis by (intro exI [of _ s'] exI [of _ ?m]) simp
qed

theorem read_request_returns_value_witness:
  "\<exists>s' m. config_msg_handler (\<lambda>_ _ _ _. None) 0x8000 420 (cfg_demo [4] (zero_msg\<lparr>m_type := REQ_RD, m_ind := 6\<rparr>)) = Some s' \<and>
    tx_sent 0 s' = [(0x51, 0x401, 0, enc_msg m)] \<and> m_type m = RES_RD_VAL \<and> m_ind m = 6"
proof -
  let ?q = "zero_msg\<lparr>m_type := REQ_RD, m_ind := 6\<rparr>" and ?s = "cfg_demo [4] (zero_msg\<lparr>m_type := REQ_RD, m_ind := 6\<rparr>)"
  have q: "req_at (mem ?s) 0x8000 = ?q" by (rule cfg_demo_req) (simp add: zero_msg_def)
  have p: "m_type (req_at (mem ?s) 0x8000) = REQ_RD" "valid_ind (vars ?s) (m_ind (req_at (mem ?s) 0x8000))"
    "cv_rd_cb (vars ?s ! unat (m_ind (req_at (mem ?s) 0x8000))) = None"
    unfolding q unfolding cfg_demo_sel by (simp_all add: valid_ind_def zero_msg_def vars_init_def dflt_var_def)
  from read_request_returns_value [OF cfg_demo_ok(1,2) p, of "\<lambda>_ _ _ _. None" 420] show ?thesis
    unfolding q unfolding cfg_demo_sel by (auto simp: cfg_demo_ok)
qed

text \<open>A name request is answered with the variable's name cut to 76 bytes, which is what
  the kernel finds in the data section with the length the reply states.\<close>

theorem name_request_returns_name:
  assumes "server_ok u0 base s" and "pending_bufs (tx_vring s) = d # ds"
    and "m_type (req_at (mem s) data) = REQ_NAME" and "valid_ind (vars s) (m_ind (req_at (mem s) data))"
    and "length (cv_name (vars s ! unat (m_ind (req_at (mem s) data)))) < 4294967296"
  defines "q \<equiv> req_at (mem s) data"
  shows "\<exists>s' m. config_msg_handler vcb data len s = Some s' \<and> vars s' = vars s \<and>
    tx_sent u0 s' = tx_sent u0 s @ [(fst (cfg_ends s), snd (cfg_ends s), 0, enc_msg m)] \<and>
    m_seq m = m_seq q \<and> m_type m = RES_NAME \<and> length (m_data m) = MSG_DATA_SIZE \<and>
    take (unat (m_len m)) (m_data m) = take 76 (cv_name (vars s ! unat (m_ind q)))"
proof -
  let ?v = "vars s ! unat (m_ind q)"
  have nc: "no_callback (vars s) (req_at (mem s) data)" using assms(3) by (simp add: no_callback_def)
  let ?r = "(cfgMsgTxBuf s)\<lparr>m_seq := m_seq q, m_ind := m_ind q, m_len := 0\<rparr>"
  let ?m = "put_text RES_NAME (cv_name ?v) (cv_val ?v) ?r"
  have a: "answer (vars s) (cfgMsgTxBuf s) q = (vars s, ?m)"
    using assms(3,4) by (simp add: answer_def q_def Let_def)
  from handler_server [OF assms(1,2) nc, of vcb len] obtain s' where
    s': "config_msg_handler vcb data len s = Some s'" "vars s' = vars s"
    "tx_sent u0 s' = tx_sent u0 s @ [(fst (cfg_ends s), snd (cfg_ends s), 0, enc_msg ?m)]"
    using a unfolding q_def by auto
  have "length (m_data ?r) = MSG_DATA_SIZE" using assms(1) by (simp add: server_ok_def)
  note t = put_text_content(1) [OF assms(5) [folded q_def] this, of RES_NAME "cv_val ?v"] length_put_text [OF this]
  have "m_seq ?m = m_seq q" "m_type ?m = RES_NAME" by (simp_all add: put_text_def Let_def)
  with s' t show ?thesis by (intro exI [of _ s'] exI [of _ ?m]) simp
qed

theorem name_request_returns_name_witness:
  "\<exists>s' m. config_msg_handler (\<lambda>_ _ _ _. None) 0x8000 420 (cfg_demo [4] (zero_msg\<lparr>m_type := REQ_NAME, m_ind := 1\<rparr>)) = Some s' \<and>
    tx_sent 0 s' = [(0x51, 0x401, 0, enc_msg m)] \<and> take (unat (m_len m)) (m_data m) = cstr ''var_2''"
proof -
  let ?q = "zero_msg\<lparr>m_type := REQ_NAME, m_ind := 1\<rparr>" and ?s = "cfg_demo [4] (zero_msg\<lparr>m_type := REQ_NAME, m_ind := 1\<rparr>)"
  have q: "req_at (mem ?s) 0x8000 = ?q" by (rule cfg_demo_req) (simp add: zero_msg_def)
  have p: "m_type (req_at (mem ?s) 0x8000) = REQ_NAME" "valid_ind (vars ?s) (m_ind (req_at (mem ?s) 0x8000))"
    "length (cv_name (vars ?s ! unat (m_ind (req_at (mem ?s) 0x8000)))) < 4294967296"
    unfolding q unfolding cfg_demo_sel by (simp_all add: valid_ind_def zero_msg_def vars_init_def dflt_var_def)
  have n: "take 76 (cv_name (vars_init ! unat (1 :: s32))) = cstr ''var_2''"
    by (simp add: vars_init_def dflt_var_def)
  from name_request_returns_name [OF cfg_demo_ok(1,2) p, of "\<lambda>_ _ _ _. None" 420] show ?thesis
    unfolding q unfolding cfg_demo_sel using n by (auto simp: cfg_demo_ok)
qed

text \<open>A request that names no variable, whatever its type beyond \<open>REQ_N_VARS\<close>, is
  answered with \<open>RES_ID_ERR\<close>, and one of unknown type for an existing variable with
  \<open>RES_REQ_ERR\<close>; neither changes a variable.\<close>

theorem bad_requests_refused:
  assumes "server_ok u0 base s" and "pending_bufs (tx_vring s) = d # ds"
    and "REQ_N_VARS < m_type (req_at (mem s) data)"
    and "valid_ind (vars s) (m_ind (req_at (mem s) data)) \<longrightarrow> REQ_DESC < m_type (req_at (mem s) data)"
  defines "q \<equiv> req_at (mem s) data"
  shows "\<exists>s' m. config_msg_handler vcb data len s = Some s' \<and> vars s' = vars s \<and>
    tx_sent u0 s' = tx_sent u0 s @ [(fst (cfg_ends s), snd (cfg_ends s), 0, enc_msg m)] \<and>
    m_seq m = m_seq q \<and> m_ind m = m_ind q \<and>
    m_type m = (if valid_ind (vars s) (m_ind q) then RES_REQ_ERR else RES_ID_ERR)"
proof -
  let ?m = "(cfgMsgTxBuf s)\<lparr>m_seq := m_seq q, m_ind := m_ind q, m_len := 0,
      m_type := (if valid_ind (vars s) (m_ind q) then RES_REQ_ERR else RES_ID_ERR)\<rparr>"
  have t: "m_type q \<noteq> 0" "m_type q \<noteq> 1"
    "valid_ind (vars s) (m_ind q) \<Longrightarrow> m_type q \<noteq> 2 \<and> m_type q \<noteq> 3 \<and> m_type q \<noteq> 4 \<and> m_type q \<noteq> 5 \<and> m_type q \<noteq> 6 \<and> m_type q \<noteq> 7"
    using assms(3,4) by (auto simp: q_def)
  then have nc: "no_callback (vars s) (req_at (mem s) data)" by (auto simp: no_callback_def q_def)
  have a: "answer (vars s) (cfgMsgTxBuf s) q = (vars s, ?m)" using t by (simp add: answer_def Let_def)
  from handler_server [OF assms(1,2) nc, of vcb len] obtain s' where
    "config_msg_handler vcb data len s = Some s'" "vars s' = vars s"
    "tx_sent u0 s' = tx_sent u0 s @ [(fst (cfg_ends s), snd (cfg_ends s), 0, enc_msg ?m)]"
    using a unfolding q_def by auto
  then show ?thesis by (intro exI [of _ s'] exI [of _ ?m]) simp
qed

theorem bad_requests_refused_witness:
  "\<exists>s' m. config_msg_handler (\<lambda>_ _ _ _. None) 0x8000 420 (cfg_demo [4] (zero_msg\<lparr>m_type := REQ_WR, m_ind := 7\<rparr>)) = Some s' \<and>
    tx_sent 0 s' = [(0x51, 0x401, 0, enc_msg m)] \<and> m_type m = RES_ID_ERR"
proof -
  let ?q = "zero_msg\<lparr>m_type := REQ_WR, m_ind := 7\<rparr>" and ?s = "cfg_demo [4] (zero_msg\<lparr>m_type := REQ_WR, m_ind := 7\<rparr>)"
  have q: "req_at (mem ?s) 0x8000 = ?q" by (rule cfg_demo_req) (simp add: zero_msg_def)
  have nv: "\<not> valid_ind vars_init 7" using vars_init_ok(1) by (simp add: valid_ind_def)
  have p: "REQ_N_VARS < m_type (req_at (mem ?s) 0x8000)"
    "valid_ind (vars ?s) (m_ind (req_at (mem ?s) 0x8000)) \<longrightarrow> REQ_DESC < m_type (req_at (mem ?s) 0x8000)"
    unfolding q unfolding cfg_demo_sel using nv by simp_all
  from bad_requests_refused [OF cfg_demo_ok(1,2) p, of "\<lambda>_ _ _ _. None" 420] show ?thesis
    unfolding q unfolding cfg_demo_sel using nv by (auto simp: cfg_demo_ok)
qed

text \<open>The message codec loses nothing: the kernel side reads back exactly the message
  that was encoded.\<close>

theorem message_codec_roundtrip:
  assumes "length (m_data m) = MSG_DATA_SIZE"
  shows "dec_msg (enc_msg m) = m \<and> length (enc_msg m) = unat sizeof_cfgMsg \<and>
    req_at (wr_bytes me a (enc_msg m)) a = m"
  using dec_enc_msg [OF assms] req_at_enc [OF assms] assms by simp

theorem message_codec_roundtrip_witness:
  "dec_msg (enc_msg (zero_msg\<lparr>m_seq := 77, m_val := -5\<rparr>)) = zero_msg\<lparr>m_seq := 77, m_val := -5\<rparr>"
  using message_codec_roundtrip [of "zero_msg\<lparr>m_seq := 77, m_val := -5\<rparr>"] by (simp add: zero_msg_def)

text \<open>A variable set by its id is read back, by id and by name, as the value cut to its
  limits, and every other variable keeps its value.\<close>

theorem set_then_get:
  assumes "vars_inv s" and "k < length (vars s)"
  defines "v \<equiv> vars s ! k"
  shows "\<exists>s' w. cfgSetId run (cv_id v) val False s = Some (1, s') \<and> vars_inv s' \<and>
    sint w = max (sint (cv_min v)) (min (sint (cv_max v)) (sint val)) \<and>
    cfgGetValId (cv_id v) (Some old) s' = (1, Some w) \<and> cfgGetValName (cv_name v) (Some old) s' = (1, Some w) \<and>
    (\<forall>j < length (vars s). j \<noteq> k \<longrightarrow> vars s' ! j = vars s ! j)"
proof -
  let ?w = "clamp (cv_min v) (cv_max v) val"
  have k: "k < 2147483648" using assms(1,2) by (simp add: vars_inv_def)
  have i: "sint (of_nat k :: s32) = int k" "unat (of_nat k :: s32) = k"
    using k by (simp_all add: sint_of_nat_small unat_of_nat)
  have run: "cfgSetId run (cv_id v) val False s = Some (1, set_val k ?w s)"
    using cfgSetId_known [OF assms(1,2), of "cv_id v" run val False] i assms(2)
      cfgSetInd_in [OF assms(1), of "of_nat k" run val False] by (simp add: v_def split: option.splits)
  have inv: "vars_inv (set_val k ?w s)" using vars_inv_clamp [OF assms(1,2)] by (simp add: v_def)
  have l: "k < length (vars (set_val k ?w s))" using assms(2) by (simp add: set_val_def)
  have f: "cv_id (vars (set_val k ?w s) ! k) = cv_id v" "cv_name (vars (set_val k ?w s) ! k) = cv_name v"
    "cv_val (vars (set_val k ?w s) ! k) = ?w"
    using assms(2) by (simp_all add: set_val_def v_def)
  have "var_by_id (cv_id v) (vars (set_val k ?w s)) = Some k" "var_by_name (cv_name v) (vars (set_val k ?w s)) = Some k"
    using by_id.lookup_distinct [OF _ l] by_name.lookup_distinct [OF _ l] inv f by (simp_all add: vars_inv_def)
  then have "cfgGetValId (cv_id v) (Some old) (set_val k ?w s) = (1, Some ?w)"
    "cfgGetValName (cv_name v) (Some old) (set_val k ?w s) = (1, Some ?w)"
    using f by (simp_all add: cfgGetValId_def cfgGetValName_def)
  moreover have "sint ?w = max (sint (cv_min v)) (min (sint (cv_max v)) (sint val))"
    using clamp_sint limits_order [OF vars_inv_nth [OF assms(1,2)]] by (simp add: v_def)
  moreover have "vars (set_val k ?w s) ! j = vars s ! j" if "j \<noteq> k" for j using that by (simp add: set_val_def)
  ultimately show ?thesis using run inv by blast
qed

theorem set_then_get_witness:
  "\<exists>s' w. cfgSetId (\<lambda>_ _ _ _ _. None) 2 (-5) False (cfg_demo [] zero_msg) = Some (1, s') \<and> sint w = 0 \<and>
    cfgGetValName (cstr ''var_2'') (Some 9) s' = (1, Some w)"
proof -
  have v: "cv_id (vars_init ! 1) = 2" "cv_name (vars_init ! 1) = cstr ''var_2''" "1 < length vars_init"
    "sint (cv_min (vars_init ! 1)) = 0" "sint (cv_max (vars_init ! 1)) = 2147483647"
    by (simp_all add: vars_init_def dflt_var_def)
  from set_then_get [OF cfg_demo_vars_inv, of 1 "[]" zero_msg "\<lambda>_ _ _ _ _. None" "-5" 9]
  show ?thesis unfolding cfg_demo_sel using v by auto
qed

text \<open>The index check of \<open>cfgSetInd\<close> refuses negative indices and those beyond
  \<open>n_vars\<close> without effect, but lets \<open>n_vars\<close> itself through to an access outside the
  array.\<close>

theorem set_index_check:
  assumes "vars_inv s" and "\<not> valid_ind (vars s) i"
  shows "cfgSetInd run i val trig s = (if sint i = int (length (vars s)) then None else Some (0, s))"
  using assms cfgSetInd_edge [OF assms(1)] cfgSetInd_refused [OF assms(1), of i run val trig]
  by (auto simp: valid_ind_def)

theorem set_index_check_witness:
  "cfgSetInd (\<lambda>_ _ _ _ _. None) 7 1 True (cfg_demo [] zero_msg) = None \<and>
   cfgSetInd (\<lambda>_ _ _ _ _. None) (-1) 1 True (cfg_demo [] zero_msg) = Some (0, cfg_demo [] zero_msg)"
proof -
  have "\<not> valid_ind (vars (cfg_demo [] zero_msg)) 7" "\<not> valid_ind (vars (cfg_demo [] zero_msg)) (-1)"
    using vars_init_ok(1) by (simp_all add: valid_ind_def cfg_demo_sel)
  with set_index_check [OF cfg_demo_vars_inv, of "[]" zero_msg 7] set_index_check [OF cfg_demo_vars_inv, of "[]" zero_msg "-1"]
  show ?thesis using vars_init_ok(1) by (simp add: cfg_demo_sel)
qed

text \<open>The copying callback, run before a read, brings the external value into the
  variable cut to its limits, and, run after a write, stores the variable's value at the
  external location; both keep the invariant of the table.\<close>

theorem copy_callback_transfers:
  assumes "vars_inv s" and "k < length (vars s)" and "data \<noteq> 0"
  defines "v \<equiv> vars s ! k"
  shows "\<exists>s1 s2. run_cb vcb cfgCpyCB_fn k True data s = Some s1 \<and> vars_inv s1 \<and>
    sint (cv_val (vars s1 ! k)) = max (sint (cv_min v)) (min (sint (cv_max v)) (sint (rd32 (mem s) data))) \<and>
    run_cb vcb cfgCpyCB_fn k False data s = Some s2 \<and> vars_inv s2 \<and> rd32 (mem s2) data = cv_val v"
proof -
  let ?s1 = "set_val k (clamp (cv_min v) (cv_max v) (rd32 (mem s) data)) s"
  have "sint (cv_val (vars ?s1 ! k)) = max (sint (cv_min v)) (min (sint (cv_max v)) (sint (rd32 (mem s) data)))"
    using clamp_sint limits_order [OF vars_inv_nth [OF assms(1,2)]] assms(2) by (simp add: set_val_def v_def)
  moreover have "vars_inv (s\<lparr>mem := m\<rparr>)" for m using assms(1) by (simp add: vars_inv_def)
  ultimately show ?thesis
    using cfgCpyCB_read [OF assms(1-3)] cfgCpyCB_write [OF assms(2,3)] vars_inv_clamp [OF assms(1,2)]
    by (simp add: run_cb_def v_def codec_simps)
qed

theorem copy_callback_transfers_witness:
  "\<exists>s1. run_cb (\<lambda>_ _ _ _. None) cfgCpyCB_fn 0 True 0x9000 ((cfg_demo [] zero_msg)\<lparr>mem := wr32 (\<lambda>_. 0) 0x9000 55\<rparr>) = Some s1 \<and>
    sint (cv_val (vars s1 ! 0)) = 1"
proof -
  let ?s = "(cfg_demo [] zero_msg)\<lparr>mem := wr32 (\<lambda>_. 0) 0x9000 55\<rparr>"
  have "vars_inv ?s" using cfg_demo_vars_inv [of "[]" zero_msg] by (simp add: vars_inv_def)
  moreover have "sint (cv_min (vars_init ! 0)) = 0" "sint (cv_max (vars_init ! 0)) = 1" "0 < length vars_init"
    by (simp_all add: vars_init_def dflt_var_def)
  ultimately show ?thesis
    using copy_callback_transfers [of ?s 0 "0x9000" "\<lambda>_ _ _ _. None"] by (auto simp: cfg_demo_sel codec_simps)
qed

text \<open>The \<open>float\<close> callback does not keep a value it stored itself: writing 251 and
  reading it back gives 250, as the product is truncated; and a read ignores the limits of
  the variable, so that the table no longer satisfies its invariant.\<close>

theorem float_callback_drifts:
  "\<exists>s1 s2. vars_inv (set_val 1 251 (cfg_demo [] zero_msg)) \<and>
    run_cb vcb cfgFloatMilliCB_fn 1 False 0x9000 (set_val 1 251 (cfg_demo [] zero_msg)) = Some s1 \<and>
    run_cb vcb cfgFloatMilliCB_fn 1 True 0x9000 s1 = Some s2 \<and> cv_val (vars s1 ! 1) = 251 \<and> cv_val (vars s2 ! 1) = 250 \<and>
    (\<exists>s3. run_cb vcb cfgFloatMilliCB_fn 0 True 0x9000 s1 = Some s3 \<and> \<not> vars_inv s3)"
proof -
  let ?s = "set_val 1 251 (cfg_demo [] zero_msg)"
  let ?s1 = "?s\<lparr>mem := wr32 (mem ?s) 0x9000 (milli_float_write 251)\<rparr>"
  have l: "length vars_init = 7" by (rule vars_init_ok)
  have lim: "sint (cv_min (vars_init ! 1)) = 0" "sint (cv_max (vars_init ! 1)) = 2147483647"
    "sint (cv_max (vars_init ! 0)) = 1" by (simp_all add: vars_init_def dflt_var_def)
  have "clamp (cv_min (vars_init ! 1)) (cv_max (vars_init ! 1)) 251 = 251" using lim by (intro clamp_id) simp_all
  then have inv: "vars_inv ?s"
    using vars_inv_clamp [OF cfg_demo_vars_inv, of 1 "[]" zero_msg 251] l by (simp add: cfg_demo_sel)
  have r: "float_milli_read (milli_float_write 251) = Some 250"
    using milli_roundtrip_251 by (simp add: milli_roundtrip_def)
  have v: "vars ?s1 ! 1 = (vars_init ! 1)\<lparr>cv_val := 251\<rparr>" "length (vars ?s1) = 7" "vars ?s1 ! 0 = vars_init ! 0"
    using l by (simp_all add: set_val_def cfg_demo_sel)
  have w: "run_cb vcb cfgFloatMilliCB_fn 1 False 0x9000 ?s = Some ?s1"
    using l by (simp add: run_cb_def cfgFloatMilliCB_def set_val_def cfg_demo_sel defined_simps)
  have rd: "run_cb vcb cfgFloatMilliCB_fn k True 0x9000 ?s1 = Some (set_val k 250 ?s1)" if "k < 7" for k
    using that v(2) r by (simp add: run_cb_def cfgFloatMilliCB_def codec_simps)
  have "\<not> limits_ok (vars (set_val 0 250 ?s1) ! 0)" using lim l v by (simp add: limits_ok_def set_val_def cfg_demo_sel)
  then have "\<not> vars_inv (set_val 0 250 ?s1)"
  proof -
    have "0 < length (vars (set_val 0 250 ?s1))" using l by (simp add: set_val_def cfg_demo_sel)
    with vars_inv_nth [of "set_val 0 250 ?s1" 0] \<open>\<not> limits_ok _\<close> show ?thesis by blast
  qed
  moreover have "cv_val (vars (set_val 1 250 ?s1) ! 1) = 250" using v(2) by (simp add: set_val_def)
  ultimately show ?thesis using inv w rd [of 1] rd [of 0] v(1) by (intro exI conjI) (assumption | simp)+
qed

end
