(* ===== verification/FwMain.thy ===== *)
theory FwMain
  imports Config
begin

text \<open>
  The top level of the firmware (bm_fw/src/main.c): output on the standard streams, the
  handler of the stdio channel, the variable callback, the initialisation steps, the
  two wait loops, and the dispatcher that ties the receive callbacks to their code.

  \<open>stdout\<close> is line buffered, as \<open>isatty\<close> of the board support package answers 1: bytes
  collect until a newline, and the line then goes to \<open>_write\<close>. The exception table of the
  processor (\<open>Xil_Exception...\<close>) has no state in the model: interrupts arrive through
  \<^const>\<open>take_irq\<close>.
\<close>

record board = cfg +
  rpmsg_stdio :: "nat option"
  stdio_init :: bool
  stdout_buf :: "u8 list"
  outbyte_buf :: "u8 list" \<comment> \<open>the statics of \<open>outbyte\<close>\<close>

section \<open>Standard output\<close>

text \<open>The chunks of \<open>_write\<close>: at most \<open>DATA_LEN_MAX - 1\<close> bytes each.\<close>

function send_chunks :: "nat option \<Rightarrow> u8 list \<Rightarrow> 'a board_scheme \<Rightarrow> 'a board_scheme option" where
  "send_chunks ch data s = (if data = [] then Some s
     else rpmsg_send ch (take 495 data) (of_nat (length (take 495 data))) s \<bind> send_chunks ch (drop 495 data))"
  by auto
termination by (relation "measure (\<lambda>(_, data, _). length data)") auto

declare send_chunks.simps [simp del]

definition write_stdout :: "u8 list \<Rightarrow> 'a board_scheme \<Rightarrow> (nat \<times> 'a board_scheme) option" where
  "write_stdout data s0 = (let s = trace_setup s0 in do {
     s1 \<leftarrow> (if rpmsg_stdio s \<noteq> None \<and> stdio_init s then send_chunks (rpmsg_stdio s) data s else Some s);
     let done = (if rpmsg_stdio s \<noteq> None \<and> stdio_init s then length data else 0);
     Some (if trace_buf s1 \<noteq> 0 then trace_write data s1 else (done, s1))
   })"

fun stdout_put :: "u8 list \<Rightarrow> 'a board_scheme \<Rightarrow> 'a board_scheme option" where
  "stdout_put [] s = Some s"
| "stdout_put (b # bs) s =
     (let line = stdout_buf s @ [b]
      in if b = 10 then do {
           (_, s1) \<leftarrow> write_stdout line (s\<lparr>stdout_buf := []\<rparr>);
           stdout_put bs s1
         } else stdout_put bs (s\<lparr>stdout_buf := line\<rparr>))"

definition puts :: "string \<Rightarrow> 'a board_scheme \<Rightarrow> 'a board_scheme option" where
  "puts t s = stdout_put (cstr t @ [10]) s"

text \<open>\<open>_write\<close>: 1 is \<open>stdout\<close>, which falls through to the trace buffer, 2 and 3 write to the
  trace buffer only.\<close>

definition write_fd :: "int \<Rightarrow> u8 list \<Rightarrow> 'a board_scheme \<Rightarrow> (nat \<times> 'a board_scheme) option" where
  "write_fd fd data s =
     (if fd = 1 then write_stdout data s
      else if fd = 2 \<or> fd = 3 then Some (trace_write data (trace_setup s))
      else do {
        s1 \<leftarrow> stdout_put (cstr ''_write: unknown fd: '' @ dec fd @ [10]) (trace_setup s);
        Some (0, s1)
      })"

definition outbyte :: "u8 \<Rightarrow> 'a board_scheme \<Rightarrow> 'a board_scheme option" where
  "outbyte ch s =
     (let buf = outbyte_buf s @ [ch]
      in if ch = 10 \<or> length buf = 494 then do {
           (_, s1) \<leftarrow> write_fd 2 buf s;
           Some (s1\<lparr>outbyte_buf := []\<rparr>)
         } else Some (s\<lparr>outbyte_buf := buf\<rparr>))"

section \<open>Callbacks\<close>

definition stdio_msg_handler :: "u32 \<Rightarrow> u32 \<Rightarrow> 'a board_scheme \<Rightarrow> 'a board_scheme option" where
  "stdio_msg_handler data len s =
     (if \<not> stdio_init s then Some (s\<lparr>stdio_init := True\<rparr>)
      else let s1 = s\<lparr>mem := wr_bytes (mem s) (data + len) [0]\<rparr>
           in Some (fprintf_stderr (cstr ''stdio input: '' @
                cstring_of (rd_bytes (mem s1) data (Suc (unat len)))) s1))"

definition var_cb :: "nat \<Rightarrow> bool \<Rightarrow> u32 \<Rightarrow> 'a board_scheme \<Rightarrow> 'a board_scheme option" where
  "var_cb k isread data s = do {
     v \<leftarrow> aget (vars s) k;
     s1 \<leftarrow> (if isread then stdout_put (cstr ''read '') s
            else stdout_put (cstr ''write '')
                   (if cv_id v = CFG_VAR_1 then Xil_Out32 pLed (cv_val v) s else s));
     stdout_put (cstr ''callback of '' @ cv_name v @ cstr '', val='' @ dec (sint (cv_val v)) @ [10]) s1
   }"

text \<open>The receive callbacks, as the message layer calls them.\<close>

definition run_rx ::
    "rpmsg_rx_callback \<Rightarrow> nat \<Rightarrow> u32 \<Rightarrow> u32 \<Rightarrow> 'a board_scheme \<Rightarrow> 'a board_scheme option" where
  "run_rx cb ch data len s = (case cb of
     config_msg_handler_cb \<Rightarrow> config_msg_handler var_cb data len s
   | stdio_msg_handler_cb \<Rightarrow> stdio_msg_handler data len s)"

section \<open>Initialisation\<close>

partial_function (option) mmu_loop :: "u32 \<Rightarrow> u32 \<Rightarrow> 'a machine_scheme \<Rightarrow> 'a machine_scheme option" where
  "mmu_loop addr end' s = (if addr \<le> end'
     then mmu_loop (addr + 0x100000) end' (Xil_SetTlbAttributes addr 0x15de6 s) else Some s)"

text \<open>The linker symbols \<open>ELF_START\<close> and \<open>ELF_LEN\<close> are also in the resource table.\<close>

definition mmu_init :: "'a board_scheme \<Rightarrow> 'a board_scheme option" where
  "mmu_init s = (let addr = co_da (text_cout (resources s)); end' = addr + co_len (text_cout (resources s)) in do {
     s1 \<leftarrow> mmu_loop addr end' (fprintf_stderr
             (cstr ''mmu_init: start x'' @ hex08 addr @ cstr '' end x'' @ hex08 end' @ [10]) s);
     Some (Xil_SetTlbAttributes pLed 0x04de2 s1)
   })"

text \<open>The firmware is built with \<open>USE_AMP\<close>, which is passed on.\<close>

definition irq_init :: "bool \<Rightarrow> 'a board_scheme \<Rightarrow> 'a board_scheme option" where
  "irq_init amp s = (case XScuGic_LookupConfig XPAR_SCUGIC_0_DEVICE_ID of
     None \<Rightarrow> puts ''XScuGic_LookupConfig failed'' s
   | Some c \<Rightarrow> do {
       s1 \<leftarrow> stdout_put (cstr ''GIC base address: 0x'' @ hex08 (CpuBaseAddress s) @ [10]) s;
       (st, s2) \<leftarrow> XScuGic_CfgInitialize amp (Some c) s1;
       s3 \<leftarrow> (if st \<noteq> XST_SUCCESS then puts ''XScuGic_CfgInitialize failed'' s2 else Some s2);
       s4 \<leftarrow> Xil_ExceptionRegisterHandler XIL_EXCEPTION_ID_INT Exc_XScuGic_InterruptHandler RefGic
               (Xil_ExceptionInit s3);
       Some (Xil_ExceptionEnable s4)
     })"

fun usleeps :: "nat \<Rightarrow> 'a board_scheme \<Rightarrow> 'a board_scheme option" where
  "usleeps 0 s = Some s"
| "usleeps (Suc n) s = usleep s \<bind> usleeps n"

text \<open>\<open>while (!stdio_init) if (!rpmsg_poll()) wfe\<close>.\<close>

partial_function (option) await_stdio :: "'a board_scheme \<Rightarrow> 'a board_scheme option" where
  "await_stdio s = (if stdio_init s then Some s else do {
     (busy, s1) \<leftarrow> rpmsg_poll run_rx s;
     (if busy then await_stdio s1 else wfe s1 \<bind> await_stdio)
   })"

text \<open>\<open>main\<close> up to its endless loop, in two parts.\<close>

definition main_boot :: "bool \<Rightarrow> 'a board_scheme \<Rightarrow> 'a board_scheme option" where
  "main_boot amp s0 = do {
     s1 \<leftarrow> mmu_init (Xil_Out32 pLed 1 s0);
     s2 \<leftarrow> usleeps 2500 s1;
     s3 \<leftarrow> puts ''CFG_MGMT - Example Firmware'' (Xil_Out32 pLed 2 s2);
     s4 \<leftarrow> irq_init amp s3;
     s5 \<leftarrow> remoteproc_init s4;
     s6 \<leftarrow> puts ''remoteproc_init done'' s5;
     s7 \<leftarrow> puts ''creating stdio channel'' (Xil_Out32 pLed 3 s6);
     (ch, s8) \<leftarrow> rpmsg_create_ch (cstr ''bm_stdio'') (Some stdio_msg_handler_cb) (s7\<lparr>stdio_init := False\<rparr>);
     Some (Xil_Out32 pLed 4 (s8\<lparr>rpmsg_stdio := ch\<rparr>))
   }"

definition main_setup :: "'a board_scheme \<Rightarrow> 'a board_scheme option" where
  "main_setup s0 = do {
     s1 \<leftarrow> await_stdio s0;
     s2 \<leftarrow> cfgInit (Xil_Out32 pLed 5 s1);
     let (r3, s3) = cfgSetCallback CFG_VAR_2 (Some var_cb_fn) False 0 s2;
     s4 \<leftarrow> stdout_put (cstr ''registering wr callback: '' @ dec (sint r3) @ [10]) s3;
     let (r5, s5) = cfgSetCallback CFG_VAR_1 (Some var_cb_fn) True 0 s4;
     s6 \<leftarrow> stdout_put (cstr ''registering rd callback: '' @ dec (sint r5) @ [10]) s5;
     puts ''init done'' s6
   }"

text \<open>One round of the endless loop; its counter has no effect.\<close>

definition main_round :: "'a board_scheme \<Rightarrow> 'a board_scheme option" where
  "main_round s = do {
     (_, s1) \<leftarrow> rpmsg_poll run_rx s;
     usleep s1
   }"

section \<open>The memory map\<close>

text \<open>The sections \<open>mmu_init\<close> visits.\<close>

definition mmu_sections :: "u32 \<Rightarrow> u32 \<Rightarrow> u32 list" where
  "mmu_sections a e = map (\<lambda>k. a + of_nat k * 0x100000) [0..<(if a \<le> e then (unat e - unat a) div 0x100000 + 1 else 0)]"

lemma mmu_sections_step:
  assumes "a \<le> e" and "unat e + 0x100000 < 4294967296"
  shows "mmu_sections a e = a # mmu_sections (a + 0x100000) e"
proof -
  have ae: "unat a \<le> unat e" using assms(1) by (simp add: word_le_nat_alt)
  have a': "unat (a + 0x100000) = unat a + 0x100000" using ae assms(2) by (simp add: unat_word_ariths)
  define n where "n = (if a + 0x100000 \<le> e then (unat e - unat (a + 0x100000)) div 0x100000 + 1 else 0)"
  have n: "(unat e - unat a) div 0x100000 = n"
  proof (cases "a + 0x100000 \<le> e")
    case True
    then have "unat a + 0x100000 \<le> unat e" using a' by (simp add: word_le_nat_alt)
    then have "unat e - unat a = (unat e - unat (a + 0x100000)) + 0x100000" using a' by simp
    then show ?thesis using True by (simp add: n_def)
  next
    case False
    then have "unat e - unat a < 0x100000" using a' by (simp add: word_le_nat_alt)
    then show ?thesis using False by (simp add: n_def)
  qed
  have "mmu_sections a e = map (\<lambda>k. a + of_nat k * 0x100000) (0 # map Suc [0..<n])"
    using assms(1) n by (simp add: mmu_sections_def map_Suc_upt upt_conv_Cons del: upt_Suc)
  then show ?thesis by (simp add: mmu_sections_def n_def [symmetric] algebra_simps)
qed

text \<open>The loop ends when the end address leaves room for one more section, and sets the
  attributes of every section it visits.\<close>

lemma mmu_loop_returns:
  "unat e + 0x100000 < 4294967296 \<Longrightarrow>
   mmu_loop a e s = Some (fold (\<lambda>x. Xil_SetTlbAttributes x 0x15de6) (mmu_sections a e) s)"
proof (induction "unat e + 0x100000 - unat a" arbitrary: a s rule: less_induct)
  case less
  show ?case
  proof (cases "a \<le> e")
    case False
    then show ?thesis by (simp add: mmu_loop.simps mmu_sections_def)
  next
    case True
    then have "unat (a + 0x100000) = unat a + 0x100000" "unat a \<le> unat e"
      using less.prems by (simp_all add: unat_word_ariths word_le_nat_alt)
    with less.hyps [of "a + 0x100000"] less.prems True mmu_sections_step [OF True less.prems]
    show ?thesis by (subst mmu_loop.simps) simp
  qed
qed

lemma fold_set_tlb:
  "tlb (fold (\<lambda>x. Xil_SetTlbAttributes x w) as s) k =
    (if k \<in> (\<lambda>x. x div 0x100000) ` set as
     then (last (filter (\<lambda>x. x div 0x100000 = k) as) AND 0xFFF00000) OR w else tlb s k)"
proof (induction as arbitrary: s)
  case Nil
  then show ?case by simp
next
  case (Cons a as)
  then show ?case
    by (auto simp: Xil_SetTlbAttributes_def filter_empty_conv)
qed

section \<open>Running out of buffers\<close>

text \<open>\<open>spends k s s'\<close>: between the two states the firmware used up at most \<open>k\<close> transmit
  buffers and changed nothing but the transmit ring, memory, the register log and the
  trace position.\<close>

definition spends :: "nat \<Rightarrow> 'a rproc_scheme \<Rightarrow> 'a rproc_scheme \<Rightarrow> bool" where
  "spends k s s' \<longleftrightarrow> s' = s\<lparr>tx_vring := tx_vring s', mem := mem s', io_log := io_log s',
       trace_buf := trace_buf s', trace_ind := trace_ind s', trace_size := trace_size s'\<rparr> \<and>
     vring_wf (tx_vring s') \<and> heads_ok (tx_vring s') \<and> notify (fst (tx_vring s')) = Some kick_linux_fn \<and>
     length (pending_bufs (tx_vring s)) \<le> length (pending_bufs (tx_vring s')) + k"

definition tx_ready :: "'a rproc_scheme \<Rightarrow> bool" where
  "tx_ready s \<longleftrightarrow> rings_inv s \<and> heads_ok (tx_vring s) \<and> length (channels s) = MAX_RPMSG_CH"

lemma spends_refl: "tx_ready s \<Longrightarrow> spends 0 s s"
  by (simp add: spends_def tx_ready_def rings_inv_def)

lemma spends_trans:
  assumes "spends k s s'" and "spends j s' s''"
  shows "spends (k + j) s s''"
proof -
  define f where "f = (\<lambda>v m l b i n (s :: 'a rproc_scheme). s\<lparr>tx_vring := v, mem := m, io_log := l,
       trace_buf := b, trace_ind := i, trace_size := n\<rparr>)"
  have ff: "f v m l b i n (f v' m' l' b' i' n' s) = f v m l b i n s" for v m l b i n v' m' l' b' i' n' s
    by (simp add: f_def)
  let ?f = "\<lambda>x. f (tx_vring x) (mem x) (io_log x) (trace_buf x) (trace_ind x) (trace_size x)"
  have "s' = ?f s' s" "s'' = ?f s'' s'" using assms unfolding spends_def f_def by blast+
  then have "s'' = ?f s'' s" using ff by metis
  moreover have "length (pending_bufs (tx_vring s)) \<le> length (pending_bufs (tx_vring s'')) + (k + j)"
    using assms by (simp add: spends_def)
  ultimately show ?thesis using assms(2) unfolding spends_def f_def by blast
qed

lemma spends_more: "spends k s s' \<Longrightarrow> k \<le> j \<Longrightarrow> spends j s s'"
  by (simp add: spends_def)

lemma spends_sel:
  assumes "spends k s s'"
  shows "rx_vring s' = rx_vring s" "channels s' = channels s" "rproc.more s' = rproc.more s"
    "gic_inv s' = gic_inv s" "gic_ready s' = gic_ready s" "sched s' = sched s"
proof -
  have eq: "s' = s\<lparr>tx_vring := tx_vring s', mem := mem s', io_log := io_log s',
       trace_buf := trace_buf s', trace_ind := trace_ind s', trace_size := trace_size s'\<rparr>"
    using assms unfolding spends_def by blast
  show "rx_vring s' = rx_vring s" "channels s' = channels s" "rproc.more s' = rproc.more s"
    "gic_inv s' = gic_inv s" "gic_ready s' = gic_ready s" "sched s' = sched s"
    by (subst eq, simp add: gic_inv_def gic_ready_def)+
qed

lemma spends_ready: "tx_ready s \<Longrightarrow> spends k s s' \<Longrightarrow> tx_ready s'"
  using spends_sel [of k s s'] unfolding tx_ready_def rings_inv_def by (auto simp only: spends_def)

lemma spends_count:
  "spends k s s' \<Longrightarrow> length (pending_bufs (tx_vring s)) \<le> length (pending_bufs (tx_vring s')) + k"
  by (simp only: spends_def)

lemma spends_some_left:
  "spends k s s' \<Longrightarrow> k < length (pending_bufs (tx_vring s)) \<Longrightarrow> pending_bufs (tx_vring s') \<noteq> []"
  using spends_count [of k s s'] by (auto simp del: length_pending)

lemma fprintf_spends: "tx_ready s \<Longrightarrow> spends 0 s (fprintf_stderr msg s)"
  by (simp add: spends_def fprintf_stderr_def trace_write_def trace_setup_def tx_ready_def rings_inv_def Let_def)

lemma trace_write_spends: "tx_ready s \<Longrightarrow> spends 0 s (snd (trace_write msg s))"
  by (simp add: spends_def trace_write_def tx_ready_def rings_inv_def Let_def)

lemma trace_setup_spends: "tx_ready s \<Longrightarrow> spends 0 s (trace_setup s)"
  by (simp add: spends_def trace_setup_def tx_ready_def rings_inv_def Let_def)

text \<open>One transmission takes one buffer.\<close>

lemma block_send_spends:
  assumes r: "tx_ready s" and p: "pending_bufs (tx_vring s) \<noteq> []"
    and len: "len \<le> DATA_LEN_MAX" "unat len \<le> length data"
  shows "\<exists>s'. block_send_message src dst data len s = Some s' \<and> spends 1 s s'"
proof -
  obtain d ds where p': "pending_bufs (tx_vring s) = d # ds" using p by (cases "pending_bufs (tx_vring s)") auto
  have inv: "rings_inv s" and d: "unat d < VRING_SIZE" and ds: "\<forall>d \<in> set ds. unat d < VRING_SIZE"
    using r p' by (simp_all add: tx_ready_def heads_ok_def)
  let ?u0 = "used_idx (used (snd (tx_vring s)))"
  have "used_count ?u0 (tx_vring s) < VRING_SIZE" by (cases "tx_vring s") (simp add: used_count_def)
  from send_message_ok [OF inv p' d this len, of src dst] obtain v where
    v: "send_message src dst data len s = Some (0, s\<lparr>tx_vring := v,
        mem := wr_bytes (mem s) (desc_addr (desc (snd (tx_vring s)) ! unat d)) (enc_hdr src dst (ucast len) @ take (unat len) data),
        io_log := io_log s @ (if notifies True (tx_vring s) then [kick_event s] else [])\<rparr>)"
    "pending_bufs v = ds" "vring_wf v" "notify (fst v) = notify (fst (tx_vring s))" by blast
  show ?thesis
    using block_send_ready [OF v(1)] v(2-4) inv ds p'
    by (auto simp: spends_def heads_ok_def rings_inv_def)
qed

lemma rpmsg_send_spends:
  assumes r: "tx_ready s" and p: "pending_bufs (tx_vring s) \<noteq> []" and c: "\<And>c. ch = Some c \<Longrightarrow> c < MAX_RPMSG_CH"
    and len: "len \<le> DATA_LEN_MAX" "unat len \<le> length data"
  shows "\<exists>s'. rpmsg_send ch data len s = Some s' \<and> spends 1 s s'"
proof (cases ch)
  case None
  then show ?thesis using spends_more [OF spends_refl [OF r], of 1] by (simp add: rpmsg_send_def)
next
  case (Some c)
  then have "c < length (channels s)" using assms(3) r by (simp add: tx_ready_def)
  with Some block_send_spends [OF r p len] spends_more [OF spends_refl [OF r], of 1]
  show ?thesis by (auto simp: rpmsg_send_def defined_simps)
qed

section \<open>Lines of output\<close>

lemma stdout_put_append: "stdout_put (xs @ ys) s = stdout_put xs s \<bind> stdout_put ys"
  by (induction xs arbitrary: s) (auto simp: Let_def split: Option.bind_splits)

lemma stdout_put_plain: "10 \<notin> set xs \<Longrightarrow> stdout_put xs s = Some (s\<lparr>stdout_buf := stdout_buf s @ xs\<rparr>)"
  by (induction xs arbitrary: s) (auto simp: Let_def)

lemma stdout_put_line:
  assumes "10 \<notin> set xs"
  shows "stdout_put (xs @ [10]) s =
    map_option snd (write_stdout (stdout_buf s @ xs @ [10]) (s\<lparr>stdout_buf := []\<rparr>))"
  using assms
  by (simp add: stdout_put_append stdout_put_plain Let_def map_option_case split: Option.bind_split option.split)

section \<open>The callbacks return\<close>

text \<open>The variables carry callbacks of main.c only, and their names make one line of
  output.\<close>

definition cbs_ok :: "'a board_scheme \<Rightarrow> bool" where
  "cbs_ok s \<longleftrightarrow> (\<forall>v \<in> set (vars s). cv_rd_cb v \<in> {None, Some var_cb_fn} \<and> cv_wr_cb v \<in> {None, Some var_cb_fn} \<and>
     length (cv_name v) \<le> 400 \<and> 10 \<notin> set (cv_name v))"

text \<open>The state can take \<open>n\<close> more requests: two transmit buffers for each, one for the
  output of a callback and one for the reply.\<close>

definition board_ok :: "nat \<Rightarrow> 'a board_scheme \<Rightarrow> bool" where
  "board_ok n s \<longleftrightarrow> tx_ready s \<and> vars_inv s \<and> cbs_ok s \<and> length (m_data (cfgMsgTxBuf s)) = MSG_DATA_SIZE \<and>
     stdout_buf s = [] \<and> (\<forall>c. rpmsg_stdio s = Some c \<longrightarrow> c < MAX_RPMSG_CH) \<and>
     (\<forall>c. rpmsg_config s = Some c \<longrightarrow> c < MAX_RPMSG_CH) \<and> 2 * n \<le> length (pending_bufs (tx_vring s))"

lemma spends_board:
  assumes "spends k s s'"
  shows "vars s' = vars s" "cfgMsgTxBuf s' = cfgMsgTxBuf s" "rpmsg_config s' = rpmsg_config s"
    "rpmsg_stdio s' = rpmsg_stdio s" "stdio_init s' = stdio_init s" "stdout_buf s' = stdout_buf s"
    "outbyte_buf s' = outbyte_buf s"
proof -
  have eq: "s' = s\<lparr>tx_vring := tx_vring s', mem := mem s', io_log := io_log s',
       trace_buf := trace_buf s', trace_ind := trace_ind s', trace_size := trace_size s'\<rparr>"
    using assms unfolding spends_def by blast
  show "vars s' = vars s" "cfgMsgTxBuf s' = cfgMsgTxBuf s" "rpmsg_config s' = rpmsg_config s"
    "rpmsg_stdio s' = rpmsg_stdio s" "stdio_init s' = stdio_init s" "stdout_buf s' = stdout_buf s"
    "outbyte_buf s' = outbyte_buf s"
    by (subst eq, simp)+
qed

lemma length_dec_le: "length (dec (sint (w :: s32))) \<le> 11"
  by (rule length_dec_s32)

lemma dec_no_newline: "10 \<notin> set (dec i)"
proof -
  have "digit_byte d \<noteq> 10" if "d \<in> set (digits10 n)" for d n
    using digits10_lt10 [OF that] by simp
  then show ?thesis by (auto simp: dec_def)
qed

lemma cstr_no_newline:
  "10 \<notin> set (cstr ''callback of '')" "10 \<notin> set (cstr '', val='')"
  "10 \<notin> set (cstr ''read '')" "10 \<notin> set (cstr ''write '')"
  by (simp_all add: cstr_def)

text \<open>A request changes a value, but no name and no callback.\<close>

lemma length_answer [simp]: "length (fst (answer vs old q)) = length vs"
  by (simp add: answer_def Let_def)

lemma cbs_ok_value:
  "cbs_ok s \<Longrightarrow> k < length (vars s) \<Longrightarrow> cbs_ok (s\<lparr>vars := (vars s)[k := (vars s ! k)\<lparr>cv_val := w\<rparr>], cfgMsgTxBuf := b\<rparr>)"
  by (auto simp: cbs_ok_def dest!: set_update_subset_insert [THEN subsetD])

lemma cbs_ok_answer:
  assumes "cbs_ok s"
  shows "cbs_ok (s\<lparr>vars := fst (answer (vars s) old q), cfgMsgTxBuf := b\<rparr>)"
proof -
  have "fst (answer (vars s) old q) = vars s \<or> (valid_ind (vars s) (m_ind q) \<and>
      (\<exists>w. fst (answer (vars s) old q) = (vars s)[unat (m_ind q) := (vars s ! unat (m_ind q))\<lparr>cv_val := w\<rparr>]))"
    by (auto simp: answer_def Let_def)
  then show ?thesis
  proof (elim disjE conjE exE)
    assume "fst (answer (vars s) old q) = vars s"
    with assms show ?thesis by (simp add: cbs_ok_def)
  next
    fix w assume "valid_ind (vars s) (m_ind q)"
      "fst (answer (vars s) old q) = (vars s)[unat (m_ind q) := (vars s ! unat (m_ind q))\<lparr>cv_val := w\<rparr>]"
    with cbs_ok_value [OF assms valid_ind_unat] show ?thesis by simp
  qed
qed

text \<open>Whatever a step of output keeps is kept by all output. \<open>step k s s'\<close> uses up at most \<open>k\<close>
  transmit buffers and has the laws below; then a line on \<open>stdout\<close>, the variable callback and
  the request handler up to its reply are such steps, and they return.\<close>

locale output_steps =
  fixes ready :: "'a board_scheme \<Rightarrow> bool" and step :: "nat \<Rightarrow> 'a board_scheme \<Rightarrow> 'a board_scheme \<Rightarrow> bool"
  assumes step_refl: "ready s \<Longrightarrow> step 0 s s"
    and step_trans: "step k s s' \<Longrightarrow> step j s' s'' \<Longrightarrow> step (k + j) s s''"
    and step_more: "step k s s' \<Longrightarrow> k \<le> j \<Longrightarrow> step j s s'"
    and step_ready: "ready s \<Longrightarrow> step k s s' \<Longrightarrow> ready s'"
    and step_spends: "step k s s' \<Longrightarrow> spends k s s'"
    and step_setup: "ready s \<Longrightarrow> step 0 s (trace_setup s)"
    and step_trace: "ready s \<Longrightarrow> trace_buf s \<noteq> 0 \<Longrightarrow> step 0 s (snd (trace_write t s))"
    and step_led: "ready s \<Longrightarrow> step 0 s (Xil_Out32 pLed x s)"
    and step_send: "ready s \<Longrightarrow> pending_bufs (tx_vring s) \<noteq> [] \<Longrightarrow> len \<le> DATA_LEN_MAX \<Longrightarrow> unat len \<le> length data \<Longrightarrow>
      \<exists>s'. rpmsg_send (rpmsg_stdio s) data len s = Some s' \<and> step 1 s s'"
    and ready_cfg: "ready s \<Longrightarrow> ready (s\<lparr>vars := vs, cfgMsgTxBuf := b\<rparr>)"
    and step_cfg: "step k s s' \<Longrightarrow> step k (s\<lparr>cfgMsgTxBuf := b\<rparr>) (s'\<lparr>cfgMsgTxBuf := b\<rparr>)"
begin

lemma write_stdout_steps:
  assumes r: "ready s" and p: "pending_bufs (tx_vring s) \<noteq> []" and len: "length line \<le> 495"
  shows "\<exists>n s'. write_stdout line s = Some (n, s') \<and> step 1 s s'"
proof -
  let ?t = "trace_setup s"
  note t = step_setup [OF r] and tr = step_ready [OF r step_setup [OF r]]
  have tx: "tx_vring ?t = tx_vring s" by (simp add: trace_setup_def Let_def)
  have len': "take 495 line = line" "drop 495 line = []" using len by simp_all
  have l: "unat (of_nat (length line) :: u32) = length line" "(of_nat (length line) :: u32) \<le> DATA_LEN_MAX"
    using len by (simp_all add: unat_of_nat word_le_nat_alt)
  note none = step_more [OF step_refl [OF tr], of 1, simplified]
  have "\<exists>s1. send_chunks (rpmsg_stdio ?t) line ?t = Some s1 \<and> step 1 ?t s1"
  proof (cases "line = []")
    case True
    then show ?thesis using none by (simp add: send_chunks.simps)
  next
    case False
    from step_send [OF tr, of "of_nat (length line)" line] p tx l obtain s1
      where "rpmsg_send (rpmsg_stdio ?t) line (of_nat (length line)) ?t = Some s1" "step 1 ?t s1" by auto
    with False len' show ?thesis by (subst send_chunks.simps) (simp add: send_chunks.simps [of _ "[]"])
  qed
  then obtain s1 where s1: "(if rpmsg_stdio ?t \<noteq> None \<and> stdio_init ?t then send_chunks (rpmsg_stdio ?t) line ?t else Some ?t) = Some s1"
    "step 1 ?t s1"
    using none by (cases "rpmsg_stdio ?t \<noteq> None \<and> stdio_init ?t") auto
  from step_trans [OF t s1(2)] have st: "step 1 s s1" by simp
  note tw = step_trans [OF st step_trace [OF step_ready [OF r st], of line]]
  show ?thesis
    using s1(1) st tw by (cases "trace_write line s1") (auto simp: write_stdout_def Let_def)
qed

lemma var_cb_steps:
  assumes r: "ready s" and k: "k < length (vars s)" and cbs: "cbs_ok s" and e: "stdout_buf s = []"
    and p: "pending_bufs (tx_vring s) \<noteq> []"
  shows "\<exists>s'. var_cb k rd data s = Some s' \<and> step 1 s s'"
proof -
  let ?v = "vars s ! k"
  have v: "length (cv_name ?v) \<le> 400" "10 \<notin> set (cv_name ?v)" using cbs k by (simp_all add: cbs_ok_def)
  define s1 where "s1 = (if rd then s else if cv_id ?v = CFG_VAR_1 then Xil_Out32 pLed (cv_val ?v) s else s)"
  define pre where "pre = (if rd then cstr ''read '' else cstr ''write '')"
  let ?txt = "cstr ''callback of '' @ cv_name ?v @ cstr '', val='' @ dec (sint (cv_val ?v))"
  have s1: "step 0 s s1" "stdout_buf s1 = []" "s1\<lparr>stdout_buf := []\<rparr> = s1"
    using step_refl [OF r] step_led [OF r] e by (auto simp: s1_def Xil_Out32_def)
  have p1: "pending_bufs (tx_vring s1) \<noteq> []" using spends_some_left [OF step_spends [OF s1(1)]] p by (simp del: length_pending)
  have plain: "10 \<notin> set pre" "10 \<notin> set ?txt"
    using v cstr_no_newline dec_no_newline by (auto simp: pre_def)
  have "length (pre @ ?txt @ [10]) \<le> 495"
    using v length_dec_le [of "cv_val ?v"] by (simp add: pre_def)
  from write_stdout_steps [OF step_ready [OF r s1(1)] p1 this] obtain n s2 where
    s2: "write_stdout (pre @ ?txt @ [10]) s1 = Some (n, s2)" "step 1 s1 s2" by auto
  have "var_cb k rd data s = stdout_put pre s1 \<bind> stdout_put (?txt @ [10])"
    using k e by (simp add: var_cb_def defined_simps pre_def s1_def)
  also have "\<dots> = stdout_put (?txt @ [10]) (s1\<lparr>stdout_buf := pre\<rparr>)"
    using plain(1) s1(2) by (simp add: stdout_put_plain)
  also have "\<dots> = map_option snd (write_stdout (pre @ ?txt @ [10]) s1)"
    using stdout_put_line [OF plain(2), of "s1\<lparr>stdout_buf := pre\<rparr>"] s1(3) by simp
  also have "\<dots> = Some s2" using s2(1) by simp
  finally show ?thesis using step_trans [OF s1(1) s2(2)] by auto
qed

text \<open>The handler does what the abstract server does, lets a callback of the variable print, and
  sends the reply.\<close>

lemma handler_steps:
  fixes data :: u32
  assumes r: "ready s" and inv: "vars_inv s" and cbs: "cbs_ok s" and e: "stdout_buf s = []"
    and p: "pending_bufs (tx_vring s) \<noteq> []"
  defines "a \<equiv> answer (vars s) (cfgMsgTxBuf s) (req_at (mem s) data)"
  shows "\<exists>s1. step 1 (s\<lparr>vars := fst a, cfgMsgTxBuf := snd a\<rparr>) s1 \<and>
    config_msg_handler var_cb data len s = send_reply s1"
proof (cases "no_callback (vars s) (req_at (mem s) data)")
  case True
  from config_msg_handler_answer [OF inv this, of var_cb len] show ?thesis
    using step_more [OF step_refl [OF ready_cfg [OF r]], of 1 "snd a" "fst a"] by (auto simp: a_def)
next
  case False
  let ?q = "req_at (mem s) data" and ?i = "rd32 (mem s) (data + 8) :: s32"
  let ?f = "\<lambda>m. m\<lparr>m_seq := rd32 (mem s) data, m_ind := ?i, m_len := 0\<rparr>"
  let ?b = "?f (cfgMsgTxBuf s)" and ?v = "vars s ! unat ?i"
  let ?s = "put_rep ?f s"
  have q: "m_type ?q = rd32 (mem s) (data + 4)" "m_ind ?q = ?i" "m_seq ?q = rd32 (mem s) data"
    "m_val ?q = rd32 (mem s) (data + 12)" by (simp_all add: req_at_def)
  from False have vi: "valid_ind (vars s) ?i" by (simp add: no_callback_def q)
  note u = valid_ind_unat [OF vi]
  have vs: "vars ?s = vars s" "mem ?s = mem s" "n_vars ?s = n_vars s" "vars_inv ?s"
    using inv by (simp_all add: put_rep_def n_vars_def vars_inv_def)
  have ok: "\<not> (n_vars s \<le>s ?i \<or> ?i <s 0)" using valid_ind_code [OF inv, of ?i] vi by simp
  note handler = config_msg_handler_def [of var_cb data len s] vs Let_def
  from cbs u have cb: "cv_rd_cb ?v \<in> {None, Some var_cb_fn}" "cv_wr_cb ?v \<in> {None, Some var_cb_fn}"
    by (auto simp: cbs_ok_def)
  let ?c = "s\<lparr>vars := fst a, cfgMsgTxBuf := ?b\<rparr>"
  have a: "fst a = vars s \<or> (\<exists>w. fst a = (vars s)[unat ?i := ?v\<lparr>cv_val := w\<rparr>])"
    by (auto simp: a_def answer_def q Let_def)
  have c: "ready ?c" "unat ?i < length (vars ?c)" "stdout_buf ?c = []" "pending_bufs (tx_vring ?c) \<noteq> []"
    using ready_cfg [OF r] a u e p by auto
  note run = var_cb_steps [OF c(1,2) _ c(3,4), unfolded a_def, OF cbs_ok_answer [OF cbs], folded a_def]
  have fin: "step 1 (s\<lparr>vars := fst a, cfgMsgTxBuf := snd a\<rparr>) (s2\<lparr>cfgMsgTxBuf := snd a\<rparr>)"
    and s2: "cfgMsgTxBuf s2 = ?b" "vars s2 = fst a" if "step 1 ?c s2" for s2
    using step_cfg [OF that, of "snd a"] spends_board(1,2) [OF step_spends [OF that]] by simp_all
  from False cb vi consider "m_type ?q = REQ_WR" "cv_wr_cb ?v = Some var_cb_fn"
    | "m_type ?q = REQ_RD" "cv_rd_cb ?v = Some var_cb_fn" by (auto simp: no_callback_def q)
  then show ?thesis
  proof cases
    case 1
    have "?c = set_val (unat ?i) (clamp (cv_min ?v) (cv_max ?v) (rd32 (mem s) (data + 12))) ?s"
      using 1(1) vi by (simp add: a_def answer_def q Let_def set_val_def put_rep_def)
    with run [of False "cv_wr_cb_data ?v"] obtain s2 where
      r2: "cfgSetInd (run_cb var_cb) ?i (rd32 (mem s) (data + 12)) True ?s = Some (1, s2)" "step 1 ?c s2"
      using cfgSetInd_in [OF vs(4), of ?i "run_cb var_cb" "rd32 (mem s) (data + 12)" True] vi 1(2) vs
      by (auto simp: valid_ind_def run_cb_def)
    have "config_msg_handler var_cb data len s = send_reply (put_rep (\<lambda>m. m\<lparr>m_type := RES_OK\<rparr>) s2)"
      using 1 q ok u r2(1) by (simp add: handler defined_simps)
    also have "put_rep (\<lambda>m. m\<lparr>m_type := RES_OK\<rparr>) s2 = s2\<lparr>cfgMsgTxBuf := snd a\<rparr>"
      using 1(1) vi s2(1) [OF r2(2)] by (simp add: put_rep_def a_def answer_def q Let_def)
    finally show ?thesis using fin [OF r2(2)] by blast
  next
    case 2
    have "?c = ?s" using 2(1) vi by (simp add: a_def answer_def q Let_def put_rep_def)
    with run [of True "cv_rd_cb_data ?v"] obtain s2 where
      r2: "var_cb (unat ?i) True (cv_rd_cb_data ?v) ?s = Some s2" "step 1 ?c s2" by auto
    have "vars s2 = vars s" using s2(2) [OF r2(2)] 2(1) vi by (simp add: a_def answer_def q Let_def)
    then have "config_msg_handler var_cb data len s =
        send_reply (put_rep (\<lambda>m. m\<lparr>m_val := cv_val ?v, m_type := RES_RD_VAL\<rparr>) s2)"
      using 2 q ok u r2(1) by (simp add: handler defined_simps run_cb_def)
    also have "put_rep (\<lambda>m. m\<lparr>m_val := cv_val ?v, m_type := RES_RD_VAL\<rparr>) s2 = s2\<lparr>cfgMsgTxBuf := snd a\<rparr>"
      using 2(1) vi s2(1) [OF r2(2)] by (simp add: put_rep_def a_def answer_def q Let_def)
    finally show ?thesis using fin [OF r2(2)] by blast
  qed
qed

end

lemma tx_ready_cfg_upd [simp]:
  "tx_ready (s\<lparr>vars := x\<rparr>) = tx_ready s" "tx_ready (s\<lparr>cfgMsgTxBuf := b\<rparr>) = tx_ready s"
  "tx_ready (s\<lparr>stdio_init := i\<rparr>) = tx_ready s" "tx_ready (s\<lparr>mem := m\<rparr>) = tx_ready s"
  "tx_ready (s\<lparr>stdout_buf := l\<rparr>) = tx_ready s"
  by (simp_all add: tx_ready_def rings_inv_def gic_inv_def gic_ready_def)

text \<open>Such a step keeps the rings usable and everything else as it was.\<close>

lemma spends_cfg:
  assumes "spends k s s'"
  shows "spends k (s\<lparr>cfgMsgTxBuf := b\<rparr>) (s'\<lparr>cfgMsgTxBuf := b\<rparr>)"
proof -
  have eq: "s' = s\<lparr>tx_vring := tx_vring s', mem := mem s', io_log := io_log s',
       trace_buf := trace_buf s', trace_ind := trace_ind s', trace_size := trace_size s'\<rparr>"
    using assms unfolding spends_def by blast
  have "s'\<lparr>cfgMsgTxBuf := b\<rparr> = s\<lparr>cfgMsgTxBuf := b, tx_vring := tx_vring s', mem := mem s', io_log := io_log s',
       trace_buf := trace_buf s', trace_ind := trace_ind s', trace_size := trace_size s'\<rparr>"
    by (subst (1) eq) simp
  with assms show ?thesis unfolding spends_def by simp
qed

interpretation out: output_steps "\<lambda>s. tx_ready s \<and> (\<forall>c. rpmsg_stdio s = Some c \<longrightarrow> c < MAX_RPMSG_CH)" spends
proof unfold_locales
  show "\<exists>s'. rpmsg_send (rpmsg_stdio s) data len s = Some s' \<and> spends 1 s s'"
    if "tx_ready s \<and> (\<forall>c. rpmsg_stdio s = Some c \<longrightarrow> c < MAX_RPMSG_CH)" "pending_bufs (tx_vring s) \<noteq> []"
      "len \<le> DATA_LEN_MAX" "unat len \<le> length data" for s :: "'a board_scheme" and data len
    using that rpmsg_send_spends [of s "rpmsg_stdio s" len data] by blast
  show "spends 0 s (Xil_Out32 pLed x s)"
    if "tx_ready s \<and> (\<forall>c. rpmsg_stdio s = Some c \<longrightarrow> c < MAX_RPMSG_CH)" for s :: "'a board_scheme" and x
    using that by (simp add: spends_def Xil_Out32_def tx_ready_def rings_inv_def)
qed (auto intro: spends_refl spends_trans spends_more trace_setup_spends trace_write_spends spends_cfg
    dest: spends_ready spends_board(4))

text \<open>A reply takes one buffer.\<close>

lemma send_reply_returns:
  assumes "tx_ready s" and "pending_bufs (tx_vring s) \<noteq> []"
    and "\<And>c. rpmsg_config s = Some c \<Longrightarrow> c < MAX_RPMSG_CH" and "length (m_data (cfgMsgTxBuf s)) = MSG_DATA_SIZE"
  shows "\<exists>s'. send_reply s = Some s' \<and> spends 1 s s'"
  using rpmsg_send_spends [OF assms(1,2,3), of "rpmsg_config s" sizeof_cfgMsg "enc_msg (cfgMsgTxBuf s)"] assms(4)
  by (simp add: send_reply_def)

text \<open>\<open>keeps k s s'\<close>: at most \<open>k\<close> buffers are used up and what the handlers rely on
  holds again.\<close>

definition keeps :: "nat \<Rightarrow> 'a board_scheme \<Rightarrow> 'a board_scheme \<Rightarrow> bool" where
  "keeps k s s' \<longleftrightarrow> tx_ready s' \<and> vars_inv s' \<and> cbs_ok s' \<and> length (m_data (cfgMsgTxBuf s')) = MSG_DATA_SIZE \<and>
     stdout_buf s' = [] \<and> rpmsg_stdio s' = rpmsg_stdio s \<and> rpmsg_config s' = rpmsg_config s \<and>
     length (vars s') = length (vars s) \<and> rx_vring s' = rx_vring s \<and>
     length (pending_bufs (tx_vring s)) \<le> length (pending_bufs (tx_vring s')) + k"

lemma keeps_spends:
  assumes "keeps k s s'" and "spends j s' s''"
  shows "keeps (k + j) s s''"
  using assms(1) spends_ready [OF _ assms(2)] spends_board [OF assms(2)] spends_sel [OF assms(2)] spends_count [OF assms(2)]
  by (simp add: keeps_def vars_inv_def cbs_ok_def)

lemma board_keeps: "board_ok n s \<Longrightarrow> keeps 0 s s"
  by (simp add: keeps_def board_ok_def)

text \<open>The configuration handler returns for every request, whatever the bytes, when it has
  two buffers: one for what a callback of the variable prints, one for the reply.\<close>

lemma config_msg_handler_returns:
  assumes ok: "board_ok n s" and p: "2 \<le> length (pending_bufs (tx_vring s))"
  shows "\<exists>s'. config_msg_handler var_cb data len s = Some s' \<and> keeps 2 s s'"
proof -
  define a where "a = answer (vars s) (cfgMsgTxBuf s) (req_at (mem s) data)"
  let ?s = "s\<lparr>vars := fst a, cfgMsgTxBuf := snd a\<rparr>"
  have r: "tx_ready s \<and> (\<forall>c. rpmsg_stdio s = Some c \<longrightarrow> c < MAX_RPMSG_CH)" "vars_inv s" "cbs_ok s" "stdout_buf s = []"
    "length (m_data (cfgMsgTxBuf s)) = MSG_DATA_SIZE" "\<And>c. rpmsg_config s = Some c \<Longrightarrow> c < MAX_RPMSG_CH"
    using ok by (simp_all add: board_ok_def)
  have "pending_bufs (tx_vring s) \<noteq> []" using p by (auto simp del: length_pending)
  from out.handler_steps [OF r(1-4) this, of data len] obtain s1 where
    s1: "spends 1 ?s s1" "config_msg_handler var_cb data len s = send_reply s1" unfolding a_def by blast
  have "keeps 0 s ?s"
    using r answer_vars [OF r(2)] cbs_ok_answer [OF r(3)] unfolding a_def by (simp add: keeps_def answer_data vars_inv_def)
  from keeps_spends [OF this s1(1)] have k: "keeps 1 s s1" by simp
  then have "pending_bufs (tx_vring s1) \<noteq> []" using p by (auto simp: keeps_def simp del: length_pending)
  with send_reply_returns [OF _ this] k r(6) obtain s' where "send_reply s1 = Some s'" "spends 1 s1 s'"
    by (auto simp: keeps_def)
  with keeps_spends [OF k] s1(2) have "keeps (1 + 1) s s'" "config_msg_handler var_cb data len s = Some s'" by simp_all
  then show ?thesis by (simp add: numeral_2_eq_2)
qed

lemma stdio_msg_handler_returns:
  assumes ok: "board_ok n s"
  shows "\<exists>s'. stdio_msg_handler data len s = Some s' \<and> keeps 0 s s'"
proof (cases "stdio_init s")
  case False
  have "keeps 0 s (s\<lparr>stdio_init := True\<rparr>)"
    using board_keeps [OF ok] by (simp add: keeps_def vars_inv_def cbs_ok_def)
  with False show ?thesis by (simp add: stdio_msg_handler_def)
next
  case True
  let ?s1 = "s\<lparr>mem := wr_bytes (mem s) (data + len) [0]\<rparr>"
  have "keeps 0 s ?s1" using board_keeps [OF ok] by (simp add: keeps_def vars_inv_def cbs_ok_def)
  moreover have "tx_ready ?s1" using ok by (simp add: board_ok_def)
  ultimately have "keeps (0 + 0) s (fprintf_stderr msg ?s1)" for msg
    using keeps_spends fprintf_spends by blast
  with True show ?thesis by (simp add: stdio_msg_handler_def Let_def)
qed

lemma run_rx_returns:
  assumes ok: "board_ok (Suc n) s"
  shows "\<exists>s'. run_rx cb i data len s = Some s' \<and> keeps 2 s s'"
proof (cases cb)
  case config_msg_handler_cb
  have "2 \<le> length (pending_bufs (tx_vring s))" using ok by (simp add: board_ok_def)
  with config_msg_handler_returns [OF ok] config_msg_handler_cb show ?thesis by (simp add: run_rx_def)
next
  case stdio_msg_handler_cb
  with stdio_msg_handler_returns [OF ok] show ?thesis by (fastforce simp: run_rx_def keeps_def)
qed

lemma keeps_board:
  "board_ok n s \<Longrightarrow> keeps (2 * k) s s' \<Longrightarrow> k \<le> n \<Longrightarrow> board_ok (n - k) s'"
  by (auto simp: board_ok_def keeps_def)

interpretation fw: rx_client run_rx board_ok
proof unfold_locales
  fix n s v i src cb a l
  show "vring_wf (rx_vring s) \<and> length (channels s) = 5" if "board_ok n s"
    using that by (simp add: board_ok_def tx_ready_def rings_inv_def)
  show "board_ok n (s\<lparr>rx_vring := v\<rparr>)"
    if "board_ok n s" "vring_wf v" "notify (fst v) = notify (fst (rx_vring s))"
    using that by (simp add: board_ok_def tx_ready_def rings_inv_def vars_inv_def cbs_ok_def)
  show "board_ok n s" if "board_ok (Suc n) s"
    using that by (simp add: board_ok_def)
  show "board_ok n (bring_up i src s)" if "board_ok n s"
    using that by (simp add: board_ok_def tx_ready_def rings_inv_def vars_inv_def cbs_ok_def bring_up_def)
  show "\<exists>s'. run_rx cb i a l s = Some s' \<and> board_ok n s' \<and> rx_vring s' = rx_vring s" if "board_ok (Suc n) s"
    using run_rx_returns [OF that, of cb i a l] keeps_board [OF that, of 1] by (auto simp: keeps_def)
qed

section \<open>Output on the stdio channel\<close>

text \<open>The chunks carry the data, in order and completely.\<close>

lemma send_chunks_sent:
  "link_ok u0 base s \<Longrightarrow> c < MAX_RPMSG_CH \<Longrightarrow> ch_state (channels s ! c) = CH_UP \<Longrightarrow>
   length data \<le> 495 * length (pending_bufs (tx_vring s)) \<Longrightarrow>
   \<exists>s' cs. send_chunks (Some c) data s = Some s' \<and> link_ok u0 base s' \<and> concat cs = data \<and>
     (\<forall>p \<in> set cs. p \<noteq> [] \<and> length p \<le> 495) \<and> channels s' = channels s \<and>
     tx_sent u0 s' = tx_sent u0 s @ map (\<lambda>p. (local_addr (channels s ! c), remote_addr (channels s ! c), 0, p)) cs"
proof (induction "length data" arbitrary: data s rule: less_induct)
  case less
  show ?case
  proof (cases "data = []")
    case True
    then have "send_chunks (Some c) data s = Some s" by (simp add: send_chunks.simps)
    with True less.prems show ?thesis by (intro exI [of _ s] exI [of _ "[]"]) simp
  next
    case False
    let ?p = "take 495 data"
    obtain d ds where p: "pending_bufs (tx_vring s) = d # ds"
      using False less.prems(4) by (cases "pending_bufs (tx_vring s)") (auto simp del: length_pending)
    have l: "unat (of_nat (length ?p) :: u32) = length ?p" "(of_nat (length ?p) :: u32) \<le> DATA_LEN_MAX"
      by (simp_all add: unat_of_nat word_le_nat_alt)
    from rpmsg_send_link [OF less.prems(1) p less.prems(2,3) l(2,1)] obtain v m g where
      v: "rpmsg_send (Some c) ?p (of_nat (length ?p)) s = Some (s\<lparr>tx_vring := v, mem := m, io_log := g\<rparr>)"
      "tx_sent u0 (s\<lparr>tx_vring := v, mem := m, io_log := g\<rparr>) = tx_sent u0 s @
        [(local_addr (channels s ! c), remote_addr (channels s ! c), 0, ?p)]"
      "link_ok u0 base (s\<lparr>tx_vring := v, mem := m, io_log := g\<rparr>)" "pending_bufs v = ds" by blast
    let ?s = "s\<lparr>tx_vring := v, mem := m, io_log := g\<rparr>"
    have "length (drop 495 data) < length data" using False by simp
    moreover have "length (drop 495 data) \<le> 495 * length (pending_bufs (tx_vring ?s))"
      using less.prems(4) p v(4) by (simp del: length_pending)
    ultimately obtain s' cs where s': "send_chunks (Some c) (drop 495 data) ?s = Some s'" "link_ok u0 base s'"
      "concat cs = drop 495 data" "\<forall>p \<in> set cs. p \<noteq> [] \<and> length p \<le> 495" "channels s' = channels s"
      "tx_sent u0 s' = tx_sent u0 ?s @ map (\<lambda>p. (local_addr (channels s ! c), remote_addr (channels s ! c), 0, p)) cs"
      using less.hyps [of "drop 495 data" ?s] v(3) less.prems(2,3) by auto
    have "send_chunks (Some c) data s = Some s'"
      using False v(1) s'(1) by (subst send_chunks.simps) simp
    moreover have "concat (?p # cs) = data" using s'(3) by simp
    moreover have "\<forall>p \<in> set (?p # cs). p \<noteq> [] \<and> length p \<le> 495" using s'(4) False by simp
    moreover have "tx_sent u0 s' = tx_sent u0 s @ map (\<lambda>p. (local_addr (channels s ! c), remote_addr (channels s ! c), 0, p)) (?p # cs)"
      using s'(6) v(2) by simp
    ultimately show ?thesis using s'(2,5) by blast
  qed
qed

section \<open>Properties of the firmware\<close>

definition board_demo :: "u16 list \<Rightarrow> u16 list \<Rightarrow> memory \<Rightarrow> board" where
  "board_demo txs rxs me = running txs rxs me
     (cfg.cfg_ext vars_init zero_msg (Some 1) (board.board_ext (Some 0) True [] [] ()))"

lemma board_demo_sel:
  "vars (board_demo t r m) = vars_init" "cfgMsgTxBuf (board_demo t r m) = zero_msg"
  "rpmsg_config (board_demo t r m) = Some 1" "rpmsg_stdio (board_demo t r m) = Some 0"
  "stdio_init (board_demo t r m)" "stdout_buf (board_demo t r m) = []" "channels (board_demo t r m) = demo_channels"
  "mem (board_demo t r m) = m" "resources (board_demo t r m) = resources_init 0 0x100000 0x100000"
  "outbyte_buf (board_demo t r m) = []"
  by (simp_all add: board_demo_def running_def)

lemma board_demo_ok:
  assumes "distinct (map unat txs)" and "\<forall>d \<in> set txs. unat d < VRING_SIZE" and "length rxs \<le> VRING_SIZE"
  shows "link_ok 0 0x50 (board_demo txs rxs m)" "pending_bufs (tx_vring (board_demo txs rxs m)) = txs"
    "pending_bufs (rx_vring (board_demo txs rxs m)) = rxs" "tx_sent 0 (board_demo txs rxs m) = []"
    "2 * n \<le> length txs \<Longrightarrow> board_ok n (board_demo txs rxs m)"
proof -
  show r: "link_ok 0 0x50 (board_demo txs rxs m)" "pending_bufs (tx_vring (board_demo txs rxs m)) = txs"
    "pending_bufs (rx_vring (board_demo txs rxs m)) = rxs" "tx_sent 0 (board_demo txs rxs m) = []"
    using running_ok [OF assms] by (simp_all add: board_demo_def)
  have "vars_inv (board_demo txs rxs m)" using vars_init_ok by (simp add: vars_inv_def board_demo_sel)
  moreover have "cbs_ok (board_demo txs rxs m)"
    unfolding cbs_ok_def board_demo_sel by (simp add: vars_init_def dflt_var_def cstr_def)
  moreover have "tx_ready (board_demo txs rxs m)"
    using r(1,2) assms(2) by (simp add: tx_ready_def link_ok_def heads_ok_def board_demo_sel demo_channels_def)
  ultimately show "board_ok n (board_demo txs rxs m)" if "2 * n \<le> length txs"
    using that r(2) by (simp add: board_ok_def board_demo_sel zero_msg_def del: length_pending)
qed



lemma trace_setup_link:
  assumes "link_ok u0 base s"
  shows "link_ok u0 base (trace_setup s)" "tx_sent u0 (trace_setup s) = tx_sent u0 s"
    "tx_vring (trace_setup s) = tx_vring s" "channels (trace_setup s) = channels s"
proof -
  have "trace_ok s" using assms by (simp add: link_ok_def)
  then have "trace_ok (trace_setup s)"
    by (auto simp: trace_ok_def trace_region_def trace_setup_def rpmsg_get_trace_buf_settings_def Let_def)
  then show "link_ok u0 base (trace_setup s)" "tx_sent u0 (trace_setup s) = tx_sent u0 s"
    "tx_vring (trace_setup s) = tx_vring s" "channels (trace_setup s) = channels s"
    using assms by (simp_all add: link_ok_def rings_inv_def tx_own_def ch_inv_def trace_setup_def tx_sent_def Let_def)
qed

lemma trace_write_link:
  assumes "link_ok u0 base s" and "trace_buf s \<noteq> 0"
  shows "link_ok u0 base (snd (trace_write t s))" "tx_sent u0 (snd (trace_write t s)) = tx_sent u0 s"
proof -
  have "fprintf_stderr t s = snd (trace_write t s)" using assms(2) by (simp add: fprintf_stderr_def trace_setup_def)
  with fprintf_stderr_link_ok [OF assms(1), of t] fprintf_stderr_sent(1) [of s u0 t] assms(1)
  show "link_ok u0 base (snd (trace_write t s))" "tx_sent u0 (snd (trace_write t s)) = tx_sent u0 s"
    by (simp_all add: link_ok_def)
qed

text \<open>C26: What the firmware writes to \<open>stdout\<close> reaches the kernel: once the stdio channel is
  open, the data is sent on it completely and in order, in messages of at most 495 bytes,
  and \<open>_write\<close> reports all of it as written.\<close>

theorem stdout_reaches_kernel:
  assumes "link_ok u0 base s" and "rpmsg_stdio s = Some c" and "stdio_init s" and "c < MAX_RPMSG_CH"
    and "ch_state (channels s ! c) = CH_UP" and "length data \<le> 495 * length (pending_bufs (tx_vring s))"
  shows "\<exists>s' cs. write_fd 1 data s = Some (length data, s') \<and> link_ok u0 base s' \<and> concat cs = data \<and>
    (\<forall>p \<in> set cs. length p \<le> 495) \<and>
    tx_sent u0 s' = tx_sent u0 s @ map (\<lambda>p. (local_addr (channels s ! c), remote_addr (channels s ! c), 0, p)) cs"
proof -
  let ?t = "trace_setup s"
  have t: "rpmsg_stdio ?t = Some c" "stdio_init ?t" using assms(2,3) by (simp_all add: trace_setup_def Let_def)
  note tl = trace_setup_link [OF assms(1)]
  from send_chunks_sent [OF tl(1) assms(4), of data] assms(5,6) tl obtain s1 cs where
    s1: "send_chunks (Some c) data ?t = Some s1" "link_ok u0 base s1" "concat cs = data"
    "\<forall>p \<in> set cs. p \<noteq> [] \<and> length p \<le> 495"
    "tx_sent u0 s1 = tx_sent u0 s @ map (\<lambda>p. (local_addr (channels s ! c), remote_addr (channels s ! c), 0, p)) cs"
    by auto
  let ?s' = "if trace_buf s1 \<noteq> 0 then snd (trace_write data s1) else s1"
  have "write_fd 1 data s = Some (length data, ?s')"
    using s1(1) t by (auto simp: write_fd_def write_stdout_def Let_def trace_write_def)
  moreover have "link_ok u0 base ?s'" "tx_sent u0 ?s' = tx_sent u0 s1"
    using s1(2) trace_write_link [OF s1(2)] by simp_all
  ultimately show ?thesis using s1(3-5) by (intro exI [of _ ?s'] exI [of _ cs]) auto
qed

theorem stdout_reaches_kernel_witness:
  "\<exists>s' cs. write_fd 1 (replicate 600 65) (board_demo [4, 5] [] (\<lambda>_. 0)) = Some (600, s') \<and> concat cs = replicate 600 65 \<and>
    tx_sent 0 s' = map (\<lambda>p. (0x50, 0x400, 0, p)) cs"
  using stdout_reaches_kernel [of 0 "0x50" "board_demo [4, 5] [] (\<lambda>_. 0)" 0 "replicate 600 65"]
    board_demo_ok(1,2,4) [of "[4, 5]" "[]" "\<lambda>_. 0"]
  by (auto simp: board_demo_sel demo_channels_def simp del: length_pending)

lemma mmu_sections_cover:
  assumes "a mod 0x100000 = 0" and "a \<le> x" and "x \<le> e" and "unat e + 0x100000 < 4294967296"
  shows "x div 0x100000 \<in> (\<lambda>y. y div 0x100000) ` set (mmu_sections a e)"
proof -
  define k where "k = (unat x - unat a) div 0x100000"
  have ux: "unat a \<le> unat x" "unat x \<le> unat e" using assms(2,3) by (simp_all add: word_le_nat_alt)
  have am: "unat a mod 0x100000 = 0" using arg_cong [OF assms(1), of unat] by (simp add: unat_mod)
  have k: "k \<le> (unat e - unat a) div 0x100000" unfolding k_def using ux by (intro div_le_mono) simp
  have kb: "k * 0x100000 \<le> unat x - unat a" unfolding k_def by simp
  have "unat (of_nat k * 0x100000 :: u32) = k * 0x100000"
    using kb unat_u32_less [of x] by (simp add: unat_word_ariths unat_of_nat)
  then have u: "unat (a + of_nat k * 0x100000) = unat a + k * 0x100000"
    using kb ux unat_u32_less [of x] by (simp add: unat_word_ariths)
  have "unat (x div 0x100000) = unat ((a + of_nat k * 0x100000) div 0x100000)"
  proof -
    obtain q where q: "unat a = q * 0x100000" using am by (auto simp: mod_eq_0_iff_dvd dvd_def)
    have "unat x = unat a + (unat x - unat a)" using ux by simp
    then have "unat x div 0x100000 = q + k" unfolding k_def by (metis q div_mult_self3 zero_neq_numeral)
    then show ?thesis by (simp add: unat_div u q)
  qed
  then have "x div 0x100000 = (a + of_nat k * 0x100000) div 0x100000" by (simp add: word_unat_eq_iff)
  moreover have "a + of_nat k * 0x100000 \<in> set (mmu_sections a e)"
  proof -
    have "a \<le> e" using ux by (simp add: word_le_nat_alt)
    moreover have "k < (unat e - unat a) div 0x100000 + 1" using k by simp
    ultimately have "k \<in> set [0..<(if a \<le> e then (unat e - unat a) div 0x100000 + 1 else 0)]" by (simp only: if_True set_upt) simp
    then show ?thesis unfolding mmu_sections_def set_map by blast
  qed
  ultimately show ?thesis by blast
qed

text \<open>\<open>mmu_init\<close> returns for every image that ends below the last two megabytes of the
  address space, and for an image that starts on a section boundary every section from its
  first to the one that holds its end address is mapped shareable.\<close>

theorem mmu_init_maps_image:
  fixes s :: "'a board_scheme"
  defines "a \<equiv> co_da (text_cout (resources s))"
    and "e \<equiv> co_da (text_cout (resources s)) + co_len (text_cout (resources s))"
  assumes "unat e + 0x100000 < 4294967296"
  shows "\<exists>s'. mmu_init s = Some s' \<and> (a mod 0x100000 = 0 \<longrightarrow>
    (\<forall>x. a \<le> x \<and> x \<le> e \<and> x div 0x100000 \<noteq> pLed div 0x100000 \<longrightarrow>
      (\<exists>y. y div 0x100000 = x div 0x100000 \<and> tlb s' (x div 0x100000) = (y AND 0xFFF00000) OR 0x15de6)))"
proof -
  let ?m = "cstr ''mmu_init: start x'' @ hex08 a @ cstr '' end x'' @ hex08 e @ [10]"
  let ?s1 = "fold (\<lambda>x. Xil_SetTlbAttributes x 0x15de6) (mmu_sections a e) (fprintf_stderr ?m s)"
  let ?s' = "Xil_SetTlbAttributes pLed 0x04de2 ?s1"
  have run: "mmu_init s = Some ?s'"
    using mmu_loop_returns [OF assms(3), of a "fprintf_stderr ?m s"] by (simp add: mmu_init_def a_def e_def Let_def)
  have "\<exists>y. y div 0x100000 = x div 0x100000 \<and> tlb ?s' (x div 0x100000) = (y AND 0xFFF00000) OR 0x15de6"
    if "a mod 0x100000 = 0" "a \<le> x" "x \<le> e" "x div 0x100000 \<noteq> pLed div 0x100000" for x
  proof -
    let ?f = "filter (\<lambda>y. y div 0x100000 = x div 0x100000) (mmu_sections a e)"
    have c: "x div 0x100000 \<in> (\<lambda>y. y div 0x100000) ` set (mmu_sections a e)"
      by (rule mmu_sections_cover [OF that(1-3) assms(3)])
    then have "?f \<noteq> []" by (auto simp: filter_empty_conv)
    then have "last ?f \<in> set ?f" by (rule last_in_set)
    moreover have "tlb ?s' (x div 0x100000) = (last ?f AND 0xFFF00000) OR 0x15de6"
      using c that(4) fold_set_tlb [of "0x15de6" "mmu_sections a e" "fprintf_stderr ?m s" "x div 0x100000"]
      by (simp add: Xil_SetTlbAttributes_def [of pLed])
    ultimately show ?thesis by auto
  qed
  with run show ?thesis by blast
qed

theorem mmu_init_maps_image_witness:
  "\<exists>s' y. mmu_init (board_demo [] [] (\<lambda>_. 0)) = Some s' \<and> y div 0x100000 = 0 \<and> tlb s' 0 = (y AND 0xFFF00000) OR 0x15de6"
proof -
  let ?s = "board_demo [] [] (\<lambda>_. 0)"
  have r: "co_da (text_cout (resources ?s)) = 0" "co_len (text_cout (resources ?s)) = 0x100000"
    by (simp_all add: board_demo_sel resources_init_def)
  from mmu_init_maps_image [of ?s, unfolded r] obtain s' where "mmu_init ?s = Some s'"
    "\<forall>x. x \<le> 0x100000 \<and> x div 0x100000 \<noteq> pLed div 0x100000 \<longrightarrow>
      (\<exists>y. y div 0x100000 = x div 0x100000 \<and> tlb s' (x div 0x100000) = (y AND 0xFFF00000) OR 0x15de6)" by auto
  note b = this
  have "\<exists>y. y div 0x100000 = 0 \<and> tlb s' 0 = (y AND 0xFFF00000) OR 0x15de6"
    using b(2) [THEN spec, of 0] by simp
  with b(1) show ?thesis by blast
qed

text \<open>\<open>outbyte\<close> never overruns its buffer: it holds fewer than 494 bytes after every call
  and a newline, or the 494th byte, hands all of them to \<open>_write\<close>.\<close>

theorem outbyte_buffer_bound:
  assumes "length (outbyte_buf s) < 494"
  shows "\<exists>s'. outbyte ch s = Some s' \<and> length (outbyte_buf s') < 494 \<and>
    (if ch = 10 \<or> length (outbyte_buf s) = 493
     then \<exists>n s1. write_fd 2 (outbyte_buf s @ [ch]) s = Some (n, s1) \<and> s' = s1\<lparr>outbyte_buf := []\<rparr>
     else outbyte_buf s' = outbyte_buf s @ [ch])"
proof (cases "ch = 10 \<or> length (outbyte_buf s) = 493")
  case True
  obtain n s1 where w: "write_fd 2 (outbyte_buf s @ [ch]) s = Some (n, s1)"
    by (cases "trace_write (outbyte_buf s @ [ch]) (trace_setup s)") (simp add: write_fd_def)
  with True have "outbyte ch s = Some (s1\<lparr>outbyte_buf := []\<rparr>)" by (auto simp: outbyte_def Let_def)
  with True w show ?thesis by auto
next
  case False
  with assms show ?thesis by (auto simp: outbyte_def Let_def)
qed

theorem outbyte_buffer_bound_witness:
  "\<exists>s'. outbyte 10 (board_demo [] [] (\<lambda>_. 0)) = Some s' \<and> outbyte_buf s' = []"
  using outbyte_buffer_bound [of "board_demo [] [] (\<lambda>_. 0)" 10] by (auto simp: board_demo_sel)

section \<open>From reset to the first kick\<close>

text \<open>Until the stdio channel is up, printing only touches the trace buffer and the line buffer.\<close>

definition no_prints :: "'a board_scheme \<Rightarrow> 'a board_scheme" where
  "no_prints s = s\<lparr>stdout_buf := [], mem := (\<lambda>_. 0), trace_buf := 0, trace_ind := 0, trace_size := 0\<rparr>"

definition early_print :: "'a board_scheme \<Rightarrow> 'a board_scheme \<Rightarrow> bool" where
  "early_print s s' \<longleftrightarrow> no_prints s' = no_prints s"

lemma early_print_refl: "early_print s s"
  by (simp add: early_print_def)

lemma early_print_trans: "early_print s s' \<Longrightarrow> early_print s' s'' \<Longrightarrow> early_print s s''"
  by (simp add: early_print_def)

lemma early_print_steps: "early_print s (s\<lparr>stdout_buf := b\<rparr>)" "early_print s (trace_setup s)"
  "early_print s (snd (trace_write d s))"
  by (simp_all add: early_print_def no_prints_def trace_setup_def trace_write_def Let_def)

lemma early_print_keeps:
  assumes "early_print s s'"
  shows "stdio_init s' = stdio_init s" "HandlerTable s' = HandlerTable s" "gicIsReady s' = gicIsReady s"
    "XExc_VectorTable s' = XExc_VectorTable s" "tx_vring s' = tx_vring s" "rx_vring s' = rx_vring s"
    "next_rpmsg_addr s' = next_rpmsg_addr s"
  using arg_cong [OF assms [unfolded early_print_def], of stdio_init]
    arg_cong [OF assms [unfolded early_print_def], of HandlerTable]
    arg_cong [OF assms [unfolded early_print_def], of gicIsReady]
    arg_cong [OF assms [unfolded early_print_def], of XExc_VectorTable]
    arg_cong [OF assms [unfolded early_print_def], of tx_vring]
    arg_cong [OF assms [unfolded early_print_def], of rx_vring]
    arg_cong [OF assms [unfolded early_print_def], of next_rpmsg_addr]
  by (simp_all add: no_prints_def)

lemma early_write_stdout:
  assumes "\<not> stdio_init s"
  shows "\<exists>n s'. write_stdout line s = Some (n, s') \<and> early_print s s'"
proof -
  have "\<not> stdio_init (trace_setup s)" using assms by (simp add: trace_setup_def Let_def)
  moreover obtain n s' where "trace_write line (trace_setup s) = (n, s')" by fastforce
  moreover from this have "early_print s s'"
    using early_print_trans [OF early_print_steps(2,3), of s line] by simp
  ultimately show ?thesis
    using early_print_steps(2) [of s] by (simp add: write_stdout_def Let_def)
qed

lemma early_put: "\<not> stdio_init s \<Longrightarrow> \<exists>s'. stdout_put xs s = Some s' \<and> early_print s s'"
proof (induction xs arbitrary: s)
  case Nil
  then show ?case by (simp add: early_print_refl)
next
  case (Cons b xs)
  show ?case
  proof (cases "b = 10")
    case True
    from early_write_stdout [of "s\<lparr>stdout_buf := []\<rparr>" "stdout_buf s @ [b]"] Cons.prems obtain n s1 where
      w: "write_stdout (stdout_buf s @ [b]) (s\<lparr>stdout_buf := []\<rparr>) = Some (n, s1)"
        "early_print (s\<lparr>stdout_buf := []\<rparr>) s1" by auto
    then have e: "early_print s s1" using early_print_trans [OF early_print_steps(1)] by blast
    with Cons.prems have "\<not> stdio_init s1" by (simp add: early_print_keeps)
    with Cons.IH obtain s2 where "stdout_put xs s1 = Some s2" "early_print s1 s2" by blast
    with w e True show ?thesis by (auto simp: Let_def intro: early_print_trans)
  next
    case False
    from Cons.IH [of "s\<lparr>stdout_buf := stdout_buf s @ [b]\<rparr>"] Cons.prems obtain s2 where
      "stdout_put xs (s\<lparr>stdout_buf := stdout_buf s @ [b]\<rparr>) = Some s2"
      "early_print (s\<lparr>stdout_buf := stdout_buf s @ [b]\<rparr>) s2" by auto
    then show ?thesis using False early_print_trans [OF early_print_steps(1)] by (auto simp: Let_def)
  qed
qed

lemma irq_init_ok:
  assumes "\<not> stdio_init s" and "length (HandlerTable s) = XSCUGIC_MAX_NUM_INTR_INPUTS" and "\<not> gic_ready s"
    and "length (XExc_VectorTable s) = 7"
  shows "\<exists>s'. irq_init amp s = Some s' \<and> gic_inv s' \<and> gic_ready s' \<and> irqs_routed s' \<and>
    tx_vring s' = tx_vring s \<and> rx_vring s' = rx_vring s \<and> next_rpmsg_addr s' = next_rpmsg_addr s"
proof -
  from early_put [OF assms(1)] obtain s1 where
    s1: "stdout_put (cstr ''GIC base address: 0x'' @ hex08 (CpuBaseAddress s) @ [10]) s = Some s1" "early_print s s1" by blast
  have g: "length (HandlerTable s1) = XSCUGIC_MAX_NUM_INTR_INPUTS" "\<not> gic_ready s1" "length (XExc_VectorTable s1) = 7"
    using early_print_keeps [OF s1(2)] assms(2-4) by (simp_all add: gic_ready_def)
  from CfgInitialize_eq [OF g(2), of amp 0] obtain l where
    init: "XScuGic_CfgInitialize amp (Some 0) s1 = Some (XST_SUCCESS, s1\<lparr>io_log := io_log s1 @ l,
      HandlerTable := map init_vector (HandlerTable s1), gicConfig := True, gicIsReady := XIL_COMPONENT_IS_READY\<rparr>)"
    (is "_ = Some (_, ?s2)") by blast
  let ?s4 = "?s2\<lparr>XExc_VectorTable := (XExc_VectorTable s1)[5 := \<lparr>eHandler = Exc_XScuGic_InterruptHandler, eData = RefGic\<rparr>]\<rparr>"
  have run: "irq_init amp s = Some (Xil_ExceptionEnable ?s4)"
    using s1(1) init g(3)
    by (simp add: irq_init_def XScuGic_LookupConfig_def Xil_ExceptionRegisterHandler_def Xil_ExceptionInit_def defined_simps)
  have "irqs_routed (Xil_ExceptionEnable ?s4)"
    using g(3) irqs_masked_set(1) [of ?s4] unfolding irqs_routed_def
    by (simp add: Xil_ExceptionEnable_def Xil_ExceptionEnableMask_def)
  moreover have "gic_inv (Xil_ExceptionEnable ?s4)" "gic_ready (Xil_ExceptionEnable ?s4)"
    using init_vector_inv [of s1] g(1)
    by (simp_all add: Xil_ExceptionEnable_def Xil_ExceptionEnableMask_def gic_inv_def gic_ready_def)
  ultimately show ?thesis
    using run early_print_keeps [OF s1(2)] by (simp add: Xil_ExceptionEnable_def Xil_ExceptionEnableMask_def)
qed



end
