(* ===== verification/FwOutput.thy ===== *)
theory FwOutput
  imports FwMain
begin

text \<open>
  What the output of the firmware leaves alone. The callback of a variable prints while a request is
  served: it sends a message on the stdio channel, writes the trace buffer and may switch the LEDs.
  The theory shows that none of this disturbs the message layer, the requests that still wait, or
  the replies: on the configuration channel the kernel sees the same messages as without the callback.
\<close>

section \<open>What output leaves alone\<close>

text \<open>The transmit buffers and the trace buffer keep their places, and memory outside of them keeps its
  contents.\<close>

definition tx_frame :: "'a rproc_scheme \<Rightarrow> 'a rproc_scheme \<Rightarrow> bool" where
  "tx_frame s s' \<longleftrightarrow> (\<forall>i < VRING_SIZE. buf_addr (tx_vring s') i = buf_addr (tx_vring s) i) \<and>
     trace_region s' = trace_region s \<and>
     (\<forall>x. (\<forall>i < VRING_SIZE. 512 \<le> unat (x - buf_addr (tx_vring s) i)) \<and>
        unat (snd (trace_region s)) \<le> unat (x - fst (trace_region s)) \<longrightarrow> mem s' x = mem s x)"

lemma tx_frame_cong:
  "tx_vring t = tx_vring s \<Longrightarrow> mem t = mem s \<Longrightarrow> trace_region t = trace_region s \<Longrightarrow> tx_frame t s' = tx_frame s s'"
  "tx_vring t' = tx_vring s' \<Longrightarrow> mem t' = mem s' \<Longrightarrow> trace_region t' = trace_region s' \<Longrightarrow> tx_frame s t' = tx_frame s s'"
  by (simp_all add: tx_frame_def)

lemma tx_frame_refl: "tx_frame s s"
  by (simp add: tx_frame_def)

lemma tx_frame_trans: "tx_frame s s' \<Longrightarrow> tx_frame s' s'' \<Longrightarrow> tx_frame s s''"
  by (simp add: tx_frame_def)

lemma trace_region_upd [simp]:
  "trace_region (s\<lparr>tx_vring := v\<rparr>) = trace_region s" "trace_region (s\<lparr>rx_vring := v\<rparr>) = trace_region s"
  "trace_region (s\<lparr>mem := m\<rparr>) = trace_region s" "trace_region (s\<lparr>io_log := l\<rparr>) = trace_region s"
  "trace_region (s\<lparr>channels := cs\<rparr>) = trace_region s"
  by (simp_all add: trace_region_def)

lemma block_send_frame:
  assumes ok: "link_ok u0 base s" and p: "pending_bufs (tx_vring s) = d # ds"
    and len: "len \<le> DATA_LEN_MAX" "unat len \<le> length data"
    and "block_send_message src dst data len s = Some s'"
  shows "tx_frame s s'"
proof -
  have inv: "rings_inv s" "tx_own u0 s" using ok by (simp_all add: link_ok_def)
  note room = tx_own_room [OF inv(2) p]
  let ?a = "buf_addr (tx_vring s) (unat d)" and ?msg = "enc_hdr src dst (ucast len) @ take (unat len) data"
  from send_message_ok [OF inv(1) p room len, of src dst] obtain v where
    v: "send_message src dst data len s = Some (0, s\<lparr>tx_vring := v, mem := wr_bytes (mem s) ?a ?msg,
        io_log := io_log s @ (if notifies True (tx_vring s) then [kick_event s] else [])\<rparr>)"
    "vring_wf v" "map desc_addr (desc (snd v)) = map desc_addr (desc (snd (tx_vring s)))"
    by (auto simp: buf_addr_def)
  have s': "tx_vring s' = v" "mem s' = wr_bytes (mem s) ?a ?msg" "trace_region s' = trace_region s"
    using block_send_ready [OF v(1)] assms(5) by (auto simp: trace_region_def)
  have "length (desc (snd v)) = VRING_SIZE" "length (desc (snd (tx_vring s))) = VRING_SIZE"
    using v(2) inv(1) by (cases v; cases "tx_vring s"; simp add: rings_inv_def vring_wf_def)+
  then have "buf_addr v i = buf_addr (tx_vring s) i" if "i < VRING_SIZE" for i
    using v(3) that unfolding buf_addr_def by (metis nth_map)
  moreover have "length ?msg \<le> 512" using len(1) by (simp add: word_le_nat_alt)
  then have "mem s' x = mem s x" if "512 \<le> unat (x - ?a)" for x
    using that by (simp add: s'(2) wr_bytes_def)
  ultimately show ?thesis using s'(1,3) room(1) by (simp add: tx_frame_def)
qed

lemma fprintf_frame: "trace_ok s \<Longrightarrow> tx_frame s (fprintf_stderr msg s)"
  using fprintf_stderr_region [of s msg] by (auto simp: tx_frame_def)

lemma trace_setup_frame: "tx_frame s (trace_setup s)"
  by (simp add: tx_frame_def trace_setup_def trace_region_def rpmsg_get_trace_buf_settings_def Let_def)

text \<open>A buffer that overlaps no transmit buffer keeps its contents, and so does a request in it, which
  takes up the first 436 bytes.\<close>

lemma tx_frame_rd:
  assumes "tx_frame s s'" and "\<forall>i < VRING_SIZE. apart a 512 (buf_addr (tx_vring s) i) 512"
    and "apart a 512 (fst (trace_region s)) (unat (snd (trace_region s)))"
  shows "rd_bytes (mem s') a 512 = rd_bytes (mem s) a 512"
proof -
  have "mem s' (a + of_nat k) = mem s (a + of_nat k)" if k: "k < 512" for k
  proof -
    have "512 \<le> unat (a + of_nat k - buf_addr (tx_vring s) i)" if "i < VRING_SIZE" for i
      using assms(2) that k by (auto simp: apart_def unat_of_nat not_less dest!: spec [of _ "a + of_nat k"])
    moreover have "unat (snd (trace_region s)) \<le> unat (a + of_nat k - fst (trace_region s))"
      using assms(3) k by (auto simp: apart_def unat_of_nat not_less dest!: spec [of _ "a + of_nat k"])
    ultimately show ?thesis using assms(1) by (simp add: tx_frame_def)
  qed
  then show ?thesis by (simp add: rd_bytes_def)
qed

lemma rd_bytes_prefix: "rd_bytes m' a 512 = rd_bytes m a 512 \<Longrightarrow> rd_bytes m' a 436 = rd_bytes m a 436"
  using rd_bytes_part [of 0 436 512 m a] rd_bytes_part [of 0 436 512 m' a] by (simp del: rd_bytes_0)

lemma request_cong:
  assumes "rd_bytes m' a 436 = rd_bytes m a 436"
  shows "rd32 m' a = rd32 m a" and "rd32 m' (a + 4) = rd32 m (a + 4)" and "req_at m' (a + 16) = req_at m (a + 16)"
proof -
  have part: "rd_bytes m' (a + of_nat k) n = rd_bytes m (a + of_nat k) n" if "k + n \<le> 436" for k n
    using rd_bytes_part [OF that] assms by simp
  have r: "rd32 m' (a + of_nat k) = rd32 m (a + of_nat k)" if "k \<le> 432" for k
    using part [of k 4] that by (simp add: rd32_def)
  show "rd32 m' a = rd32 m a" "rd32 m' (a + 4) = rd32 m (a + 4)" using r [of 0] r [of 4] by simp_all
  show "req_at m' (a + 16) = req_at m (a + 16)"
    using r [of 16] r [of 20] r [of 24] r [of 28] r [of 32] part [of 36 400] by (simp add: req_at_def add.assoc)
qed

section \<open>The configuration channel while something is printed\<close>

text \<open>The messages sent with the source address \<open>a\<close>.\<close>

definition sent_from :: "u32 \<Rightarrow> u16 \<Rightarrow> 'a rproc_scheme \<Rightarrow> (u32 \<times> u32 \<times> u16 \<times> u8 list) list" where
  "sent_from a u0 s = filter (\<lambda>m. fst m = a) (tx_sent u0 s)"

text \<open>Output needs a working message layer and a stdio channel that does not send from \<open>a\<close>.\<close>

definition print_ready :: "u16 \<Rightarrow> u32 \<Rightarrow> u32 \<Rightarrow> 'a board_scheme \<Rightarrow> bool" where
  "print_ready u0 base a s \<longleftrightarrow> link_ok u0 base s \<and> (\<forall>c. rpmsg_stdio s = Some c \<longrightarrow>
     c < MAX_RPMSG_CH \<and> (ch_state (channels s ! c) \<noteq> CH_UNUSED \<longrightarrow> local_addr (channels s ! c) \<noteq> a))"

definition prints :: "u16 \<Rightarrow> u32 \<Rightarrow> u32 \<Rightarrow> nat \<Rightarrow> 'a board_scheme \<Rightarrow> 'a board_scheme \<Rightarrow> bool" where
  "prints u0 base a k s s' \<longleftrightarrow> spends k s s' \<and> tx_frame s s' \<and> link_ok u0 base s' \<and>
     sent_from a u0 s' = sent_from a u0 s"

lemma link_ready: "link_ok u0 base s \<Longrightarrow> tx_ready s"
  by (simp add: link_ok_def tx_ready_def heads_ok_def tx_own_def tx_ids_def ch_inv_def)

lemma print_ready_out: "print_ready u0 base a s \<Longrightarrow> tx_ready s \<and> (\<forall>c. rpmsg_stdio s = Some c \<longrightarrow> c < MAX_RPMSG_CH)"
  using link_ready [of u0 base s] by (simp add: print_ready_def)

lemma sent_from_cong: "tx_sent u0 s' = tx_sent u0 s \<Longrightarrow> sent_from a u0 s' = sent_from a u0 s"
  by (simp add: sent_from_def)

lemma prints_refl: "print_ready u0 base a s \<Longrightarrow> prints u0 base a 0 s s"
  using link_ready [of u0 base s] by (simp add: prints_def print_ready_def spends_refl tx_frame_refl)

lemma prints_more: "prints u0 base a k s s' \<Longrightarrow> k \<le> j \<Longrightarrow> prints u0 base a j s s'"
  using spends_more [of k s s' j] by (simp add: prints_def)

lemma prints_spends: "prints u0 base a k s s' \<Longrightarrow> spends k s s'"
  by (simp add: prints_def)

lemma prints_trace:
  assumes "print_ready u0 base a s"
  shows "prints u0 base a 0 s (trace_setup s)"
    and "trace_buf s \<noteq> 0 \<Longrightarrow> prints u0 base a 0 s (snd (trace_write t s))"
proof -
  have ok: "link_ok u0 base s" and t: "trace_ok s" and r: "tx_ready s"
    using assms link_ready [of u0 base s] by (simp_all add: print_ready_def link_ok_def)
  show "prints u0 base a 0 s (trace_setup s)"
    using trace_setup_spends [OF r] trace_setup_frame [of s] trace_setup_link(1) [OF ok]
      sent_from_cong [OF trace_setup_link(2) [OF ok]] by (simp add: prints_def)
  assume b: "trace_buf s \<noteq> 0"
  then have "fprintf_stderr t s = snd (trace_write t s)" by (simp add: fprintf_stderr_def trace_setup_def)
  with trace_write_spends [OF r, of t] fprintf_frame [OF t, of t] trace_write_link(1) [OF ok b, of t]
    sent_from_cong [OF trace_write_link(2) [OF ok b, of t]]
  show "prints u0 base a 0 s (snd (trace_write t s))" by (simp add: prints_def)
qed

lemma prints_send:
  assumes r: "print_ready u0 base a s" and p: "pending_bufs (tx_vring s) \<noteq> []"
    and len: "len \<le> DATA_LEN_MAX" "unat len \<le> length data"
  shows "\<exists>s'. rpmsg_send (rpmsg_stdio s) data len s = Some s' \<and> prints u0 base a 1 s s'"
proof (cases "rpmsg_stdio s = None \<or> (\<exists>c. rpmsg_stdio s = Some c \<and>
    ch_state (channels s ! c) \<noteq> CH_ANNOUNCED \<and> ch_state (channels s ! c) \<noteq> CH_UP)")
  case True
  have "length (channels s) = MAX_RPMSG_CH" using r by (simp add: print_ready_def link_ok_def ch_inv_def)
  with True r have "rpmsg_send (rpmsg_stdio s) data len s = Some s"
    by (auto simp: rpmsg_send_def defined_simps print_ready_def)
  moreover have "prints u0 base a 1 s s" using prints_more [OF prints_refl [OF r], of 1] by simp
  ultimately show ?thesis by blast
next
  case False
  then obtain c where c: "rpmsg_stdio s = Some c" "ch_state (channels s ! c) = CH_ANNOUNCED \<or> ch_state (channels s ! c) = CH_UP"
    by auto
  let ?c = "channels s ! c"
  have ok: "link_ok u0 base s" "c < length (channels s)" "local_addr ?c \<noteq> a"
    using r c by (auto simp: print_ready_def link_ok_def ch_inv_def)
  obtain d ds where p': "pending_bufs (tx_vring s) = d # ds" using p by (cases "pending_bufs (tx_vring s)") auto
  from block_send_link [OF ok(1) p' len, of "local_addr ?c" "remote_addr ?c"] obtain v m l where
    s': "block_send_message (local_addr ?c) (remote_addr ?c) data len s = Some (s\<lparr>tx_vring := v, mem := m, io_log := l\<rparr>)"
      "link_ok u0 base (s\<lparr>tx_vring := v, mem := m, io_log := l\<rparr>)"
      "tx_sent u0 (s\<lparr>tx_vring := v, mem := m, io_log := l\<rparr>) =
        tx_sent u0 s @ [(local_addr ?c, remote_addr ?c, 0, take (unat len) data)]" by blast
  from block_send_spends [OF link_ready [OF ok(1)] p len, of "local_addr ?c" "remote_addr ?c"] s'(1)
  have "spends 1 s (s\<lparr>tx_vring := v, mem := m, io_log := l\<rparr>)" by auto
  with s' block_send_frame [OF ok(1) p' len s'(1)] ok(3)
  have "prints u0 base a 1 s (s\<lparr>tx_vring := v, mem := m, io_log := l\<rparr>)" by (simp add: prints_def sent_from_def)
  moreover have "rpmsg_send (rpmsg_stdio s) data len s = Some (s\<lparr>tx_vring := v, mem := m, io_log := l\<rparr>)"
    using c ok(2) s'(1) by (auto simp: rpmsg_send_def defined_simps)
  ultimately show ?thesis by blast
qed

lemma trace_region_cfg [simp]:
  "trace_region (s\<lparr>vars := vs\<rparr>) = trace_region s" "trace_region (s\<lparr>cfgMsgTxBuf := b\<rparr>) = trace_region s"
  by (simp_all add: trace_region_def)

lemma prints_cfg: "prints u0 base a k s s' \<Longrightarrow> prints u0 base a k (s\<lparr>cfgMsgTxBuf := b\<rparr>) (s'\<lparr>cfgMsgTxBuf := b\<rparr>)"
  using spends_cfg [of k s s' b] tx_frame_cong(1) [of "s\<lparr>cfgMsgTxBuf := b\<rparr>" s "s'\<lparr>cfgMsgTxBuf := b\<rparr>"]
    tx_frame_cong(2) [of "s'\<lparr>cfgMsgTxBuf := b\<rparr>" s' s]
  by (simp add: prints_def sent_from_def)

interpretation pr: output_steps "print_ready u0 base a" "prints u0 base a" for u0 base a
proof unfold_locales
  show "prints u0 base a (k + j) s s''" if "prints u0 base a k s s'" "prints u0 base a j s' s''" for k j s s' s''
    using that spends_trans [of k s s' j s''] tx_frame_trans [of s s' s''] by (simp add: prints_def)
  show "print_ready u0 base a s'" if "print_ready u0 base a s" "prints u0 base a k s s'" for k s s'
    using that spends_sel(2) [of k s s'] spends_board(4) [of k s s'] by (simp add: prints_def print_ready_def)
  show "prints u0 base a 0 s (Xil_Out32 pLed x s)" if "print_ready u0 base a s" for x s
  proof -
    have "link_ok u0 base (s\<lparr>io_log := g\<rparr>) = link_ok u0 base s" for g
      by (simp add: link_ok_def rings_inv_def tx_own_def trace_ok_def trace_region_def ch_inv_def)
    with that out.step_led [OF print_ready_out [OF that], of x] show ?thesis
      by (simp add: prints_def Xil_Out32_def print_ready_def tx_frame_def sent_from_def tx_sent_def)
  qed
  show "print_ready u0 base a (s\<lparr>vars := vs, cfgMsgTxBuf := b\<rparr>)" if "print_ready u0 base a s" for vs b s
    using that by (simp add: print_ready_def)
qed (blast intro: prints_refl prints_more prints_spends prints_trace prints_send prints_cfg)+

end
