(* ===== verification/FwServe.thy ===== *)
theory FwServe
  imports FwOutput
begin

text \<open>
  The firmware as a server: what one call of \<open>rpmsg_poll\<close> makes of the requests that wait in the
  receive ring. The theory composes the rings (VirtioRing), the dispatch to channels (Remoteproc),
  and the request handler (Config), and shows that the composition is the abstract variable server
  applied to the requests one after the other.
\<close>

section \<open>The handler\<close>

text \<open>The handler does to the variables what the abstract server does, whatever a callback of the
  variable prints, and on the configuration channel it sends the reply and nothing else.\<close>

lemma handler_serves:
  fixes data :: u32
  assumes ok: "server_ok u0 base s" and pr: "print_ready u0 base (fst (cfg_ends s)) s" and cbs: "cbs_ok s"
    and e: "stdout_buf s = []" and p: "2 \<le> length (pending_bufs (tx_vring s))"
  defines "x \<equiv> answer (vars s) (cfgMsgTxBuf s) (req_at (mem s) data)" and "a \<equiv> fst (cfg_ends s)"
  shows "\<exists>s'. config_msg_handler var_cb data len s = Some s' \<and> server_ok u0 base s' \<and> print_ready u0 base a s' \<and>
    cbs_ok s' \<and> stdout_buf s' = [] \<and> vars s' = fst x \<and> cfgMsgTxBuf s' = snd x \<and> tx_frame s s' \<and>
    sent_from a u0 s' = sent_from a u0 s @ [(a, snd (cfg_ends s), 0, enc_msg (snd x))] \<and>
    length (pending_bufs (tx_vring s)) \<le> length (pending_bufs (tx_vring s')) + 2 \<and>
    rx_vring s' = rx_vring s \<and> channels s' = channels s \<and> rpmsg_config s' = rpmsg_config s"
proof -
  let ?s = "s\<lparr>vars := fst x, cfgMsgTxBuf := snd x\<rparr>"
  from ok obtain c where c: "c < MAX_RPMSG_CH" "rpmsg_config s = Some c" "ch_state (channels s ! c) = CH_UP"
    by (auto simp: server_ok_def)
  have inv: "vars_inv s" "length (m_data (cfgMsgTxBuf s)) = MSG_DATA_SIZE" using ok by (simp_all add: server_ok_def)
  have ends: "cfg_ends s = (a, remote_addr (channels s ! c))" "local_addr (channels s ! c) = a"
    using c(2) by (simp_all add: a_def cfg_ends_def)
  have "pending_bufs (tx_vring s) \<noteq> []" using p by (auto simp del: length_pending)
  from pr.handler_steps [OF pr inv(1) cbs e this, of data len, folded a_def x_def] obtain s1 where
    s1: "prints u0 base a 1 ?s s1" "config_msg_handler var_cb data len s = send_reply s1" by blast
  then have l1: "link_ok u0 base s1" "tx_frame ?s s1" "sent_from a u0 s1 = sent_from a u0 s" "spends 1 ?s s1"
    by (simp_all add: prints_def sent_from_def)
  note b1 = spends_board [OF l1(4), simplified] spends_sel(1,2) [OF l1(4), simplified]
  have "pending_bufs (tx_vring s1) \<noteq> []"
    using spends_count [OF l1(4)] p by (auto simp del: length_pending)
  then obtain d ds where p1: "pending_bufs (tx_vring s1) = d # ds" by (cases "pending_bufs (tx_vring s1)") auto
  have l: "length (enc_msg (snd x)) = 420" using inv(2) by (simp add: x_def answer_data)
  from rpmsg_send_link [OF l1(1) p1 c(1), of sizeof_cfgMsg "enc_msg (snd x)"] obtain v m g where
    v: "rpmsg_send (Some c) (enc_msg (snd x)) sizeof_cfgMsg s1 = Some (s1\<lparr>tx_vring := v, mem := m, io_log := g\<rparr>)"
      "tx_sent u0 (s1\<lparr>tx_vring := v, mem := m, io_log := g\<rparr>) = tx_sent u0 s1 @ [(a, snd (cfg_ends s), 0, enc_msg (snd x))]"
      "link_ok u0 base (s1\<lparr>tx_vring := v, mem := m, io_log := g\<rparr>)" "pending_bufs v = ds"
    using c(3) l ends b1 by auto
  let ?s' = "s1\<lparr>tx_vring := v, mem := m, io_log := g\<rparr>"
  have len: "length (channels s1) = MAX_RPMSG_CH" using l1(1) by (simp add: link_ok_def ch_inv_def)
  then have "block_send_message (local_addr (channels s1 ! c)) (remote_addr (channels s1 ! c)) (enc_msg (snd x)) sizeof_cfgMsg s1 = Some ?s'"
    using v(1) c b1 by (simp add: rpmsg_send_def defined_simps)
  then have "tx_frame s1 ?s'" using l by (intro block_send_frame [OF l1(1) p1, of sizeof_cfgMsg "enc_msg (snd x)"]) simp_all
  with l1(2) have "tx_frame ?s ?s'" by (rule tx_frame_trans)
  then have "tx_frame s ?s'" by (simp add: tx_frame_cong(1) [of ?s s])
  moreover have "config_msg_handler var_cb data len s = Some ?s'"
    using s1(2) v(1) c(2) b1 by (simp add: send_reply_def)
  moreover have "server_ok u0 base ?s'"
    using v(3) c b1 answer_vars [OF inv(1)] inv(2) by (simp add: server_ok_def vars_inv_def x_def answer_data)
  moreover have "print_ready u0 base a ?s'" using v(3) pr b1 by (simp add: print_ready_def a_def)
  moreover have "cbs_ok ?s'" using cbs_ok_answer [OF cbs] b1 by (simp add: cbs_ok_def x_def)
  moreover have "length (pending_bufs (tx_vring s)) \<le> length ds + 2"
    using spends_count [OF l1(4)] p1 by (simp del: length_pending)
  ultimately show ?thesis
    using v(2,4) l1(3) b1 e by (intro exI [of _ ?s']) (simp add: sent_from_def del: length_pending)
qed

section \<open>Serving one request\<close>

text \<open>No receive buffer overlaps a transmit buffer or the trace buffer.\<close>

definition rings_apart :: "'a rproc_scheme \<Rightarrow> bool" where
  "rings_apart s \<longleftrightarrow> (\<forall>i < VRING_SIZE.
     (\<forall>j < VRING_SIZE. apart (buf_addr (rx_vring s) i) 512 (buf_addr (tx_vring s) j) 512) \<and>
     apart (buf_addr (rx_vring s) i) 512 (fst (trace_region s)) (unat (snd (trace_region s))))"

text \<open>The server can work, its channel has the request handler as callback, and the variables have
  no callbacks or those of main.c, which print on another channel.\<close>

definition serving :: "u16 \<Rightarrow> u32 \<Rightarrow> 'a board_scheme \<Rightarrow> bool" where
  "serving u0 base s \<longleftrightarrow> server_ok u0 base s \<and> rings_apart s \<and>
     (\<forall>c. rpmsg_config s = Some c \<longrightarrow> ch_cb (channels s ! c) = Some config_msg_handler_cb) \<and>
     print_ready u0 base (fst (cfg_ends s)) s \<and> cbs_ok s \<and> stdout_buf s = []"

text \<open>What the server relies on does not depend on the receive ring or the partner's address.\<close>

lemma server_ok_frame:
  assumes "server_ok u0 base s" and "vring_wf (rx_vring s')" and "notify (fst (rx_vring s')) = notify (fst (rx_vring s))"
    and "ch_inv base s'" and "map ch_state (channels s') = map ch_state (channels s)"
    and "tx_vring s' = tx_vring s" and "mem s' = mem s" and "resources s' = resources s"
    and "trace_buf s' = trace_buf s" and "trace_ind s' = trace_ind s" and "trace_size s' = trace_size s"
    and "gic_inv s' = gic_inv s" and "gic_ready s' = gic_ready s"
    and "vars s' = vars s" and "cfgMsgTxBuf s' = cfgMsgTxBuf s" and "rpmsg_config s' = rpmsg_config s"
  shows "server_ok u0 base s'"
proof -
  have "trace_ok s' = trace_ok s" "tx_own u0 s' = tx_own u0 s" "vars_inv s' = vars_inv s"
    using assms by (simp_all add: trace_ok_def trace_region_def tx_own_def vars_inv_def)
  moreover have "length (channels s') = MAX_RPMSG_CH" "length (channels s) = MAX_RPMSG_CH"
    using assms(1,4) by (simp_all add: server_ok_def link_ok_def ch_inv_def)
  then have "ch_state (channels s' ! c) = ch_state (channels s ! c)" if "c < MAX_RPMSG_CH" for c
    using assms(5) that by (metis nth_map)
  ultimately show ?thesis using assms by (auto simp: server_ok_def link_ok_def rings_inv_def)
qed

lemma server_ok_rx:
  assumes "server_ok u0 base s" and "vring_wf v" and "notify (fst v) = notify (fst (rx_vring s))"
  shows "server_ok u0 base (s\<lparr>rx_vring := v\<rparr>)"
proof -
  have "ch_inv base s" using assms(1) by (simp add: server_ok_def link_ok_def)
  then show ?thesis
    using assms by (intro server_ok_frame [OF assms(1)]) (simp_all add: ch_inv_def gic_inv_def gic_ready_def)
qed

lemma server_ok_bring_up:
  assumes "server_ok u0 base s" and "rpmsg_config s = Some c"
  shows "server_ok u0 base (bring_up c src s)" and "cfg_ends (bring_up c src s) = (fst (cfg_ends s), src)"
proof -
  have c: "c < MAX_RPMSG_CH" "ch_state (channels s ! c) = CH_UP" "length (channels s) = MAX_RPMSG_CH"
    and inv: "rings_inv s" "ch_inv base s"
    using assms by (auto simp: server_ok_def link_ok_def ch_inv_def)
  have st: "ch_state (channels (bring_up c src s) ! i) = ch_state (channels s ! i)"
    "local_addr (channels (bring_up c src s) ! i) = local_addr (channels s ! i)" for i
    using c by (cases "i = c"; simp add: bring_up_def)+
  have "ch_inv base (bring_up c src s)" using inv(2) unfolding ch_inv_def st by (simp add: bring_up_def)
  moreover have "map ch_state (channels (bring_up c src s)) = map ch_state (channels s)"
    using c by (simp add: bring_up_def map_update_same)
  ultimately show "server_ok u0 base (bring_up c src s)"
    using inv(1) by (intro server_ok_frame [OF assms(1)]) (simp_all add: bring_up_def rings_inv_def gic_inv_def gic_ready_def)
  show "cfg_ends (bring_up c src s) = (fst (cfg_ends s), src)"
    using assms(2) c by (simp add: cfg_ends_def bring_up_def)
qed

text \<open>Taking the oldest message of the receive ring.\<close>

lemma rx_take:
  assumes "vring_wf w" and "pending_bufs w = d # ds"
  obtains v where "vring_get_buf w = Some (ucast d, v)" "pending_bufs v = ds" "vring_wf v" "notify (fst v) = notify (fst w)"
    "desc (snd v) = desc (snd w)" "used_since w0 v = used_since w0 w"
proof -
  obtain vr m where w: "w = (vr, m)" by (cases w)
  let ?v = "(vr\<lparr>avail_tail := avail_tail vr + 1\<rparr>, m)"
  show ?thesis
    using that [of ?v] vring_get_buf_Cons [OF assms [unfolded w]] used_frame [of ?v "(vr, m)"] w by simp
qed

text \<open>The callback of the configuration channel answers the request at \<open>a + 16\<close> to the sender in
  the header at \<open>a\<close>.\<close>

lemma print_ready_bring_up:
  assumes pr: "print_ready u0 base (local_addr (channels s ! c)) s" and up: "ch_state (channels s ! c) = CH_UP"
    and ok: "link_ok u0 base (bring_up c src (s\<lparr>rx_vring := v\<rparr>))"
  shows "print_ready u0 base (local_addr (channels s ! c)) (bring_up c src (s\<lparr>rx_vring := v\<rparr>))"
proof -
  have "d \<noteq> c" if "rpmsg_stdio s = Some d" for d using pr up that by (auto simp: print_ready_def)
  with pr ok show ?thesis by (auto simp: print_ready_def bring_up_def)
qed

lemma deliver_request:
  assumes sv: "serving u0 base s" and p: "2 \<le> length (pending_bufs (tx_vring s))"
    and v: "vring_wf v" "notify (fst v) = notify (fst (rx_vring s))" and dst: "rd32 (mem s) (a + 4) = fst (cfg_ends s)"
  defines "x \<equiv> answer (vars s) (cfgMsgTxBuf s) (req_at (mem s) (a + 16))" and "b \<equiv> fst (cfg_ends s)"
  shows "\<exists>s1. deliver_to run_rx a [0..<MAX_RPMSG_CH] (s\<lparr>rx_vring := v\<rparr>) = Some s1 \<and> rx_vring s1 = v \<and>
    server_ok u0 base s1 \<and> print_ready u0 base b s1 \<and> cbs_ok s1 \<and> stdout_buf s1 = [] \<and>
    vars s1 = fst x \<and> cfgMsgTxBuf s1 = snd x \<and> length (pending_bufs (tx_vring s)) \<le> length (pending_bufs (tx_vring s1)) + 2 \<and>
    sent_from b u0 s1 = sent_from b u0 s @ [(b, rd32 (mem s) a, 0, enc_msg (snd x))] \<and>
    fst (cfg_ends s1) = b \<and> tx_frame s s1 \<and>
    (\<forall>c. rpmsg_config s1 = Some c \<longrightarrow> ch_cb (channels s1 ! c) = Some config_msg_handler_cb)"
proof -
  have ok: "server_ok u0 base s" using sv by (simp add: serving_def)
  obtain c where c: "c < MAX_RPMSG_CH" "rpmsg_config s = Some c" "ch_state (channels s ! c) = CH_UP"
    "ch_cb (channels s ! c) = Some config_msg_handler_cb" "ch_inv base s" "length (channels s) = MAX_RPMSG_CH"
    using sv by (auto simp: serving_def server_ok_def link_ok_def ch_inv_def)
  let ?sv = "s\<lparr>rx_vring := v\<rparr>" and ?len = "ucast (rd16 (mem s) (a + 12)) :: u32"
  let ?s0 = "bring_up c (rd32 (mem s) a) ?sv"
  have s0: "mem ?s0 = mem s" "vars ?s0 = vars s" "cfgMsgTxBuf ?s0 = cfgMsgTxBuf s" "tx_vring ?s0 = tx_vring s"
    "rx_vring ?s0 = v" "rpmsg_config ?s0 = Some c" "sent_from d u0 ?s0 = sent_from d u0 s" "stdout_buf ?s0 = stdout_buf s"
    "trace_region ?s0 = trace_region s" "cbs_ok ?s0 = cbs_ok s" for d
    using c(2) by (simp_all add: bring_up_def sent_from_def tx_sent_def trace_region_def cbs_ok_def)
  have rv: "server_ok u0 base ?sv" "rpmsg_config ?sv = Some c" using server_ok_rx [OF ok v] c(2) by simp_all
  have b: "cfg_ends ?s0 = (b, rd32 (mem s) a)" "local_addr (channels s ! c) = b"
    unfolding server_ok_bring_up(2) [OF rv] using c(2) by (simp_all add: cfg_ends_def b_def)
  note up = server_ok_bring_up(1) [OF rv, of "rd32 (mem s) a"]
  have "link_ok u0 base ?s0" using up by (simp add: server_ok_def)
  from print_ready_bring_up [OF _ c(3) this] have pr: "print_ready u0 base (fst (cfg_ends ?s0)) ?s0"
    using sv b by (simp add: serving_def b_def)
  have h: "cbs_ok ?s0" "stdout_buf ?s0 = []" "2 \<le> length (pending_bufs (tx_vring ?s0))"
    using sv p by (simp_all add: serving_def s0 del: length_pending)
  from handler_serves [OF up pr h, of "a + 16" ?len] obtain s1 where
    s1: "config_msg_handler var_cb (a + 16) ?len ?s0 = Some s1" "server_ok u0 base s1" "print_ready u0 base b s1"
      "cbs_ok s1" "stdout_buf s1 = []" "vars s1 = fst x" "cfgMsgTxBuf s1 = snd x" "tx_frame ?s0 s1"
      "sent_from b u0 s1 = sent_from b u0 s @ [(b, rd32 (mem s) a, 0, enc_msg (snd x))]"
      "length (pending_bufs (tx_vring s)) \<le> length (pending_bufs (tx_vring s1)) + 2"
      "rx_vring s1 = v" "channels s1 = channels ?s0" "rpmsg_config s1 = Some c"
    unfolding s0 b fst_conv snd_conv by (auto simp: x_def simp del: length_pending)
  have "tx_frame s s1" using s1(8) by (simp add: tx_frame_cong(1) [of ?s0 s] s0)
  moreover have "matches (rd32 (mem ?sv) (a + 4)) (channels ?sv ! c)"
    using c dst by (simp add: matches_def cfg_ends_def)
  from deliver_to_unique [OF _ c(1) this, of base config_msg_handler_cb run_rx] c(4,5)
  have "deliver_to run_rx a [0..<MAX_RPMSG_CH] ?sv = Some s1"
    using s1(1) by (simp add: run_rx_def ch_inv_def)
  moreover have "ch_cb (channels s1 ! c) = Some config_msg_handler_cb" using c(1,4,6) s1(12) by (simp add: bring_up_def)
  moreover have "fst (cfg_ends s1) = b" using c(1,6) s1(12,13) b(2) by (simp add: cfg_ends_def bring_up_def)
  ultimately show ?thesis using s1 by (intro exI [of _ s1]) (simp del: length_pending)
qed

text \<open>One message to the configuration channel: the request is answered to its sender, the receive
  buffer goes back, and the server can go on.\<close>

lemma serve_one:
  assumes sv: "serving u0 base s" and p: "2 \<le> length (pending_bufs (tx_vring s))" and r: "pending_bufs (rx_vring s) = d # ds"
    and d: "unat d < VRING_SIZE" and room: "used_count w0 (rx_vring s) < VRING_SIZE"
  defines "a \<equiv> buf_addr (rx_vring s) (unat d)" and "b \<equiv> fst (cfg_ends s)"
  defines "x \<equiv> answer (vars s) (cfgMsgTxBuf s) (req_at (mem s) (a + 16))"
  assumes dst: "rd32 (mem s) (a + 4) = b"
  shows "\<exists>s'. read_message run_rx s = Some s' \<and> serving u0 base s' \<and> vars s' = fst x \<and> cfgMsgTxBuf s' = snd x \<and>
    sent_from b u0 s' = sent_from b u0 s @ [(b, rd32 (mem s) a, 0, enc_msg (snd x))] \<and>
    length (pending_bufs (tx_vring s)) \<le> length (pending_bufs (tx_vring s')) + 2 \<and> pending_bufs (rx_vring s') = ds \<and>
    used_since w0 (rx_vring s') = used_since w0 (rx_vring s) @ [\<lparr>elem_id = ucast d, elem_len = PACKET_LEN_MAX\<rparr>] \<and>
    fst (cfg_ends s') = b \<and> (\<forall>i < VRING_SIZE. buf_addr (rx_vring s') i = buf_addr (rx_vring s) i) \<and>
    tx_frame s s'"
proof -
  have wf: "vring_wf (rx_vring s)" using sv by (simp add: serving_def server_ok_def link_ok_def rings_inv_def)
  from rx_take [OF wf r, of w0] obtain v where
    v: "vring_get_buf (rx_vring s) = Some (ucast d, v)" "pending_bufs v = ds" "vring_wf v"
      "notify (fst v) = notify (fst (rx_vring s))" "desc (snd v) = desc (snd (rx_vring s))"
      "used_since w0 v = used_since w0 (rx_vring s)" by blast
  from deliver_request [OF sv p v(3,4) dst [unfolded b_def]] obtain s1 where
    s1: "deliver_to run_rx a [0..<MAX_RPMSG_CH] (s\<lparr>rx_vring := v\<rparr>) = Some s1" "rx_vring s1 = v" "server_ok u0 base s1"
      "vars s1 = fst x" "cfgMsgTxBuf s1 = snd x"
      "length (pending_bufs (tx_vring s)) \<le> length (pending_bufs (tx_vring s1)) + 2"
      "sent_from b u0 s1 = sent_from b u0 s @ [(b, rd32 (mem s) a, 0, enc_msg (snd x))]"
      "fst (cfg_ends s1) = b" "tx_frame s s1"
      "\<forall>c. rpmsg_config s1 = Some c \<longrightarrow> ch_cb (channels s1 ! c) = Some config_msg_handler_cb"
      "print_ready u0 base b s1" "cbs_ok s1" "stdout_buf s1 = []"
    unfolding x_def b_def by blast
  have "used_count w0 v < VRING_SIZE" using room arg_cong [OF v(6), of length] by simp
  from publish_rx_ok [of s1 d w0 PACKET_LEN_MAX] this s1(2) v(3) d obtain v' where
    v': "publish_rx d PACKET_LEN_MAX False s1 = Some (s1\<lparr>rx_vring := v'\<rparr>)"
      "used_since w0 v' = used_since w0 v @ [\<lparr>elem_id = ucast d, elem_len = PACKET_LEN_MAX\<rparr>]"
      "pending_bufs v' = ds" "vring_wf v'" "fst v' = fst v" "map desc_addr (desc (snd v')) = map desc_addr (desc (snd v))"
    using v(2) by auto
  have len: "length (desc (snd v)) = VRING_SIZE" "length (desc (snd v')) = VRING_SIZE"
    using v(3) v'(4) by (cases v; cases v'; simp add: vring_wf_def)+
  then have addr: "buf_addr v' i = buf_addr (rx_vring s) i" if "i < VRING_SIZE" for i
    using v'(6) v(5) that unfolding buf_addr_def by (metis nth_map)
  let ?s' = "s1\<lparr>rx_vring := v'\<rparr>"
  have run: "read_message run_rx s = Some ?s'"
    using v(1,5) v'(1) d len(1) s1(1)
    by (simp add: read_message_def vq.index_nonneg defined_simps a_def buf_addr_def del: upt_Suc)
  have "rings_apart ?s'" using sv s1(9) addr by (auto simp: serving_def rings_apart_def tx_frame_def)
  moreover have ok: "server_ok u0 base ?s'" using server_ok_rx [OF s1(3) v'(4)] v'(5) s1(2) by simp
  moreover have ends: "fst (cfg_ends ?s') = b" using s1(8) by (simp add: cfg_ends_def split: option.splits)
  moreover have "print_ready u0 base b ?s'" using s1(11) ok by (simp add: print_ready_def server_ok_def)
  ultimately have "serving u0 base ?s'" using s1(10,12,13) by (simp add: serving_def cbs_ok_def)
  moreover have "sent_from b u0 ?s' = sent_from b u0 s1" "tx_frame s ?s' = tx_frame s s1"
    by (simp_all add: sent_from_def tx_sent_def tx_frame_cong(2) [of ?s' s1])
  moreover have "used_since w0 v' = used_since w0 (rx_vring s) @ [\<lparr>elem_id = ucast d, elem_len = PACKET_LEN_MAX\<rparr>]"
    by (simp add: v'(2) v(6))
  ultimately show ?thesis using s1(6)
    by (intro exI [of _ ?s'] conjI) (simp_all add: run s1(4,5,7,9) v'(3) addr ends del: length_pending)
qed

section \<open>Serving all requests\<close>

text \<open>The abstract server on a list of requests: it answers them one after the other. A reply is
  built in the buffer of the one before.\<close>

fun serve_all :: "cfgVar list \<Rightarrow> cfgMsg \<Rightarrow> cfgMsg list \<Rightarrow> cfgVar list \<times> cfgMsg list" where
  "serve_all vs old [] = (vs, [])"
| "serve_all vs old (q # qs) = (let (vs1, r) = answer vs old q; (vs2, rs) = serve_all vs1 r qs in (vs2, r # rs))"

lemma serve_all_Cons: "serve_all vs old (q # qs) =
  (fst (serve_all (fst (answer vs old q)) (snd (answer vs old q)) qs),
   snd (answer vs old q) # snd (serve_all (fst (answer vs old q)) (snd (answer vs old q)) qs))"
  by (simp add: case_prod_beta Let_def)

declare serve_all.simps(2) [simp del]

lemma length_serve_all [simp]: "length (snd (serve_all vs old qs)) = length qs"
  by (induction qs arbitrary: vs old) (simp_all add: serve_all_Cons)

text \<open>The messages that wait in the receive ring: sender, destination and request.\<close>

definition waiting :: "'a cfg_scheme \<Rightarrow> (u32 \<times> u32 \<times> cfgMsg) list" where
  "waiting s = map (\<lambda>d. let a = buf_addr (rx_vring s) (unat d)
     in (rd32 (mem s) a, rd32 (mem s) (a + 4), req_at (mem s) (a + 16))) (pending_bufs (rx_vring s))"

lemma waiting_frame:
  assumes "rings_apart s" and "tx_frame s s'" and "\<forall>i < VRING_SIZE. buf_addr (rx_vring s') i = buf_addr (rx_vring s) i"
    and "pending_bufs (rx_vring s) = d # ds" and "pending_bufs (rx_vring s') = ds" and "heads_ok (rx_vring s)"
  shows "waiting s' = tl (waiting s)"
proof -
  have "(let a = buf_addr (rx_vring s') (unat e) in (rd32 (mem s') a, rd32 (mem s') (a + 4), req_at (mem s') (a + 16))) =
      (let a = buf_addr (rx_vring s) (unat e) in (rd32 (mem s) a, rd32 (mem s) (a + 4), req_at (mem s) (a + 16)))"
    if "e \<in> set ds" for e
  proof -
    have e: "unat e < VRING_SIZE" using that assms(4,6) by (simp add: heads_ok_def)
    then have "\<forall>j < VRING_SIZE. apart (buf_addr (rx_vring s) (unat e)) 512 (buf_addr (tx_vring s) j) 512"
      "apart (buf_addr (rx_vring s) (unat e)) 512 (fst (trace_region s)) (unat (snd (trace_region s)))"
      using assms(1) by (simp_all add: rings_apart_def)
    from request_cong [OF rd_bytes_prefix [OF tx_frame_rd [OF assms(2) this]]] e assms(3) show ?thesis by (simp add: Let_def)
  qed
  then show ?thesis by (simp add: waiting_def assms(4,5))
qed

lemma serve_loop:
  "serving u0 base s \<Longrightarrow> heads_ok (rx_vring s) \<Longrightarrow>
   2 * length (pending_bufs (rx_vring s)) \<le> length (pending_bufs (tx_vring s)) \<Longrightarrow>
   used_count w0 (rx_vring s) + length (pending_bufs (rx_vring s)) \<le> VRING_SIZE \<Longrightarrow>
   \<forall>(src, dst, q) \<in> set (waiting s). dst = fst (cfg_ends s) \<Longrightarrow>
   \<exists>s'. rx_loop run_rx s = Some s' \<and> serving u0 base s' \<and> pending_bufs (rx_vring s') = [] \<and>
     (let (vs, rs) = serve_all (vars s) (cfgMsgTxBuf s) (map (\<lambda>(src, dst, q). q) (waiting s))
      in vars s' = vs \<and> sent_from (fst (cfg_ends s)) u0 s' = sent_from (fst (cfg_ends s)) u0 s @
        map (\<lambda>((src, dst, q), r). (dst, src, 0, enc_msg r)) (zip (waiting s) rs))"
proof (induction "pending_bufs (rx_vring s)" arbitrary: s)
  case Nil
  then show ?case by (simp add: rx_loop.simps vring_available_iff waiting_def)
next
  case (Cons d ds)
  note r = Cons.hyps(2) [symmetric]
  let ?a = "buf_addr (rx_vring s) (unat d)"
  have w: "waiting s = (rd32 (mem s) ?a, rd32 (mem s) (?a + 4), req_at (mem s) (?a + 16)) # tl (waiting s)"
    by (simp add: waiting_def r Let_def)
  then have dst: "rd32 (mem s) (?a + 4) = fst (cfg_ends s)" "\<forall>(src, dst, q) \<in> set (tl (waiting s)). dst = fst (cfg_ends s)"
    using Cons.prems(5) by (metis (mono_tags, lifting) case_prod_conv list.set_intros(1), metis list.set_intros(2))
  have p: "2 \<le> length (pending_bufs (tx_vring s))" using Cons.prems(3) r by (simp del: length_pending)
  have d: "unat d < VRING_SIZE" "used_count w0 (rx_vring s) < VRING_SIZE"
    using Cons.prems(2,4) r by (simp_all add: heads_ok_def)
  define x where "x = answer (vars s) (cfgMsgTxBuf s) (req_at (mem s) (?a + 16))"
  from serve_one [OF Cons.prems(1) p r d dst(1)] obtain s1 where
    s1: "read_message run_rx s = Some s1" "serving u0 base s1" "vars s1 = fst x" "cfgMsgTxBuf s1 = snd x"
      "sent_from (fst (cfg_ends s)) u0 s1 = sent_from (fst (cfg_ends s)) u0 s @ [(fst (cfg_ends s), rd32 (mem s) ?a, 0, enc_msg (snd x))]"
      "length (pending_bufs (tx_vring s)) \<le> length (pending_bufs (tx_vring s1)) + 2" "pending_bufs (rx_vring s1) = ds"
      "used_since w0 (rx_vring s1) = used_since w0 (rx_vring s) @ [\<lparr>elem_id = ucast d, elem_len = PACKET_LEN_MAX\<rparr>]"
      "fst (cfg_ends s1) = fst (cfg_ends s)" "\<forall>i < VRING_SIZE. buf_addr (rx_vring s1) i = buf_addr (rx_vring s) i"
      "tx_frame s s1" unfolding x_def by blast
  have w1: "waiting s1 = tl (waiting s)"
    using Cons.prems(1) by (intro waiting_frame [OF _ s1(11,10) r s1(7) Cons.prems(2)]) (simp add: serving_def)
  have h: "heads_ok (rx_vring s1)" "2 * length (pending_bufs (rx_vring s1)) \<le> length (pending_bufs (tx_vring s1))"
    "used_count w0 (rx_vring s1) + length (pending_bufs (rx_vring s1)) \<le> VRING_SIZE"
    "\<forall>(src, dst, q) \<in> set (waiting s1). dst = fst (cfg_ends s1)"
    using Cons.prems(2-4) dst(2) r s1(6,7,9) arg_cong [OF s1(8), of length] w1
    by (simp_all add: heads_ok_def del: length_pending)
  from Cons.hyps(1) [OF s1(7) [symmetric] s1(2) h] obtain s' where
    s': "rx_loop run_rx s1 = Some s'" "serving u0 base s'" "pending_bufs (rx_vring s') = []"
      "let (vs, rs) = serve_all (fst x) (snd x) (map (\<lambda>(src, dst, q). q) (tl (waiting s)))
       in vars s' = vs \<and> sent_from (fst (cfg_ends s)) u0 s' = sent_from (fst (cfg_ends s)) u0 s1 @
         map (\<lambda>((src, dst, q), r). (dst, src, 0, enc_msg r)) (zip (tl (waiting s)) rs)"
    unfolding w1 s1(3,4,9) by blast
  have "rx_loop run_rx s = rx_loop run_rx s1"
    using s1(1) r by (subst rx_loop.simps) (simp add: vring_available_iff)
  with s' s1(5) dst(1) show ?case
    by (subst (1 2) w) (simp add: serve_all_Cons x_def case_prod_beta Let_def)
qed

section \<open>Polling\<close>

text \<open>Counting kicks does not concern the server.\<close>

lemma serving_processed [simp]:
  "serving u0 base (s\<lparr>tx_processed := k\<rparr>) = serving u0 base s" "serving u0 base (s\<lparr>rx_processed := k\<rparr>) = serving u0 base s"
  "serving u0 base (s\<lparr>rxvring_kicks := k\<rparr>) = serving u0 base s"
  by (simp_all add: serving_def server_ok_def rings_apart_def print_ready_def cbs_ok_def cfg_ends_def link_ok_def rings_inv_def tx_own_def trace_ok_def trace_region_def
      ch_inv_def gic_inv_def gic_ready_def vars_inv_def split: option.split)

lemma waiting_processed [simp]:
  "waiting (s\<lparr>tx_processed := k\<rparr>) = waiting s" "waiting (s\<lparr>rx_processed := k\<rparr>) = waiting s"
  "waiting (s\<lparr>rxvring_kicks := k\<rparr>) = waiting s"
  "sent_from a u0 (s\<lparr>tx_processed := k\<rparr>) = sent_from a u0 s" "sent_from a u0 (s\<lparr>rx_processed := k\<rparr>) = sent_from a u0 s"
  "sent_from a u0 (s\<lparr>rxvring_kicks := k\<rparr>) = sent_from a u0 s"
  "cfg_ends (s\<lparr>tx_processed := k\<rparr>) = cfg_ends s" "cfg_ends (s\<lparr>rx_processed := k\<rparr>) = cfg_ends s"
  "cfg_ends (s\<lparr>rxvring_kicks := k\<rparr>) = cfg_ends s"
  by (simp_all add: waiting_def sent_from_def tx_sent_def cfg_ends_def split: option.split)

lemma poll_serves:
  assumes "serving u0 base s" and "rxvring_kicks s \<noteq> rx_processed s" and "heads_ok (rx_vring s)"
    and "2 * length (pending_bufs (rx_vring s)) \<le> length (pending_bufs (tx_vring s))"
    and "\<forall>(src, dst, q) \<in> set (waiting s). dst = fst (cfg_ends s)"
  shows "\<exists>s'. rpmsg_poll run_rx s = Some (True, s') \<and> serving u0 base s' \<and> pending_bufs (rx_vring s') = [] \<and>
     (let (vs, rs) = serve_all (vars s) (cfgMsgTxBuf s) (map (\<lambda>(src, dst, q). q) (waiting s))
      in vars s' = vs \<and> sent_from (fst (cfg_ends s)) u0 s' = sent_from (fst (cfg_ends s)) u0 s @
        map (\<lambda>((src, dst, q), r). (dst, src, 0, enc_msg r)) (zip (waiting s) rs))"
proof -
  let ?s0 = "(snd (txvring_task s))\<lparr>rx_processed := rx_processed s + 1\<rparr>"
  let ?w0 = "used_idx (used (snd (rx_vring s)))"
  have wf: "vring_wf (rx_vring s)" using assms(1) by (simp add: serving_def server_ok_def link_ok_def rings_inv_def)
  then have room: "used_count ?w0 (rx_vring s) + length (pending_bufs (rx_vring s)) \<le> VRING_SIZE"
    by (cases "rx_vring s") (simp add: used_count_def vring_wf_def)
  have "serving u0 base ?s0" "heads_ok (rx_vring ?s0)"
    "2 * length (pending_bufs (rx_vring ?s0)) \<le> length (pending_bufs (tx_vring ?s0))"
    "used_count ?w0 (rx_vring ?s0) + length (pending_bufs (rx_vring ?s0)) \<le> VRING_SIZE"
    "\<forall>(src, dst, q) \<in> set (waiting ?s0). dst = fst (cfg_ends ?s0)"
    and eq: "waiting ?s0 = waiting s" "vars ?s0 = vars s" "cfgMsgTxBuf ?s0 = cfgMsgTxBuf s" "cfg_ends ?s0 = cfg_ends s"
    "sent_from (fst (cfg_ends s)) u0 ?s0 = sent_from (fst (cfg_ends s)) u0 s"
    using assms room by (simp_all add: txvring_task_def)
  from serve_loop [OF this(1-5)] obtain s' where
    s': "rx_loop run_rx ?s0 = Some s'" "serving u0 base s'" "pending_bufs (rx_vring s') = []"
      "let (vs, rs) = serve_all (vars s) (cfgMsgTxBuf s) (map (\<lambda>(src, dst, q). q) (waiting s))
       in vars s' = vs \<and> sent_from (fst (cfg_ends s)) u0 s' = sent_from (fst (cfg_ends s)) u0 s @
        map (\<lambda>((src, dst, q), r). (dst, src, 0, enc_msg r)) (zip (waiting s) rs)"
    unfolding eq by blast
  have "rxvring_task run_rx (snd (txvring_task s)) = Some (True, s')"
    using s'(1) assms(2) by (simp add: rxvring_task_def txvring_task_def split: if_splits)
  then have "rpmsg_poll run_rx s = Some (True, s')"
    by (simp add: rpmsg_poll_def case_prod_beta Let_def)
  with s'(2-4) show ?thesis by blast
qed

section \<open>Properties\<close>

text \<open>C1: The firmware is a variable server: when requests wait in its receive ring, from whatever
  senders, and it has two transmit buffers for each, one poll after the kick returns and has done what
  the abstract server does with the list of requests: the variables are those after all of them, and
  the messages it has sent on the configuration channel grow by one reply for each, in their order, back
  to its sender. This holds whether or not the variables have the callbacks of main.c, which print on
  the stdio channel meanwhile. Afterwards the ring is empty and the firmware can serve again.\<close>

theorem poll_serves_requests:
  assumes "serving u0 base s" and "rxvring_kicks s \<noteq> rx_processed s" and "heads_ok (rx_vring s)"
    and "2 * length (pending_bufs (rx_vring s)) \<le> length (pending_bufs (tx_vring s))"
    and "\<forall>(src, dst, q) \<in> set (waiting s). dst = fst (cfg_ends s)"
  shows "\<exists>s'. rpmsg_poll run_rx s = Some (True, s') \<and> serving u0 base s' \<and> pending_bufs (rx_vring s') = [] \<and>
     (let (vs, rs) = serve_all (vars s) (cfgMsgTxBuf s) (map (\<lambda>(src, dst, q). q) (waiting s))
      in vars s' = vs \<and> sent_from (fst (cfg_ends s)) u0 s' = sent_from (fst (cfg_ends s)) u0 s @
        map (\<lambda>((src, dst, q), r). (dst, src, 0, enc_msg r)) (zip (waiting s) rs))"
  by (rule poll_serves [OF assms])

text \<open>Requests in the buffers of the running system.\<close>

fun put_requests :: "cfgMsg list \<Rightarrow> nat \<Rightarrow> memory \<Rightarrow> memory" where
  "put_requests [] i m = m"
| "put_requests (q # qs) i m =
     put_requests qs (Suc i) (wr_bytes m (0x3E200000 + of_nat (512 * i)) (enc_hdr 0x401 0x51 420 @ enc_msg q))"

lemma rx_buf_apart:
  "i < 256 \<Longrightarrow> j < 256 \<Longrightarrow> apart (0x3E200000 + of_nat (512 * i)) 512 (0x3E100000 + of_nat (512 * j)) 512"
  "i < j \<Longrightarrow> j < 256 \<Longrightarrow> apart (0x3E200000 + of_nat (512 * i)) 512 (0x3E200000 + of_nat (512 * j)) 512"
  by (subst apart_sym, intro apart_below; simp add: unat_word_ariths unat_of_nat)
    (intro apart_below; simp add: unat_word_ariths unat_of_nat)

lemma put_requests_other:
  "j < i \<Longrightarrow> i + length qs \<le> 256 \<Longrightarrow> \<forall>q \<in> set qs. length (m_data q) = MSG_DATA_SIZE \<Longrightarrow>
   rd_bytes (put_requests qs i m) (0x3E200000 + of_nat (512 * j)) 436 = rd_bytes m (0x3E200000 + of_nat (512 * j)) 436"
proof (induction qs arbitrary: i m)
  case (Cons q qs)
  have "apart (0x3E200000 + of_nat (512 * j)) 436 (0x3E200000 + of_nat (512 * i)) 436"
    using Cons.prems(1,2) by (intro apart_sub [OF rx_buf_apart(2)]) simp_all
  then have "rd_bytes (wr_bytes m (0x3E200000 + of_nat (512 * i)) (enc_hdr 0x401 0x51 420 @ enc_msg q)) (0x3E200000 + of_nat (512 * j)) 436 =
      rd_bytes m (0x3E200000 + of_nat (512 * j)) 436"
    using Cons.prems(3) by (intro rd_wr_apart) simp_all
  with Cons show ?case by simp
qed simp

lemma put_requests_at:
  "j < length qs \<Longrightarrow> i + length qs \<le> 256 \<Longrightarrow> \<forall>q \<in> set qs. length (m_data q) = MSG_DATA_SIZE \<Longrightarrow>
   rd_bytes (put_requests qs i m) (0x3E200000 + of_nat (512 * (i + j))) 436 = enc_hdr 0x401 0x51 420 @ enc_msg (qs ! j)"
proof (induction qs arbitrary: i j m)
  case (Cons q qs)
  show ?case
  proof (cases j)
    case 0
    have l: "length (enc_hdr 0x401 0x51 420 @ enc_msg q) = 436" using Cons.prems(3) by simp
    with 0 put_requests_other [of i "Suc i" qs] Cons.prems rd_wr_bytes [of "enc_hdr 0x401 0x51 420 @ enc_msg q" m "0x3E200000 + of_nat (512 * i)"]
    show ?thesis by simp
  next
    case (Suc k)
    with Cons.IH [of k "Suc i"] Cons.prems show ?thesis by simp
  qed
qed simp

lemma request_read:
  assumes "rd_bytes m a 436 = enc_hdr src dst 420 @ enc_msg q" and "length (m_data q) = MSG_DATA_SIZE"
  shows "rd32 m a = src" and "rd32 m (a + 4) = dst" and "req_at m (a + 16) = q"
proof -
  let ?m = "wr_bytes m a (enc_hdr src dst 420 @ enc_msg q)"
  have l: "length (enc_hdr src dst 420 @ enc_msg q) = 436" using assms(2) by simp
  have "rd_bytes m a 436 = rd_bytes ?m a 436" using rd_wr_bytes [of "enc_hdr src dst 420 @ enc_msg q" m a] l assms(1) by simp
  note c = request_cong [OF this]
  have "rpmsg_at ?m a = (src, dst, 0, enc_msg q)" using rpmsg_at_enc [of "enc_msg q" 420 m a src dst] assms(2) by simp
  then show "rd32 m a = src" "rd32 m (a + 4) = dst" by (simp_all add: c rpmsg_at_def)
  have "?m = wr_bytes (wr_bytes m a (enc_hdr src dst 420)) (a + 16) (enc_msg q)"
    using wr_hdr_payload [of "enc_msg q" m a src dst 420] assms(2) by simp
  then show "req_at m (a + 16) = q" unfolding c(3) using req_at_enc [OF assms(2)] by simp
qed

text \<open>The callbacks \<open>main\<close> registers.\<close>

definition registered :: "'a board_scheme \<Rightarrow> 'a board_scheme" where
  "registered s = snd (cfgSetCallback CFG_VAR_1 (Some var_cb_fn) True 0
     (snd (cfgSetCallback CFG_VAR_2 (Some var_cb_fn) False 0 s)))"

definition vars_main :: "cfgVar list" where
  "vars_main = vars_init[1 := (vars_init ! 1)\<lparr>cv_wr_cb := Some var_cb_fn\<rparr>, 0 := (vars_init ! 0)\<lparr>cv_rd_cb := Some var_cb_fn\<rparr>]"

lemma registered_eq: "vars s = vars_init \<Longrightarrow> registered s = s\<lparr>vars := vars_main\<rparr>"
  by (simp add: registered_def cfgSetCallback_def var_by_id_def vars_main_def vars_init_def dflt_var_def Let_def)

lemma vars_main_ok:
  "length vars_main = 7" "distinct (map cv_id vars_main)" "distinct (map cv_name vars_main)" "\<forall>v \<in> set vars_main. limits_ok v"
  by (simp_all add: vars_main_def vars_init_def dflt_var_def limits_ok_def cstr_def)

text \<open>A firmware with these variables, four transmit buffers, and the requests \<open>qs\<close> waiting.\<close>

definition asked :: "cfgMsg list \<Rightarrow> board" where
  "asked qs = (registered (board_demo [4, 5, 6, 7] (map of_nat [0..<length qs]) (put_requests qs 0 (\<lambda>_. 0))))\<lparr>rxvring_kicks := 1\<rparr>"

lemma asked_eq:
  "asked qs = (board_demo [4, 5, 6, 7] (map of_nat [0..<length qs]) (put_requests qs 0 (\<lambda>_. 0)))\<lparr>vars := vars_main, rxvring_kicks := 1\<rparr>"
  by (simp add: asked_def registered_eq board_demo_sel)

lemma asked_sel:
  "vars (asked qs) = vars_main" "cfgMsgTxBuf (asked qs) = zero_msg" "rxvring_kicks (asked qs) = 1" "rx_processed (asked qs) = 0"
  "mem (asked qs) = put_requests qs 0 (\<lambda>_. 0)" "cfg_ends (asked qs) = (0x51, 0x401)"
  by (simp_all add: asked_eq board_demo_sel cfg_ends_def demo_channels_def) (simp add: board_demo_def running_def)

lemma asked_ok:
  assumes "length qs \<le> 2" and "\<forall>q \<in> set qs. length (m_data q) = MSG_DATA_SIZE"
  shows "serving 0 0x50 (asked qs)" and "heads_ok (rx_vring (asked qs))"
    and "2 * length (pending_bufs (rx_vring (asked qs))) \<le> length (pending_bufs (tx_vring (asked qs)))"
    and "waiting (asked qs) = map (\<lambda>q. (0x401, 0x51, q)) qs" and "sent_from 0x51 0 (asked qs) = []"
proof -
  let ?rx = "map of_nat [0..<length qs] :: u16 list" and ?m = "put_requests qs 0 (\<lambda>_. 0)"
  let ?b = "board_demo [4, 5, 6, 7] ?rx ?m"
  let ?c = "?b\<lparr>vars := vars_main\<rparr>"
  have b: "link_ok 0 0x50 ?b" "pending_bufs (tx_vring ?b) = [4, 5, 6, 7]" "pending_bufs (rx_vring ?b) = ?rx" "tx_sent 0 ?b = []"
    by (rule board_demo_ok; use assms(1) in simp)+
  have r: "rx_vring (asked qs) = rx_vring ?b" "tx_vring (asked qs) = tx_vring ?b" by (simp_all add: asked_eq)
  have rx: "desc (snd (rx_vring ?b)) = desc (demo_desc 0x3E200000)" "desc (snd (tx_vring ?b)) = desc (demo_desc 0x3E100000)"
    using offers_ok [OF demo_desc_ok(1,2), of ?rx "0x3E004000" "0x3E200000"]
      offers_ok [OF demo_desc_ok(1,2), of "[4, 5, 6, 7]" "0x3E000000" "0x3E100000"] assms(1)
    by (simp_all add: board_demo_def running_def)
  then have a: "buf_addr (rx_vring ?b) i = 0x3E200000 + of_nat (512 * i)" "buf_addr (tx_vring ?b) i = 0x3E100000 + of_nat (512 * i)"
    if "i < 256" for i using demo_desc_ok(4) [OF that] by (simp_all add: buf_addr_def)
  have tr: "trace_region ?c = (0x100000, 0x8000)"
    by (simp add: trace_region_def) (simp add: trace_region_def board_demo_def running_def resources_init_def)
  have "apart (0x3E200000 + of_nat (512 * i)) 512 0x100000 0x8000" if "i < 256" for i
    using that by (subst apart_sym, intro apart_below; simp add: unat_word_ariths unat_of_nat)
  then have "rings_apart ?c" using rx_buf_apart(1) a tr by (simp add: rings_apart_def)
  moreover have "server_ok 0 0x50 ?c"
    using b(1) vars_main_ok by (simp add: server_ok_def board_demo_sel demo_channels_def vars_inv_def zero_msg_def)
  moreover have "print_ready 0 0x50 (fst (cfg_ends ?c)) ?c"
    using b(1) by (simp add: print_ready_def board_demo_sel demo_channels_def cfg_ends_def)
  moreover have "cbs_ok ?c" by (simp add: cbs_ok_def vars_main_def vars_init_def dflt_var_def cstr_def)
  ultimately have "serving 0 0x50 ?c" by (simp add: serving_def board_demo_sel demo_channels_def)
  then show "serving 0 0x50 (asked qs)" by (simp add: asked_eq)
  show "heads_ok (rx_vring (asked qs))" using assms(1) by (auto simp: r b(3) heads_ok_def unat_of_nat)
  show "2 * length (pending_bufs (rx_vring (asked qs))) \<le> length (pending_bufs (tx_vring (asked qs)))"
    using assms(1) unfolding r b(2,3) by simp
  show "sent_from 0x51 0 (asked qs) = []" using b(4) by (simp add: asked_eq sent_from_def tx_sent_def)
  show "waiting (asked qs) = map (\<lambda>q. (0x401, 0x51, q)) qs"
  proof (rule nth_equalityI)
    fix j assume "j < length (waiting (asked qs))"
    then have j: "j < length qs" by (simp add: waiting_def r b(3) del: length_pending)
    have u: "unat (of_nat j :: u16) = j" using j assms(1) by (simp add: unat_of_nat)
    have q: "length (m_data (qs ! j)) = MSG_DATA_SIZE" using assms(2) j by simp
    have "rd_bytes ?m (0x3E200000 + of_nat (512 * j)) 436 = enc_hdr 0x401 0x51 420 @ enc_msg (qs ! j)"
      using put_requests_at [of j qs 0] j assms by simp
    from request_read [OF this q] show "waiting (asked qs) ! j = map (\<lambda>q. (0x401, 0x51, q)) qs ! j"
      using j assms(1) a(1) [of j] by (simp add: waiting_def r b(3) asked_sel u Let_def)
  qed (simp add: waiting_def r b(3) del: length_pending)
qed

text \<open>A write and a read of the same variable: the write is cut to the limit, and the read, which comes
  after it and runs a callback, sees the new value.\<close>

lemma poll_serves_requests_witness:
  "\<exists>s' r1 r2. rpmsg_poll run_rx (asked [zero_msg\<lparr>m_type := REQ_WR, m_val := 9\<rparr>, zero_msg\<lparr>m_type := REQ_RD, m_seq := 1\<rparr>]) =
      Some (True, s') \<and> sint (cv_val (vars s' ! 0)) = 1 \<and>
    sent_from 0x51 0 s' = [(0x51, 0x401, 0, enc_msg r1), (0x51, 0x401, 0, enc_msg r2)] \<and>
    m_type r1 = RES_OK \<and> m_type r2 = RES_RD_VAL \<and> m_val r2 = 1"
proof -
  let ?q1 = "zero_msg\<lparr>m_type := REQ_WR, m_val := 9\<rparr>" and ?q2 = "zero_msg\<lparr>m_type := REQ_RD, m_seq := 1\<rparr>"
  have l: "length [?q1, ?q2] \<le> 2" "\<forall>q \<in> set [?q1, ?q2]. length (m_data q) = MSG_DATA_SIZE" by (simp_all add: zero_msg_def)
  note a = asked_ok [OF l]
  have dst: "\<forall>(src, dst, q) \<in> set (waiting (asked [?q1, ?q2])). dst = fst (cfg_ends (asked [?q1, ?q2]))"
    unfolding a(4) by (simp add: asked_sel)
  have k: "rxvring_kicks (asked [?q1, ?q2]) \<noteq> rx_processed (asked [?q1, ?q2])" by (simp add: asked_sel)
  have v: "cv_val (vars_main ! 0) = 0 \<and> cv_min (vars_main ! 0) = 0 \<and> cv_max (vars_main ! 0) = 1 \<and> 0 < length vars_main"
    by (simp add: vars_main_def vars_init_def dflt_var_def)
  define r1 r2 where "r1 = zero_msg\<lparr>m_type := RES_OK\<rparr>"
    and "r2 = zero_msg\<lparr>m_type := RES_RD_VAL, m_seq := 1, m_val := 1\<rparr>"
  have "clamp 0 1 9 = (1 :: s32)" by (simp add: clamp_def sless_sint)
  then have "serve_all vars_main zero_msg [?q1, ?q2] = (vars_main[0 := (vars_main ! 0)\<lparr>cv_val := 1\<rparr>], [r1, r2])"
    using v by (simp add: serve_all_Cons answer_def valid_ind_def zero_msg_def r1_def r2_def Let_def)
  with poll_serves_requests [OF a(1) k a(2,3) dst] v obtain s' where
    "rpmsg_poll run_rx (asked [?q1, ?q2]) = Some (True, s')" "sint (cv_val (vars s' ! 0)) = 1"
    "sent_from 0x51 0 s' = [(0x51, 0x401, 0, enc_msg r1), (0x51, 0x401, 0, enc_msg r2)]"
    unfolding a(4) by (auto simp: asked_sel a(5) simp del: length_pending)
  then show ?thesis by (intro exI [of _ s'] exI [of _ r1] exI [of _ r2]) (simp add: r1_def r2_def)
qed

end
