(* ===== verification/Timer.thy ===== *)
theory Timer
  imports Machine
begin

text \<open>
  Time (bsp/cortexa9/xtime_l.c, usleep.c, sleep.c): the global timer is a counter of 64 bits that is
  read in two halves while it runs, and the delays of the firmware wait for it. The frequency is that
  of the board support package the firmware is linked with (bsp_xsdk/2014.4).
\<close>

type_synonym u64 = "64 word"

abbreviation (input) "GLOBAL_TMR_BASEADDR \<equiv> (0xF8F00200 :: u32)"
abbreviation (input) "GTIMER_COUNTER_LOWER_OFFSET \<equiv> (0x00 :: u32)"
abbreviation (input) "GTIMER_COUNTER_UPPER_OFFSET \<equiv> (0x04 :: u32)"
abbreviation (input) "GTIMER_CONTROL_OFFSET \<equiv> (0x08 :: u32)"
abbreviation (input) "COUNTS_PER_SECOND \<equiv> (325000000 :: u64)"  \<comment> \<open>\<open>650000000 / 2\<close>\<close>
abbreviation (input) "COUNTS_PER_USECOND \<equiv> (325 :: u64)"  \<comment> \<open>\<open>650000000 / (2 * 1000000)\<close>\<close>

section \<open>The timer\<close>

definition XTime_SetTime :: "u64 \<Rightarrow> 'a machine_scheme \<Rightarrow> 'a machine_scheme" where
  "XTime_SetTime Xtime s =
     (let s = Xil_Out32 (GLOBAL_TMR_BASEADDR + GTIMER_CONTROL_OFFSET) 0 s;
          s = Xil_Out32 (GLOBAL_TMR_BASEADDR + GTIMER_COUNTER_LOWER_OFFSET) (ucast Xtime) s;
          s = Xil_Out32 (GLOBAL_TMR_BASEADDR + GTIMER_COUNTER_UPPER_OFFSET) (ucast (drop_bit 32 Xtime)) s
      in Xil_Out32 (GLOBAL_TMR_BASEADDR + GTIMER_CONTROL_OFFSET) 1 s)"

text \<open>Each round takes three answers, so the length of the tape is enough fuel.\<close>

fun read_halves :: "nat \<Rightarrow> 'a machine_scheme \<Rightarrow> (u64 \<times> 'a machine_scheme) option" where
  "read_halves 0 s = None"
| "read_halves (Suc k) s = do {
     (high, s) \<leftarrow> Xil_In32 (GLOBAL_TMR_BASEADDR + GTIMER_COUNTER_UPPER_OFFSET) s;
     (low, s) \<leftarrow> Xil_In32 (GLOBAL_TMR_BASEADDR + GTIMER_COUNTER_LOWER_OFFSET) s;
     (again, s) \<leftarrow> Xil_In32 (GLOBAL_TMR_BASEADDR + GTIMER_COUNTER_UPPER_OFFSET) s;
     if again \<noteq> high then read_halves k s
     else Some (push_bit 32 (ucast high) OR ucast low, s) }"

definition XTime_GetTime :: "'a machine_scheme \<Rightarrow> (u64 \<times> 'a machine_scheme) option" where
  "XTime_GetTime s = read_halves (length (io_tape s)) s"

section \<open>Delays\<close>

fun wait_until :: "nat \<Rightarrow> u64 \<Rightarrow> 'a machine_scheme \<Rightarrow> 'a machine_scheme option" where
  "wait_until 0 tEnd s = None"
| "wait_until (Suc k) tEnd s = do {
     (tCur, s) \<leftarrow> XTime_GetTime s;
     if tCur < tEnd then wait_until k tEnd s else Some s }"

definition timer_usleep :: "u32 \<Rightarrow> 'a machine_scheme \<Rightarrow> (int \<times> 'a machine_scheme) option" where
  "timer_usleep useconds s = do {
     (tCur, s) \<leftarrow> XTime_GetTime s;
     s \<leftarrow> wait_until (length (io_tape s)) (tCur + ucast useconds * COUNTS_PER_USECOND) s;
     Some (0, s) }"

definition timer_sleep :: "u32 \<Rightarrow> 'a machine_scheme \<Rightarrow> (int \<times> 'a machine_scheme) option" where
  "timer_sleep seconds s = do {
     (tCur, s) \<leftarrow> XTime_GetTime s;
     s \<leftarrow> wait_until (length (io_tape s)) (tCur + ucast seconds * COUNTS_PER_SECOND) s;
     Some (0, s) }"

section \<open>A running counter\<close>

text \<open>What a counter answers: \<open>c k\<close> is its value at the \<open>k\<close>th access; a round reads the upper half,
  the lower half and the upper half again. A round is quiet if the upper half does not move in it.\<close>

definition upper_half :: "nat \<Rightarrow> u32" where
  "upper_half v = of_nat (drop_bit 32 v)"

definition lower_half :: "nat \<Rightarrow> u32" where
  "lower_half v = of_nat v"

definition rounds :: "(nat \<Rightarrow> nat) \<Rightarrow> nat \<Rightarrow> nat \<Rightarrow> u32 list" where
  "rounds c i n =
     concat (map (\<lambda>k. [upper_half (c (3 * k)), lower_half (c (3 * k + 1)), upper_half (c (3 * k + 2))]) [i..<n])"

definition counter64 :: "(nat \<Rightarrow> nat) \<Rightarrow> bool" where
  "counter64 c \<longleftrightarrow> mono c \<and> (\<forall>k. c k < 2 ^ 64)"

definition quiet_round :: "(nat \<Rightarrow> nat) \<Rightarrow> nat \<Rightarrow> bool" where
  "quiet_round c k \<longleftrightarrow> drop_bit 32 (c (3 * k)) = drop_bit 32 (c (3 * k + 2))"

lemma rounds_Cons: "i < n \<Longrightarrow> rounds c i n =
    upper_half (c (3 * i)) # lower_half (c (3 * i + 1)) # upper_half (c (3 * i + 2)) # rounds c (Suc i) n"
  by (simp add: rounds_def upt_conv_Cons)

lemma length_rounds [simp]: "length (rounds c i n) = 3 * (n - i)"
  by (simp add: rounds_def length_concat o_def sum_list_triv)

lemma upper_half_eq:
  assumes "x < 2 ^ 64" and "y < 2 ^ 64"
  shows "upper_half x = upper_half y \<longleftrightarrow> drop_bit 32 x = drop_bit 32 y"
proof -
  have "drop_bit 32 v < 4294967296" if "v < 2 ^ 64" for v :: nat
    using that by (simp add: drop_bit_eq_div less_mult_imp_div_less)
  with assms have "unat (upper_half x) = drop_bit 32 x" "unat (upper_half y) = drop_bit 32 y"
    by (simp_all add: upper_half_def unat_of_nat)
  then show ?thesis by (simp add: word_unat_eq_iff)
qed

lemma halves_of:
  assumes "drop_bit 32 x = drop_bit 32 y"
  shows "push_bit 32 (ucast (upper_half x)) OR ucast (lower_half y) = (of_nat y :: u64)"
proof (rule bit_word_eqI)
  fix n assume n: "n < LENGTH(64)"
  have u: "bit (upper_half x) k = (k < 32 \<and> bit y (k + 32))" for k
    using assms by (auto simp: upper_half_def bit_of_nat_iff_bit bit_simps add.commute)
  show "bit (push_bit 32 (ucast (upper_half x)) OR ucast (lower_half y) :: u64) n = bit (of_nat y :: u64) n"
    using n by (auto simp: bit_simps u lower_half_def bit_of_nat_iff_bit)
qed

lemma quiet_between:
  assumes "counter64 c" and "quiet_round c k"
  shows "drop_bit 32 (c (3 * k)) = drop_bit 32 (c (3 * k + 1))"
proof -
  have "c (3 * k) \<le> c (3 * k + 1)" "c (3 * k + 1) \<le> c (3 * k + 2)"
    using assms(1) by (simp_all add: counter64_def monoD)
  then have "drop_bit 32 (c (3 * k)) \<le> drop_bit 32 (c (3 * k + 1))"
    "drop_bit 32 (c (3 * k + 1)) \<le> drop_bit 32 (c (3 * k + 2))"
    by (simp_all add: drop_bit_eq_div div_le_mono)
  with assms(2) show ?thesis by (simp add: quiet_round_def)
qed

text \<open>The loop over the halves gives the value at the read of the lower half of the first quiet round.\<close>

lemma read_halves_first:
  assumes "counter64 c" and "quiet_round c j"
  shows "i \<le> j \<Longrightarrow> j < n \<Longrightarrow> \<forall>k. i \<le> k \<and> k < j \<longrightarrow> \<not> quiet_round c k \<Longrightarrow> io_tape s = rounds c i n @ rest \<Longrightarrow>
    j - i < f \<Longrightarrow>
    \<exists>l. read_halves f s = Some (of_nat (c (3 * j + 1)), s\<lparr>io_tape := rounds c (Suc j) n @ rest, io_log := io_log s @ l\<rparr>)"
proof (induction f arbitrary: i s)
  case (Suc f)
  have lt: "c k < 2 ^ 64" for k using assms(1) by (simp add: counter64_def)
  have q: "upper_half (c (3 * i + 2)) = upper_half (c (3 * i)) \<longleftrightarrow> quiet_round c i"
    using upper_half_eq [OF lt lt] by (auto simp: quiet_round_def)
  have t: "io_tape s = upper_half (c (3 * i)) # lower_half (c (3 * i + 1)) # upper_half (c (3 * i + 2)) # rounds c (Suc i) n @ rest"
    using Suc.prems(1,2,4) by (simp add: rounds_Cons)
  show ?case
  proof (cases "quiet_round c i")
    case True
    with Suc.prems(1,3) have "i = j" by (metis le_neq_implies_less order_refl)
    then show ?thesis using t q True halves_of [OF quiet_between [OF assms(1) True]]
      by (simp add: defined_simps) (rule exI, rule refl)
  next
    case False
    then have ij: "Suc i \<le> j" using assms(2) Suc.prems(1) by (metis le_neq_implies_less Suc_leI)
    let ?s = "s\<lparr>io_tape := rounds c (Suc i) n @ rest, io_log := io_log s @ [IoRead 0xF8F00204 (upper_half (c (3 * i))),
      IoRead 0xF8F00200 (lower_half (c (3 * i + 1))), IoRead 0xF8F00204 (upper_half (c (3 * i + 2)))]\<rparr>"
    have "read_halves (Suc f) s = read_halves f ?s" using t q False by (simp add: defined_simps)
    moreover have "\<exists>l. read_halves f ?s =
        Some (of_nat (c (3 * j + 1)), ?s\<lparr>io_tape := rounds c (Suc j) n @ rest, io_log := io_log ?s @ l\<rparr>)"
      by (rule Suc.IH [of "Suc i"]) (use ij Suc.prems(2,3,5) in auto)
    then obtain l where "read_halves f ?s =
        Some (of_nat (c (3 * j + 1)), ?s\<lparr>io_tape := rounds c (Suc j) n @ rest, io_log := io_log ?s @ l\<rparr>)" ..
    ultimately show ?thesis by (simp only: machine.update_convs machine.select_convs append_assoc) (rule exI, simp)
  qed
qed simp

text \<open>From any round on there is a first quiet one, if there is one at all.\<close>

lemma first_quiet:
  assumes "quiet_round c j" and "i \<le> j"
  obtains q where "i \<le> q" "q \<le> j" "quiet_round c q" "\<forall>k. i \<le> k \<and> k < q \<longrightarrow> \<not> quiet_round c k"
proof
  let ?q = "LEAST k. i \<le> k \<and> quiet_round c k"
  have "i \<le> ?q \<and> quiet_round c ?q" by (rule LeastI [of _ j]) (use assms in simp)
  then show "i \<le> ?q" "quiet_round c ?q" by simp_all
  show "?q \<le> j" by (rule Least_le) (use assms in simp)
  show "\<forall>k. i \<le> k \<and> k < ?q \<longrightarrow> \<not> quiet_round c k" using not_less_Least by blast
qed

lemma get_time_first:
  assumes "counter64 c" and "quiet_round c q" and "i \<le> q" and "q < n"
    and "\<forall>k. i \<le> k \<and> k < q \<longrightarrow> \<not> quiet_round c k" and "io_tape s = rounds c i n @ rest"
  shows "\<exists>l. XTime_GetTime s =
    Some (of_nat (c (3 * q + 1)), s\<lparr>io_tape := rounds c (Suc q) n @ rest, io_log := io_log s @ l\<rparr>)"
  unfolding XTime_GetTime_def
  by (rule read_halves_first [OF assms(1,2,3,4,5,6)]) (use assms(3,4,6) in simp)

text \<open>Waiting ends with the first quiet round in which the counter has reached the end.\<close>

lemma wait_until_first:
  assumes c: "counter64 c" and j: "quiet_round c j" "e \<le> c (3 * j + 1)" "j < n"
  shows "i \<le> j \<Longrightarrow> \<forall>k. i \<le> k \<and> k < j \<and> quiet_round c k \<longrightarrow> c (3 * k + 1) < e \<Longrightarrow>
    io_tape s = rounds c i n @ rest \<Longrightarrow> j - i < f \<Longrightarrow>
    \<exists>l. wait_until f (of_nat e) s = Some (s\<lparr>io_tape := rounds c (Suc j) n @ rest, io_log := io_log s @ l\<rparr>)"
proof (induction f arbitrary: i s)
  case (Suc f)
  obtain q where q: "i \<le> q" "q \<le> j" "quiet_round c q" "\<forall>k. i \<le> k \<and> k < q \<longrightarrow> \<not> quiet_round c k"
    using first_quiet [OF j(1) Suc.prems(1)] by blast
  have "q < n" using q(2) j(3) by simp
  from get_time_first [OF c q(3,1) this q(4) Suc.prems(3)] obtain l where
    l: "XTime_GetTime s = Some (of_nat (c (3 * q + 1)), s\<lparr>io_tape := rounds c (Suc q) n @ rest, io_log := io_log s @ l\<rparr>)" ..
  have lt: "c k < 2 ^ 64" for k using c by (simp add: counter64_def)
  then have "e < 2 ^ 64" using j(2) by (meson le_less_trans)
  then have cmp: "(of_nat (c (3 * q + 1)) :: u64) < of_nat e \<longleftrightarrow> c (3 * q + 1) < e"
    using lt [of "3 * q + 1"] by (simp add: word_less_nat_alt unat_of_nat del: of_nat_Suc)
  show ?case
  proof (cases "q = j")
    case True
    with l cmp j(2) show ?thesis by simp (rule exI, rule refl)
  next
    case False
    with q(1-3) Suc.prems(2) have lt: "c (3 * q + 1) < e" by simp
    let ?s = "s\<lparr>io_tape := rounds c (Suc q) n @ rest, io_log := io_log s @ l\<rparr>"
    have "\<exists>l'. wait_until f (of_nat e) ?s =
        Some (?s\<lparr>io_tape := rounds c (Suc j) n @ rest, io_log := io_log ?s @ l'\<rparr>)"
      by (rule Suc.IH [of "Suc q"]) (use False q(1,2) Suc.prems(2,4) in auto)
    moreover have "wait_until (Suc f) (of_nat e) s = wait_until f (of_nat e) ?s" using l cmp lt by simp
    ultimately show ?thesis by (auto simp only: machine.update_convs machine.select_convs append_assoc) auto
  qed
qed simp

section \<open>Properties\<close>

text \<open>C22: Although the counter runs while its halves are read, \<open>XTime_GetTime\<close> gives a value it really
  had: the one at the access of the lower half, in the first round in which the upper half did not
  move. A carry between the reads is never seen.\<close>

theorem time_is_consistent:
  assumes "counter64 c" and "io_tape s = rounds c 0 n @ rest" and "quiet_round c j" and "j < n"
  shows "\<exists>q s'. q \<le> j \<and> XTime_GetTime s = Some (of_nat (c (3 * q + 1)), s') \<and>
    quiet_round c q \<and> (\<forall>k < q. \<not> quiet_round c k) \<and> io_tape s' = rounds c (Suc q) n @ rest \<and> mem s' = mem s"
proof -
  obtain q where q: "0 \<le> q" "q \<le> j" "quiet_round c q" "\<forall>k. 0 \<le> k \<and> k < q \<longrightarrow> \<not> quiet_round c k"
    using first_quiet [OF assms(3)] by blast
  have "q < n" using q(2) assms(4) by simp
  from get_time_first [OF assms(1) q(3,1) this q(4) assms(2)] q(2-4) show ?thesis by auto
qed

definition demo_counter :: "nat \<Rightarrow> nat" where
  "demo_counter k = 0xFFFFFFFE + 100 * min k 20"

lemma demo_counter_ok: "counter64 demo_counter"
  by (auto simp: counter64_def demo_counter_def mono_def min_def)

lemma demo_counter_quiet: "quiet_round demo_counter 1" "quiet_round demo_counter 3" "\<not> quiet_round demo_counter 0"
  by (simp_all add: quiet_round_def demo_counter_def drop_bit_eq_div)

definition timed :: "u32 list \<Rightarrow> machine" where
  "timed t = \<lparr>mem = \<lambda>_. 0, io_tape = t, io_log = [], tlb = \<lambda>_. 0\<rparr>"

lemma time_is_consistent_witness:
  "\<exists>s'. XTime_GetTime (timed (rounds demo_counter 0 2)) = Some (0x10000018E, s')"
proof -
  have t: "io_tape (timed (rounds demo_counter 0 2)) = rounds demo_counter 0 2 @ []" by (simp add: timed_def)
  obtain q s' where q: "q \<le> 1" "XTime_GetTime (timed (rounds demo_counter 0 2)) = Some (of_nat (demo_counter (3 * q + 1)), s')"
      "quiet_round demo_counter q"
    using time_is_consistent [OF demo_counter_ok t demo_counter_quiet(1)] by auto
  then have "q = 1" using demo_counter_quiet(3) by (cases q) auto
  with q(2) show ?thesis by (simp add: demo_counter_def)
qed

text \<open>C23: A delay is never too short and not longer than needed: if the counter goes on far enough,
  without passing its end, \<open>usleep\<close> returns 0; between a value it took from the counter after the
  call and the last one it took lie at least 325 counts for each microsecond, and no complete reading
  before the last one had reached that.\<close>

theorem usleep_delays:
  fixes us :: u32
  assumes "counter64 c" and "io_tape s = rounds c 0 n @ rest" and "quiet_round c i0" and "quiet_round c j0"
    and "i0 < j0" and "j0 < n" and "c (3 * i0 + 1) + 325 * unat us \<le> c (3 * j0 + 1)"
  defines "d \<equiv> 325 * unat us"
  shows "\<exists>i j s'. i \<le> i0 \<and> i < j \<and> j \<le> j0 \<and> timer_usleep us s = Some (0, s') \<and>
    io_tape s' = rounds c (Suc j) n @ rest \<and> mem s' = mem s \<and> c (3 * i + 1) + d \<le> c (3 * j + 1) \<and>
    (\<forall>k. i < k \<and> k < j \<and> quiet_round c k \<longrightarrow> c (3 * k + 1) < c (3 * i + 1) + d)"
proof -
  obtain i where i: "0 \<le> i" "i \<le> i0" "quiet_round c i" "\<forall>k. 0 \<le> k \<and> k < i \<longrightarrow> \<not> quiet_round c k"
    using first_quiet [OF assms(3)] by blast
  have "i < n" using i(2) assms(5,6) by simp
  from get_time_first [OF assms(1) i(3,1) this i(4) assms(2)] obtain l where l: "XTime_GetTime s =
    Some (of_nat (c (3 * i + 1)), s\<lparr>io_tape := rounds c (Suc i) n @ rest, io_log := io_log s @ l\<rparr>)" ..
  let ?s = "s\<lparr>io_tape := rounds c (Suc i) n @ rest, io_log := io_log s @ l\<rparr>" and ?e = "c (3 * i + 1) + d"
  let ?P = "\<lambda>k. Suc i \<le> k \<and> quiet_round c k \<and> ?e \<le> c (3 * k + 1)"
  have "c (3 * i + 1) \<le> c (3 * i0 + 1)" using assms(1) i(2) by (simp add: counter64_def monoD)
  then have P0: "?P j0" using i(2) assms(4,5,7) by (simp add: d_def)
  define j where "j = (LEAST k. ?P k)"
  have j: "?P j" unfolding j_def by (rule LeastI [of ?P, OF P0])
  have jj: "j \<le> j0" unfolding j_def by (rule Least_le [of ?P, OF P0])
  have lst: "\<forall>k. Suc i \<le> k \<and> k < j \<and> quiet_round c k \<longrightarrow> c (3 * k + 1) < ?e"
    using not_less_Least [of _ ?P] unfolding j_def [symmetric] by (metis not_le)
  have "\<exists>l'. wait_until (length (io_tape ?s)) (of_nat ?e) ?s =
      Some (?s\<lparr>io_tape := rounds c (Suc j) n @ rest, io_log := io_log ?s @ l'\<rparr>)"
    by (rule wait_until_first [OF assms(1), of j ?e n "Suc i"]) (use j jj lst assms(6) in auto)
  moreover have "of_nat (c (3 * i + 1)) + ucast us * COUNTS_PER_USECOND = (of_nat ?e :: u64)"
    by (simp add: d_def unsigned_ucast_eq mult.commute)
  ultimately obtain s' where "timer_usleep us s = Some (0, s')" "io_tape s' = rounds c (Suc j) n @ rest" "mem s' = mem s"
    using l by (auto simp: timer_usleep_def)
  then show ?thesis using i(2) j jj lst by (intro exI [of _ i] exI [of _ j] exI [of _ s']) auto
qed

lemma usleep_delays_witness: "\<exists>s'. timer_usleep 1 (timed (rounds demo_counter 0 4)) = Some (0, s')"
proof -
  have t: "io_tape (timed (rounds demo_counter 0 4)) = rounds demo_counter 0 4 @ []" by (simp add: timed_def)
  have "demo_counter (3 * 1 + 1) + 325 * unat (1 :: u32) \<le> demo_counter (3 * 3 + 1)"
    by (simp add: demo_counter_def)
  from usleep_delays [OF demo_counter_ok t demo_counter_quiet(1,2) _ _ this] show ?thesis by auto
qed

end
