(* ===== verification/RpmsgLink.thy ===== *)
theory RpmsgLink
  imports Config
begin

text \<open>
  The kernel module's message link (kernel_mod/rpmsg_link.c): transaction structs on a
  pending and an unused list, sequence numbers, the two request functions and the callback
  that matches a reply to its request.

  Transaction structs live on a heap of their own (\<open>k_heap\<close>), a pointer is a number. A
  \<open>list_head\<close> is the list of the structs linked on it, first element first. Linking a struct
  that is linked already, using one that was freed and taking a held spin lock have no value.
  What the rest of the kernel decides is a tape of the state: whether an allocation
  succeeds (\<open>k_outcomes\<close>), what \<open>rpmsg_send\<close> returns (\<open>k_send_rets\<close>), and which messages
  and signals arrive while a process sleeps (\<open>k_sched\<close>). The kernel's string and copy
  helpers are the parameter \<open>k\<close> of type \<open>kapi\<close>. Log output is not modelled.
\<close>

section \<open>The kernel's helpers\<close>

text \<open>\<open>kstrtol(s, 0, &v)\<close> gets the string and the old value and gives the return code and the
  new one. \<open>simple_read_from_buffer\<close> gets the count, the position and the readable bytes and
  gives the return value, the bytes copied out and the new position;
  \<open>simple_write_to_buffer\<close> gets the position, the user's bytes and the buffer, and gives the
  return value, the new buffer and the new position.\<close>

record kapi =
  kstrtol :: "u8 list \<Rightarrow> s32 \<Rightarrow> int \<times> s32"
  simple_read :: "nat \<Rightarrow> int \<Rightarrow> u8 list \<Rightarrow> int \<times> u8 list \<times> int"
  simple_write :: "int \<Rightarrow> u8 list \<Rightarrow> u8 list \<Rightarrow> int \<times> u8 list \<times> int"

text \<open>What the module relies on: the decimal text of an \<open>int\<close>, with or without a final
  newline, is parsed to its value; copying moves the bytes at the position, as many as there
  are and as there is room for, and advances the position by as many.\<close>

definition kstrtol_ok :: "kapi \<Rightarrow> bool" where
  "kstrtol_ok k \<longleftrightarrow> (\<forall>v old t. t = dec (sint v) \<or> t = dec (sint v) @ [10] \<longrightarrow> kstrtol k t old = (0, v))"

definition simple_read_ok :: "kapi \<Rightarrow> bool" where
  "simple_read_ok k \<longleftrightarrow> (\<forall>n pos b. 0 \<le> pos \<longrightarrow> (let c = take n (drop (nat pos) b)
     in simple_read k n pos b = (int (length c), c, pos + int (length c))))"

definition simple_write_ok :: "kapi \<Rightarrow> bool" where
  "simple_write_ok k \<longleftrightarrow> (\<forall>pos d b. 0 \<le> pos \<longrightarrow> (let c = take (length b - nat pos) d
     in simple_write k pos d b =
       (int (length c), take (nat pos) b @ c @ drop (nat pos + length c) b, pos + int (length c))))"

text \<open>Lengths never depend on the data: every buffer keeps its size.\<close>

definition write_keeps_size :: "kapi \<Rightarrow> bool" where
  "write_keeps_size k \<longleftrightarrow> (\<forall>pos d b. length (fst (snd (simple_write k pos d b))) = length b)"

section \<open>State\<close>

abbreviation (input) "IO_BUF_SIZE \<equiv> (400 :: nat)"
abbreviation (input) "ENOENT \<equiv> (2 :: int)"
abbreviation (input) "EAGAIN \<equiv> (11 :: int)"
abbreviation (input) "ENOMEM \<equiv> (12 :: int)"
abbreviation (input) "EFAULT \<equiv> (14 :: int)"
abbreviation (input) "EINVAL \<equiv> (22 :: int)"
abbreviation (input) "ERESTARTSYS \<equiv> (512 :: int)"

datatype access_t = ACC_NAME | ACC_VAL | ACC_MIN | ACC_MAX | ACC_DESC

record rpmsg_link_transaction =
  msg_seq_nr :: u32
  t_len :: int
  t_buf :: "u8 list"
  t_dirty :: bool
  t_valid :: bool
  t_rnw :: bool
  t_err :: int
  t_wq :: bool \<comment> \<open>the wait queue pointer is set\<close>

definition zero_trans :: rpmsg_link_transaction where
  "zero_trans = \<lparr>msg_seq_nr = 0, t_len = 0, t_buf = replicate IO_BUF_SIZE 0, t_dirty = False,
     t_valid = False, t_rnw = False, t_err = 0, t_wq = False\<rparr>"

datatype klock = PendingLock | UnusedLock | SeqLock

datatype kevent = KMsg "u8 list" | KSignal

record klink =
  k_heap :: "nat \<Rightarrow> rpmsg_link_transaction option"
  k_next :: nat \<comment> \<open>the next address the allocator hands out\<close>
  pending_list :: "nat list"
  unused_list :: "nat list"
  k_held :: "klock \<Rightarrow> bool"
  k_seq :: u32 \<comment> \<open>the static of \<open>get_next_seq_nr\<close>\<close>
  k_n_vars :: int
  rpmsg_chnl :: bool \<comment> \<open>the channel pointer is set\<close>
  nv_req :: cfgMsg \<comment> \<open>the static request of \<open>get_n_vars\<close>\<close>
  av_req :: cfgMsg \<comment> \<open>the static request of \<open>access_var\<close>\<close>
  k_outcomes :: "bool list"
  k_send_rets :: "int list"
  k_sent :: "cfgMsg list"
  k_wakes :: nat
  k_sched :: "kevent list"

definition spin_lock :: "klock \<Rightarrow> 'a klink_scheme \<Rightarrow> 'a klink_scheme option" where
  "spin_lock l s = (if k_held s l then None else Some (s\<lparr>k_held := (k_held s)(l := True)\<rparr>))"

definition spin_unlock :: "klock \<Rightarrow> 'a klink_scheme \<Rightarrow> 'a klink_scheme" where
  "spin_unlock l s = s\<lparr>k_held := (k_held s)(l := False)\<rparr>"

definition linked :: "'a klink_scheme \<Rightarrow> nat \<Rightarrow> bool" where
  "linked s t \<longleftrightarrow> t \<in> set (pending_list s) \<or> t \<in> set (unused_list s)"

definition upd_trans ::
    "nat \<Rightarrow> (rpmsg_link_transaction \<Rightarrow> rpmsg_link_transaction) \<Rightarrow> 'a klink_scheme \<Rightarrow> 'a klink_scheme option" where
  "upd_trans t f s = (case k_heap s t of None \<Rightarrow> None
     | Some tr \<Rightarrow> Some (s\<lparr>k_heap := (k_heap s)(t := Some (f tr))\<rparr>))"

section \<open>Allocation\<close>

definition k_outcome :: "'a klink_scheme \<Rightarrow> (bool \<times> 'a klink_scheme) option" where
  "k_outcome s = (case k_outcomes s of [] \<Rightarrow> None | b # bs \<Rightarrow> Some (b, s\<lparr>k_outcomes := bs\<rparr>))"

definition kzalloc_trans :: "'a klink_scheme \<Rightarrow> (nat option \<times> 'a klink_scheme) option" where
  "kzalloc_trans s = do {
     (ok, s1) \<leftarrow> k_outcome s;
     Some (if ok then (Some (k_next s1), s1\<lparr>k_heap := (k_heap s1)(k_next s1 := Some zero_trans),
                                            k_next := Suc (k_next s1)\<rparr>)
           else (None, s1))
   }"

fun init_trans :: "nat \<Rightarrow> 'a klink_scheme \<Rightarrow> (int \<times> 'a klink_scheme) option" where
  "init_trans 0 s = Some (0, s)"
| "init_trans (Suc n) s = do {
     (t, s1) \<leftarrow> kzalloc_trans s;
     case t of None \<Rightarrow> Some (- ENOMEM, s1)
     | Some t \<Rightarrow> init_trans n (s1\<lparr>unused_list := t # unused_list s1\<rparr>)
   }"

text \<open>When an allocation fails, \<open>pending_list_lock\<close> stays held.\<close>

definition rpmsg_link_init :: "'a klink_scheme \<Rightarrow> (int \<times> 'a klink_scheme) option" where
  "rpmsg_link_init s = do {
     s1 \<leftarrow> spin_lock PendingLock (s\<lparr>rpmsg_chnl := True, k_held := (\<lambda>_. False)\<rparr>);
     (r, s2) \<leftarrow> init_trans 16 s1;
     Some (if r \<noteq> 0 then (r, s2) else (0, spin_unlock PendingLock s2))
   }"

definition rpmsg_link_exit :: "'a klink_scheme \<Rightarrow> 'a klink_scheme option" where
  "rpmsg_link_exit s = do {
     s1 \<leftarrow> spin_lock PendingLock s;
     s2 \<leftarrow> spin_lock UnusedLock s1;
     let s3 = s2\<lparr>k_heap := fold (\<lambda>t h. h(t := None)) (pending_list s2 @ unused_list s2) (k_heap s2),
                 pending_list := [], unused_list := [], rpmsg_chnl := False\<rparr>;
     Some (spin_unlock PendingLock (spin_unlock UnusedLock s3))
   }"

text \<open>A failed \<open>kzalloc\<close> makes \<open>INIT_LIST_HEAD\<close> write through a null pointer, so the callers'
  tests for a null result are never reached.\<close>

definition rpmsg_link_alloc_trans :: "'a klink_scheme \<Rightarrow> (nat \<times> 'a klink_scheme) option" where
  "rpmsg_link_alloc_trans s = do {
     s1 \<leftarrow> spin_lock UnusedLock s;
     let (t, s2) = (case unused_list s1 of [] \<Rightarrow> (None, s1)
                    | t # ts \<Rightarrow> (Some t, s1\<lparr>unused_list := ts\<rparr>));
     let s3 = spin_unlock UnusedLock s2;
     (t, s4) \<leftarrow> (case t of Some _ \<Rightarrow> Some (t, s3) | None \<Rightarrow> kzalloc_trans s3);
     case t of None \<Rightarrow> None
     | Some t \<Rightarrow> do { s5 \<leftarrow> upd_trans t (\<lambda>_. zero_trans) s4; Some (t, s5) }
   }"

definition rpmsg_link_return_trans :: "nat \<Rightarrow> 'a klink_scheme \<Rightarrow> 'a klink_scheme option" where
  "rpmsg_link_return_trans t s =
     (if linked s t then None else do {
        s1 \<leftarrow> upd_trans t (\<lambda>_. zero_trans) s;
        s2 \<leftarrow> spin_lock UnusedLock s1;
        Some (spin_unlock UnusedLock (s2\<lparr>unused_list := t # unused_list s2\<rparr>))
      })"

definition get_next_seq_nr :: "'a klink_scheme \<Rightarrow> (u32 \<times> 'a klink_scheme) option" where
  "get_next_seq_nr s = do {
     s1 \<leftarrow> spin_lock SeqLock s;
     Some (k_seq s1, spin_unlock SeqLock (s1\<lparr>k_seq := k_seq s1 + 1\<rparr>))
   }"

definition add_pend_trans :: "nat \<Rightarrow> 'a klink_scheme \<Rightarrow> 'a klink_scheme option" where
  "add_pend_trans t s = do {
     s1 \<leftarrow> spin_lock PendingLock s;
     if linked s1 t \<or> k_heap s1 t = None then None
     else Some (spin_unlock PendingLock (s1\<lparr>pending_list := t # pending_list s1\<rparr>))
   }"

section \<open>Replies\<close>

text \<open>\<open>trans->len = scnprintf(trans->buf, n, ...)\<close>: the text cut to \<open>n - 1\<close> bytes and
  its terminator.\<close>

definition print_buf :: "nat \<Rightarrow> u8 list \<Rightarrow> rpmsg_link_transaction \<Rightarrow> rpmsg_link_transaction" where
  "print_buf n txt tr = tr\<lparr>t_buf := memcpy_to (t_buf tr) (take (n - 1) txt @ [0]),
                           t_len := int (length (take (n - 1) txt))\<rparr>"

text \<open>The \<open>switch\<close> over the response type.\<close>

definition take_reply :: "cfgMsg \<Rightarrow> rpmsg_link_transaction \<Rightarrow> rpmsg_link_transaction" where
  "take_reply r tr = (let ty = m_type r in
     if ty = RES_OK then tr\<lparr>t_len := 0, t_valid := True, t_err := 0\<rparr>
     else if ty = RES_N_VARS then tr\<lparr>t_len := 0, t_valid := True\<rparr>
     else if ty = RES_RD_VAL \<or> ty = RES_RD_MIN \<or> ty = RES_RD_MAX then
       (print_buf IO_BUF_SIZE (dec (sint (m_val r)) @ [10]) tr)\<lparr>t_err := 0, t_valid := True\<rparr>
     else if ty = RES_NAME \<or> ty = RES_DESC then
       (if m_len r > 399
        then (print_buf (IO_BUF_SIZE - 1) (cstr ''data part of response too long'' @ [10]) tr)
               \<lparr>t_err := - EINVAL, t_valid := True\<rparr>
        else tr\<lparr>t_buf := memcpy_to (t_buf tr) (take (unat (m_len r)) (m_data r) @ [0]),
                t_len := int (unat (m_len r)), t_err := 0, t_valid := True\<rparr>)
     else if ty = RES_ID_ERR then
       (print_buf IO_BUF_SIZE (cstr ''received ID error for id '' @ dec (sint (m_ind r)) @
          cstr '' in msg nr '' @ dec (sint (m_seq r)) @ [10]) tr)\<lparr>t_valid := True, t_err := 130\<rparr>
     else if ty = RES_REQ_ERR then
       (print_buf IO_BUF_SIZE (cstr ''received request error for msg nr '' @
          dec (sint (m_seq r)) @ [10]) tr)\<lparr>t_valid := True, t_err := 255\<rparr>
     else
       (print_buf IO_BUF_SIZE (cstr ''unknonw type '' @ dec (sint (m_ind r)) @
          cstr '' in msg nr '' @ dec (sint (m_seq r)) @ [10]) tr)\<lparr>t_valid := True, t_err := -1\<rparr>)"

text \<open>The search for the transaction of a reply.\<close>

fun find_pending ::
    "u32 \<Rightarrow> (nat \<Rightarrow> rpmsg_link_transaction option) \<Rightarrow> nat list \<Rightarrow> nat option option" where
  "find_pending q h [] = Some None"
| "find_pending q h (t # ts) = (case h t of None \<Rightarrow> None
     | Some tr \<Rightarrow> if msg_seq_nr tr = q then Some (Some t) else find_pending q h ts)"

definition cfg_mgmt_rpmsg_cb :: "u8 list \<Rightarrow> 'a klink_scheme \<Rightarrow> 'a klink_scheme option" where
  "cfg_mgmt_rpmsg_cb data s = (if length data \<noteq> 420 then Some s else do {
     let r = dec_msg data;
     s1 \<leftarrow> spin_lock PendingLock s;
     f \<leftarrow> find_pending (m_seq r) (k_heap s1) (pending_list s1);
     case f of None \<Rightarrow> Some (spin_unlock PendingLock s1)
     | Some t \<Rightarrow> do {
         let s2 = spin_unlock PendingLock (s1\<lparr>pending_list := remove1 t (pending_list s1)\<rparr>);
         let s3 = (if m_type r = RES_N_VARS then s2\<lparr>k_n_vars := sint (m_val r)\<rparr> else s2);
         s4 \<leftarrow> upd_trans t (take_reply r) s3;
         tr \<leftarrow> k_heap s4 t;
         Some (if t_wq tr then s4\<lparr>k_wakes := Suc (k_wakes s4)\<rparr> else s4)
       }
   })"

section \<open>Sleeping\<close>

text \<open>\<open>wait_event_interruptible\<close>: the condition is looked at before the process sleeps and
  again whenever the wait queue is woken; a signal ends the wait. While the process sleeps
  the events of \<open>k_sched\<close> happen; when none is left, it sleeps for ever.\<close>

fun wait_sleep ::
    "('a klink_scheme \<Rightarrow> bool) \<Rightarrow> kevent list \<Rightarrow> 'a klink_scheme \<Rightarrow> (int \<times> 'a klink_scheme) option" where
  "wait_sleep c [] s = None"
| "wait_sleep c (KSignal # es) s = Some (- ERESTARTSYS, s\<lparr>k_sched := es\<rparr>)"
| "wait_sleep c (KMsg m # es) s = do {
     s1 \<leftarrow> cfg_mgmt_rpmsg_cb m (s\<lparr>k_sched := es\<rparr>);
     if k_wakes s1 \<noteq> k_wakes s \<and> c s1 then Some (0, s1) else wait_sleep c es s1
   }"

definition wait_event ::
    "('a klink_scheme \<Rightarrow> bool) \<Rightarrow> 'a klink_scheme \<Rightarrow> (int \<times> 'a klink_scheme) option" where
  "wait_event c s = (if c s then Some (0, s) else wait_sleep c (k_sched s) s)"

definition t_is_valid :: "nat \<Rightarrow> 'a klink_scheme \<Rightarrow> bool" where
  "t_is_valid t s = (case k_heap s t of None \<Rightarrow> False | Some tr \<Rightarrow> t_valid tr)"

section \<open>Requests\<close>

definition k_rpmsg_send :: "cfgMsg \<Rightarrow> 'a klink_scheme \<Rightarrow> (int \<times> 'a klink_scheme) option" where
  "k_rpmsg_send m s = (case k_send_rets s of [] \<Rightarrow> None
     | r # rs \<Rightarrow> Some (r, s\<lparr>k_send_rets := rs,
                             k_sent := (if r = 0 then k_sent s @ [m] else k_sent s)\<rparr>))"

definition get_n_vars :: "'a klink_scheme \<Rightarrow> (int \<times> 'a klink_scheme) option" where
  "get_n_vars s = (if \<not> rpmsg_chnl s then Some (- EINVAL, s) else do {
     (q, s1) \<leftarrow> get_next_seq_nr s;
     (t, s2) \<leftarrow> rpmsg_link_alloc_trans (s1\<lparr>nv_req := (nv_req s1)\<lparr>m_seq := q, m_ind := -1, m_val := 0,
                                                   m_len := 0, m_type := REQ_N_VARS\<rparr>\<rparr>);
     s3 \<leftarrow> upd_trans t (\<lambda>tr. tr\<lparr>msg_seq_nr := q, t_wq := True\<rparr>) s2;
     s4 \<leftarrow> add_pend_trans t s3;
     (ret, s5) \<leftarrow> k_rpmsg_send (nv_req s4) s4;
     if ret \<noteq> 0 then Some (ret, s5) else do {
       (ret, s6) \<leftarrow> wait_event (\<lambda>s. 0 \<le> k_n_vars s) s5;
       Some (if ret \<noteq> 0 then ret else k_n_vars s6, s6)
     }
   })"

definition req_type :: "access_t \<Rightarrow> bool \<Rightarrow> u32" where
  "req_type acc rnw = (case acc of
     ACC_VAL \<Rightarrow> if rnw then REQ_RD else REQ_WR
   | ACC_MIN \<Rightarrow> REQ_RD_MIN | ACC_MAX \<Rightarrow> REQ_RD_MAX | ACC_DESC \<Rightarrow> REQ_DESC | ACC_NAME \<Rightarrow> REQ_NAME)"

text \<open>The string \<open>kstrtol\<close> gets ends at the first zero of the buffer; without one it would run
  on behind the buffer.\<close>

definition access_var ::
    "kapi \<Rightarrow> s32 \<Rightarrow> access_t \<Rightarrow> nat option \<Rightarrow> 'a klink_scheme \<Rightarrow> (int \<times> 'a klink_scheme) option" where
  "access_var k index acc tp s =
     (if \<not> rpmsg_chnl s then Some (- EINVAL, s)
      else case tp of None \<Rightarrow> Some (- EINVAL, s)
      | Some t \<Rightarrow> do {
          tr \<leftarrow> k_heap s t;
          let req = (av_req s)\<lparr>m_ind := index, m_val := 0, m_len := 0, m_type := req_type acc (t_rnw tr)\<rparr>;
          (ret, v) \<leftarrow> (if acc = ACC_VAL \<and> \<not> t_rnw tr
                      then if 0 \<in> set (t_buf tr) then Some (kstrtol k (cstring_of (t_buf tr)) 0) else None
                      else Some (0, 0));
          let s1 = s\<lparr>av_req := req\<lparr>m_val := v\<rparr>\<rparr>;
          if ret \<noteq> 0 then Some (ret, s1) else do {
            (q, s2) \<leftarrow> get_next_seq_nr s1;
            s3 \<leftarrow> upd_trans t (\<lambda>tr. tr\<lparr>msg_seq_nr := q\<rparr>) (s2\<lparr>av_req := (av_req s2)\<lparr>m_seq := q\<rparr>\<rparr>);
            s4 \<leftarrow> add_pend_trans t s3;
            k_rpmsg_send (av_req s4) s4
          }
        })"

section \<open>The invariant\<close>

text \<open>No lock is held; the linked structs are distinct and allocated; addresses the allocator
  has not handed out are free, and every buffer has its full size.\<close>

definition link_inv :: "'a klink_scheme \<Rightarrow> bool" where
  "link_inv s \<longleftrightarrow> k_held s = (\<lambda>_. False) \<and> distinct (pending_list s @ unused_list s) \<and>
     (\<forall>t. linked s t \<longrightarrow> k_heap s t \<noteq> None) \<and>
     (\<forall>t tr. k_heap s t = Some tr \<longrightarrow> t < k_next s \<and> length (t_buf tr) = IO_BUF_SIZE)"

text \<open>A struct in the hands of a file: allocated and on neither list.\<close>

definition owned :: "'a klink_scheme \<Rightarrow> nat \<Rightarrow> bool" where
  "owned s t \<longleftrightarrow> k_heap s t \<noteq> None \<and> \<not> linked s t"

lemma held_idem [simp]: "(\<lambda>_. False)(l := False) = (\<lambda>_. False)"
  by (rule ext) simp

lemma held_self: "k_held s = f \<Longrightarrow> s\<lparr>k_held := f\<rparr> = s"
  by simp

lemma spin_lock_free: "k_held s = (\<lambda>_. False) \<Longrightarrow> spin_lock l s = Some (s\<lparr>k_held := (\<lambda>_. False)(l := True)\<rparr>)"
  by (simp add: spin_lock_def)

lemma length_zero_trans [simp]: "length (t_buf zero_trans) = IO_BUF_SIZE"
  by (simp add: zero_trans_def)

lemma link_invD:
  assumes "link_inv s"
  shows "k_held s = (\<lambda>_. False)" and "distinct (pending_list s)" and "distinct (unused_list s)"
    and "set (pending_list s) \<inter> set (unused_list s) = {}"
    and "k_heap s (k_next s) = None" and "\<not> linked s (k_next s)"
proof -
  show n: "k_heap s (k_next s) = None" using assms by (cases "k_heap s (k_next s)") (auto simp: link_inv_def)
  then show "\<not> linked s (k_next s)" using assms by (auto simp: link_inv_def)
qed (use assms in \<open>auto simp: link_inv_def\<close>)

lemma link_inv_linked: "link_inv s \<Longrightarrow> linked s t \<Longrightarrow> \<exists>tr. k_heap s t = Some tr"
  by (auto simp: link_inv_def)

lemma link_inv_buf: "link_inv s \<Longrightarrow> k_heap s t = Some tr \<Longrightarrow> length (t_buf tr) = IO_BUF_SIZE"
  by (simp add: link_inv_def)

lemma link_inv_next: "link_inv s \<Longrightarrow> k_heap s t = Some tr \<Longrightarrow> t < k_next s"
  by (simp add: link_inv_def)

lemma alloc_reuse:
  assumes "link_inv s" and "unused_list s = t # ts"
  shows "rpmsg_link_alloc_trans s = Some (t, s\<lparr>unused_list := ts, k_heap := (k_heap s)(t := Some zero_trans)\<rparr>)"
proof -
  have h: "k_held s = (\<lambda>_. False)" by (rule link_invD [OF assms(1)])
  obtain tr where "k_heap s t = Some tr"
    using link_inv_linked [OF assms(1), of t] assms(2) by (auto simp: linked_def)
  with assms(2) h show ?thesis
    by (auto simp: rpmsg_link_alloc_trans_def spin_lock_free spin_unlock_def upd_trans_def intro!: klink.equality)
qed

lemma alloc_new:
  assumes "link_inv s" and "unused_list s = []" and "k_outcomes s = True # bs"
  shows "rpmsg_link_alloc_trans s = Some (k_next s, s\<lparr>k_outcomes := bs,
    k_heap := (k_heap s)(k_next s := Some zero_trans), k_next := Suc (k_next s)\<rparr>)"
proof -
  have h: "k_held s = (\<lambda>_. False)" by (rule link_invD [OF assms(1)])
  with assms(2,3) show ?thesis
    by (auto simp: rpmsg_link_alloc_trans_def spin_lock_free spin_unlock_def upd_trans_def kzalloc_trans_def
        k_outcome_def intro!: klink.equality)
qed

lemma alloc_no_memory:
  assumes "k_held s = (\<lambda>_. False)" and "unused_list s = []" and "k_outcomes s = False # bs"
  shows "rpmsg_link_alloc_trans s = None"
  using assms by (simp add: rpmsg_link_alloc_trans_def spin_lock_free spin_unlock_def kzalloc_trans_def k_outcome_def)

text \<open>What an allocation changes, whichever way it succeeds.\<close>

lemma alloc_cases:
  assumes "link_inv s" and "rpmsg_link_alloc_trans s = Some (t, s')"
  obtains (reuse) ts where "unused_list s = t # ts"
      "s' = s\<lparr>unused_list := ts, k_heap := (k_heap s)(t := Some zero_trans)\<rparr>"
  | (fresh) bs where "unused_list s = []" "k_outcomes s = True # bs" "t = k_next s"
      "s' = s\<lparr>k_outcomes := bs, k_heap := (k_heap s)(t := Some zero_trans), k_next := Suc t\<rparr>"
proof (cases "unused_list s")
  case Nil
  have h: "k_held s = (\<lambda>_. False)" by (rule link_invD [OF assms(1)])
  show ?thesis
  proof (cases "k_outcomes s")
    case Nil
    with \<open>unused_list s = []\<close> assms(2) h show ?thesis
      by (simp add: rpmsg_link_alloc_trans_def spin_lock_free spin_unlock_def kzalloc_trans_def k_outcome_def)
  next
    case (Cons b bs)
    with \<open>unused_list s = []\<close> assms alloc_no_memory [OF h] have "b" by (cases b) auto
    with Cons \<open>unused_list s = []\<close> alloc_new [OF assms(1)] assms(2) show ?thesis by (auto intro: fresh)
  qed
next
  case (Cons u ts)
  with alloc_reuse [OF assms(1)] assms(2) show ?thesis by (auto intro: reuse)
qed

lemma alloc_ok:
  assumes "link_inv s" and "rpmsg_link_alloc_trans s = Some (t, s')"
  shows "link_inv s'" "owned s' t" "k_heap s' t = Some zero_trans" "pending_list s' = pending_list s"
    "t \<notin> set (pending_list s)" "\<And>u. u \<noteq> t \<Longrightarrow> k_heap s' u = k_heap s u"
    "\<And>u. owned s u \<Longrightarrow> owned s' u \<and> u \<noteq> t"
proof -
  note d = link_invD [OF assms(1)]
  have "link_inv s' \<and> owned s' t \<and> k_heap s' t = Some zero_trans \<and> pending_list s' = pending_list s \<and>
    t \<notin> set (pending_list s) \<and> (\<forall>u. u \<noteq> t \<longrightarrow> k_heap s' u = k_heap s u) \<and> (\<forall>u. owned s u \<longrightarrow> owned s' u \<and> u \<noteq> t)"
  proof (cases rule: alloc_cases [OF assms])
    case (1 ts)
    have p: "t \<notin> set (pending_list s)" "t \<notin> set ts" "distinct ts" using d(3,4) 1(1) by auto
    obtain tr where tr: "k_heap s t = Some tr" using link_inv_linked [OF assms(1), of t] 1(1) by (auto simp: linked_def)
    have "t < k_next s" by (rule link_inv_next [OF assms(1) tr])
    with p 1 assms(1) show ?thesis by (auto simp: link_inv_def owned_def linked_def)
  next
    case (2 bs)
    with d(5,6) assms(1) show ?thesis
      by (auto simp: link_inv_def owned_def linked_def intro: less_SucI)
  qed
  then show "link_inv s'" "owned s' t" "k_heap s' t = Some zero_trans" "pending_list s' = pending_list s"
    "t \<notin> set (pending_list s)" "\<And>u. u \<noteq> t \<Longrightarrow> k_heap s' u = k_heap s u"
    "\<And>u. owned s u \<Longrightarrow> owned s' u \<and> u \<noteq> t"
    by blast+
qed

lemma return_eq:
  assumes "link_inv s" and "owned s t"
  shows "rpmsg_link_return_trans t s =
    Some (s\<lparr>unused_list := t # unused_list s, k_heap := (k_heap s)(t := Some zero_trans)\<rparr>)"
proof -
  have h: "k_held s = (\<lambda>_. False)" by (rule link_invD [OF assms(1)])
  from assms(2) obtain tr where "k_heap s t = Some tr" "\<not> linked s t" by (auto simp: owned_def)
  with h show ?thesis
    by (auto simp: rpmsg_link_return_trans_def upd_trans_def spin_lock_free spin_unlock_def intro!: klink.equality)
qed

lemma return_ok:
  assumes "link_inv s" and "owned s t"
  shows "\<exists>s'. rpmsg_link_return_trans t s = Some s' \<and> link_inv s' \<and> unused_list s' = t # unused_list s"
proof -
  from assms(2) obtain tr where "k_heap s t = Some tr" "\<not> linked s t" by (auto simp: owned_def)
  moreover from this(1) have "t < k_next s" by (rule link_inv_next [OF assms(1)])
  ultimately show ?thesis
    using assms(1) by (auto simp: return_eq [OF assms] link_inv_def linked_def)
qed

lemma return_linked: "linked s t \<Longrightarrow> rpmsg_link_return_trans t s = None"
  by (simp add: rpmsg_link_return_trans_def)

lemma get_next_seq_eq:
  "k_held s = (\<lambda>_. False) \<Longrightarrow> get_next_seq_nr s = Some (k_seq s, s\<lparr>k_seq := k_seq s + 1\<rparr>)"
  by (auto simp: get_next_seq_nr_def spin_lock_free spin_unlock_def intro!: klink.equality)

lemma add_pend_eq:
  assumes "k_held s = (\<lambda>_. False)" and "owned s t"
  shows "add_pend_trans t s = Some (s\<lparr>pending_list := t # pending_list s\<rparr>)"
  using assms
  by (auto simp: add_pend_trans_def spin_lock_free spin_unlock_def owned_def linked_def intro!: klink.equality)

text \<open>A held lock blocks the next request for ever.\<close>

lemma add_pend_blocked: "k_held s PendingLock \<Longrightarrow> add_pend_trans t s = None"
  by (simp add: add_pend_trans_def spin_lock_def)

section \<open>A pool of structs\<close>

text \<open>The contract of \<open>rpmsg_link_alloc_trans\<close> and \<open>rpmsg_link_return_trans\<close>: what is handed
  out belongs to the caller alone until it is given back, and giving back never fails.\<close>

locale struct_pool =
  fixes grab :: "'s \<Rightarrow> ('t \<times> 's) option"
    and put :: "'t \<Rightarrow> 's \<Rightarrow> 's option"
    and inv :: "'s \<Rightarrow> bool"
    and mine :: "'s \<Rightarrow> 't \<Rightarrow> bool"
  assumes grab_ok: "\<lbrakk>inv s; grab s = Some (t, s')\<rbrakk> \<Longrightarrow> inv s' \<and> mine s' t \<and> (\<forall>u. mine s u \<longrightarrow> mine s' u \<and> u \<noteq> t)"
    and put_ok: "\<lbrakk>inv s; mine s t\<rbrakk> \<Longrightarrow> \<exists>s'. put t s = Some s' \<and> inv s' \<and> (\<forall>u. u \<noteq> t \<longrightarrow> mine s u \<longrightarrow> mine s' u)"
begin

fun grab_many :: "nat \<Rightarrow> 's \<Rightarrow> ('t list \<times> 's) option" where
  "grab_many 0 s = Some ([], s)"
| "grab_many (Suc n) s = do { (t, s1) \<leftarrow> grab s; (ts, s2) \<leftarrow> grab_many n s1; Some (t # ts, s2) }"

fun put_many :: "'t list \<Rightarrow> 's \<Rightarrow> 's option" where
  "put_many [] s = Some s"
| "put_many (t # ts) s = put t s \<bind> put_many ts"

lemma grab_many_distinct:
  assumes "inv s" and "grab_many n s = Some (ts, s')" and "\<forall>u \<in> us. mine s u"
  shows "inv s' \<and> distinct ts \<and> set ts \<inter> us = {} \<and> (\<forall>u \<in> us \<union> set ts. mine s' u)"
  using assms
proof (induction n arbitrary: s ts us)
  case 0
  then show ?case by simp
next
  case (Suc n)
  from Suc.prems(2) obtain t s1 ts1 where g: "grab s = Some (t, s1)" "grab_many n s1 = Some (ts1, s')" "ts = t # ts1"
    by (auto split: bind_split_asm)
  note k = grab_ok [OF Suc.prems(1) g(1)]
  from k Suc.prems(3) have "\<forall>u \<in> insert t us. mine s1 u" "t \<notin> us" by auto
  with Suc.IH [OF _ g(2), of "insert t us"] k g(3) show ?case by auto
qed

lemma put_many_total:
  assumes "inv s" and "distinct ts" and "\<forall>t \<in> set ts. mine s t"
  shows "\<exists>s'. put_many ts s = Some s' \<and> inv s'"
  using assms
proof (induction ts arbitrary: s)
  case Nil
  then show ?case by simp
next
  case (Cons t ts)
  from put_ok [OF Cons.prems(1), of t] Cons.prems(3) obtain s1 where
    s1: "put t s = Some s1" "inv s1" "\<forall>u. u \<noteq> t \<longrightarrow> mine s u \<longrightarrow> mine s1 u" by auto
  with Cons.prems have "\<forall>u \<in> set ts. mine s1 u" by auto
  with Cons.IH [OF s1(2)] Cons.prems(2) s1(1) show ?case by simp
qed

end

interpretation tp: struct_pool rpmsg_link_alloc_trans rpmsg_link_return_trans link_inv owned
proof unfold_locales
  fix s :: "'a klink_scheme" and t s'
  assume "link_inv s" "rpmsg_link_alloc_trans s = Some (t, s')"
  from alloc_ok [OF this] show "link_inv s' \<and> owned s' t \<and> (\<forall>u. owned s u \<longrightarrow> owned s' u \<and> u \<noteq> t)" by blast
next
  fix s :: "'a klink_scheme" and t
  assume a: "link_inv s" "owned s t"
  from return_ok [OF a] return_eq [OF a]
  show "\<exists>s'. rpmsg_link_return_trans t s = Some s' \<and> link_inv s' \<and> (\<forall>u. u \<noteq> t \<longrightarrow> owned s u \<longrightarrow> owned s' u)"
    by (auto simp: owned_def linked_def)
qed

section \<open>Matching replies\<close>

lemma length_print_buf [simp]:
  "n \<le> length (t_buf tr) \<Longrightarrow> 0 < n \<Longrightarrow> length (t_buf (print_buf n txt tr)) = length (t_buf tr)"
  by (simp add: print_buf_def)

lemma length_dec_msg_data: "length bs = 420 \<Longrightarrow> length (m_data (dec_msg bs)) = 400"
  by (simp add: dec_msg_def)

lemma take_reply_size:
  assumes "length (t_buf tr) = IO_BUF_SIZE"
  shows "length (t_buf (take_reply r tr)) = IO_BUF_SIZE"
proof -
  have "length (take (unat (m_len r)) (m_data r) @ [0]) \<le> 400" if "\<not> 399 < m_len r"
    using that by (simp add: word_less_nat_alt)
  with assms show ?thesis by (simp add: take_reply_def Let_def del: length_append)
qed

lemma take_reply_sel [simp]:
  "msg_seq_nr (take_reply r tr) = msg_seq_nr tr" "t_wq (take_reply r tr) = t_wq tr"
  "t_rnw (take_reply r tr) = t_rnw tr" "t_dirty (take_reply r tr) = t_dirty tr"
  "t_valid (take_reply r tr)"
  by (simp_all add: take_reply_def print_buf_def Let_def)

text \<open>The text of a numerical reply.\<close>

lemma take_reply_value:
  assumes "length (t_buf tr) = IO_BUF_SIZE" and "m_type r = RES_RD_VAL \<or> m_type r = RES_RD_MIN \<or> m_type r = RES_RD_MAX"
  defines "t \<equiv> dec (sint (m_val r)) @ [10]"
  shows "take_reply r tr = tr\<lparr>t_buf := memcpy_to (t_buf tr) (t @ [0]), t_len := int (length t),
    t_err := 0, t_valid := True\<rparr>" and "length t \<le> 12"
proof -
  show l: "length t \<le> 12" using length_dec_s32 [of "m_val r"] by (simp add: t_def)
  have "print_buf 400 t tr = tr\<lparr>t_buf := memcpy_to (t_buf tr) (t @ [0]), t_len := int (length t)\<rparr>"
    using l by (simp add: print_buf_def)
  with assms(2) show "take_reply r tr = tr\<lparr>t_buf := memcpy_to (t_buf tr) (t @ [0]), t_len := int (length t),
    t_err := 0, t_valid := True\<rparr>"
    by (auto simp: take_reply_def t_def)
qed

lemma find_pending_total:
  "\<forall>t \<in> set ts. h t \<noteq> None \<Longrightarrow>
   find_pending q h ts = Some (List.find (\<lambda>t. msg_seq_nr (the (h t)) = q) ts)"
  by (induction ts) auto

lemma find_unique:
  assumes "t \<in> set ts" and "p t" and "\<forall>u \<in> set ts. p u \<longrightarrow> u = t"
  shows "List.find p ts = Some t"
  using assms
proof (induction ts)
  case (Cons a ts)
  show ?case
  proof (cases "p a")
    case True
    with Cons.prems(3) show ?thesis by simp
  next
    case False
    with Cons.prems(1,2) have t: "t \<in> set ts" by auto
    have "\<forall>u \<in> set ts. p u \<longrightarrow> u = t" using Cons.prems(3) by (meson list.set_intros(2))
    from Cons.IH [OF t Cons.prems(2) this] False show ?thesis by (simp only: List.find.simps if_False)
  qed
qed simp

definition seq_of :: "'a klink_scheme \<Rightarrow> nat \<Rightarrow> u32" where
  "seq_of s t = msg_seq_nr (the (k_heap s t))"

text \<open>Pending requests have different sequence numbers, none of them the next one.\<close>

definition seqs_ok :: "'a klink_scheme \<Rightarrow> bool" where
  "seqs_ok s \<longleftrightarrow> inj_on (seq_of s) (set (pending_list s)) \<and> k_seq s \<notin> seq_of s ` set (pending_list s)"

lemma pending_heap: "link_inv s \<Longrightarrow> t \<in> set (pending_list s) \<Longrightarrow> \<exists>tr. k_heap s t = Some tr"
  by (rule link_inv_linked) (simp_all add: linked_def)

lemma cb_unmatched:
  assumes "link_inv s" and "m_seq (dec_msg data) \<notin> seq_of s ` set (pending_list s)"
  shows "cfg_mgmt_rpmsg_cb data s = Some s"
proof -
  note h = link_invD(1) [OF assms(1)]
  have "find_pending (m_seq (dec_msg data)) (k_heap s) (pending_list s) = Some None"
    using assms(2) pending_heap [OF assms(1)]
    by (subst find_pending_total) (auto simp: find_None_iff image_iff simp flip: seq_of_def)
  with h show ?thesis
    by (auto simp: cfg_mgmt_rpmsg_cb_def spin_lock_free spin_unlock_def Let_def intro!: klink.equality)
qed

text \<open>The state after the reply \<open>r\<close> was given to the transaction \<open>t\<close>.\<close>

definition replied :: "nat \<Rightarrow> rpmsg_link_transaction \<Rightarrow> cfgMsg \<Rightarrow> 'a klink_scheme \<Rightarrow> 'a klink_scheme" where
  "replied t tr r s = s\<lparr>pending_list := remove1 t (pending_list s),
    k_n_vars := (if m_type r = RES_N_VARS then sint (m_val r) else k_n_vars s),
    k_heap := (k_heap s)(t := Some (take_reply r tr)),
    k_wakes := (if t_wq tr then Suc (k_wakes s) else k_wakes s)\<rparr>"

lemma cb_eq:
  assumes "link_inv s" and "length data = 420"
  shows "cfg_mgmt_rpmsg_cb data s =
    (case List.find (\<lambda>t. seq_of s t = m_seq (dec_msg data)) (pending_list s) of
       None \<Rightarrow> Some s | Some t \<Rightarrow> Some (replied t (the (k_heap s t)) (dec_msg data) s))"
proof -
  note h = link_invD(1) [OF assms(1)]
  have f: "find_pending (m_seq (dec_msg data)) (k_heap s) (pending_list s) =
    Some (List.find (\<lambda>t. seq_of s t = m_seq (dec_msg data)) (pending_list s))"
    using pending_heap [OF assms(1)] by (subst find_pending_total) (auto simp: seq_of_def)
  show ?thesis
  proof (cases "List.find (\<lambda>t. seq_of s t = m_seq (dec_msg data)) (pending_list s)")
    case None
    with f h show ?thesis
      by (auto simp: cfg_mgmt_rpmsg_cb_def spin_lock_free spin_unlock_def Let_def intro!: klink.equality)
  next
    case (Some t)
    then have "t \<in> set (pending_list s)" by (auto simp: find_Some_iff)
    then obtain tr where "k_heap s t = Some tr" using pending_heap [OF assms(1)] by blast
    with Some f h assms(2) show ?thesis
      by (auto simp: cfg_mgmt_rpmsg_cb_def spin_lock_free spin_unlock_def Let_def upd_trans_def replied_def
          intro!: klink.equality)
  qed
qed

lemma cb_matched:
  assumes "link_inv s" and "inj_on (seq_of s) (set (pending_list s))" and "length data = 420"
    and "t \<in> set (pending_list s)" and "k_heap s t = Some tr" and "m_seq (dec_msg data) = msg_seq_nr tr"
  shows "cfg_mgmt_rpmsg_cb data s = Some (replied t tr (dec_msg data) s)"
proof -
  have "List.find (\<lambda>t. seq_of s t = m_seq (dec_msg data)) (pending_list s) = Some t"
  proof (intro find_unique ballI impI)
    have t: "seq_of s t = m_seq (dec_msg data)" using assms(5,6) by (simp add: seq_of_def)
    then show "seq_of s t = m_seq (dec_msg data)" .
    fix u assume "u \<in> set (pending_list s)" "seq_of s u = m_seq (dec_msg data)"
    with t show "u = t" by (intro inj_onD [OF assms(2) _ _ assms(4)]) auto
  qed (rule assms(4))
  with assms(5) show ?thesis by (simp add: cb_eq [OF assms(1,3)])
qed

text \<open>Whatever arrives, the callback returns, and it changes one pending transaction at most.\<close>

lemma cb_cases:
  assumes "link_inv s" and "cfg_mgmt_rpmsg_cb data s = Some s'"
  obtains "s' = s"
  | t tr where "t \<in> set (pending_list s)" "k_heap s t = Some tr" "s' = replied t tr (dec_msg data) s"
proof (cases "length data = 420")
  case False
  with assms(2) have "s' = s" by (simp add: cfg_mgmt_rpmsg_cb_def)
  then show ?thesis by (rule that(1))
next
  case True
  show ?thesis
  proof (cases "List.find (\<lambda>t. seq_of s t = m_seq (dec_msg data)) (pending_list s)")
    case None
    with assms(2) cb_eq [OF assms(1) True] that(1) show ?thesis by simp
  next
    case (Some t)
    then have t: "t \<in> set (pending_list s)" by (auto simp: find_Some_iff)
    then obtain tr where "k_heap s t = Some tr" using pending_heap [OF assms(1)] by blast
    with Some assms(2) cb_eq [OF assms(1) True] that(2) t show ?thesis by simp
  qed
qed

lemma cb_returns:
  assumes "link_inv s"
  shows "\<exists>s'. cfg_mgmt_rpmsg_cb data s = Some s'"
proof (cases "length data = 420")
  case True
  then show ?thesis by (simp add: cb_eq [OF assms True] split: option.split)
qed (simp add: cfg_mgmt_rpmsg_cb_def)

lemma replied_inv:
  assumes "link_inv s" and "t \<in> set (pending_list s)" and "k_heap s t = Some tr"
  shows "link_inv (replied t tr r s)" and "seqs_ok s \<Longrightarrow> seqs_ok (replied t tr r s)"
proof -
  have d: "distinct (pending_list s)" by (rule link_invD [OF assms(1)])
  have "length (t_buf (take_reply r tr)) = IO_BUF_SIZE"
    by (rule take_reply_size) (rule link_inv_buf [OF assms(1,3)])
  moreover have "t < k_next s" by (rule link_inv_next [OF assms(1,3)])
  ultimately show "link_inv (replied t tr r s)"
    using assms(1) d by (auto simp: link_inv_def linked_def replied_def dest: notin_set_remove1)
  have "seq_of (replied t tr r s) u = seq_of s u" for u using assms(3) by (simp add: seq_of_def replied_def)
  then show "seqs_ok (replied t tr r s)" if "seqs_ok s"
    using that d unfolding seqs_ok_def inj_on_def by (auto simp: image_iff replied_def)
qed

lemma cb_total:
  assumes "link_inv s"
  shows "\<exists>s'. cfg_mgmt_rpmsg_cb data s = Some s' \<and> link_inv s' \<and> (seqs_ok s \<longrightarrow> seqs_ok s')"
proof -
  obtain s' where r: "cfg_mgmt_rpmsg_cb data s = Some s'" using cb_returns [OF assms] by blast
  show ?thesis
  proof (cases rule: cb_cases [OF assms r])
    case 1
    with r assms show ?thesis by blast
  next
    case (2 t tr)
    from replied_inv [OF assms 2(1,2), of "dec_msg data"] r 2(3) show ?thesis by blast
  qed
qed

section \<open>Requests\<close>

text \<open>The request \<open>access_var\<close> sends, and what it leaves behind.\<close>

definition request_for :: "s32 \<Rightarrow> access_t \<Rightarrow> bool \<Rightarrow> s32 \<Rightarrow> 'a klink_scheme \<Rightarrow> cfgMsg" where
  "request_for index acc rnw v s = (av_req s)\<lparr>m_ind := index, m_val := v, m_len := 0,
     m_type := req_type acc rnw, m_seq := k_seq s\<rparr>"

definition requested :: "nat \<Rightarrow> rpmsg_link_transaction \<Rightarrow> cfgMsg \<Rightarrow> 'a klink_scheme \<Rightarrow> 'a klink_scheme" where
  "requested t tr m s = s\<lparr>av_req := m, k_seq := k_seq s + 1,
     k_heap := (k_heap s)(t := Some (tr\<lparr>msg_seq_nr := k_seq s\<rparr>)), pending_list := t # pending_list s,
     k_send_rets := tl (k_send_rets s),
     k_sent := (if hd (k_send_rets s) = 0 then k_sent s @ [m] else k_sent s)\<rparr>"

text \<open>The value a request carries: the number in the buffer when a value is written.\<close>

definition write_arg :: "kapi \<Rightarrow> access_t \<Rightarrow> rpmsg_link_transaction \<Rightarrow> s32 \<Rightarrow> bool" where
  "write_arg k acc tr v \<longleftrightarrow> (if acc = ACC_VAL \<and> \<not> t_rnw tr
     then 0 \<in> set (t_buf tr) \<and> kstrtol k (cstring_of (t_buf tr)) 0 = (0, v) else v = 0)"

lemma access_var_eq:
  assumes "link_inv s" and "rpmsg_chnl s" and "owned s t" and "k_heap s t = Some tr"
    and "write_arg k acc tr v" and "k_send_rets s = r # rs"
  shows "access_var k index acc (Some t) s =
    Some (r, requested t tr (request_for index acc (t_rnw tr) v s) s)"
proof -
  have h: "k_held s = (\<lambda>_. False)" by (rule link_invD [OF assms(1)])
  have nl: "t \<notin> set (pending_list s)" "t \<notin> set (unused_list s)"
    using assms(3) by (auto simp: owned_def linked_def)
  have arg: "(if acc = ACC_VAL \<and> \<not> t_rnw tr
     then if 0 \<in> set (t_buf tr) then Some (kstrtol k (cstring_of (t_buf tr)) 0) else None
     else Some (0, 0)) = Some (0, v)"
    using assms(5) by (auto simp: write_arg_def split: if_splits)
  show ?thesis
    using assms(2,4,6) h nl
    by (auto simp: access_var_def arg get_next_seq_eq upd_trans_def add_pend_trans_def spin_lock_free
        spin_unlock_def linked_def k_rpmsg_send_def requested_def request_for_def Let_def
        intro!: klink.equality)
qed

lemma access_var_no_channel: "\<not> rpmsg_chnl s \<Longrightarrow> access_var k index acc tp s = Some (- EINVAL, s)"
  by (simp add: access_var_def)

lemma access_var_bad_text:
  assumes "rpmsg_chnl s" and "k_heap s t = Some tr" and "\<not> t_rnw tr" and "0 \<in> set (t_buf tr)"
    and "kstrtol k (cstring_of (t_buf tr)) 0 = (e, v)" and "e \<noteq> 0"
  shows "\<exists>m. access_var k index ACC_VAL (Some t) s = Some (e, s\<lparr>av_req := m\<rparr>)"
  using assms by (auto simp: access_var_def Let_def)

lemma requested_inv:
  assumes "link_inv s" and "seqs_ok s" and "owned s t" and "k_heap s t = Some tr"
    and "k_seq s + 1 \<notin> seq_of s ` set (pending_list s)"
  shows "link_inv (requested t tr m s)" and "seqs_ok (requested t tr m s)"
proof -
  let ?s = "requested t tr m s"
  have nl: "t \<notin> set (pending_list s)" "t \<notin> set (unused_list s)"
    using assms(3) by (auto simp: owned_def linked_def)
  show "link_inv ?s"
    using assms(1,4) nl by (auto simp: link_inv_def linked_def requested_def)
  have "seq_of ?s u = seq_of s u" if "u \<in> set (pending_list s)" for u
    using that nl by (auto simp: seq_of_def requested_def)
  moreover have "seq_of ?s t = k_seq s" by (simp add: seq_of_def requested_def)
  moreover have "pending_list ?s = t # pending_list s" "k_seq ?s = k_seq s + 1"
    by (simp_all add: requested_def)
  ultimately show "seqs_ok ?s"
    using assms(2,5) nl unfolding seqs_ok_def by (auto simp: inj_on_def image_iff)
qed

section \<open>Transactions in use\<close>

text \<open>\<open>held_by F s\<close>: the transactions of \<open>F\<close> are in use by open files, so they are allocated
  and not free for anybody else. Every operation keeps this, for the set of the caller and
  all others.\<close>

definition held_by :: "nat set \<Rightarrow> 'a klink_scheme \<Rightarrow> bool" where
  "held_by F s \<longleftrightarrow> link_inv s \<and> (\<forall>t \<in> F. k_heap s t \<noteq> None \<and> t \<notin> set (unused_list s))"

lemma upd_trans_held:
  assumes "held_by F s" and "upd_trans t f s = Some s'" and "\<And>tr. length (t_buf (f tr)) = length (t_buf tr)"
  shows "held_by F s'"
proof -
  obtain tr where tr: "k_heap s t = Some tr" "s' = s\<lparr>k_heap := (k_heap s)(t := Some (f tr))\<rparr>"
    using assms(2) by (auto simp: upd_trans_def split: option.splits)
  have inv: "link_inv s" using assms(1) by (simp add: held_by_def)
  note n = link_inv_next [OF inv tr(1)] link_inv_buf [OF inv tr(1)]
  have "link_inv s'"
    using inv n assms(3) [of tr] unfolding tr(2) by (auto simp: link_inv_def linked_def)
  with assms(1) tr(2) show ?thesis by (auto simp: held_by_def)
qed

lemma cb_held:
  assumes "held_by F s" and "cfg_mgmt_rpmsg_cb data s = Some s'"
  shows "held_by F s'"
proof -
  have inv: "link_inv s" using assms(1) by (simp add: held_by_def)
  show ?thesis
  proof (cases rule: cb_cases [OF inv assms(2)])
    case 1
    with assms(1) show ?thesis by simp
  next
    case (2 t tr)
    from replied_inv(1) [OF inv 2(1,2)] assms(1) 2(3) show ?thesis
      by (auto simp: held_by_def replied_def)
  qed
qed

lemma sched_held [simp]: "held_by F (s\<lparr>k_sched := es\<rparr>) = held_by F s"
  by (simp add: held_by_def link_inv_def linked_def)

lemma wait_sleep_held:
  "held_by F s \<Longrightarrow> wait_sleep c es s = Some (r, s') \<Longrightarrow> held_by F s'"
proof (induction c es s rule: wait_sleep.induct)
  case (3 c m es s)
  from "3.prems"(2) obtain s1 where s1: "cfg_mgmt_rpmsg_cb m (s\<lparr>k_sched := es\<rparr>) = Some s1"
    "(if k_wakes s1 \<noteq> k_wakes s \<and> c s1 then Some (0, s1) else wait_sleep c es s1) = Some (r, s')"
    by (auto split: bind_split_asm)
  have "held_by F s1" using cb_held [OF _ s1(1)] "3.prems"(1) by simp
  with s1 "3.IH" show ?case by (auto split: if_splits)
qed auto

lemma wait_event_held: "held_by F s \<Longrightarrow> wait_event c s = Some (r, s') \<Longrightarrow> held_by F s'"
  by (auto simp: wait_event_def wait_sleep_held split: if_splits)

lemma send_held: "held_by F s \<Longrightarrow> k_rpmsg_send m s = Some (r, s') \<Longrightarrow> held_by F s'"
  by (auto simp: k_rpmsg_send_def held_by_def link_inv_def linked_def split: list.splits)

lemma alloc_held:
  assumes "held_by F s" and "rpmsg_link_alloc_trans s = Some (t, s')"
  shows "held_by (insert t F) s'" and "t \<notin> F"
proof -
  have inv: "link_inv s" using assms(1) by (simp add: held_by_def)
  show "t \<notin> F"
    using assms link_invD(5) [OF inv] by (cases rule: alloc_cases [OF inv assms(2)]) (auto simp: held_by_def)
  show "held_by (insert t F) s'"
    using alloc_ok(1,2) [OF inv assms(2)] assms(1)
    by (cases rule: alloc_cases [OF inv assms(2)]) (auto simp: held_by_def owned_def linked_def)
qed

lemma return_held:
  assumes "held_by F s" and "t \<in> F" and "rpmsg_link_return_trans t s = Some s'"
  shows "held_by (F - {t}) s'"
proof -
  have inv: "link_inv s" using assms(1) by (simp add: held_by_def)
  have "\<not> linked s t" using assms(3) by (auto simp: rpmsg_link_return_trans_def split: if_splits)
  with assms(1,2) have "owned s t" by (auto simp: owned_def held_by_def)
  from return_ok [OF inv this] return_eq [OF inv this] assms show ?thesis
    by (auto simp: held_by_def)
qed

lemma access_var_held:
  assumes "held_by F s" and "access_var k index acc (Some t) s = Some (r, s')"
  shows "held_by F s'"
proof (cases "rpmsg_chnl s")
  case False
  with assms show ?thesis by (simp add: access_var_no_channel)
next
  case True
  have inv: "link_inv s" using assms(1) by (simp add: held_by_def)
  from assms(2) True obtain tr where tr: "k_heap s t = Some tr"
    by (auto simp: access_var_def split: bind_split_asm)
  show ?thesis
  proof (cases "\<exists>v. write_arg k acc tr v")
    case False
    with assms(2) tr True obtain m where "s' = s\<lparr>av_req := m\<rparr>"
      by (auto simp: access_var_def Let_def write_arg_def split: if_splits prod.splits)
    with assms(1) show ?thesis by (simp add: held_by_def link_inv_def linked_def)
  next
    case True
    then obtain v where v: "write_arg k acc tr v" by blast
    show ?thesis
    proof (cases "linked s t \<or> k_send_rets s = []")
      case True
      have "access_var k index acc (Some t) s = None"
        using True tr v \<open>rpmsg_chnl s\<close> link_invD(1) [OF inv]
        by (auto simp: access_var_def write_arg_def get_next_seq_eq upd_trans_def add_pend_trans_def spin_lock_free
            spin_unlock_def linked_def k_rpmsg_send_def Let_def split: if_splits)
      with assms(2) show ?thesis by simp
    next
      case False
      then obtain r' rs where rs: "k_send_rets s = r' # rs" by (cases "k_send_rets s") auto
      have own: "owned s t" using False tr by (auto simp: owned_def)
      let ?m = "request_for index acc (t_rnw tr) v s"
      have s': "s' = requested t tr ?m s"
        using access_var_eq [OF inv \<open>rpmsg_chnl s\<close> own tr v rs] assms(2) by simp
      have "link_inv s'"
        using inv tr False unfolding s' by (auto simp: link_inv_def linked_def requested_def)
      with assms(1) s' show ?thesis by (auto simp: held_by_def requested_def)
    qed
  qed
qed

section \<open>A module to run theorems on\<close>

text \<open>A kernel whose helpers behave as documented: \<open>kstrtol\<close> for decimal text with at most one
  newline behind it, and copies that never fault.\<close>

definition parse_dec :: "u8 list \<Rightarrow> int" where
  "parse_dec t = (let neg = (t \<noteq> [] \<and> hd t = 45); d = (if neg then tl t else t);
                      n = int (undigits (map (\<lambda>b. unat b - 48) d)) in if neg then - n else n)"

definition kapi_ref :: kapi where
  "kapi_ref = \<lparr>
     kstrtol = (\<lambda>t old. let d = (if t \<noteq> [] \<and> last t = 10 then butlast t else t);
                            digs = (if d \<noteq> [] \<and> hd d = 45 then tl d else d)
                in if digs \<noteq> [] \<and> list_all (\<lambda>b. 48 \<le> b \<and> b \<le> 57) digs
                   then (0, word_of_int (parse_dec d)) else (- EINVAL, old)),
     simple_read = (\<lambda>n pos b. let c = take n (drop (nat pos) b) in (int (length c), c, pos + int (length c))),
     simple_write = (\<lambda>pos d b. let c = take (length b - nat pos) d
                in (int (length c), take (nat pos) b @ c @ drop (nat pos + length c) b, pos + int (length c)))\<rparr>"

lemma digit_bytes_back: "map (\<lambda>b. unat b - 48) (map digit_byte (digits10 n)) = digits10 n"
  by (rule map_idI [THEN trans [rotated]]) (auto simp: unat_digit_byte dest: digits10_lt10)

lemma digit_bytes_range: "list_all (\<lambda>b. 48 \<le> b \<and> b \<le> 57) (map digit_byte (digits10 n))"
proof -
  have "48 \<le> digit_byte d \<and> digit_byte d \<le> 57" if "d \<in> set (digits10 n)" for d
    using digits10_lt10 [OF that] unat_digit_byte [of d] by (simp add: word_le_nat_alt)
  then show ?thesis by (simp add: list_all_iff)
qed

lemma hd_digit_bytes: "hd (map digit_byte (digits10 n)) \<noteq> 45"
  using digits10_lt10 [OF hd_in_set, of n] by (simp add: hd_map)

lemma parse_dec_dec: "parse_dec (dec i) = i"
  using hd_digit_bytes [of "nat \<bar>i\<bar>"] hd_digit_bytes [of "nat i"]
  by (simp add: parse_dec_def dec_def digit_bytes_back Let_def del: map_map)

lemma kapi_ref_kstrtol: "kstrtol_ok kapi_ref"
  unfolding kstrtol_ok_def
proof (intro allI impI)
  fix v :: s32 and old t
  assume t: "t = dec (sint v) \<or> t = dec (sint v) @ [10]"
  let ?d = "dec (sint v)"
  have d: "(if t \<noteq> [] \<and> last t = 10 then butlast t else t) = ?d"
    using t last_dec_not_newline [of "sint v"] by auto
  have "(if ?d \<noteq> [] \<and> hd ?d = 45 then tl ?d else ?d) = map digit_byte (digits10 (nat \<bar>sint v\<bar>))"
    using hd_digit_bytes [of "nat \<bar>sint v\<bar>"] hd_digit_bytes [of "nat (sint v)"] by (simp add: dec_def)
  moreover have "word_of_int (parse_dec ?d) = v" by (simp add: parse_dec_dec)
  ultimately show "kstrtol kapi_ref t old = (0, v)"
    using d digit_bytes_range [of "nat \<bar>sint v\<bar>"]
    by (cases "hd ?d = 45") (simp_all add: kapi_ref_def Let_def parse_dec_dec del: list.pred_map)
qed

lemma kapi_ref_copies: "simple_read_ok kapi_ref" "simple_write_ok kapi_ref" "write_keeps_size kapi_ref"
  by (auto simp: simple_read_ok_def simple_write_ok_def write_keeps_size_def kapi_ref_def Let_def min_def)

definition link_demo :: "bool list \<Rightarrow> int list \<Rightarrow> kevent list \<Rightarrow> 'a \<Rightarrow> 'a klink_scheme" where
  "link_demo outs rets evs x = \<lparr>k_heap = (\<lambda>t. if t < 2 then Some zero_trans else None), k_next = 2,
     pending_list = [], unused_list = [1, 0], k_held = (\<lambda>_. False), k_seq = 0, k_n_vars = -1,
     rpmsg_chnl = True, nv_req = zero_msg, av_req = zero_msg, k_outcomes = outs, k_send_rets = rets,
     k_sent = [], k_wakes = 0, k_sched = evs, \<dots> = x\<rparr>"

lemma link_demo_sel:
  "k_heap (link_demo o' r e x) = (\<lambda>t. if t < 2 then Some zero_trans else None)" "k_next (link_demo o' r e x) = 2"
  "pending_list (link_demo o' r e x) = []" "unused_list (link_demo o' r e x) = [1, 0]" "k_seq (link_demo o' r e x) = 0"
  "k_n_vars (link_demo o' r e x) = -1"
  "rpmsg_chnl (link_demo o' r e x)" "k_send_rets (link_demo o' r e x) = r" "k_sent (link_demo o' r e x) = []"
  "k_sched (link_demo o' r e x) = e" "k_outcomes (link_demo o' r e x) = o'" "av_req (link_demo o' r e x) = zero_msg"
  "klink.more (link_demo o' r e x) = x" "k_wakes (link_demo o' r e x) = 0"
  "k_held (link_demo o' r e x) = (\<lambda>_. False)" "nv_req (link_demo o' r e x) = zero_msg"
  by (simp_all add: link_demo_def)

lemma link_demo_inv: "link_inv (link_demo o' r e x)" "seqs_ok (link_demo o' r e x)"
  by (auto simp: link_inv_def seqs_ok_def linked_def link_demo_sel)

text \<open>One transaction taken from the pool, for reading.\<close>

definition link_demo1 :: "int list \<Rightarrow> kevent list \<Rightarrow> klink" where
  "link_demo1 rets evs = (link_demo [] rets evs ())\<lparr>unused_list := [1],
     k_heap := (\<lambda>t. if t = 1 then Some zero_trans else if t = 0 then Some (zero_trans\<lparr>t_rnw := True, t_wq := True\<rparr>) else None)\<rparr>"

lemma link_demo1_ok:
  "link_inv (link_demo1 r e)" "seqs_ok (link_demo1 r e)" "owned (link_demo1 r e) 0" "rpmsg_chnl (link_demo1 r e)"
  "k_heap (link_demo1 r e) 0 = Some (zero_trans\<lparr>t_rnw := True, t_wq := True\<rparr>)" "pending_list (link_demo1 r e) = []"
  "k_send_rets (link_demo1 r e) = r" "k_sent (link_demo1 r e) = []" "av_req (link_demo1 r e) = zero_msg" "k_seq (link_demo1 r e) = 0"
  by (auto simp: link_demo1_def link_demo_sel link_inv_def seqs_ok_def linked_def owned_def zero_trans_def split: if_splits)

section \<open>Properties\<close>

text \<open>C20: \<open>access_var\<close> with a transaction of the caller hands the firmware one request with the
  index, the type of the access, the parsed value and the next sequence number, and reports
  what \<open>rpmsg_send\<close> reported. The transaction waits for the reply under that number, no
  other transaction changes, and pending requests keep different sequence numbers as long
  as the oldest is not a whole period of the counter old.\<close>

theorem request_is_sent_and_pending:
  assumes "link_inv s" and "seqs_ok s" and "rpmsg_chnl s" and "owned s t" and "k_heap s t = Some tr"
    and "write_arg k acc tr v" and "k_send_rets s = r # rs"
    and "k_seq s + 1 \<notin> seq_of s ` set (pending_list s)"
  shows "\<exists>s' m. access_var k index acc (Some t) s = Some (r, s') \<and> link_inv s' \<and> seqs_ok s' \<and>
    k_sent s' = (if r = 0 then k_sent s @ [m] else k_sent s) \<and>
    m_seq m = k_seq s \<and> m_ind m = index \<and> m_type m = req_type acc (t_rnw tr) \<and> m_val m = v \<and>
    pending_list s' = t # pending_list s \<and> seq_of s' t = m_seq m \<and>
    (\<forall>u. u \<noteq> t \<longrightarrow> k_heap s' u = k_heap s u)"
proof -
  let ?m = "request_for index acc (t_rnw tr) v s"
  note run = access_var_eq [OF assms(1,3-7), of index]
  note inv = requested_inv [OF assms(1,2,4,5,8), of ?m]
  show ?thesis
    using run inv assms(7)
    by (intro exI [of _ "requested t tr ?m s"] exI [of _ ?m])
      (simp add: requested_def request_for_def seq_of_def)
qed

theorem request_is_sent_and_pending_witness:
  "\<exists>s' m. access_var kapi_ref 6 ACC_MAX (Some 0) (link_demo1 [0] []) = Some (0, s') \<and>
    k_sent s' = [m] \<and> m_type m = REQ_RD_MAX \<and> m_ind m = 6 \<and> m_seq m = 0 \<and> pending_list s' = [0]"
  using request_is_sent_and_pending [of "link_demo1 [0] []" 0 "zero_trans\<lparr>t_rnw := True, t_wq := True\<rparr>" kapi_ref ACC_MAX 0 0 "[]" 6]
  by (auto simp: link_demo1_ok write_arg_def req_type_def)

text \<open>C7: A reply completes the request with its sequence number and no other: that
  transaction leaves the pending list with the reply's text in its buffer, is valid and
  wakes the waiting process; all others stay as they were.\<close>

theorem reply_completes_its_request:
  assumes "link_inv s" and "seqs_ok s" and "t \<in> set (pending_list s)" and "length data = 420"
    and "m_seq (dec_msg data) = seq_of s t" and "k_heap s t = Some tr"
  shows "\<exists>s'. cfg_mgmt_rpmsg_cb data s = Some s' \<and> link_inv s' \<and> seqs_ok s' \<and>
    k_heap s' t = Some (take_reply (dec_msg data) tr) \<and> t_is_valid t s' \<and>
    set (pending_list s') = set (pending_list s) - {t} \<and> unused_list s' = unused_list s \<and>
    (\<forall>u. u \<noteq> t \<longrightarrow> k_heap s' u = k_heap s u) \<and> (k_wakes s' \<noteq> k_wakes s \<longleftrightarrow> t_wq tr)"
proof -
  let ?s' = "replied t tr (dec_msg data) s"
  have "cfg_mgmt_rpmsg_cb data s = Some ?s'"
    using assms by (intro cb_matched) (auto simp: seqs_ok_def seq_of_def)
  moreover have "set (pending_list ?s') = set (pending_list s) - {t}"
    using link_invD(2) [OF assms(1)] by (simp add: replied_def)
  ultimately show ?thesis
    using replied_inv [OF assms(1,3,6), of "dec_msg data"] assms(2)
    by (intro exI [of _ ?s']) (auto simp: replied_def t_is_valid_def)
qed

theorem reply_completes_its_request_witness:
  "\<exists>s1 s2. access_var kapi_ref 3 ACC_VAL (Some 0) (link_demo1 [0] []) = Some (0, s1) \<and>
    cfg_mgmt_rpmsg_cb (enc_msg (zero_msg\<lparr>m_type := RES_RD_VAL, m_val := 41\<rparr>)) s1 = Some s2 \<and>
    t_is_valid 0 s2 \<and> pending_list s2 = []"
proof -
  let ?s = "link_demo1 [0] []" and ?tr = "zero_trans\<lparr>t_rnw := True, t_wq := True\<rparr>"
  let ?m = "request_for 3 ACC_VAL True 0 ?s" and ?r = "zero_msg\<lparr>m_type := RES_RD_VAL, m_val := 41\<rparr>"
  let ?s1 = "requested 0 ?tr ?m ?s"
  have a: "access_var kapi_ref 3 ACC_VAL (Some 0) ?s = Some (0, ?s1)"
    using access_var_eq [OF link_demo1_ok(1,4,3,5), of kapi_ref ACC_VAL 0 "[0]" "[]" 0 "[]" 3]
    by (simp add: link_demo1_ok write_arg_def)
  have i: "link_inv ?s1" "seqs_ok ?s1"
    using requested_inv [OF link_demo1_ok(1,2,3,5), of "[0]" "[]" ?m] by (simp_all add: link_demo1_ok)
  have d: "length (enc_msg ?r) = 420" "dec_msg (enc_msg ?r) = ?r" by (simp_all add: zero_msg_def dec_enc_msg)
  have "m_seq ?r = 0" by (simp add: zero_msg_def)
  with reply_completes_its_request [OF i, of 0 "enc_msg ?r" "?tr\<lparr>msg_seq_nr := 0\<rparr>"] d a show ?thesis
    by (auto simp: requested_def seq_of_def link_demo1_ok)
qed

text \<open>C10: No message of the firmware harms the module: for any bytes of any length the
  callback returns, the lists and buffers stay well formed, and a message of the wrong
  length or without a waiting request changes nothing.\<close>

theorem callback_is_safe:
  assumes "link_inv s"
  shows "\<exists>s'. cfg_mgmt_rpmsg_cb data s = Some s' \<and> link_inv s' \<and> (seqs_ok s \<longrightarrow> seqs_ok s') \<and>
    (length data \<noteq> 420 \<or> m_seq (dec_msg data) \<notin> seq_of s ` set (pending_list s) \<longrightarrow> s' = s)"
proof -
  obtain s' where s': "cfg_mgmt_rpmsg_cb data s = Some s'" "link_inv s'" "seqs_ok s \<longrightarrow> seqs_ok s'"
    using cb_total [OF assms, of data] by blast
  moreover have "s' = s" if "length data \<noteq> 420 \<or> m_seq (dec_msg data) \<notin> seq_of s ` set (pending_list s)"
    using that s'(1) cb_unmatched [OF assms, of data] by (cases "length data = 420") (auto simp: cfg_mgmt_rpmsg_cb_def)
  ultimately show ?thesis by blast
qed

theorem callback_is_safe_witness:
  "\<exists>s'. cfg_mgmt_rpmsg_cb (replicate 419 255) (link_demo [] [] [] ()) = Some s' \<and> s' = link_demo [] [] [] ()"
  using callback_is_safe [OF link_demo_inv(1) [of "[]" "[]" "[]" "()"], of "replicate 419 255"] by auto

text \<open>The text a value arrives in parses back to the value: what a user read from a
  variable's file can be written to it unchanged.\<close>

theorem value_text_roundtrip:
  assumes "kstrtol_ok k" and "length (t_buf tr) = IO_BUF_SIZE"
    and "m_type r = RES_RD_VAL \<or> m_type r = RES_RD_MIN \<or> m_type r = RES_RD_MAX"
  shows "write_arg k ACC_VAL ((take_reply r tr)\<lparr>t_rnw := False\<rparr>) (m_val r) \<and>
    take (nat (t_len (take_reply r tr))) (t_buf (take_reply r tr)) = dec (sint (m_val r)) @ [10]"
proof -
  let ?t = "dec (sint (m_val r)) @ [10]"
  note tv = take_reply_value [OF assms(2,3)]
  have b: "t_buf (take_reply r tr) = ?t @ 0 # drop (Suc (length ?t)) (t_buf tr)"
    by (simp add: tv(1) memcpy_to_def)
  have "\<forall>b \<in> set ?t. b \<noteq> 0" using dec_no_nul [of "sint (m_val r)"] by auto
  then have "cstring_of (t_buf (take_reply r tr)) = ?t"
    unfolding b cstring_of_def by (simp add: takeWhile_append2)
  moreover have "kstrtol k ?t 0 = (0, m_val r)" using assms(1) by (simp add: kstrtol_ok_def)
  ultimately have "write_arg k ACC_VAL ((take_reply r tr)\<lparr>t_rnw := False\<rparr>) (m_val r)"
    using b by (simp add: write_arg_def)
  moreover have "t_len (take_reply r tr) = int (length ?t)" unfolding tv(1) by simp
  then have l: "nat (t_len (take_reply r tr)) = length ?t" by (simp only: nat_int)
  have "take (nat (t_len (take_reply r tr))) (t_buf (take_reply r tr)) = ?t" unfolding l b by simp
  ultimately show ?thesis by blast
qed

theorem value_text_roundtrip_witness:
  "write_arg kapi_ref ACC_VAL ((take_reply (zero_msg\<lparr>m_type := RES_RD_VAL, m_val := -7\<rparr>) zero_trans)\<lparr>t_rnw := False\<rparr>) (-7)"
  using value_text_roundtrip [OF kapi_ref_kstrtol, of zero_trans "zero_msg\<lparr>m_type := RES_RD_VAL, m_val := -7\<rparr>"]
  by simp

section \<open>Starting the link\<close>

lemma init_trans_ok:
  assumes "replicate n True @ bs = k_outcomes s" and "k_held s = h"
  shows "\<exists>s'. init_trans n s = Some (0, s') \<and> k_outcomes s' = bs \<and> k_held s' = h \<and>
    pending_list s' = pending_list s \<and> k_seq s' = k_seq s \<and> rpmsg_chnl s' = rpmsg_chnl s \<and>
    unused_list s' = rev [k_next s..<k_next s + n] @ unused_list s \<and> k_next s' = k_next s + n \<and>
    k_heap s' = (\<lambda>t. if k_next s \<le> t \<and> t < k_next s + n then Some zero_trans else k_heap s t)"
  using assms
proof (induction n arbitrary: s)
  case 0
  then show ?case by (auto simp: fun_eq_iff)
next
  case (Suc n)
  let ?t = "k_next s"
  let ?s = "s\<lparr>k_outcomes := replicate n True @ bs, k_heap := (k_heap s)(?t := Some zero_trans),
    k_next := Suc ?t, unused_list := ?t # unused_list s\<rparr>"
  have o: "k_outcomes s = True # replicate n True @ bs" using Suc.prems(1) by simp
  have "init_trans (Suc n) s = init_trans n ?s"
    by (simp add: kzalloc_trans_def k_outcome_def o)
  moreover have "[?t..<?t + Suc n] = ?t # [Suc ?t..<Suc ?t + n]" by (simp add: upt_rec)
  ultimately show ?case
    using Suc.IH [of ?s] Suc.prems(2) by (auto simp: fun_eq_iff)
qed

lemma init_trans_fails:
  assumes "k_outcomes s = replicate m True @ False # bs" and "m < n"
  shows "\<exists>s'. init_trans n s = Some (- ENOMEM, s') \<and> k_held s' = k_held s \<and> rpmsg_chnl s' = rpmsg_chnl s"
  using assms
proof (induction m arbitrary: s n)
  case 0
  then show ?case by (cases n) (auto simp: kzalloc_trans_def k_outcome_def)
next
  case (Suc m)
  then obtain n' where "n = Suc n'" "m < n'" by (cases n) auto
  with Suc.prems(1) Suc.IH [of "s\<lparr>k_outcomes := replicate m True @ False # bs,
      k_heap := (k_heap s)(k_next s := Some zero_trans), k_next := Suc (k_next s),
      unused_list := k_next s # unused_list s\<rparr>" n']
  show ?case by (auto simp: kzalloc_trans_def k_outcome_def)
qed

text \<open>\<open>rpmsg_link_init\<close> on an unloaded link fills the pool with sixteen transactions and
  establishes the invariant when memory is there; when an allocation fails it reports
  \<open>-ENOMEM\<close> with the lock still held, and from then on no request is queued and no reply
  processed: both wait for the lock for ever.\<close>

theorem link_init_fills_pool_or_blocks:
  assumes "pending_list s = []" and "unused_list s = []"
    and "\<forall>t tr. k_heap s t = Some tr \<longrightarrow> t < k_next s \<and> length (t_buf tr) = IO_BUF_SIZE"
    and "k_outcomes s = replicate n True @ b # bs" and "b = (16 \<le> n)"
  shows "\<exists>r s'. rpmsg_link_init s = Some (r, s') \<and> rpmsg_chnl s' \<and>
    (if 16 \<le> n then r = 0 \<and> link_inv s' \<and> seqs_ok s' \<and> length (unused_list s') = 16
     else r = - ENOMEM \<and> (\<forall>t. add_pend_trans t s' = None) \<and>
       (\<forall>d. length d = 420 \<longrightarrow> cfg_mgmt_rpmsg_cb d s' = None))"
proof (cases b)
  case True
  let ?s = "s\<lparr>rpmsg_chnl := True, k_held := (\<lambda>_. False)(PendingLock := True)\<rparr>"
  have "replicate 16 True @ (replicate (n - 16) True @ b # bs) = k_outcomes ?s"
    using True assms(4,5) by (simp flip: append_assoc replicate_add)
  from init_trans_ok [OF this refl] obtain s1 where s1: "init_trans 16 ?s = Some (0, s1)"
    "k_held s1 = (\<lambda>_. False)(PendingLock := True)" "pending_list s1 = []" "rpmsg_chnl s1"
    "unused_list s1 = rev [k_next s..<k_next s + 16]" "k_next s1 = k_next s + 16"
    "k_heap s1 = (\<lambda>t. if k_next s \<le> t \<and> t < k_next s + 16 then Some zero_trans else k_heap s t)"
    using assms(1,2) by (auto cong: if_cong)
  let ?u = "spin_unlock PendingLock s1"
  have run: "rpmsg_link_init s = Some (0, ?u)"
    by (simp add: rpmsg_link_init_def spin_lock_def s1(1))
  have h: "k_held ?u = (\<lambda>_. False)" "pending_list ?u = []" "unused_list ?u = rev [k_next s..<k_next s + 16]"
    "k_next ?u = k_next s + 16" "k_heap ?u = k_heap s1" "rpmsg_chnl ?u"
    using s1 by (simp_all add: spin_unlock_def)
  have "link_inv ?u"
    unfolding link_inv_def linked_def h s1(7)
    using assms(3) by (auto split: if_splits intro: trans_less_add1)
  then show ?thesis using True assms(5) run h by (simp add: seqs_ok_def)
next
  case False
  let ?s = "s\<lparr>rpmsg_chnl := True, k_held := (\<lambda>_. False)(PendingLock := True)\<rparr>"
  have "k_outcomes ?s = replicate n True @ False # bs" "n < 16" using False assms(4,5) by auto
  from init_trans_fails [OF this] obtain s1 where s1: "init_trans 16 ?s = Some (- ENOMEM, s1)"
    "k_held s1 = (\<lambda>_. False)(PendingLock := True)" "rpmsg_chnl s1" by auto
  have "rpmsg_link_init s = Some (- ENOMEM, s1)"
    by (simp add: rpmsg_link_init_def spin_lock_def s1(1))
  with s1 \<open>n < 16\<close> show ?thesis
    by (auto simp: add_pend_blocked cfg_mgmt_rpmsg_cb_def spin_lock_def Let_def)
qed

definition link_off :: "bool list \<Rightarrow> klink" where
  "link_off outs = (link_demo outs [] [] ())\<lparr>k_heap := (\<lambda>_. None), unused_list := [], k_next := 0, rpmsg_chnl := False\<rparr>"

theorem link_init_fills_pool_or_blocks_witness:
  "\<exists>s'. rpmsg_link_init (link_off (replicate 5 True @ [False])) = Some (- ENOMEM, s') \<and> add_pend_trans 0 s' = None"
  using link_init_fills_pool_or_blocks [of "link_off (replicate 5 True @ [False])" 5 False "[]"]
  by (auto simp: link_off_def link_demo_sel)

end
