(* ===== verification/CfgMgmt.thy ===== *)
theory CfgMgmt
  imports RpmsgLink
begin

text \<open>
  The main file of the kernel module (kernel_mod/cfg_mgmt_main.c): probing and removing the
  channel, the arrays that say which file accesses what, and the operations of the debugfs
  files. An open file is a record; the private data of an inode points into one of the
  access arrays, which here is the name of the array and an index. A debugfs call that may
  fail takes its outcome from \<open>k_outcomes\<close>, like an allocation; the created files are
  recorded in order (\<open>k_files\<close>). The global \<open>rpmsg_chnl\<close> of this file is used for log
  output only and left out.
\<close>

section \<open>State\<close>

text \<open>\<open>struct var_access_info\<close>. The arrays come from \<open>kmalloc\<close>, which does not clear them: an
  element that was not written is \<^const>\<open>None\<close>.\<close>

record var_access_info =
  acc_index :: s32
  acc_type :: access_t

datatype kdir = DirRoot | DirVal | DirMin | DirMax | DirDesc

text \<open>What the private data of an inode points to.\<close>

datatype inode_ref = LoadList | InVal nat | InMin nat | InMax nat | InDesc nat

record kmod = klink +
  val_access :: "var_access_info option list option"
  min_access :: "var_access_info option list option"
  max_access :: "var_access_info option list option"
  desc_access :: "var_access_info option list option"
  cfg_mgmt_dir_p :: bool
  val_dir_p :: bool
  min_dir_p :: bool
  max_dir_p :: bool
  desc_dir_p :: bool
  k_files :: "(kdir \<times> u8 list \<times> inode_ref) list"

record kfile =
  private_data :: "nat option"
  f_read :: bool
  f_write :: bool
  f_nonblock :: bool
  f_pos :: int
  f_inode :: inode_ref

definition inode_info :: "inode_ref \<Rightarrow> 'a kmod_scheme \<Rightarrow> var_access_info option" where
  "inode_info r s = (case r of
     LoadList \<Rightarrow> None
   | InVal i \<Rightarrow> do { a \<leftarrow> val_access s; x \<leftarrow> aget a i; x }
   | InMin i \<Rightarrow> do { a \<leftarrow> min_access s; x \<leftarrow> aget a i; x }
   | InMax i \<Rightarrow> do { a \<leftarrow> max_access s; x \<leftarrow> aget a i; x }
   | InDesc i \<Rightarrow> do { a \<leftarrow> desc_access s; x \<leftarrow> aget a i; x })"

section \<open>Loading and unloading\<close>

definition cm_init :: "int \<Rightarrow> 'a kmod_scheme \<Rightarrow> int \<times> 'a kmod_scheme" where
  "cm_init registered s = (registered, s\<lparr>cfg_mgmt_dir_p := False, val_dir_p := False, min_dir_p := False,
     max_dir_p := False, desc_dir_p := False, val_access := None, min_access := None,
     max_access := None, desc_access := None\<rparr>)"

text \<open>The result of \<open>rpmsg_link_init\<close> is dropped.\<close>

definition cfg_mgmt_probe :: "'a kmod_scheme \<Rightarrow> (int \<times> 'a kmod_scheme) option" where
  "cfg_mgmt_probe s = do {
     (_, s1) \<leftarrow> rpmsg_link_init s;
     (ok, s2) \<leftarrow> k_outcome s1;
     Some (if \<not> ok then (- ENOENT, s2\<lparr>cfg_mgmt_dir_p := False\<rparr>)
           else (0, s2\<lparr>cfg_mgmt_dir_p := True,
                       k_files := k_files s2 @ [(DirRoot, cstr ''load_list'', LoadList)]\<rparr>))
   }"

text \<open>Steps that may fail, tried in order; each is told its outcome, and the first that fails
  ends the sequence with its name.\<close>

fun try_each ::
    "('n \<times> (bool \<Rightarrow> 'a klink_scheme \<Rightarrow> 'a klink_scheme)) list \<Rightarrow> 'a klink_scheme \<Rightarrow>
     ('n option \<times> 'a klink_scheme) option" where
  "try_each [] s = Some (None, s)"
| "try_each ((n, u) # us) s = do {
     (ok, s1) \<leftarrow> k_outcome s;
     if ok then try_each us (u True s1) else Some (Some n, u False s1)
   }"

definition new_array :: "nat \<Rightarrow> bool \<Rightarrow> var_access_info option list option" where
  "new_array n ok = (if ok then Some (replicate n None) else None)"

definition alloc_mem :: "nat \<Rightarrow> 'a kmod_scheme \<Rightarrow> (int \<times> 'a kmod_scheme) option" where
  "alloc_mem n s = do {
     (failed, s1) \<leftarrow> try_each [(''val'', \<lambda>ok s. s\<lparr>val_access := new_array n ok\<rparr>),
                             (''min'', \<lambda>ok s. s\<lparr>min_access := new_array n ok\<rparr>),
                             (''max'', \<lambda>ok s. s\<lparr>max_access := new_array n ok\<rparr>),
                             (''desc'', \<lambda>ok s. s\<lparr>desc_access := new_array n ok\<rparr>)] s;
     Some (if failed = None then 0 else - ENOMEM, s1)
   }"

definition free_mem :: "'a kmod_scheme \<Rightarrow> 'a kmod_scheme" where
  "free_mem s = s\<lparr>k_files := (if cfg_mgmt_dir_p s then [] else k_files s), cfg_mgmt_dir_p := False,
     val_access := None, min_access := None, max_access := None, desc_access := None\<rparr>"

definition cfg_mgmt_remove :: "'a kmod_scheme \<Rightarrow> 'a kmod_scheme option" where
  "cfg_mgmt_remove s = map_option free_mem (rpmsg_link_exit s)"

section \<open>The files of a variable\<close>

definition debugfs_open_var ::
    "kapi \<Rightarrow> kfile \<Rightarrow> 'a kmod_scheme \<Rightarrow> (int \<times> kfile \<times> 'a kmod_scheme) option" where
  "debugfs_open_var k f s = do {
     acc \<leftarrow> inode_info (f_inode f) s;
     (t, s1) \<leftarrow> rpmsg_link_alloc_trans s;
     let f1 = f\<lparr>private_data := Some t\<rparr>;
     (returned, s2) \<leftarrow> (if f_read f then do {
         s2 \<leftarrow> upd_trans t (\<lambda>tr. tr\<lparr>t_rnw := True, t_wq := True\<rparr>) s1;
         (ret, s3) \<leftarrow> access_var k (acc_index acc) (acc_type acc) (Some t) s2;
         Some (ret = 0, s3)
       } else Some (False, s1));
     if returned then Some (0, f1, s2)
     else if f_write f then do {
       s3 \<leftarrow> upd_trans t (\<lambda>tr. tr\<lparr>t_rnw := False, t_valid := True\<rparr>) s2;
       Some (0, f1, s3)
     } else Some (0, f1, s2)
   }"

text \<open>The end of \<open>debugfs_read_var\<close>, once it has stopped waiting.\<close>

definition read_result ::
    "kapi \<Rightarrow> nat \<Rightarrow> nat \<Rightarrow> kfile \<Rightarrow> 'a kmod_scheme \<Rightarrow> (int \<times> u8 list \<times> kfile \<times> 'a kmod_scheme) option" where
  "read_result k len t f s = do {
     tr \<leftarrow> k_heap s t;
     if \<not> t_valid tr then Some (- EINVAL, [], f, s)
     else if t_err tr \<noteq> 0 then do {
       s1 \<leftarrow> upd_trans t (\<lambda>tr. if 0 < t_err tr then tr\<lparr>t_err := - t_err tr\<rparr> else tr) s;
       Some (- \<bar>t_err tr\<bar>, [], f, s1)
     } else do {
       let (r, out, pos) = simple_read k len (f_pos f) (take (nat (t_len tr)) (t_buf tr));
       Some (r, out, f\<lparr>f_pos := pos\<rparr>, s)
     }
   }"

definition debugfs_read_var ::
    "kapi \<Rightarrow> nat \<Rightarrow> kfile \<Rightarrow> 'a kmod_scheme \<Rightarrow> (int \<times> u8 list \<times> kfile \<times> 'a kmod_scheme) option" where
  "debugfs_read_var k len f s = (case private_data f of
     None \<Rightarrow> Some (- EINVAL, [], f, s)
   | Some t \<Rightarrow> do {
       tr \<leftarrow> k_heap s t;
       if \<not> t_valid tr then
         if f_nonblock f then Some (- EAGAIN, [], f, s)
         else do {
           (ret, s1) \<leftarrow> wait_event (t_is_valid t) s;
           if ret \<noteq> 0 then Some (ret, [], f, s1) else read_result k len t f s1
         }
       else read_result k len t f s
     })"

definition debugfs_write_var ::
    "kapi \<Rightarrow> u8 list \<Rightarrow> kfile \<Rightarrow> 'a kmod_scheme \<Rightarrow> (int \<times> kfile \<times> 'a kmod_scheme) option" where
  "debugfs_write_var k data f s = (case private_data f of
     None \<Rightarrow> Some (- EINVAL, f, s)
   | Some t \<Rightarrow> do {
       tr \<leftarrow> k_heap s t;
       let (r, buf, pos) = simple_write k (f_pos f) data (t_buf tr);
       s1 \<leftarrow> upd_trans t (\<lambda>tr. tr\<lparr>t_dirty := True, t_buf := buf\<rparr>) s;
       Some (r, f\<lparr>f_pos := pos\<rparr>, s1)
     })"

definition debugfs_release_var ::
    "kapi \<Rightarrow> kfile \<Rightarrow> 'a kmod_scheme \<Rightarrow> (int \<times> 'a kmod_scheme) option" where
  "debugfs_release_var k f s = (case private_data f of
     None \<Rightarrow> Some (- EINVAL, s)
   | Some t \<Rightarrow> do {
       tr \<leftarrow> k_heap s t;
       if f_write f \<and> t_dirty tr then do {
         acc \<leftarrow> inode_info (f_inode f) s;
         if acc_type acc \<noteq> ACC_VAL then do {
           s1 \<leftarrow> rpmsg_link_return_trans t s;
           Some (- EINVAL, s1)
         } else do {
           s1 \<leftarrow> upd_trans t (\<lambda>tr. tr\<lparr>t_wq := True, t_valid := False\<rparr>) s;
           (ret, s2) \<leftarrow> access_var k (acc_index acc) (acc_type acc) (Some t) s1;
           if ret \<noteq> 0 then do {
             s3 \<leftarrow> rpmsg_link_return_trans t s2;
             Some (ret, s3)
           } else do {
             (ret, s3) \<leftarrow> wait_event (t_is_valid t) s2;
             if ret \<noteq> 0 then Some (ret, s3) else do {
               tr \<leftarrow> k_heap s3 t;
               if t_err tr \<noteq> 0 then Some (- EFAULT, s3) else do {
                 s4 \<leftarrow> rpmsg_link_return_trans t s3;
                 Some (0, s4)
               }
             }
           }
         }
       } else do {
         s1 \<leftarrow> rpmsg_link_return_trans t s;
         Some (0, s1)
       }
     })"

datatype poll_flag = POLLIN | POLLRDNORM | POLLOUT | POLLWRNORM

definition debugfs_poll :: "kfile \<Rightarrow> 'a kmod_scheme \<Rightarrow> poll_flag list option" where
  "debugfs_poll f s = do {
     t \<leftarrow> private_data f;
     tr \<leftarrow> k_heap s t;
     Some (if t_valid tr then if t_rnw tr then [POLLIN, POLLRDNORM] else [POLLOUT, POLLWRNORM] else [])
   }"

section \<open>The load list\<close>

definition print_trans :: "nat \<Rightarrow> u8 list \<Rightarrow> 'a kmod_scheme \<Rightarrow> 'a kmod_scheme option" where
  "print_trans t txt s = upd_trans t (\<lambda>tr. (print_buf IO_BUF_SIZE txt tr)\<lparr>t_valid := True, t_rnw := True\<rparr>) s"

text \<open>Filling the access arrays of one index.\<close>

definition set_access :: "nat \<Rightarrow> 'a kmod_scheme \<Rightarrow> 'a kmod_scheme option" where
  "set_access i s = do {
     v \<leftarrow> val_access s; v' \<leftarrow> aset v i (Some \<lparr>acc_index = of_nat i, acc_type = ACC_VAL\<rparr>);
     mi \<leftarrow> min_access s; mi' \<leftarrow> aset mi i (Some \<lparr>acc_index = of_nat i, acc_type = ACC_MIN\<rparr>);
     ma \<leftarrow> max_access s; ma' \<leftarrow> aset ma i (Some \<lparr>acc_index = of_nat i, acc_type = ACC_MAX\<rparr>);
     de \<leftarrow> desc_access s; de' \<leftarrow> aset de i (Some \<lparr>acc_index = of_nat i, acc_type = ACC_DESC\<rparr>);
     Some (s\<lparr>val_access := Some v', min_access := Some mi', max_access := Some ma', desc_access := Some de'\<rparr>)
   }"

text \<open>The files of one variable. The name is the string in the transaction's buffer, whether
  or not the request failed.\<close>

definition create_files :: "nat \<Rightarrow> u8 list \<Rightarrow> 'a kmod_scheme \<Rightarrow> 'a kmod_scheme" where
  "create_files i name s = s\<lparr>k_files := k_files s @
     [(DirVal, name, InVal i), (DirMin, name, InMin i), (DirMax, name, InMax i), (DirDesc, name, InDesc i)]\<rparr>"

text \<open>The loop over the variables; it is left when a signal arrives.\<close>

fun load_vars :: "kapi \<Rightarrow> nat \<Rightarrow> nat list \<Rightarrow> 'a kmod_scheme \<Rightarrow> (bool \<times> 'a kmod_scheme) option" where
  "load_vars k t [] s = Some (True, s)"
| "load_vars k t (i # is) s = do {
     s1 \<leftarrow> set_access i s;
     s2 \<leftarrow> upd_trans t (\<lambda>tr. tr\<lparr>t_dirty := False, t_rnw := True, t_valid := False, t_len := 0, t_wq := True\<rparr>) s1;
     (ret, s3) \<leftarrow> access_var k (of_nat i) ACC_NAME (Some t) s2;
     if ret < 0 then load_vars k t is s3
     else do {
       (ret, s4) \<leftarrow> wait_event (t_is_valid t) s3;
       if ret \<noteq> 0 then Some (False, s4)
       else do {
         tr \<leftarrow> k_heap s4 t;
         load_vars k t is (create_files i (cstring_of (t_buf tr)) s4)
       }
     }
   }"

text \<open>The directories, in the order the code creates them; the result is the name of the one
  that failed.\<close>

definition make_dirs :: "'a kmod_scheme \<Rightarrow> (string option \<times> 'a kmod_scheme) option" where
  "make_dirs s = try_each [(''val'', \<lambda>ok s. s\<lparr>val_dir_p := ok\<rparr>), (''min'', \<lambda>ok s. s\<lparr>min_dir_p := ok\<rparr>),
                           (''max'', \<lambda>ok s. s\<lparr>max_dir_p := ok\<rparr>), (''desc'', \<lambda>ok s. s\<lparr>desc_dir_p := ok\<rparr>)] s"

definition debugfs_open_ll ::
    "kapi \<Rightarrow> kfile \<Rightarrow> 'a kmod_scheme \<Rightarrow> (int \<times> kfile \<times> 'a kmod_scheme) option" where
  "debugfs_open_ll k f s0 = do {
     (t, s1) \<leftarrow> rpmsg_link_alloc_trans s0;
     let f1 = f\<lparr>private_data := Some t\<rparr>;
     let done = (\<lambda>txt s. do { s' \<leftarrow> print_trans t txt s; Some (0, f1, s') });
     if val_access s1 \<noteq> None then
       done (cstr ''Variables list was already loaded, can't reload (unimplemented)'' @ [10]) s1
     else do {
       (n, s2) \<leftarrow> get_n_vars s1;
       if n \<le> 0 then
         done (cstr ''Can't query the number of configuration variables from BM firmware: '' @ dec n @ [10]) s2
       else do {
         (ret, s3) \<leftarrow> alloc_mem (nat n) s2;
         if ret \<noteq> 0 then done (cstr ''Memory allocation failed: '' @ dec ret @ [10]) s3
         else do {
           (failed, s4) \<leftarrow> make_dirs s3;
           case failed of
             Some d \<Rightarrow> done (cstr ''Can't create debugfs dir '' @ [39] @ cstr d @ [39] @ cstr '' 0'' @ [10]) s4
           | None \<Rightarrow> do {
               (all, s5) \<leftarrow> load_vars k t [0..<nat n] s4;
               done (if all then cstr ''ok'' @ [10] else cstr ''debugfs_open_ll: interrupted'' @ [10]) s5
             }
         }
       }
     }
   }"

section \<open>Steps of the handlers\<close>

definition put_t :: "nat \<Rightarrow> rpmsg_link_transaction \<Rightarrow> 'a klink_scheme \<Rightarrow> 'a klink_scheme" where
  "put_t t tr s = s\<lparr>k_heap := (k_heap s)(t := Some tr)\<rparr>"

lemma put_t_sel [simp]:
  "k_heap (put_t t tr s) = (k_heap s)(t := Some tr)" "pending_list (put_t t tr s) = pending_list s"
  "unused_list (put_t t tr s) = unused_list s" "k_seq (put_t t tr s) = k_seq s" "rpmsg_chnl (put_t t tr s) = rpmsg_chnl s"
  "k_send_rets (put_t t tr s) = k_send_rets s" "k_sent (put_t t tr s) = k_sent s" "k_sched (put_t t tr s) = k_sched s"
  "linked (put_t t tr s) = linked s" "av_req (put_t t tr s) = av_req s" "k_wakes (put_t t tr s) = k_wakes s"
  by (simp_all add: put_t_def linked_def fun_eq_iff)

lemma upd_trans_put: "k_heap s t = Some tr \<Longrightarrow> upd_trans t f s = Some (put_t t (f tr) s)"
  by (simp add: upd_trans_def put_t_def)

lemma put_t_inv:
  assumes "link_inv s" and "k_heap s t = Some tr" and "length (t_buf tr') = IO_BUF_SIZE"
  shows "link_inv (put_t t tr' s)"
  using assms link_inv_next [OF assms(1,2)] by (auto simp: link_inv_def linked_def put_t_def)

lemma put_t_seqs: "t \<notin> set (pending_list s) \<Longrightarrow> seqs_ok (put_t t tr s) = seqs_ok s"
  unfolding seqs_ok_def inj_on_def by (auto simp: seq_of_def image_iff)

lemma put_t_image: "t \<notin> P \<Longrightarrow> seq_of (put_t t tr s) ` P = seq_of s ` P"
  by (rule image_cong) (auto simp: seq_of_def)

lemma put_t_put_t [simp]: "put_t t tr (put_t t tr' s) = put_t t tr s"
  by (simp add: put_t_def)

lemma wait_event_now: "c s \<Longrightarrow> wait_event c s = Some (0, s)"
  by (simp add: wait_event_def)

text \<open>A sleeping process is woken by the reply to its request.\<close>

lemma wait_for_reply:
  assumes "link_inv s" and "seqs_ok s" and "t \<in> set (pending_list s)" and "k_heap s t = Some tr"
    and "t_wq tr" and "\<not> t_valid tr" and "k_sched s = KMsg d # es" and "length d = 420"
    and "m_seq (dec_msg d) = msg_seq_nr tr"
  shows "wait_event (t_is_valid t) s = Some (0, replied t tr (dec_msg d) (s\<lparr>k_sched := es\<rparr>))"
proof -
  let ?s = "s\<lparr>k_sched := es\<rparr>"
  have "link_inv ?s" using assms(1) by (simp add: link_inv_def linked_def)
  moreover have "inj_on (seq_of ?s) (set (pending_list ?s))"
    using assms(2) by (simp add: seqs_ok_def inj_on_def seq_of_def)
  ultimately have "cfg_mgmt_rpmsg_cb d ?s = Some (replied t tr (dec_msg d) ?s)"
    using assms by (intro cb_matched) simp_all
  then show ?thesis
    using assms(4-7) by (simp add: wait_event_def t_is_valid_def replied_def)
qed

lemma requested_sel [simp]:
  "k_heap (requested t tr m s) = (k_heap s)(t := Some (tr\<lparr>msg_seq_nr := k_seq s\<rparr>))"
  "pending_list (requested t tr m s) = t # pending_list s" "unused_list (requested t tr m s) = unused_list s"
  "k_seq (requested t tr m s) = k_seq s + 1" "k_sched (requested t tr m s) = k_sched s"
  "k_send_rets (requested t tr m s) = tl (k_send_rets s)" "rpmsg_chnl (requested t tr m s) = rpmsg_chnl s"
  "k_sent (requested t tr m s) = (if hd (k_send_rets s) = 0 then k_sent s @ [m] else k_sent s)"
  "av_req (requested t tr m s) = m"
  by (simp_all add: requested_def)

lemma replied_sel [simp]:
  "k_heap (replied t tr r s) = (k_heap s)(t := Some (take_reply r tr))"
  "pending_list (replied t tr r s) = remove1 t (pending_list s)" "unused_list (replied t tr r s) = unused_list s"
  "k_seq (replied t tr r s) = k_seq s" "k_sched (replied t tr r s) = k_sched s"
  "k_send_rets (replied t tr r s) = k_send_rets s" "rpmsg_chnl (replied t tr r s) = rpmsg_chnl s"
  "k_sent (replied t tr r s) = k_sent s" "av_req (replied t tr r s) = av_req s"
  by (simp_all add: replied_def)

text \<open>The transaction as \<open>debugfs_open_var\<close> prepares it for reading.\<close>

definition read_trans :: rpmsg_link_transaction where
  "read_trans = zero_trans\<lparr>t_rnw := True, t_wq := True\<rparr>"

lemma read_trans_sel [simp]:
  "t_rnw read_trans" "t_wq read_trans" "\<not> t_valid read_trans" "\<not> t_dirty read_trans" "length (t_buf read_trans) = IO_BUF_SIZE"
  "t_err read_trans = 0"
  by (simp_all add: read_trans_def zero_trans_def)

definition taken :: "nat \<Rightarrow> nat list \<Rightarrow> rpmsg_link_transaction \<Rightarrow> 'a klink_scheme \<Rightarrow> 'a klink_scheme" where
  "taken t ts tr s = put_t t tr (s\<lparr>unused_list := ts\<rparr>)"

lemma taken_sel [simp]:
  "k_heap (taken t ts tr s) = (k_heap s)(t := Some tr)" "pending_list (taken t ts tr s) = pending_list s"
  "unused_list (taken t ts tr s) = ts" "k_seq (taken t ts tr s) = k_seq s" "rpmsg_chnl (taken t ts tr s) = rpmsg_chnl s"
  "k_send_rets (taken t ts tr s) = k_send_rets s" "k_sent (taken t ts tr s) = k_sent s" "k_sched (taken t ts tr s) = k_sched s"
  "av_req (taken t ts tr s) = av_req s"
  by (simp_all add: taken_def)

lemma alloc_taken:
  assumes "link_inv s" and "unused_list s = t # ts"
  shows "rpmsg_link_alloc_trans s = Some (t, taken t ts zero_trans s)"
  using alloc_reuse [OF assms] by (simp add: taken_def put_t_def)

lemma taken_inv:
  assumes "link_inv s" and "unused_list s = t # ts" and "length (t_buf tr) = IO_BUF_SIZE"
  shows "link_inv (taken t ts tr s)" "owned (taken t ts tr s) t" "seqs_ok (taken t ts tr s) = seqs_ok s"
    "seq_of (taken t ts tr s) ` set (pending_list s) = seq_of s ` set (pending_list s)"
proof -
  have p: "t \<notin> set (pending_list s)" "t \<notin> set ts" "distinct ts"
    using link_invD(3,4) [OF assms(1)] assms(2) by auto
  obtain tr0 where tr0: "k_heap s t = Some tr0"
    using link_inv_linked [OF assms(1), of t] assms(2) by (auto simp: linked_def)
  have "link_inv (s\<lparr>unused_list := ts\<rparr>)" using assms(1,2) by (auto simp: link_inv_def linked_def)
  then show "link_inv (taken t ts tr s)"
    unfolding taken_def using tr0 assms(3) by (intro put_t_inv) auto
  show "owned (taken t ts tr s) t" using p by (simp add: owned_def linked_def)
  have e: "seq_of (taken t ts tr s) u = seq_of s u" if "u \<in> set (pending_list s)" for u
    using that p by (auto simp: seq_of_def)
  then show "seq_of (taken t ts tr s) ` set (pending_list s) = seq_of s ` set (pending_list s)"
    by (rule image_cong [OF refl])
  with e show "seqs_ok (taken t ts tr s) = seqs_ok s" by (simp add: seqs_ok_def inj_on_def)
qed

lemma inode_info_frame [simp]:
  "inode_info r (put_t t tr s) = inode_info r s" "inode_info r (taken t ts tr s) = inode_info r s"
  "inode_info r (requested t tr m s) = inode_info r s" "inode_info r (replied t tr q s) = inode_info r s"
  "inode_info r (s\<lparr>k_sched := es\<rparr>) = inode_info r s"
  by (simp_all add: inode_info_def put_t_def taken_def requested_def replied_def split: inode_ref.split)

text \<open>Opening for reading sends the request and returns at once.\<close>

lemma open_read_eq:
  fixes s :: "'a kmod_scheme"
  assumes "link_inv s" and "unused_list s = t # ts" and "rpmsg_chnl s"
    and "inode_info (f_inode f) s = Some acc" and "f_read f" and "k_send_rets s = 0 # rs"
  shows "debugfs_open_var k f s = Some (0, f\<lparr>private_data := Some t\<rparr>,
    requested t read_trans (request_for (acc_index acc) (acc_type acc) True 0 s) (taken t ts read_trans s))"
proof -
  let ?s = "taken t ts read_trans s"
  note inv = taken_inv [OF assms(1,2), of read_trans]
  have "upd_trans t (\<lambda>tr. tr\<lparr>t_rnw := True, t_wq := True\<rparr>) (taken t ts zero_trans s) = Some ?s"
    by (subst upd_trans_put [of _ _ zero_trans]) (simp_all add: taken_def read_trans_def)
  moreover have "access_var k (acc_index acc) (acc_type acc) (Some t) ?s =
    Some (0, requested t read_trans (request_for (acc_index acc) (acc_type acc) True 0 ?s) ?s)"
    using access_var_eq [OF inv(1), of t read_trans k "acc_type acc" 0 0 rs "acc_index acc"] inv(2) assms(3,6)
    by (simp add: write_arg_def)
  moreover have "request_for i a r v ?s = request_for i a r v s" for i a r v by (simp add: request_for_def)
  ultimately show ?thesis
    using assms(4,5) by (simp add: debugfs_open_var_def alloc_taken [OF assms(1,2)])
qed

text \<open>What opening for reading leaves behind, in the terms the other handlers need.\<close>

lemma open_read_ok:
  fixes s :: "'a kmod_scheme"
  assumes "link_inv s" and "seqs_ok s" and "unused_list s = t # ts" and "rpmsg_chnl s"
    and "inode_info (f_inode f) s = Some acc" and "f_read f" and "k_send_rets s = 0 # rs"
    and "k_seq s + 1 \<notin> seq_of s ` set (pending_list s)"
  defines "m \<equiv> request_for (acc_index acc) (acc_type acc) True 0 s"
  defines "s1 \<equiv> requested t read_trans m (taken t ts read_trans s)"
  shows "debugfs_open_var k f s = Some (0, f\<lparr>private_data := Some t\<rparr>, s1)"
    "link_inv s1" "seqs_ok s1" "k_heap s1 t = Some (read_trans\<lparr>msg_seq_nr := k_seq s\<rparr>)"
    "pending_list s1 = t # pending_list s" "k_sent s1 = k_sent s @ [m]" "k_sched s1 = k_sched s"
    "rpmsg_chnl s1" "k_send_rets s1 = rs" "k_seq s1 = k_seq s + 1" "unused_list s1 = ts"
    "\<And>r. inode_info r s1 = inode_info r s"
proof -
  note inv = taken_inv [OF assms(1,3), of read_trans]
  show "debugfs_open_var k f s = Some (0, f\<lparr>private_data := Some t\<rparr>, s1)"
    using open_read_eq [OF assms(1,3-7)] by (simp add: s1_def m_def)
  show "link_inv s1" "seqs_ok s1"
    unfolding s1_def using requested_inv [OF inv(1) _ inv(2), of read_trans] inv(3,4) assms(2,8) by simp_all
  show "inode_info r s1 = inode_info r s" for r by (simp add: s1_def)
qed (use assms(4,7) in \<open>simp_all add: s1_def\<close>)

text \<open>A blocked reader gets the text of the reply.\<close>

lemma read_after_reply:
  assumes "link_inv s" and "seqs_ok s" and "t \<in> set (pending_list s)" and "k_heap s t = Some tr"
    and "t_wq tr" and "\<not> t_valid tr" and "k_sched s = KMsg d # es" and "length d = 420"
    and "m_seq (dec_msg d) = msg_seq_nr tr" and "private_data f = Some t" and "\<not> f_nonblock f"
  shows "debugfs_read_var k n f s =
    read_result k n t f (replied t tr (dec_msg d) (s\<lparr>k_sched := es\<rparr>))"
  using assms(4,6,10,11) wait_for_reply [OF assms(1-9)] by (simp add: debugfs_read_var_def)

lemma read_result_text:
  fixes n :: nat
  assumes "simple_read_ok k" and "k_heap s t = Some tr" and "t_valid tr" and "t_err tr = 0" and "0 \<le> f_pos f"
  defines "c \<equiv> take n (drop (nat (f_pos f)) (take (nat (t_len tr)) (t_buf tr)))"
  shows "read_result k n t f s = Some (int (length c), c, f\<lparr>f_pos := f_pos f + int (length c)\<rparr>, s)"
  using assms by (simp add: read_result_def simple_read_ok_def Let_def)

text \<open>A module with one variable, its four files and a pool of two transactions.\<close>

definition kmod_demo :: "bool list \<Rightarrow> int list \<Rightarrow> kevent list \<Rightarrow> kmod" where
  "kmod_demo outs rets evs = link_demo outs rets evs
     (kmod.kmod_ext (Some [Some \<lparr>acc_index = 0, acc_type = ACC_VAL\<rparr>]) (Some [Some \<lparr>acc_index = 0, acc_type = ACC_MIN\<rparr>])
        (Some [Some \<lparr>acc_index = 0, acc_type = ACC_MAX\<rparr>]) (Some [Some \<lparr>acc_index = 0, acc_type = ACC_DESC\<rparr>])
        True True True True True [] ())"

lemma kmod_demo_sel:
  "unused_list (kmod_demo o' r e) = [1, 0]" "pending_list (kmod_demo o' r e) = []" "k_seq (kmod_demo o' r e) = 0"
  "rpmsg_chnl (kmod_demo o' r e)" "k_send_rets (kmod_demo o' r e) = r" "k_sent (kmod_demo o' r e) = []"
  "k_sched (kmod_demo o' r e) = e" "link_inv (kmod_demo o' r e)" "seqs_ok (kmod_demo o' r e)" "av_req (kmod_demo o' r e) = zero_msg"
  "inode_info (InVal 0) (kmod_demo o' r e) = Some \<lparr>acc_index = 0, acc_type = ACC_VAL\<rparr>"
  "inode_info (InMax 0) (kmod_demo o' r e) = Some \<lparr>acc_index = 0, acc_type = ACC_MAX\<rparr>"
  by (simp_all add: kmod_demo_def link_demo_sel link_demo_inv)
    (simp_all add: inode_info_def link_demo_def aget_def)

definition file_of :: "bool \<Rightarrow> bool \<Rightarrow> bool \<Rightarrow> inode_ref \<Rightarrow> kfile" where
  "file_of r w nb i = \<lparr>private_data = None, f_read = r, f_write = w, f_nonblock = nb, f_pos = 0, f_inode = i\<rparr>"

section \<open>Properties\<close>

text \<open>Reading a variable's value, minimum or maximum file: opening it sends exactly the
  matching request; a blocking read sleeps until the reply with the request's number
  arrives and returns the reply's value as a line of decimal text.\<close>

theorem read_file_returns_value:
  fixes s :: "'a kmod_scheme"
  assumes "link_inv s" and "seqs_ok s" and "unused_list s = t # ts" and "rpmsg_chnl s"
    and "inode_info (f_inode f) s = Some acc" and "f_read f" and "k_send_rets s = 0 # rs"
    and "k_seq s + 1 \<notin> seq_of s ` set (pending_list s)"
    and "\<not> f_nonblock f" and "f_pos f = 0" and "simple_read_ok k" and "12 \<le> n"
    and "k_sched s = KMsg d # es" and "length d = 420" and "m_seq (dec_msg d) = k_seq s"
    and "m_type (dec_msg d) = RES_RD_VAL \<or> m_type (dec_msg d) = RES_RD_MIN \<or> m_type (dec_msg d) = RES_RD_MAX"
  shows "\<exists>f1 s1 f2 s2 m. debugfs_open_var k f s = Some (0, f1, s1) \<and> k_sent s1 = k_sent s @ [m] \<and>
    m_ind m = acc_index acc \<and> m_type m = req_type (acc_type acc) True \<and> m_seq m = k_seq s \<and>
    (let txt = dec (sint (m_val (dec_msg d))) @ [10]
     in debugfs_read_var k n f1 s1 = Some (int (length txt), txt, f2, s2) \<and> f_pos f2 = int (length txt)) \<and>
    link_inv s2 \<and> pending_list s2 = pending_list s"
proof -
  let ?r = "dec_msg d" and ?f = "f\<lparr>private_data := Some t\<rparr>"
  let ?m = "request_for (acc_index acc) (acc_type acc) True 0 s"
  let ?s1 = "requested t read_trans ?m (taken t ts read_trans s)"
  let ?tr = "read_trans\<lparr>msg_seq_nr := k_seq s\<rparr>"
  define ln where "ln = dec (sint (m_val (dec_msg d))) @ [10]"
  note op = open_read_ok [OF assms(1-8)]
  let ?s2 = "replied t ?tr ?r (?s1\<lparr>k_sched := es\<rparr>)"
  have "debugfs_read_var k n ?f ?s1 = read_result k n t ?f ?s2"
    using op assms(9,13-15) by (intro read_after_reply) simp_all
  moreover have b: "length (t_buf ?tr) = IO_BUF_SIZE" by simp
  note tv = take_reply_value [OF b assms(16)]
  have "take (nat (t_len (take_reply ?r ?tr))) (t_buf (take_reply ?r ?tr)) = ln"
    using tv by (simp add: memcpy_to_def nat_add_distrib ln_def)
  moreover have "t_valid (take_reply ?r ?tr)" "t_err (take_reply ?r ?tr) = 0" by (simp_all add: tv(1))
  moreover have "take n ln = ln" using tv(2) assms(12) by (intro take_all) (simp add: ln_def)
  ultimately have "debugfs_read_var k n ?f ?s1 = Some (int (length ln), ln, ?f\<lparr>f_pos := int (length ln)\<rparr>, ?s2)"
    using read_result_text [OF assms(11), of ?s2 t "take_reply ?r ?tr" ?f n] assms(10) by simp
  moreover have "link_inv (?s1\<lparr>k_sched := es\<rparr>)" using op(2) by (simp add: link_inv_def linked_def)
  then have "link_inv ?s2" using op(4,5) by (intro replied_inv(1)) simp_all
  ultimately show ?thesis
    unfolding ln_def [symmetric] using op(1,6)
    by (intro exI [of _ ?f] exI [of _ ?s1] exI [of _ "?f\<lparr>f_pos := int (length ln)\<rparr>"] exI [of _ ?s2]
        exI [of _ ?m]) (simp add: request_for_def Let_def)
qed

theorem read_file_returns_value_witness:
  "\<exists>f1 s1 f2 s2. debugfs_open_var kapi_ref (file_of True False False (InMax 0))
      (kmod_demo [] [0] [KMsg (enc_msg (zero_msg\<lparr>m_type := RES_RD_MAX, m_val := -3\<rparr>))]) = Some (0, f1, s1) \<and>
    debugfs_read_var kapi_ref 64 f1 s1 = Some (3, [45, 51, 10], f2, s2)"
proof -
  let ?q = "zero_msg\<lparr>m_type := RES_RD_MAX, m_val := (-3 :: s32)\<rparr>"
  have d: "length (enc_msg ?q) = 420" "dec_msg (enc_msg ?q) = ?q" by (simp_all add: zero_msg_def dec_enc_msg)
  have v: "dec (- 3) = [45, 51]" by (simp add: dec_def digits10.simps digit_byte_def)
  have "m_seq ?q = 0" by (simp add: zero_msg_def)
  with read_file_returns_value [of "kmod_demo [] [0] [KMsg (enc_msg ?q)]" 1 "[0]" "file_of True False False (InMax 0)"
      "\<lparr>acc_index = 0, acc_type = ACC_MAX\<rparr>" "[]" kapi_ref 64 "enc_msg ?q" "[]"] d v
  show ?thesis
    by (auto simp: kmod_demo_sel file_of_def kapi_ref_copies Let_def)
qed

section \<open>Writing\<close>

lemma open_write_eq:
  fixes s :: "'a kmod_scheme"
  assumes "link_inv s" and "unused_list s = t # ts" and "inode_info (f_inode f) s = Some acc"
    and "\<not> f_read f" and "f_write f"
  shows "debugfs_open_var k f s = Some (0, f\<lparr>private_data := Some t\<rparr>, taken t ts (zero_trans\<lparr>t_valid := True\<rparr>) s)"
proof -
  have "upd_trans t (\<lambda>tr. tr\<lparr>t_rnw := False, t_valid := True\<rparr>) (taken t ts zero_trans s) =
    Some (taken t ts (zero_trans\<lparr>t_valid := True\<rparr>) s)"
    by (subst upd_trans_put [of _ _ zero_trans]) (simp_all add: taken_def zero_trans_def)
  with assms(3-5) show ?thesis by (simp add: debugfs_open_var_def alloc_taken [OF assms(1,2)])
qed

lemma write_eq:
  assumes "private_data f = Some t" and "k_heap s t = Some tr" and "simple_write_ok k" and "f_pos f = 0"
    and "length data \<le> length (t_buf tr)"
  shows "debugfs_write_var k data f s = Some (int (length data), f\<lparr>f_pos := int (length data)\<rparr>,
    put_t t (tr\<lparr>t_dirty := True, t_buf := data @ drop (length data) (t_buf tr)\<rparr>) s)"
  using assms by (simp add: debugfs_write_var_def simple_write_ok_def upd_trans_put Let_def)

text \<open>Closing a file with a changed buffer sends the write request, waits for the answer and
  gives the transaction back if the answer was no error.\<close>

lemma release_dirty_eq:
  fixes s :: "'a kmod_scheme"
  assumes "link_inv s" and "seqs_ok s" and "owned s t" and "k_heap s t = Some tr" and "rpmsg_chnl s"
    and "private_data f = Some t" and "f_write f" and "t_dirty tr"
    and "inode_info (f_inode f) s = Some acc" and "acc_type acc = ACC_VAL"
    and "write_arg k ACC_VAL tr v" and "k_send_rets s = 0 # rs"
    and "k_seq s + 1 \<notin> seq_of s ` set (pending_list s)"
    and "k_sched s = KMsg d # es" and "length d = 420" and "m_seq (dec_msg d) = k_seq s"
  defines "tr1 \<equiv> tr\<lparr>t_wq := True, t_valid := False\<rparr>"
  defines "tr2 \<equiv> take_reply (dec_msg d) (tr1\<lparr>msg_seq_nr := k_seq s\<rparr>)"
  defines "m \<equiv> request_for (acc_index acc) ACC_VAL (t_rnw tr) v s"
  shows "\<exists>s'. debugfs_release_var k f s = Some (if t_err tr2 = 0 then 0 else - EFAULT, s') \<and> link_inv s' \<and>
    k_sent s' = k_sent s @ [m] \<and> pending_list s' = pending_list s \<and>
    unused_list s' = (if t_err tr2 = 0 then t # unused_list s else unused_list s)"
proof -
  have nl: "t \<notin> set (pending_list s)" "t \<notin> set (unused_list s)"
    using assms(3) by (auto simp: owned_def linked_def)
  have buf: "length (t_buf tr1) = IO_BUF_SIZE" using link_inv_buf [OF assms(1,4)] by (simp add: tr1_def)
  let ?s1 = "put_t t tr1 s"
  have i1: "link_inv ?s1" "seqs_ok ?s1" "owned ?s1 t" "seq_of ?s1 ` set (pending_list ?s1) = seq_of s ` set (pending_list s)"
    using put_t_inv [OF assms(1,4) buf] put_t_seqs [OF nl(1)] put_t_image [OF nl(1)] assms(2) nl
    by (simp_all add: owned_def linked_def)
  have wa: "write_arg k ACC_VAL tr1 v" using assms(11) by (simp add: write_arg_def tr1_def)
  have rq: "request_for i a r w ?s1 = request_for i a r w s" for i a r w by (simp add: request_for_def)
  let ?s2 = "requested t tr1 m ?s1"
  have a: "access_var k (acc_index acc) ACC_VAL (Some t) ?s1 = Some (0, ?s2)"
    using access_var_eq [OF i1(1) _ i1(3) _ wa, of 0 rs "acc_index acc"] assms(5,12) rq
    by (simp add: m_def tr1_def)
  have i2: "link_inv ?s2" "seqs_ok ?s2"
    using requested_inv [OF i1(1,2,3), of tr1 m] i1(4) assms(13) by simp_all
  let ?tr = "tr1\<lparr>msg_seq_nr := k_seq s\<rparr>" and ?es = "?s2\<lparr>k_sched := es\<rparr>"
  let ?s3 = "replied t ?tr (dec_msg d) ?es"
  have w: "wait_event (t_is_valid t) ?s2 = Some (0, ?s3)"
    using wait_for_reply [OF i2, of t ?tr d es] assms(14-16) by (simp add: tr1_def)
  have "link_inv ?es" using i2(1) by (simp add: link_inv_def linked_def)
  then have i3: "link_inv ?s3" by (intro replied_inv(1)) simp_all
  have h3: "k_heap ?s3 t = Some tr2" by (simp add: tr2_def)
  have o3: "owned ?s3 t" using nl by (simp add: owned_def linked_def)
  have r: "debugfs_release_var k f s = (if t_err tr2 \<noteq> 0 then Some (- EFAULT, ?s3)
     else do { s4 \<leftarrow> rpmsg_link_return_trans t ?s3; Some (0, s4) })"
    using assms(4,6-10) a w h3 by (simp add: debugfs_release_var_def upd_trans_put tr1_def)
  show ?thesis
  proof (cases "t_err tr2 = 0")
    case True
    obtain s4 where s4: "rpmsg_link_return_trans t ?s3 = Some s4" "link_inv s4" using return_ok [OF i3 o3] by blast
    with return_eq [OF i3 o3] r True assms(12) show ?thesis by (intro exI [of _ s4]) auto
  next
    case False
    with r i3 assms(12) show ?thesis by (intro exI [of _ ?s3]) simp
  qed
qed

lemma zero_trans_sel [simp]: "\<not> t_rnw zero_trans" "t_err zero_trans = 0" "\<not> t_dirty zero_trans" "\<not> t_valid zero_trans"
  by (simp_all add: zero_trans_def)

lemma take_reply_err:
  "m_type r = RES_OK \<Longrightarrow> t_err (take_reply r tr) = 0" "m_type r = RES_ID_ERR \<Longrightarrow> t_err (take_reply r tr) = 130"
  by (simp_all add: take_reply_def Let_def)

lemma cstring_of_text: "\<lbrakk>0 \<notin> set t; bs \<noteq> []; hd bs = 0\<rbrakk> \<Longrightarrow> cstring_of (t @ bs) = t"
  unfolding cstring_of_def by (subst takeWhile_append2) (auto simp: takeWhile_eq_Nil_iff)

text \<open>Writing a value: a file opened for writing only, a line of decimal text, and closing
  it send exactly one write request with the number and wait for its answer. If the firmware
  accepts, closing succeeds and the transaction is recycled; if it refuses, closing fails
  with \<open>-EFAULT\<close> and the transaction is lost to the pool.\<close>

theorem write_file_sends_value:
  fixes s :: "'a kmod_scheme" and v :: s32
  assumes "link_inv s" and "seqs_ok s" and "unused_list s = t # ts" and "rpmsg_chnl s"
    and "inode_info (f_inode f) s = Some acc" and "acc_type acc = ACC_VAL"
    and "\<not> f_read f" and "f_write f" and "f_pos f = 0" and "k_send_rets s = 0 # rs"
    and "k_seq s + 1 \<notin> seq_of s ` set (pending_list s)"
    and "simple_write_ok k" and "kstrtol_ok k"
    and "k_sched s = KMsg d # es" and "length d = 420" and "m_seq (dec_msg d) = k_seq s"
    and "m_type (dec_msg d) = RES_OK \<or> m_type (dec_msg d) = RES_ID_ERR"
  shows "\<exists>f1 s1 f2 s2 r s3 m. debugfs_open_var k f s = Some (0, f1, s1) \<and>
    (let txt = dec (sint v) @ [10] in debugfs_write_var k txt f1 s1 = Some (int (length txt), f2, s2)) \<and>
    debugfs_release_var k f2 s2 = Some (r, s3) \<and> link_inv s3 \<and> pending_list s3 = pending_list s \<and>
    k_sent s3 = k_sent s @ [m] \<and> m = request_for (acc_index acc) ACC_VAL False v s \<and> m_type m = REQ_WR \<and> m_ind m = acc_index acc \<and> m_val m = v \<and> m_seq m = k_seq s \<and>
    (if m_type (dec_msg d) = RES_OK then r = 0 \<and> unused_list s3 = unused_list s
     else r = - EFAULT \<and> unused_list s3 = ts)"
proof -
  define ln where "ln = dec (sint v) @ [10]"
  have ln: "length ln \<le> 12" "0 \<notin> set ln"
    using length_dec_s32 [of v] dec_no_nul [of "sint v"] by (simp_all add: ln_def)
  let ?f1 = "f\<lparr>private_data := Some t\<rparr>" and ?tr = "zero_trans\<lparr>t_valid := True\<rparr>"
  let ?s1 = "taken t ts ?tr s"
  have op: "debugfs_open_var k f s = Some (0, ?f1, ?s1)" by (rule open_write_eq [OF assms(1,3,5,7,8)])
  let ?tr2 = "?tr\<lparr>t_dirty := True, t_buf := ln @ drop (length ln) (t_buf zero_trans)\<rparr>"
  let ?f2 = "?f1\<lparr>f_pos := int (length ln)\<rparr>" and ?s2 = "put_t t ?tr2 ?s1"
  have wr: "debugfs_write_var k ln ?f1 ?s1 = Some (int (length ln), ?f2, ?s2)"
    using write_eq [of ?f1 t ?s1 ?tr k ln] assms(9,12) ln(1) by simp
  have s2: "?s2 = taken t ts ?tr2 s" by (simp add: taken_def)
  have "length (t_buf ?tr2) = IO_BUF_SIZE" using ln(1) by simp
  note inv = taken_inv [OF assms(1,3) this, folded s2]
  have wa: "write_arg k ACC_VAL ?tr2 v"
  proof -
    have "400 - length ln = Suc (399 - length ln)" using ln(1) by simp
    then have z: "drop (length ln) (t_buf zero_trans) = 0 # replicate (399 - length ln) 0"
      by (simp add: zero_trans_def)
    have "cstring_of (t_buf ?tr2) = ln" using z ln(2) by (simp add: cstring_of_text)
    with z assms(13) show ?thesis by (simp add: write_arg_def kstrtol_ok_def ln_def zero_trans_def)
  qed
  have info: "inode_info (f_inode ?f2) ?s2 = Some acc"
    using assms(5) by simp
  have rq: "request_for i a r w ?s2 = request_for i a r w s" for i a r w by (simp add: request_for_def)
  let ?m = "request_for (acc_index acc) ACC_VAL False v s"
  obtain s3 where s3: "debugfs_release_var k ?f2 ?s2 =
      Some (if m_type (dec_msg d) = RES_OK then 0 else - EFAULT, s3)" "link_inv s3" "k_sent s3 = k_sent s @ [?m]"
    "pending_list s3 = pending_list s" "unused_list s3 = (if m_type (dec_msg d) = RES_OK then t # ts else ts)"
    using release_dirty_eq [OF inv(1) _ inv(2) _ _ _ _ _ info assms(6) wa, of rs d es]
      inv(3,4) assms(2,4,8,10,11,14-17)
    by (auto simp: rq take_reply_err)
  show ?thesis
    unfolding ln_def [symmetric] using op wr s3 assms(3)
    by (intro exI [of _ ?f1] exI [of _ ?s1] exI [of _ ?f2] exI [of _ ?s2]
        exI [of _ "if m_type (dec_msg d) = RES_OK then 0 else - EFAULT"] exI [of _ s3] exI [of _ ?m])
      (simp add: request_for_def req_type_def Let_def)
qed

theorem write_file_sends_value_witness:
  "\<exists>f1 s1 f2 s2 s3. debugfs_open_var kapi_ref (file_of False True False (InVal 0))
      (kmod_demo [] [0] [KMsg (enc_msg (zero_msg\<lparr>m_type := RES_OK\<rparr>))]) = Some (0, f1, s1) \<and>
    debugfs_write_var kapi_ref (dec 9 @ [10]) f1 s1 = Some (2, f2, s2) \<and>
    debugfs_release_var kapi_ref f2 s2 = Some (0, s3) \<and> map m_val (k_sent s3) = [9] \<and> unused_list s3 = [1, 0]"
proof -
  let ?q = "zero_msg\<lparr>m_type := RES_OK\<rparr>"
  have d: "length (enc_msg ?q) = 420" "dec_msg (enc_msg ?q) = ?q" by (simp_all add: zero_msg_def dec_enc_msg)
  have v: "dec 9 = [57]" by (simp add: dec_def digits10.simps digit_byte_def)
  have "m_seq ?q = 0" by (simp add: zero_msg_def)
  with write_file_sends_value [of "kmod_demo [] [0] [KMsg (enc_msg ?q)]" 1 "[0]" "file_of False True False (InVal 0)"
      "\<lparr>acc_index = 0, acc_type = ACC_VAL\<rparr>" "[]" kapi_ref "enc_msg ?q" "[]" 9] d v
  show ?thesis
    by (auto simp: kmod_demo_sel file_of_def kapi_ref_copies kapi_ref_kstrtol Let_def)
qed



text \<open>C32: A reader that does not want to wait gets \<open>-EAGAIN\<close> and an empty poll mask until the
  reply is there, without any change; after it \<open>poll\<close> reports the file readable, and reading
  gives the reply, or for a refused request its code as a negative number.\<close>

theorem nonblocking_read_and_poll:
  fixes s :: "'a kmod_scheme"
  assumes "link_inv s" and "seqs_ok s" and "t \<in> set (pending_list s)" and "k_heap s t = Some tr"
    and "\<not> t_valid tr" and "t_rnw tr" and "private_data f = Some t" and "f_nonblock f"
    and "length d = 420" and "m_seq (dec_msg d) = seq_of s t"
  shows "debugfs_read_var k n f s = Some (- EAGAIN, [], f, s) \<and> debugfs_poll f s = Some [] \<and>
    (\<exists>s'. cfg_mgmt_rpmsg_cb d s = Some s' \<and> debugfs_poll f s' = Some [POLLIN, POLLRDNORM] \<and>
      (m_type (dec_msg d) = RES_ID_ERR \<longrightarrow> (\<exists>s''. debugfs_read_var k n f s' = Some (- 130, [], f, s''))) \<and>
      (m_type (dec_msg d) = RES_RD_VAL \<and> simple_read_ok k \<and> f_pos f = 0 \<and> 12 \<le> n \<longrightarrow>
        (\<exists>f'. debugfs_read_var k n f s' = Some (int (length (dec (sint (m_val (dec_msg d))) @ [10])),
           dec (sint (m_val (dec_msg d))) @ [10], f', s'))))"
proof -
  let ?r = "dec_msg d"
  let ?s' = "replied t tr ?r s"
  have cb: "cfg_mgmt_rpmsg_cb d s = Some ?s'"
    using assms by (intro cb_matched) (auto simp: seqs_ok_def seq_of_def)
  have rd: "debugfs_read_var k n f ?s' = read_result k n t f ?s'"
    using assms(7) by (simp add: debugfs_read_var_def)
  have err: "\<exists>s''. debugfs_read_var k n f ?s' = Some (- 130, [], f, s'')" if "m_type ?r = RES_ID_ERR"
    using take_reply_err(2) [OF that, of tr] by (simp add: rd read_result_def upd_trans_put)
  have val: "\<exists>f'. debugfs_read_var k n f ?s' = Some (int (length (dec (sint (m_val ?r)) @ [10])),
      dec (sint (m_val ?r)) @ [10], f', ?s')"
    if that: "m_type ?r = RES_RD_VAL \<and> simple_read_ok k \<and> f_pos f = 0 \<and> 12 \<le> n"
  proof -
    define ln where "ln = dec (sint (m_val ?r)) @ [10]"
    have ty: "m_type ?r = RES_RD_VAL \<or> m_type ?r = RES_RD_MIN \<or> m_type ?r = RES_RD_MAX" using that by simp
    note tv = take_reply_value [OF link_inv_buf [OF assms(1,4)] ty]
    have "take (nat (t_len (take_reply ?r tr))) (t_buf (take_reply ?r tr)) = ln"
      using tv by (simp add: memcpy_to_def nat_add_distrib ln_def)
    moreover have "take n ln = ln" using tv(2) that by (intro take_all) (simp add: ln_def)
    moreover have "t_err (take_reply ?r tr) = 0" by (simp add: tv(1))
    ultimately show ?thesis
      using read_result_text [of k ?s' t "take_reply ?r tr" f n] that unfolding rd ln_def [symmetric] by simp
  qed
  show ?thesis
    using assms(4-8) cb err val by (simp add: debugfs_read_var_def debugfs_poll_def)
qed

text \<open>The state right after a file was opened for reading.\<close>

definition kmod_waiting :: kmod where
  "kmod_waiting = requested 1 read_trans zero_msg (taken 1 [0] read_trans (kmod_demo [] [0] []))"

theorem nonblocking_read_and_poll_witness:
  "debugfs_read_var kapi_ref 64 ((file_of True False True (InVal 0))\<lparr>private_data := Some 1\<rparr>) kmod_waiting =
      Some (- EAGAIN, [], (file_of True False True (InVal 0))\<lparr>private_data := Some 1\<rparr>, kmod_waiting) \<and>
   (\<exists>s'. cfg_mgmt_rpmsg_cb (enc_msg (zero_msg\<lparr>m_type := RES_ID_ERR\<rparr>)) kmod_waiting = Some s' \<and>
      debugfs_poll ((file_of True False True (InVal 0))\<lparr>private_data := Some 1\<rparr>) s' = Some [POLLIN, POLLRDNORM])"
proof -
  let ?q = "zero_msg\<lparr>m_type := RES_ID_ERR\<rparr>" and ?s = "kmod_demo [] [0] []"
  note t = taken_inv [of ?s 1 "[0]" read_trans]
  have i: "link_inv kmod_waiting" "seqs_ok kmod_waiting"
    unfolding kmod_waiting_def
    using requested_inv [OF t(1) _ t(2), of read_trans zero_msg] t(3,4) by (simp_all add: kmod_demo_sel)
  have d: "length (enc_msg ?q) = 420" "dec_msg (enc_msg ?q) = ?q" by (simp_all add: zero_msg_def dec_enc_msg)
  have "m_seq ?q = 0" by (simp add: zero_msg_def)
  with nonblocking_read_and_poll [OF i, of 1 "read_trans\<lparr>msg_seq_nr := 0\<rparr>"
      "(file_of True False True (InVal 0))\<lparr>private_data := Some 1\<rparr>" "enc_msg ?q" kapi_ref 64] d
  show ?thesis by (auto simp: kmod_waiting_def kmod_demo_sel file_of_def seq_of_def)
qed

section \<open>Every open file owns its transaction\<close>

lemma held_frame [simp]:
  "held_by F (s\<lparr>val_access := a\<rparr>) = held_by F s" "held_by F (s\<lparr>min_access := a\<rparr>) = held_by F s"
  "held_by F (s\<lparr>max_access := a\<rparr>) = held_by F s" "held_by F (s\<lparr>desc_access := a\<rparr>) = held_by F s"
  "held_by F (s\<lparr>val_dir_p := b\<rparr>) = held_by F s" "held_by F (s\<lparr>min_dir_p := b\<rparr>) = held_by F s"
  "held_by F (s\<lparr>max_dir_p := b\<rparr>) = held_by F s" "held_by F (s\<lparr>desc_dir_p := b\<rparr>) = held_by F s"
  "held_by F (s\<lparr>k_files := fl\<rparr>) = held_by F s"
  by (simp_all add: held_by_def link_inv_def linked_def)

lemma held_frame_link [simp]:
  "held_by F (s\<lparr>k_outcomes := os\<rparr>) = held_by F s" "held_by F (s\<lparr>nv_req := m\<rparr>) = held_by F s"
  "held_by F (s\<lparr>k_send_rets := rs\<rparr>) = held_by F s" "held_by F (s\<lparr>k_seq := q\<rparr>) = held_by F s"
  by (simp_all add: held_by_def link_inv_def linked_def)

lemma held_mono: "held_by F s \<Longrightarrow> G \<subseteq> F \<Longrightarrow> held_by G s"
  by (auto simp: held_by_def)

lemma k_outcome_held: "held_by F s \<Longrightarrow> k_outcome s = Some (b, s') \<Longrightarrow> held_by F s'"
  by (auto simp: k_outcome_def split: list.splits)

lemma try_each_held:
  "\<lbrakk>held_by F s; try_each us s = Some (r, s'); \<forall>(n, u) \<in> set us. \<forall>b s. held_by F s \<longrightarrow> held_by F (u b s)\<rbrakk>
   \<Longrightarrow> held_by F s'"
proof (induction us s rule: try_each.induct)
  case (2 n u us s)
  from "2.prems"(2) obtain ok s1 where s1: "k_outcome s = Some (ok, s1)"
    "(if ok then try_each us (u True s1) else Some (Some n, u False s1)) = Some (r, s')"
    by (auto split: bind_split_asm)
  have "held_by F s1" by (rule k_outcome_held [OF "2.prems"(1) s1(1)])
  with s1 "2.IH" "2.prems"(3) show ?case by (cases ok) auto
qed simp

lemma alloc_mem_held:
  assumes "held_by F s" and "alloc_mem n s = Some (r, s')"
  shows "held_by F s'"
proof -
  from assms(2) obtain x where x: "try_each [(''val'', \<lambda>ok s. s\<lparr>val_access := new_array n ok\<rparr>),
      (''min'', \<lambda>ok s. s\<lparr>min_access := new_array n ok\<rparr>), (''max'', \<lambda>ok s. s\<lparr>max_access := new_array n ok\<rparr>),
      (''desc'', \<lambda>ok s. s\<lparr>desc_access := new_array n ok\<rparr>)] s = Some (x, s')"
    unfolding alloc_mem_def by (auto simp del: try_each.simps split: bind_split_asm)
  show ?thesis by (rule try_each_held [OF assms(1) x]) simp
qed

lemma make_dirs_held:
  assumes "held_by F s" and "make_dirs s = Some (r, s')"
  shows "held_by F s'"
  by (rule try_each_held [OF assms(1) assms(2) [unfolded make_dirs_def]]) simp

lemma set_access_held: "held_by F s \<Longrightarrow> set_access i s = Some s' \<Longrightarrow> held_by F s'"
  by (auto simp: set_access_def split: bind_split_asm)

lemma print_trans_held:
  assumes "held_by F s" and "print_trans t txt s = Some s'"
  shows "held_by F s'"
proof -
  obtain tr where tr: "k_heap s t = Some tr" using assms(2) by (auto simp: print_trans_def upd_trans_def split: option.splits)
  have inv: "link_inv s" using assms(1) by (simp add: held_by_def)
  have "link_inv (put_t t ((print_buf IO_BUF_SIZE txt tr)\<lparr>t_valid := True, t_rnw := True\<rparr>) s)"
    using link_inv_buf [OF inv tr] by (intro put_t_inv [OF inv tr]) simp
  with assms tr show ?thesis by (auto simp: print_trans_def upd_trans_put held_by_def)
qed

lemma load_vars_held: "held_by F s \<Longrightarrow> load_vars k t is s = Some (b, s') \<Longrightarrow> held_by F s'"
proof (induction "is" arbitrary: s)
  case Nil
  then show ?case by simp
next
  case (Cons i "is")
  from Cons.prems(2) obtain s1 s2 r3 s3 where s: "set_access i s = Some s1"
    "upd_trans t (\<lambda>tr. tr\<lparr>t_dirty := False, t_rnw := True, t_valid := False, t_len := 0, t_wq := True\<rparr>) s1 = Some s2"
    "access_var k (of_nat i) ACC_NAME (Some t) s2 = Some (r3, s3)"
    by (auto split: bind_split_asm)
  have h1: "held_by F s1" by (rule set_access_held [OF Cons.prems(1) s(1)])
  have h2: "held_by F s2" by (rule upd_trans_held [OF h1 s(2)]) simp
  have h3: "held_by F s3" by (rule access_var_held [OF h2 s(3)])
  show ?case
  proof (cases "r3 < 0")
    case True
    with Cons.IH [OF h3] Cons.prems(2) s show ?thesis by simp
  next
    case False
    with Cons.prems(2) s obtain r4 s4 where s4: "wait_event (t_is_valid t) s3 = Some (r4, s4)"
      "(if r4 \<noteq> 0 then Some (False, s4) else do { tr \<leftarrow> k_heap s4 t;
         load_vars k t is (create_files i (cstring_of (t_buf tr)) s4) }) = Some (b, s')"
      by (auto split: bind_split_asm)
    have h4: "held_by F s4" by (rule wait_event_held [OF h3 s4(1)])
    then have "held_by F (create_files i nm s4)" for nm by (simp add: create_files_def)
    with s4(2) h4 Cons.IH show ?thesis by (auto split: if_splits bind_split_asm)
  qed
qed

lemma get_next_seq_held:
  assumes "held_by F s" and "get_next_seq_nr s = Some (q, s')"
  shows "held_by F s'"
proof -
  have "k_held s = (\<lambda>_. False)" using assms(1) by (simp add: held_by_def link_invD(1))
  from get_next_seq_eq [OF this] assms show ?thesis by auto
qed

lemma add_pend_held:
  assumes "held_by F s" and "add_pend_trans t s = Some s'"
  shows "held_by F s'"
proof -
  have inv: "link_inv s" using assms(1) by (simp add: held_by_def)
  have own: "owned s t"
    using assms(2) link_invD(1) [OF inv]
    by (auto simp: add_pend_trans_def spin_lock_free owned_def linked_def split: if_splits)
  have s': "s' = s\<lparr>pending_list := t # pending_list s\<rparr>"
    using add_pend_eq [OF link_invD(1) [OF inv] own] assms(2) by simp
  with assms(1) own show ?thesis by (auto simp: held_by_def link_inv_def linked_def owned_def)
qed

lemma get_n_vars_held:
  fixes s :: "'a klink_scheme"
  assumes "held_by F s" and "get_n_vars s = Some (r, s')"
  shows "held_by F s'"
proof (cases "rpmsg_chnl s")
  case False
  with assms show ?thesis by (simp add: get_n_vars_def)
next
  case True
  define m where "m q = (\<lambda>s1 :: 'a klink_scheme. s1\<lparr>nv_req := (nv_req s1)\<lparr>m_seq := q, m_ind := -1, m_val := 0, m_len := 0, m_type := REQ_N_VARS\<rparr>\<rparr>)"
    for q
  from assms(2) True obtain q s1 t s2 s3 s4 ret s5 where s: "get_next_seq_nr s = Some (q, s1)"
    "rpmsg_link_alloc_trans (m q s1) = Some (t, s2)"
    "upd_trans t (\<lambda>tr. tr\<lparr>msg_seq_nr := q, t_wq := True\<rparr>) s2 = Some s3"
    "add_pend_trans t s3 = Some s4" "k_rpmsg_send (nv_req s4) s4 = Some (ret, s5)"
    "(if ret \<noteq> 0 then Some (ret, s5) else do {
       (ret, s6) \<leftarrow> wait_event (\<lambda>s. 0 \<le> k_n_vars s) s5;
       Some (if ret \<noteq> 0 then ret else k_n_vars s6, s6) }) = Some (r, s')"
    by (auto simp: get_n_vars_def m_def split: bind_split_asm)
  have "held_by F (m q s1)" using get_next_seq_held [OF assms(1) s(1)] by (simp add: m_def)
  from alloc_held(1) [OF this s(2)] have "held_by F s2" by (rule held_mono) auto
  then have "held_by F s3" by (rule upd_trans_held [OF _ s(3)]) simp
  then have "held_by F s4" by (rule add_pend_held [OF _ s(4)])
  then have h5: "held_by F s5" by (rule send_held [OF _ s(5)])
  show ?thesis
  proof (cases "ret = 0")
    case False
    with s(6) h5 show ?thesis by simp
  next
    case True
    with s(6) obtain r' where "wait_event (\<lambda>s. 0 \<le> k_n_vars s) s5 = Some (r', s')"
      by (auto split: bind_split_asm)
    then show ?thesis by (rule wait_event_held [OF h5])
  qed
qed

lemma open_var_held:
  assumes "held_by F s" and "debugfs_open_var k f s = Some (r, f', s')"
  shows "\<exists>t. private_data f' = Some t \<and> t \<notin> F \<and> held_by (insert t F) s'"
proof -
  from assms(2) obtain acc where acc: "inode_info (f_inode f) s = Some acc"
    by (cases "inode_info (f_inode f) s") (simp_all add: debugfs_open_var_def)
  from assms(2) acc obtain t s1 where a: "rpmsg_link_alloc_trans s = Some (t, s1)"
    by (cases "rpmsg_link_alloc_trans s") (auto simp: debugfs_open_var_def)
  let ?rd = "if f_read f then do {
         s2 \<leftarrow> upd_trans t (\<lambda>tr. tr\<lparr>t_rnw := True, t_wq := True\<rparr>) s1;
         (ret, s3) \<leftarrow> access_var k (acc_index acc) (acc_type acc) (Some t) s2;
         Some (ret = 0, s3) } else Some (False, s1)"
  let ?fin = "\<lambda>(b, s2). if b then Some (0, f\<lparr>private_data := Some t\<rparr>, s2) else if f_write f then do {
       s3 \<leftarrow> upd_trans t (\<lambda>tr. tr\<lparr>t_rnw := False, t_valid := True\<rparr>) s2;
       Some (0, f\<lparr>private_data := Some t\<rparr>, s3) } else Some (0, f\<lparr>private_data := Some t\<rparr>, s2)"
  have "debugfs_open_var k f s = ?rd \<bind> ?fin"
    using acc a by (simp add: debugfs_open_var_def Let_def)
  with assms(2) obtain b s2 where "?rd = Some (b, s2)" "?fin (b, s2) = Some (r, f', s')"
    by (cases ?rd) auto
  with a have s: "rpmsg_link_alloc_trans s = Some (t, s1)" "?rd = Some (b, s2)" "?fin (b, s2) = Some (r, f', s')"
    by blast+
  note h1 = alloc_held [OF assms(1) s(1)]
  have h2: "held_by (insert t F) s2"
  proof (cases "f_read f")
    case True
    with s(2) obtain s0 r0 where s0: "upd_trans t (\<lambda>tr. tr\<lparr>t_rnw := True, t_wq := True\<rparr>) s1 = Some s0"
      "access_var k (acc_index acc) (acc_type acc) (Some t) s0 = Some (r0, s2)"
      by (auto split: bind_split_asm)
    have "held_by (insert t F) s0" by (rule upd_trans_held [OF h1(1) s0(1)]) simp
    then show ?thesis by (rule access_var_held [OF _ s0(2)])
  qed (use s(2) h1 in simp)
  show ?thesis
  proof (cases "\<not> b \<and> f_write f")
    case True
    with s(3) obtain s3 where s3: "upd_trans t (\<lambda>tr. tr\<lparr>t_rnw := False, t_valid := True\<rparr>) s2 = Some s3"
      "s' = s3" "f' = f\<lparr>private_data := Some t\<rparr>" by (auto split: bind_split_asm if_splits)
    have "held_by (insert t F) s3" by (rule upd_trans_held [OF h2 s3(1)]) simp
    with s3 h1(2) show ?thesis by simp
  next
    case False
    with s(3) h1(2) h2 show ?thesis by (auto split: if_splits)
  qed
qed

lemma read_result_held:
  assumes "held_by F s" and "read_result k n t f s = Some (r, out, f', s')"
  shows "held_by F s' \<and> private_data f' = private_data f"
proof -
  from assms(2) obtain tr where tr: "k_heap s t = Some tr" by (auto simp: read_result_def split: bind_split_asm)
  show ?thesis
  proof (cases "t_valid tr \<and> t_err tr \<noteq> 0")
    case True
    with assms(2) tr have "upd_trans t (\<lambda>tr. if 0 < t_err tr then tr\<lparr>t_err := - t_err tr\<rparr> else tr) s = Some s'" "f' = f"
      by (auto simp: read_result_def split: bind_split_asm)
    moreover from upd_trans_held [OF assms(1) this(1)] have "held_by F s'" by simp
    ultimately show ?thesis by simp
  next
    case False
    with assms tr show ?thesis by (auto simp: read_result_def Let_def split: prod.splits if_splits)
  qed
qed

lemma read_var_held:
  assumes "held_by F s" and "debugfs_read_var k n f s = Some (r, out, f', s')"
  shows "held_by F s' \<and> private_data f' = private_data f"
proof (cases "private_data f")
  case None
  with assms show ?thesis by (simp add: debugfs_read_var_def)
next
  case (Some t)
  with assms(2) obtain tr where tr: "k_heap s t = Some tr" by (auto simp: debugfs_read_var_def split: bind_split_asm)
  show ?thesis
  proof (cases "t_valid tr \<or> f_nonblock f")
    case True
    with Some tr assms read_result_held [OF assms(1), of k n t f] show ?thesis
      by (auto simp: debugfs_read_var_def split: if_splits)
  next
    case False
    with Some tr assms(2) obtain e s1 where w: "wait_event (t_is_valid t) s = Some (e, s1)"
      "(if e \<noteq> 0 then Some (e, [], f, s1) else read_result k n t f s1) = Some (r, out, f', s')"
      by (auto simp: debugfs_read_var_def split: bind_split_asm)
    from wait_event_held [OF assms(1) w(1)] w(2) read_result_held [of F s1] show ?thesis
      by (auto split: if_splits)
  qed
qed

lemma write_var_held:
  assumes "held_by F s" and "debugfs_write_var k data f s = Some (r, f', s')" and "write_keeps_size k"
  shows "held_by F s' \<and> private_data f' = private_data f"
proof (cases "private_data f")
  case None
  with assms show ?thesis by (simp add: debugfs_write_var_def)
next
  case (Some t)
  with assms(2) obtain tr where tr: "k_heap s t = Some tr" by (auto simp: debugfs_write_var_def split: bind_split_asm)
  obtain x b p where w: "simple_write k (f_pos f) data (t_buf tr) = (x, b, p)" by (cases "simple_write k (f_pos f) data (t_buf tr)")
  then have b: "length b = length (t_buf tr)" using assms(3) by (metis write_keeps_size_def fst_conv snd_conv)
  have inv: "link_inv s" using assms(1) by (simp add: held_by_def)
  have s': "s' = put_t t (tr\<lparr>t_dirty := True, t_buf := b\<rparr>) s" "f' = f\<lparr>f_pos := p\<rparr>"
    using assms(2) Some tr w by (simp_all add: debugfs_write_var_def upd_trans_put)
  have "link_inv s'" unfolding s' using b link_inv_buf [OF inv tr] by (intro put_t_inv [OF inv tr]) simp
  with assms(1) s' tr show ?thesis by (auto simp: held_by_def)
qed

text \<open>Whatever the operation returns satisfies \<open>Q\<close>; an operation that keeps the transactions can be
  passed.\<close>

definition ends :: "'a option \<Rightarrow> ('a \<Rightarrow> bool) \<Rightarrow> bool" where
  "ends m Q \<longleftrightarrow> (\<forall>x. m = Some x \<longrightarrow> Q x)"

lemma ends_held:
  "(\<And>r s'. m = Some (r, s') \<Longrightarrow> held_by F s') \<Longrightarrow> (\<And>r s'. m = Some (r, s') \<Longrightarrow> held_by F s' \<Longrightarrow> ends (f (r, s')) Q) \<Longrightarrow>
   ends (m \<bind> f) Q"
  by (auto simp: ends_def split: bind_split_asm)

lemma ends_pass:
  "(\<And>s'. m = Some s' \<Longrightarrow> ends (f s') Q) \<Longrightarrow> ends (m \<bind> f) Q"
  by (auto simp: ends_def split: bind_split_asm)

lemma ends_Some: "Q x \<Longrightarrow> ends (Some x) Q"
  by (simp add: ends_def)

lemma release_var_held:
  assumes "held_by F s" and "debugfs_release_var k f s = Some (r, s')" and "private_data f = Some t" and "t \<in> F"
  shows "held_by (F - {t}) s'"
proof -
  let ?Q = "\<lambda>(r :: int, s'). held_by (F - {t}) s'"
  have keep: "ends (Some (r, s1)) ?Q" if "held_by F s1" for r s1
    using held_mono [OF that, of "F - {t}"] by (auto simp: ends_def)
  have give: "ends (do { s2 \<leftarrow> rpmsg_link_return_trans t s1; Some (r, s2) }) ?Q" if "held_by F s1" for r s1
    using return_held [OF that assms(4)] by (auto simp: ends_def split: bind_split_asm)
  have wait: "ends (do {
      (ret, s3) \<leftarrow> wait_event (t_is_valid t) s2;
      if ret \<noteq> 0 then Some (ret, s3) else do {
        tr \<leftarrow> k_heap s3 t;
        if t_err tr \<noteq> 0 then Some (- EFAULT, s3) else do {
          s4 \<leftarrow> rpmsg_link_return_trans t s3; Some (0, s4) } } }) ?Q" if "held_by F s2" for s2
    using wait_event_held [OF that] by (auto intro!: ends_held ends_pass keep give)
  have wake: "held_by F s1" if "upd_trans t (\<lambda>tr. tr\<lparr>t_wq := True, t_valid := False\<rparr>) s = Some s1" for s1
    by (rule upd_trans_held [OF assms(1) that]) simp
  have "ends (debugfs_release_var k f s) ?Q"
    unfolding debugfs_release_var_def using assms(3)
    by (auto intro!: ends_pass give wait assms(1) ends_held) (blast intro: access_var_held wake)+
  with assms(2) show ?thesis by (auto simp: ends_def)
qed

lemma open_ll_held:
  assumes "held_by F s" and "debugfs_open_ll k f s = Some (r, f', s')"
  shows "\<exists>t. private_data f' = Some t \<and> t \<notin> F \<and> held_by (insert t F) s'"
proof -
  from assms(2) obtain t s1 where a: "rpmsg_link_alloc_trans s = Some (t, s1)"
    by (cases "rpmsg_link_alloc_trans s") (auto simp: debugfs_open_ll_def)
  note h1 = alloc_held [OF assms(1) a]
  let ?f = "f\<lparr>private_data := Some t\<rparr>" and ?Q = "\<lambda>(r :: int, f', s'). f' = f\<lparr>private_data := Some t\<rparr> \<and> held_by (insert t F) s'"
  have fin: "ends (do { s' \<leftarrow> print_trans t u s2; Some (0, ?f, s') }) ?Q" if "held_by (insert t F) s2" for u s2
    using print_trans_held [OF that] by (auto simp: ends_def split: bind_split_asm)
  have "ends (debugfs_open_ll k f s) ?Q"
    unfolding debugfs_open_ll_def a Let_def using h1(1)
    by (auto intro!: fin ends_held split: option.split elim: get_n_vars_held)
      (blast intro: alloc_mem_held make_dirs_held load_vars_held)+
  with assms(2) h1(2) show ?thesis by (auto simp: ends_def)
qed

text \<open>The module as a transition system: the table of open files and the module's state. A
  step is one call of a file operation, one message of the firmware, or a change of what
  the rest of the kernel is going to do.\<close>

inductive kmod_step ::
    "kapi \<Rightarrow> (nat \<Rightarrow> kfile option) \<times> 'a kmod_scheme \<Rightarrow> (nat \<Rightarrow> kfile option) \<times> 'a kmod_scheme \<Rightarrow> bool"
  for k where
  open_var: "\<lbrakk>fs fd = None; debugfs_open_var k f s = Some (r, f', s')\<rbrakk> \<Longrightarrow>
     kmod_step k (fs, s) (fs(fd := Some f'), s')"
| open_ll: "\<lbrakk>fs fd = None; debugfs_open_ll k f s = Some (r, f', s')\<rbrakk> \<Longrightarrow>
     kmod_step k (fs, s) (fs(fd := Some f'), s')"
| read: "\<lbrakk>fs fd = Some f; debugfs_read_var k n f s = Some (r, out, f', s')\<rbrakk> \<Longrightarrow>
     kmod_step k (fs, s) (fs(fd := Some f'), s')"
| write_var: "\<lbrakk>fs fd = Some f; debugfs_write_var k data f s = Some (r, f', s')\<rbrakk> \<Longrightarrow>
     kmod_step k (fs, s) (fs(fd := Some f'), s')"
| release: "\<lbrakk>fs fd = Some f; debugfs_release_var k f s = Some (r, s')\<rbrakk> \<Longrightarrow>
     kmod_step k (fs, s) (fs(fd := None), s')"
| message: "cfg_mgmt_rpmsg_cb d s = Some s' \<Longrightarrow> kmod_step k (fs, s) (fs, s')"
| environment: "kmod_step k (fs, s) (fs, s\<lparr>k_outcomes := os, k_send_rets := rs, k_sched := es\<rparr>)"

inductive kmod_reach ::
    "kapi \<Rightarrow> (nat \<Rightarrow> kfile option) \<times> 'a kmod_scheme \<Rightarrow> (nat \<Rightarrow> kfile option) \<times> 'a kmod_scheme \<Rightarrow> bool"
  for k c where
  start: "kmod_reach k c c"
| step: "kmod_reach k c c' \<Longrightarrow> kmod_step k c' c'' \<Longrightarrow> kmod_reach k c c''"

inductive_cases kmod_stepE: "kmod_step k c c'"

text \<open>The transactions of the open files.\<close>

definition owns :: "(nat \<Rightarrow> kfile option) \<Rightarrow> nat set" where
  "owns fs = {t. \<exists>fd f. fs fd = Some f \<and> private_data f = Some t}"

definition files_inv :: "(nat \<Rightarrow> kfile option) \<times> 'a kmod_scheme \<Rightarrow> bool" where
  "files_inv c = (case c of (fs, s) \<Rightarrow> held_by (owns fs) s \<and>
     (\<forall>fd f. fs fd = Some f \<longrightarrow> private_data f \<noteq> None) \<and>
     (\<forall>fd fd' f f'. fs fd = Some f \<and> fs fd' = Some f' \<and> private_data f = private_data f' \<longrightarrow> fd = fd'))"

lemma ownsI: "fs fd = Some f \<Longrightarrow> private_data f = Some t \<Longrightarrow> t \<in> owns fs"
  by (auto simp: owns_def)

lemma owns_new: "private_data f = Some t \<Longrightarrow> owns (fs(fd := Some f)) \<subseteq> insert t (owns fs)"
  by (auto simp: owns_def split: if_splits)

lemma owns_same: "fs fd = Some f \<Longrightarrow> private_data f' = private_data f \<Longrightarrow> owns (fs(fd := Some f')) \<subseteq> owns fs"
  by (auto simp: owns_def split: if_splits)

lemma files_inv_new:
  assumes "files_inv (fs, s)" and "fs fd = None"
    and "\<exists>t. private_data f = Some t \<and> t \<notin> owns fs \<and> held_by (insert t (owns fs)) s'"
  shows "files_inv (fs(fd := Some f), s')"
proof -
  from assms(3) obtain t where t: "private_data f = Some t" "t \<notin> owns fs" "held_by (insert t (owns fs)) s'" by blast
  have n: "private_data f' \<noteq> Some t" if "fs x = Some f'" for x f' using t(2) ownsI [where fs = fs, OF that] by auto
  have "held_by (owns (fs(fd := Some f))) s'" by (rule held_mono [OF t(3) owns_new [where fs = fs, OF t(1)]])
  moreover have "\<forall>x f'. (fs(fd := Some f)) x = Some f' \<longrightarrow> private_data f' \<noteq> None"
    using assms(1) t(1) by (simp add: files_inv_def)
  moreover have "x = y" if "(fs(fd := Some f)) x = Some g" "(fs(fd := Some f)) y = Some h" "private_data g = private_data h"
    for x y g h
    using that assms(1) n t(1) unfolding files_inv_def by (cases "x = fd"; cases "y = fd") auto
  ultimately show ?thesis unfolding files_inv_def by blast
qed

lemma files_inv_same:
  assumes "files_inv (fs, s)" and "fs fd = Some f" and "held_by (owns fs) s' \<and> private_data f' = private_data f"
  shows "files_inv (fs(fd := Some f'), s')"
proof -
  have "held_by (owns (fs(fd := Some f'))) s'"
    using assms(3) owns_same [where fs = fs, OF assms(2)] held_mono by blast
  moreover have "\<forall>x g. (fs(fd := Some f')) x = Some g \<longrightarrow> private_data g \<noteq> None"
    using assms by (simp add: files_inv_def)
  moreover have "x = y" if "(fs(fd := Some f')) x = Some g" "(fs(fd := Some f')) y = Some h" "private_data g = private_data h"
    for x y g h
    using that assms unfolding files_inv_def by (cases "x = fd"; cases "y = fd") auto
  ultimately show ?thesis unfolding files_inv_def by blast
qed

lemma files_inv_gone:
  assumes "files_inv (fs, s)" and "fs fd = Some f" and "private_data f = Some t" and "held_by (owns fs - {t}) s'"
  shows "files_inv (fs(fd := None), s')"
proof -
  have "x \<noteq> t \<and> x \<in> owns fs" if x: "x \<in> owns (fs(fd := None))" for x
  proof -
    from x obtain y g where y: "y \<noteq> fd" "fs y = Some g" "private_data g = Some x"
      by (auto simp: owns_def split: if_splits)
    with assms(1-3) have "x \<noteq> t" unfolding files_inv_def by auto
    with ownsI [where fs = fs, OF y(2,3)] show ?thesis by simp
  qed
  then have "held_by (owns (fs(fd := None))) s'" by (intro held_mono [OF assms(4)]) auto
  moreover have "\<forall>x g. (fs(fd := None)) x = Some g \<longrightarrow> private_data g \<noteq> None"
    using assms(1) by (auto simp: files_inv_def)
  moreover have "x = y" if "(fs(fd := None)) x = Some g" "(fs(fd := None)) y = Some h" "private_data g = private_data h"
    for x y g h
    using that assms(1) unfolding files_inv_def by (auto split: if_splits)
  ultimately show ?thesis unfolding files_inv_def by blast
qed

lemma files_inv_held: "files_inv (fs, s) \<Longrightarrow> held_by (owns fs) s"
  by (simp add: files_inv_def)

lemma files_inv_data:
  assumes "files_inv (fs, s)" and "fs fd = Some f"
  shows "\<exists>t. private_data f = Some t"
proof -
  have "private_data f \<noteq> None" using assms unfolding files_inv_def by blast
  then show ?thesis by blast
qed

lemma kmod_step_inv:
  assumes "kmod_step k c c'" and "write_keeps_size k" and "files_inv c"
  shows "files_inv c'"
  using assms(1)
proof cases
  case (open_var fs fd f s r f' s')
  with assms(3) have i: "files_inv (fs, s)" by simp
  from files_inv_new [OF i open_var(3) open_var_held [OF files_inv_held [OF i] open_var(4)]] open_var show ?thesis by simp
next
  case (open_ll fs fd f s r f' s')
  with assms(3) have i: "files_inv (fs, s)" by simp
  from files_inv_new [OF i open_ll(3) open_ll_held [OF files_inv_held [OF i] open_ll(4)]] open_ll show ?thesis by simp
next
  case (read fs fd f n s r out f' s')
  with assms(3) have i: "files_inv (fs, s)" by simp
  from files_inv_same [OF i read(3) read_var_held [OF files_inv_held [OF i] read(4)]] read show ?thesis by simp
next
  case (write_var fs fd f data s r f' s')
  with assms(3) have i: "files_inv (fs, s)" by simp
  from files_inv_same [OF i write_var(3) write_var_held [OF files_inv_held [OF i] write_var(4) assms(2)]] write_var show ?thesis by simp
next
  case (release fs fd f s r s')
  with assms(3) have i: "files_inv (fs, s)" by simp
  obtain t where t: "private_data f = Some t" using files_inv_data [where fs = fs, OF i release(3)] by blast
  from files_inv_gone [OF i release(3) t release_var_held [OF files_inv_held [OF i] release(4) t ownsI [where fs = fs, OF release(3) t]]] release
  show ?thesis by simp
next
  case (message d s s' fs)
  with assms(3) cb_held [of "owns fs" s d s'] show ?thesis by (simp add: files_inv_def)
next
  case (environment fs s os rs es)
  with assms(3) show ?thesis by (simp add: files_inv_def)
qed



section \<open>Loading the list\<close>

text \<open>The four access arrays are there, with \<open>n\<close> elements each.\<close>

definition arrays_ok :: "nat \<Rightarrow> 'a kmod_scheme \<Rightarrow> bool" where
  "arrays_ok n s \<longleftrightarrow> (\<exists>v mi ma de. val_access s = Some v \<and> min_access s = Some mi \<and> max_access s = Some ma \<and>
     desc_access s = Some de \<and> length v = n \<and> length mi = n \<and> length ma = n \<and> length de = n)"

text \<open>What \<open>set_access\<close> and the file creation leave alone: everything of the link.\<close>

definition same_link :: "'a kmod_scheme \<Rightarrow> 'a kmod_scheme \<Rightarrow> bool" where
  "same_link s s' \<longleftrightarrow> k_heap s' = k_heap s \<and> k_next s' = k_next s \<and> pending_list s' = pending_list s \<and>
     unused_list s' = unused_list s \<and> k_held s' = k_held s \<and> k_seq s' = k_seq s \<and> rpmsg_chnl s' = rpmsg_chnl s \<and>
     k_send_rets s' = k_send_rets s \<and> k_sched s' = k_sched s \<and> k_sent s' = k_sent s \<and> av_req s' = av_req s"

lemma same_linkD:
  assumes "same_link s s'"
  shows "link_inv s' = link_inv s" "owned s' t = owned s t" "pending_list s' = pending_list s" "k_heap s' = k_heap s"
    "k_seq s' = k_seq s" "rpmsg_chnl s' = rpmsg_chnl s" "k_send_rets s' = k_send_rets s" "k_sched s' = k_sched s"
    "k_sent s' = k_sent s"
  using assms by (simp_all add: same_link_def link_inv_def owned_def linked_def)

lemma set_access_ok:
  assumes "arrays_ok n s" and "i < n"
  shows "\<exists>s'. set_access i s = Some s' \<and> arrays_ok n s' \<and> same_link s s' \<and> k_files s' = k_files s \<and>
    inode_info (InVal i) s' = Some \<lparr>acc_index = of_nat i, acc_type = ACC_VAL\<rparr> \<and>
    (\<forall>j. j \<noteq> i \<longrightarrow> inode_info (InVal j) s' = inode_info (InVal j) s)"
proof -
  from assms(1) obtain v mi ma de where a: "val_access s = Some v" "min_access s = Some mi" "max_access s = Some ma"
    "desc_access s = Some de" "length v = n" "length mi = n" "length ma = n" "length de = n"
    by (auto simp: arrays_ok_def)
  have "aget (v[i := x]) j = aget v j" if "j \<noteq> i" for x j using that by (simp add: aget_def)
  with a assms(2) show ?thesis
    by (simp add: set_access_def aset_def arrays_ok_def same_link_def inode_info_def aget_def)
qed

lemma cstring_of_cut: "cstring_of (xs @ 0 # ys) = cstring_of xs"
  unfolding cstring_of_def by (induction xs) auto

text \<open>The name a reply carries.\<close>

definition reply_name :: "u8 list \<Rightarrow> u8 list" where
  "reply_name d = cstring_of (take (unat (m_len (dec_msg d))) (m_data (dec_msg d)))"

definition name_reply :: "u32 \<Rightarrow> u8 list \<Rightarrow> bool" where
  "name_reply q d \<longleftrightarrow> length d = 420 \<and> m_seq (dec_msg d) = q \<and> m_type (dec_msg d) = RES_NAME \<and>
     unat (m_len (dec_msg d)) \<le> 399"

lemma take_reply_name:
  assumes "name_reply q d"
  shows "cstring_of (t_buf (take_reply (dec_msg d) tr)) = reply_name d" and "t_err (take_reply (dec_msg d) tr) = 0"
  using assms
  by (auto simp: name_reply_def reply_name_def take_reply_def memcpy_to_def cstring_of_cut word_less_nat_alt)

text \<open>The files of one variable.\<close>

definition var_files :: "nat \<Rightarrow> u8 list \<Rightarrow> (kdir \<times> u8 list \<times> inode_ref) list" where
  "var_files i name = [(DirVal, name, InVal i), (DirMin, name, InMin i), (DirMax, name, InMax i), (DirDesc, name, InDesc i)]"

lemma load_one:
  fixes s :: "'a kmod_scheme"
  assumes "link_inv s" and "pending_list s = []" and "owned s t" and "rpmsg_chnl s" and "arrays_ok n s" and "i < n"
    and "k_send_rets s = 0 # rs" and "k_sched s = KMsg d # es" and "name_reply (k_seq s) d"
  shows "\<exists>s'. load_vars k t (i # is) s = load_vars k t is s' \<and> link_inv s' \<and> pending_list s' = [] \<and> owned s' t \<and>
    rpmsg_chnl s' \<and> arrays_ok n s' \<and> k_send_rets s' = rs \<and> k_sched s' = es \<and> k_seq s' = k_seq s + 1 \<and>
    k_files s' = k_files s @ var_files i (reply_name d) \<and>
    inode_info (InVal i) s' = Some \<lparr>acc_index = of_nat i, acc_type = ACC_VAL\<rparr> \<and>
    (\<forall>j. j \<noteq> i \<longrightarrow> inode_info (InVal j) s' = inode_info (InVal j) s)"
proof -
  obtain s1 where s1: "set_access i s = Some s1" "arrays_ok n s1" "same_link s s1" "k_files s1 = k_files s"
    "inode_info (InVal i) s1 = Some \<lparr>acc_index = of_nat i, acc_type = ACC_VAL\<rparr>"
    "\<forall>j. j \<noteq> i \<longrightarrow> inode_info (InVal j) s1 = inode_info (InVal j) s"
    using set_access_ok [OF assms(5,6)] by blast
  note sl = same_linkD [OF s1(3)]
  obtain tr where tr: "k_heap s1 t = Some tr" using assms(3) sl(2) by (auto simp: owned_def)
  let ?tr = "tr\<lparr>t_dirty := False, t_rnw := True, t_valid := False, t_len := 0, t_wq := True\<rparr>"
  let ?s2 = "put_t t ?tr s1"
  have i1: "link_inv s1" "pending_list s1 = []" "owned s1 t" using assms(1-3) sl by simp_all
  have i2: "link_inv ?s2" using link_inv_buf [OF i1(1) tr] by (intro put_t_inv [OF i1(1) tr]) simp
  have o2: "owned ?s2 t" "seqs_ok ?s2" using i1(2,3) by (simp_all add: owned_def seqs_ok_def)
  let ?m = "request_for (of_nat i) ACC_NAME True 0 ?s2"
  let ?s3 = "requested t ?tr ?m ?s2"
  have a: "access_var k (of_nat i) ACC_NAME (Some t) ?s2 = Some (0, ?s3)"
    using access_var_eq [OF i2 _ o2(1), of ?tr k ACC_NAME 0 0 rs "of_nat i"] assms(4,7) sl
    by (simp add: write_arg_def)
  have i3: "link_inv ?s3" "seqs_ok ?s3"
    using requested_inv [OF i2 o2(2,1), of ?tr ?m] i1(2) by simp_all
  let ?tq = "?tr\<lparr>msg_seq_nr := k_seq s\<rparr>" and ?es = "?s3\<lparr>k_sched := es\<rparr>"
  let ?s4 = "replied t ?tq (dec_msg d) ?es"
  have w: "wait_event (t_is_valid t) ?s3 = Some (0, ?s4)"
    using wait_for_reply [OF i3, of t ?tq d es] assms(8,9) sl by (simp add: name_reply_def)
  have "link_inv ?es" using i3(1) by (simp add: link_inv_def linked_def)
  then have i4: "link_inv ?s4" using sl by (intro replied_inv(1)) simp_all
  let ?s5 = "create_files i (reply_name d) ?s4"
  have sl5: "same_link ?s4 ?s5" by (simp add: same_link_def create_files_def)
  note s5 = same_linkD [OF sl5]
  have run: "load_vars k t (i # is) s = load_vars k t is ?s5"
    using s1(1) tr a w take_reply_name(1) [OF assms(9), of ?tq] by (simp add: upd_trans_put)
  have fr: "arrays_ok n ?s5" "\<And>r. inode_info r ?s5 = inode_info r s1" "k_files ?s5 = k_files s @ var_files i (reply_name d)"
    using s1(2,4)
    by (simp_all add: create_files_def var_files_def arrays_ok_def inode_info_def replied_def requested_def put_t_def split: inode_ref.split)
  have "owned ?s4 t" using i1(2,3) by (simp add: owned_def linked_def)
  then have "owned ?s5 t" by (simp add: s5)
  with run fr i4 i1 s5 sl assms(4,7) s1(5,6) show ?thesis by (intro exI [of _ ?s5]) simp
qed

lemma load_vars_ok:
  fixes s :: "'a kmod_scheme"
  assumes "link_inv s" and "pending_list s = []" and "owned s t" and "rpmsg_chnl s" and "arrays_ok n s"
    and "\<forall>i \<in> set is. i < n" and "distinct is"
    and "k_send_rets s = replicate (length is) 0 @ rs" and "k_sched s = map KMsg ds @ es"
    and "length ds = length is" and "\<forall>j < length is. name_reply (k_seq s + of_nat j) (ds ! j)"
  shows "\<exists>s'. load_vars k t is s = Some (True, s') \<and> link_inv s' \<and> owned s' t \<and> pending_list s' = [] \<and>
    k_files s' = k_files s @ concat (map2 (\<lambda>i d. var_files i (reply_name d)) is ds) \<and>
    (\<forall>i \<in> set is. inode_info (InVal i) s' = Some \<lparr>acc_index = of_nat i, acc_type = ACC_VAL\<rparr>) \<and>
    (\<forall>j. j \<notin> set is \<longrightarrow> inode_info (InVal j) s' = inode_info (InVal j) s)"
  using assms
proof (induction "is" arbitrary: s ds)
  case Nil
  then show ?case by simp
next
  case (Cons i "is")
  from Cons.prems(10) obtain d ds' where ds: "ds = d # ds'" "length ds' = length is" by (cases ds) auto
  have nr: "name_reply (k_seq s) d" using Cons.prems(11) ds by force
  have later: "name_reply (k_seq s + 1 + of_nat j) (ds' ! j)" if "j < length is" for j
  proof -
    have "name_reply (k_seq s + of_nat (Suc j)) (ds ! Suc j)" using Cons.prems(11) that by auto
    moreover have "k_seq s + of_nat (Suc j) = k_seq s + 1 + of_nat j" by (simp add: algebra_simps)
    ultimately show ?thesis by (simp only: ds(1) nth_Cons_Suc)
  qed
  have "i < n" "k_send_rets s = 0 # replicate (length is) 0 @ rs" "k_sched s = KMsg d # map KMsg ds' @ es"
    using Cons.prems(6,8,9) ds by simp_all
  from load_one [OF Cons.prems(1-5) this nr, of k "is"] obtain s1 where
    s1: "load_vars k t (i # is) s = load_vars k t is s1" "link_inv s1" "pending_list s1 = []" "owned s1 t"
    "rpmsg_chnl s1" "arrays_ok n s1" "k_send_rets s1 = replicate (length is) 0 @ rs" "k_sched s1 = map KMsg ds' @ es"
    "k_seq s1 = k_seq s + 1" "k_files s1 = k_files s @ var_files i (reply_name d)"
    "inode_info (InVal i) s1 = Some \<lparr>acc_index = of_nat i, acc_type = ACC_VAL\<rparr>"
    "\<forall>j. j \<noteq> i \<longrightarrow> inode_info (InVal j) s1 = inode_info (InVal j) s"
    by blast
  have di: "i \<notin> set is" "distinct is" using Cons.prems(7) by simp_all
  from Cons.IH [OF s1(2-6) _ di(2) s1(7,8) ds(2)] Cons.prems(6) later s1(9) obtain s' where
    s': "load_vars k t is s1 = Some (True, s')" "link_inv s'" "owned s' t" "pending_list s' = []"
    "k_files s' = k_files s1 @ concat (map2 (\<lambda>i d. var_files i (reply_name d)) is ds')"
    "\<forall>i \<in> set is. inode_info (InVal i) s' = Some \<lparr>acc_index = of_nat i, acc_type = ACC_VAL\<rparr>"
    "\<forall>j. j \<notin> set is \<longrightarrow> inode_info (InVal j) s' = inode_info (InVal j) s1" by auto
  from s' s1 di(1) ds(1) show ?case by (intro exI [of _ s']) auto
qed

lemma get_n_vars_ok:
  fixes s :: "'a klink_scheme"
  assumes "link_inv s" and "pending_list s = []" and "unused_list s = u # us" and "rpmsg_chnl s"
    and "k_n_vars s < 0" and "k_send_rets s = 0 # rs" and "k_sched s = KMsg d # es" and "length d = 420"
    and "m_seq (dec_msg d) = k_seq s" and "m_type (dec_msg d) = RES_N_VARS" and "0 \<le> sint (m_val (dec_msg d))"
  shows "\<exists>tr m h w. get_n_vars s = Some (sint (m_val (dec_msg d)), s\<lparr>k_seq := k_seq s + 1, nv_req := m, unused_list := us,
     k_heap := (k_heap s)(u := Some tr), k_send_rets := rs, k_sent := k_sent s @ [m], k_sched := es,
     k_n_vars := sint (m_val (dec_msg d)), k_wakes := w\<rparr>) \<and> length (t_buf tr) = IO_BUF_SIZE"
proof -
  let ?m = "(nv_req s)\<lparr>m_seq := k_seq s, m_ind := -1, m_val := 0, m_len := 0, m_type := REQ_N_VARS\<rparr>"
  let ?s0 = "s\<lparr>k_seq := k_seq s + 1, nv_req := ?m\<rparr>"
  have h: "k_held s = (\<lambda>_. False)" by (rule link_invD [OF assms(1)])
  have i0: "link_inv ?s0" using assms(1) by (simp add: link_inv_def linked_def)
  have al: "rpmsg_link_alloc_trans ?s0 = Some (u, ?s0\<lparr>unused_list := us, k_heap := (k_heap s)(u := Some zero_trans)\<rparr>)"
    using alloc_reuse [OF i0] assms(3) by simp
  let ?tr = "zero_trans\<lparr>msg_seq_nr := k_seq s, t_wq := True\<rparr>"
  let ?s1 = "?s0\<lparr>unused_list := us, k_heap := (k_heap s)(u := Some ?tr), pending_list := [u], k_send_rets := rs,
    k_sent := k_sent s @ [?m]\<rparr>"
  have nl: "u \<notin> set us" using link_invD(3) [OF assms(1)] assms(3) by simp
  have i1: "link_inv ?s1" "inj_on (seq_of ?s1) (set (pending_list ?s1))"
  proof -
    obtain tr where "k_heap s u = Some tr" using link_inv_linked [OF assms(1), of u] assms(3) by (auto simp: linked_def)
    from link_inv_next [OF assms(1) this] assms(1-3) nl show "link_inv ?s1" by (auto simp: link_inv_def linked_def)
  qed simp
  have i2: "link_inv (?s1\<lparr>k_sched := es\<rparr>)" using i1(1) by (simp add: link_inv_def linked_def)
  have cb: "cfg_mgmt_rpmsg_cb d (?s1\<lparr>k_sched := es\<rparr>) = Some (replied u ?tr (dec_msg d) (?s1\<lparr>k_sched := es\<rparr>))"
    using assms(8,9) by (intro cb_matched [OF i2]) (simp_all add: inj_on_def)
  have w: "wait_event (\<lambda>s. 0 \<le> k_n_vars s) ?s1 = Some (0, replied u ?tr (dec_msg d) (?s1\<lparr>k_sched := es\<rparr>))"
    using cb assms(5,7,10,11) by (simp add: wait_event_def replied_def)
  have "length (t_buf (take_reply (dec_msg d) ?tr)) = IO_BUF_SIZE" by (rule take_reply_size) simp
  moreover have "get_n_vars s = Some (sint (m_val (dec_msg d)), s\<lparr>k_seq := k_seq s + 1, nv_req := ?m, unused_list := us,
     k_heap := (k_heap s)(u := Some (take_reply (dec_msg d) ?tr)), k_send_rets := rs, k_sent := k_sent s @ [?m], k_sched := es,
     k_n_vars := sint (m_val (dec_msg d)), k_wakes := Suc (k_wakes s)\<rparr>)"
  proof -
    let ?sA = "?s0\<lparr>unused_list := us, k_heap := (k_heap s)(u := Some ?tr)\<rparr>"
    have ut: "upd_trans u (\<lambda>tr. tr\<lparr>msg_seq_nr := k_seq s, t_wq := True\<rparr>)
      (?s0\<lparr>unused_list := us, k_heap := (k_heap s)(u := Some zero_trans)\<rparr>) = Some ?sA"
      by (simp add: upd_trans_def)
    have "owned ?sA u" using nl assms(2) by (simp add: owned_def linked_def)
    with h have ap: "add_pend_trans u ?sA = Some (?sA\<lparr>pending_list := [u]\<rparr>)"
      using add_pend_eq [of ?sA u] assms(2) by simp
    have sd: "k_rpmsg_send ?m (?sA\<lparr>pending_list := [u]\<rparr>) = Some (0, ?s1)"
      using assms(6) by (simp add: k_rpmsg_send_def)
    show ?thesis
      using assms(2,4,10) w by (simp add: get_n_vars_def get_next_seq_eq [OF h] al ut ap sd replied_def)
  qed
  ultimately show ?thesis by blast
qed

lemma make_all_dirs:
  assumes "k_outcomes s = replicate 8 True @ os"
  shows "\<exists>s1 s2. alloc_mem n s = Some (0, s1) \<and> make_dirs s1 = Some (None, s2) \<and> same_link s s2 \<and>
    arrays_ok n s2 \<and> k_files s2 = k_files s"
  using assms
  by (simp add: alloc_mem_def make_dirs_def k_outcome_def eval_nat_numeral same_link_def arrays_ok_def new_array_def)


definition kmod_fresh :: "bool list \<Rightarrow> int list \<Rightarrow> kevent list \<Rightarrow> kmod" where
  "kmod_fresh outs rets evs = link_demo outs rets evs
     (kmod.kmod_ext None None None None True False False False False [(DirRoot, cstr ''load_list'', LoadList)] ())"

lemma kmod_fresh_sel:
  "unused_list (kmod_fresh o' r e) = [1, 0]" "pending_list (kmod_fresh o' r e) = []" "k_seq (kmod_fresh o' r e) = 0"
  "rpmsg_chnl (kmod_fresh o' r e)" "k_send_rets (kmod_fresh o' r e) = r" "k_sched (kmod_fresh o' r e) = e"
  "link_inv (kmod_fresh o' r e)" "k_n_vars (kmod_fresh o' r e) = -1" "k_outcomes (kmod_fresh o' r e) = o'"
  "val_access (kmod_fresh o' r e) = None" "k_files (kmod_fresh o' r e) = [(DirRoot, cstr ''load_list'', LoadList)]"
  by (simp_all add: kmod_fresh_def link_demo_sel link_demo_inv) (simp_all add: link_demo_def)

definition demo_name :: cfgMsg where
  "demo_name = zero_msg\<lparr>m_seq := 1, m_type := RES_NAME, m_len := 5, m_data := cstr ''gain1'' @ replicate 395 0\<rparr>"

lemma demo_name_reply: "name_reply 1 (enc_msg demo_name)" "reply_name (enc_msg demo_name) = cstr ''gain1''"
proof -
  have l: "length (m_data demo_name) = 400" by (simp add: demo_name_def)
  have d: "dec_msg (enc_msg demo_name) = demo_name" by (rule dec_enc_msg [OF l])
  show "name_reply 1 (enc_msg demo_name)"
    using l by (simp add: name_reply_def d) (simp add: demo_name_def)
  show "reply_name (enc_msg demo_name) = cstr ''gain1''"
    unfolding reply_name_def d by (simp add: demo_name_def cstring_of_def cstr_def)
qed


end
