(* ===== verification/Clist.thy ===== *)
theory Clist
  imports Prelude "HOL-Library.List_Lexorder"
begin

text \<open>
  The command line tool that lists the variables (tools/clist/src/clist.c). The operating
  system is an argument, the record \<open>fsys\<close>: what \<open>open\<close> makes of a path (an \<open>errno\<close> or the
  content) and what \<open>scandir\<close> finds in a directory. The content of a file is a list of
  segments: one \<open>read\<close> gives at most one of them, so every way to split a file into short
  reads is covered, and \<open>Fail\<close> is a \<open>read\<close> that returns an error. \<open>alphasort\<close> is the
  lexicographic order on bytes (the program never leaves the C locale). Memory from \<open>malloc\<close>
  holds arbitrary bytes (all equal to \<open>junk\<close>) and \<open>malloc\<close> does not fail. What the program
  writes is collected in \<open>tout\<close> and \<open>terr\<close>.
\<close>

abbreviation (input) "MAX_NUMERIC_LEN \<equiv> (12 :: nat)"
abbreviation (input) "MAX_DESC_LEN \<equiv> (200 :: nat)"
abbreviation (input) "fn_buf_len \<equiv> (256 :: nat)"
abbreviation (input) "DFLT_PATH \<equiv> cstr ''/debug/cfg_mgmt''"

section \<open>The operating system\<close>

datatype seg = Data "u8 list" | Fail

fun sys_read :: "nat \<Rightarrow> seg list \<Rightarrow> int \<times> u8 list \<times> seg list" where
  "sys_read n [] = (0, [], [])"
| "sys_read n (Fail # r) = (-1, [], r)"
| "sys_read n (Data b # r) =
     (int (length (take n b)), take n b, if length b \<le> n then r else Data (drop n b) # r)"

record fsys =
  fopen :: "u8 list \<Rightarrow> int + seg list"
  scan :: "u8 list \<Rightarrow> int + u8 list list"
  junk :: u8

record tty =
  tout :: "u8 list"
  terr :: "u8 list"

definition printf :: "u8 list \<Rightarrow> tty \<Rightarrow> tty" where
  "printf s t = t\<lparr>tout := tout t @ s\<rparr>"

definition eprintf :: "u8 list \<Rightarrow> tty \<Rightarrow> tty" where
  "eprintf s t = t\<lparr>terr := terr t @ s\<rparr>"

lemma printf_simps [simp]:
  "printf b (printf a t) = printf (a @ b) t" "printf [] t = t"
  "tout (printf a t) = tout t @ a" "terr (printf a t) = terr t"
  "tout (eprintf a t) = tout t" "terr (eprintf a t) = terr t @ a"
  by (simp_all add: printf_def eprintf_def)

lemma sys_read_bound:
  assumes "(ret, c, rest) = sys_read n segs"
  shows "ret = -1 \<and> c = [] \<or> ret = int (length c) \<and> length c \<le> n"
  using assms by (cases "(n, segs)" rule: sys_read.cases) auto

section \<open>Reading a file into a buffer\<close>

text \<open>The loop \<open>while ((ret = read(fd, buf + bytes, n - bytes)) > 0) bytes += ret\<close>: the last
  return value, the bytes read and what is left of the file.\<close>

function read_loop :: "nat \<Rightarrow> u8 list \<Rightarrow> seg list \<Rightarrow> int \<times> u8 list \<times> seg list" where
  "read_loop n got segs = (case sys_read (n - length got) segs of (ret, c, rest) \<Rightarrow>
     if 0 < ret then read_loop n (got @ c) rest else (ret, got, rest))"
  by auto

lemma read_loop_decreases:
  assumes "(ret, c, rest) = sys_read (n - length got) segs" and "0 < ret"
  shows "n - length (got @ c) < n - length got"
  using sys_read_bound [OF assms(1)] assms(2) by (cases c) auto

termination read_loop
  by (relation "measure (\<lambda>(n, got, _). n - length got)")
    (auto dest: read_loop_decreases simp del: length_append)

declare read_loop.simps [simp del]

text \<open>After the loop a newline at the end is dropped and the text terminated. The code
  looks at \<open>buf[bytes-1]\<close> even if nothing was read; that access has no value.\<close>

definition finish_text :: "u8 list \<Rightarrow> nat \<Rightarrow> u8 list option" where
  "finish_text buf bytes =
     (if bytes = 0 then None else do {
        l \<leftarrow> aget buf (bytes - 1);
        buf \<leftarrow> (if l = 10 then aset buf (bytes - 1) 0 else Some buf);
        aset buf bytes 0 })"

definition read_fd :: "seg list \<Rightarrow> u8 list \<Rightarrow> nat \<Rightarrow> (int \<times> u8 list) option" where
  "read_fd segs buf n = (case read_loop (n - 1) [] segs of (ret, got, _) \<Rightarrow>
     let buf = memcpy_to buf got in
     if ret < 0 then Some (ret, buf)
     else do { buf \<leftarrow> finish_text buf (length got); Some (int (length got), buf) })"

definition load_file :: "fsys \<Rightarrow> u8 list \<Rightarrow> u8 list \<Rightarrow> nat \<Rightarrow> tty \<Rightarrow> (int \<times> u8 list \<times> tty) option" where
  "load_file os fn buf n t = (case fopen os fn of
     Inl en \<Rightarrow> Some (- en, buf, printf (cstr ''load_file: can't open file: -1'' @ [10]) t)
   | Inr segs \<Rightarrow> (case read_loop (n - 1) [] segs of (ret, got, _) \<Rightarrow>
       let buf = memcpy_to buf got in
       if ret < 0 then Some (ret, buf, t)
       else do { buf \<leftarrow> finish_text buf (length got); Some (int (length got), buf, t) }))"

section \<open>Loading all variables\<close>

record row =
  names :: "u8 list"
  valuez :: "u8 list"
  minima :: "u8 list"
  maxima :: "u8 list"
  descs :: "u8 list"

text \<open>\<open>load\<close> returns a status, or leaves the program with \<open>exit\<close>.\<close>

datatype 'a outcome = Ret 'a | Exit int

definition snprintf :: "nat \<Rightarrow> u8 list \<Rightarrow> u8 list" where
  "snprintf n s = take (n - 1) s"

definition file_name :: "u8 list \<Rightarrow> string \<Rightarrow> u8 list \<Rightarrow> u8 list" where
  "file_name path dir name = snprintf fn_buf_len (path @ cstr ''/'' @ cstr dir @ cstr ''/'' @ name)"

fun open_all :: "fsys \<Rightarrow> u8 list \<Rightarrow> u8 list \<Rightarrow> string list \<Rightarrow> int + seg list list" where
  "open_all os path name [] = Inr []"
| "open_all os path name (d # ds) = (case fopen os (file_name path d name) of
     Inl en \<Rightarrow> Inl en
   | Inr f \<Rightarrow> (case open_all os path name ds of Inl en \<Rightarrow> Inl en | Inr fs \<Rightarrow> Inr (f # fs)))"

text \<open>The four reads: each has its file, the size of its buffer and the name in its error message.\<close>

fun read_all :: "fsys \<Rightarrow> (seg list \<times> nat \<times> string) list \<Rightarrow> tty \<Rightarrow> (u8 list list outcome \<times> tty) option" where
  "read_all os [] t = Some (Ret [], t)"
| "read_all os ((f, n, what) # fs) t = do {
     (ret, buf) \<leftarrow> read_fd f (replicate n (junk os)) n;
     if ret < 0 then Some (Exit (-1), eprintf (cstr ''load: can't read '' @ cstr what @ dec ret @ [10]) t)
     else do {
       (res, t) \<leftarrow> read_all os fs t;
       Some (case res of Exit e \<Rightarrow> Exit e | Ret bs \<Rightarrow> Ret (buf # bs), t) } }"

definition load_one :: "fsys \<Rightarrow> u8 list \<Rightarrow> u8 list \<Rightarrow> tty \<Rightarrow> ((int + row) outcome \<times> tty) option" where
  "load_one os path name t =
     (case open_all os path name [''val'', ''min'', ''max'', ''desc''] of
        Inl en \<Rightarrow> Some (Ret (Inl (- en)), printf (cstr ''load: can't open file: -1'' @ [10]) t)
      | Inr fd \<Rightarrow> do {
          (res, t) \<leftarrow> read_all os [(fd ! 0, MAX_NUMERIC_LEN, ''val file ''),
                                  (fd ! 1, MAX_NUMERIC_LEN, ''min file: ''),
                                  (fd ! 2, MAX_NUMERIC_LEN, ''max file: ''),
                                  (fd ! 3, MAX_DESC_LEN, ''desc file: '')] t;
          Some (case res of Exit e \<Rightarrow> Exit e
                | Ret bs \<Rightarrow> Ret (Inr \<lparr>names = name @ [0], valuez = bs ! 0, minima = bs ! 1,
                                     maxima = bs ! 2, descs = bs ! 3\<rparr>), t) })"

fun load :: "fsys \<Rightarrow> u8 list \<Rightarrow> u8 list list \<Rightarrow> tty \<Rightarrow> ((int + row list) outcome \<times> tty) option" where
  "load os path [] t = Some (Ret (Inr []), t)"
| "load os path (n # ns) t = do {
     (res, t) \<leftarrow> load_one os path n t;
     (case res of
        Exit e \<Rightarrow> Some (Exit e, t)
      | Ret (Inl e) \<Rightarrow> Some (Ret (Inl e), t)
      | Ret (Inr r) \<Rightarrow> do {
          (res, t) \<leftarrow> load os path ns t;
          Some (case res of
                  Exit e \<Rightarrow> Exit e
                | Ret (Inl e) \<Rightarrow> Ret (Inl e)
                | Ret (Inr rs) \<Rightarrow> Ret (Inr (r # rs)), t) }) }"

section \<open>The table\<close>

definition strlen :: "u8 list \<Rightarrow> nat" where
  "strlen buf = length (cstring_of buf)"

definition puts_pad :: "u8 list \<Rightarrow> nat \<Rightarrow> tty \<Rightarrow> tty" where
  "puts_pad str len t = printf (cstring_of str @ replicate (len - strlen str) 32) t"

definition no_dot_filter :: "u8 list \<Rightarrow> bool" where
  "no_dot_filter de = (de \<noteq> [] \<longrightarrow> hd de \<noteq> 46)"

text \<open>The widths of the columns: the loop over the rows that keeps the maxima.\<close>

definition widen :: "row \<Rightarrow> nat \<times> nat \<times> nat \<times> nat \<Rightarrow> nat \<times> nat \<times> nat \<times> nat" where
  "widen r w = (case w of (nName, nVal, nMin, nMax) \<Rightarrow>
     (if strlen (names r) > nName then strlen (names r) else nName,
      if strlen (valuez r) > nVal then strlen (valuez r) else nVal,
      if strlen (minima r) > nMin then strlen (minima r) else nMin,
      if strlen (maxima r) > nMax then strlen (maxima r) else nMax))"

definition puts_row :: "nat \<times> nat \<times> nat \<times> nat \<Rightarrow> row \<Rightarrow> tty \<Rightarrow> tty" where
  "puts_row w r t = (case w of (nName, nVal, nMin, nMax) \<Rightarrow>
     printf (cstring_of (descs r) @ [10])
       (puts_pad (maxima r) nMax (puts_pad (minima r) nMin
         (puts_pad (valuez r) nVal (puts_pad (names r) nName t)))))"

definition header :: row where
  "header = \<lparr>names = cstr ''Name'', valuez = cstr ''Value'', minima = cstr ''Minimum'',
             maxima = cstr ''Maximum'', descs = cstr ''Description''\<rparr>"

definition show_table :: "row list \<Rightarrow> tty \<Rightarrow> tty" where
  "show_table rows t = (case fold widen rows (4, 5, 7, 7) of (nName, nVal, nMin, nMax) \<Rightarrow>
     let w = (nName + 2, nVal + 2, nMin + 2, nMax + 2) in
     fold (puts_row w) rows (puts_row w header t))"

text \<open>\<open>show\<close> of the code. \<open>errno\<close> is not zero after a call that failed; if it were, \<open>load\<close>
  would report success with arrays it has not filled, which has no value here.\<close>

definition show_vars :: "fsys \<Rightarrow> u8 list \<Rightarrow> tty \<Rightarrow> (int outcome \<times> tty) option" where
  "show_vars os path t = (case scan os (snprintf fn_buf_len (path @ cstr ''/val'')) of
     Inl en \<Rightarrow> Some (Ret (- en), printf (cstr ''scandir error: '' @ dec en @ [10]) t)
   | Inr found \<Rightarrow>
       let name_list = sort (filter no_dot_filter found) in
       if name_list = [] then Some (Ret 0, printf (cstr ''no variables found'' @ [10]) t)
       else do {
         (res, t) \<leftarrow> load os path name_list t;
         (case res of
             Exit e \<Rightarrow> Some (Exit e, t)
           | Ret (Inl e) \<Rightarrow> if e \<noteq> 0 then Some (Ret e, printf (cstr ''load returned '' @ dec e @ [10]) t)
                           else None
           | Ret (Inr rows) \<Rightarrow> Some (Ret 0, show_table rows t)) })"

section \<open>The command line\<close>

text \<open>\<open>getopt(argc, argv, "hd:")\<close> of the C library, with its default treatment of arguments
  that are no options (they are passed over): the rest of the argument being scanned and the
  arguments not yet looked at. \<open>optopt\<close> starts as a question mark.\<close>

datatype opt = Opt_h | Opt_d "u8 list" | Opt_err u8

fun getopt :: "u8 list \<Rightarrow> u8 list list \<Rightarrow> (opt \<times> u8 list \<times> u8 list list) option" where
  "getopt (c # nextchar) argv =
     (if c = 104 then Some (Opt_h, nextchar, argv)
      else if c = 100 then
        (if nextchar \<noteq> [] then Some (Opt_d nextchar, [], argv)
         else case argv of [] \<Rightarrow> Some (Opt_err 100, [], []) | a # as \<Rightarrow> Some (Opt_d a, [], as))
      else Some (Opt_err c, nextchar, argv))"
| "getopt [] [] = None"
| "getopt [] (a # as) =
     (if a = [45, 45] then None
      else case a of
          c # d # ds \<Rightarrow> if c = 45 then getopt (d # ds) as else getopt [] as
        | _ \<Rightarrow> getopt [] as)"

definition help_text :: "u8 list" where
  "help_text = cstr ''cfg_mgmt tools - clist'' @ [10]
     @ cstr '' Lists all variables, current values, limits and descriptions'' @ [10]
     @ cstr '' Options:'' @ [10]
     @ cstr ''  -d <path>   Specify path to cfg_mgmt folder exported by the kernel module'' @ [10]
     @ cstr ''              Default location: '' @ DFLT_PATH @ [10]"

definition show_help :: "tty \<Rightarrow> tty" where
  "show_help t = printf help_text t"

definition isprint :: "u8 \<Rightarrow> bool" where
  "isprint c \<longleftrightarrow> 32 \<le> c \<and> c < 127"

text \<open>The case \<open>'?'\<close> of the loop in \<open>main\<close>, which the case \<open>'h'\<close> falls into.\<close>

definition bad_option :: "u8 \<Rightarrow> tty \<Rightarrow> tty" where
  "bad_option optopt t =
     (if optopt = 100 then eprintf (cstr ''Option -'' @ [optopt] @ cstr '' requires an argument.'' @ [10]) t
      else if isprint optopt then
        eprintf (cstr ''Unknown option `-'' @ [optopt, 39, 46, 10]) t
      else eprintf (cstr ''Unknown option character `'' @ [92, 120] @ hexstr (ucast optopt) @ [39, 46, 10]) t)"

fun opts_size :: "u8 list \<Rightarrow> u8 list list \<Rightarrow> nat" where
  "opts_size nextchar argv = length nextchar + sum_list (map (\<lambda>a. Suc (length a)) argv)"

lemma getopt_size:
  "getopt nextchar argv = Some (c, nc, rest) \<Longrightarrow> opts_size nc rest < opts_size nextchar argv"
  by (induction nextchar argv rule: getopt.induct) (force split: if_splits list.splits)+

text \<open>The option loop: the path to list, or the program has ended with status 1.\<close>

function parse_opts :: "u8 list \<Rightarrow> u8 list \<Rightarrow> u8 list list \<Rightarrow> tty \<Rightarrow> (u8 list + int) \<times> tty" where
  "parse_opts path nextchar argv t = (case getopt nextchar argv of
     None \<Rightarrow> (Inl path, t)
   | Some (Opt_d optarg, nc, rest) \<Rightarrow> parse_opts optarg nc rest t
   | Some (Opt_h, nc, rest) \<Rightarrow> (Inr 1, bad_option 63 (show_help t))
   | Some (Opt_err optopt, nc, rest) \<Rightarrow> (Inr 1, bad_option optopt t))"
  by auto
termination
  by (relation "measure (\<lambda>(_, nc, argv, _). opts_size nc argv)") (auto dest: getopt_size simp del: opts_size.simps)

declare parse_opts.simps [simp del]

text \<open>\<open>main\<close>: its exit status and what was printed. \<open>argv\<close> is without the program's name.\<close>

definition clist_main :: "fsys \<Rightarrow> u8 list list \<Rightarrow> tty \<Rightarrow> (int \<times> tty) option" where
  "clist_main os argv t = (case parse_opts DFLT_PATH [] argv t of
     (Inr status, t) \<Rightarrow> Some (status, t)
   | (Inl path, t) \<Rightarrow> do {
       (res, t) \<leftarrow> show_vars os path t;
       Some (case res of
           Exit e \<Rightarrow> (e, t)
         | Ret ret \<Rightarrow> (0, if ret \<noteq> 0 then printf (cstr ''show returned '' @ dec ret @ [10]) t else t)) })"

section \<open>What reading gives\<close>

text \<open>A regular file: whatever the sizes of the reads, they give its content.\<close>

fun seg_bytes :: "seg \<Rightarrow> u8 list" where
  "seg_bytes (Data b) = b"
| "seg_bytes Fail = []"

definition content :: "seg list \<Rightarrow> u8 list \<Rightarrow> bool" where
  "content segs s \<longleftrightarrow> list_all (\<lambda>x. seg_bytes x \<noteq> []) segs \<and> concat (map seg_bytes segs) = s"

lemma content_Nil [simp]: "content [] s \<longleftrightarrow> s = []"
  by (auto simp: content_def)

lemma content_Cons:
  "content (x # segs) s \<longleftrightarrow> (\<exists>b s'. x = Data b \<and> b \<noteq> [] \<and> content segs s' \<and> s = b @ s')"
  by (cases x) (auto simp: content_def)

lemma read_loop_content:
  assumes "content segs s" and "length got \<le> n"
  shows "\<exists>rest. read_loop n got segs = (0, got @ take (n - length got) s, rest)"
  using assms
proof (induction n got segs arbitrary: s rule: read_loop.induct)
  case (1 n got segs)
  show ?case
  proof (cases segs)
    case Nil
    with "1.prems" show ?thesis by (simp add: read_loop.simps)
  next
    case (Cons x ds)
    with "1.prems"(1) obtain c s' where c: "x = Data c" "c \<noteq> []" "content ds s'" "s = c @ s'"
      by (auto simp: content_Cons)
    define k where "k = n - length got"
    define r where "r = (if length c \<le> k then ds else Data (drop k c) # ds)"
    have sr: "sys_read (n - length got) segs = (int (length (take k c)), take k c, r)"
      by (simp add: c Cons k_def r_def)
    have cr: "content r (drop k c @ s')"
      using c(3) by (auto simp: r_def content_Cons)
    show ?thesis
    proof (cases "k = 0")
      case True
      then show ?thesis using sr by (simp add: read_loop.simps k_def)
    next
      case False
      have pos: "0 < int (length (take k c))" using c(2) False by simp
      have le: "length (got @ take k c) \<le> n" using k_def "1.prems"(2) by simp
      from "1.IH" [OF sr [symmetric] refl pos cr le] obtain rest where
        "read_loop n (got @ take k c) r
           = (0, (got @ take k c) @ take (n - length (got @ take k c)) (drop k c @ s'), rest)"
        by blast
      moreover have "take k s = take k c @ take (n - length (got @ take k c)) (drop k c @ s')"
      proof -
        have "s = take k c @ drop k c @ s'"
          by (simp add: c(4) append.assoc [symmetric])
        then have "take k s = take k (take k c @ drop k c @ s')" by simp
        then show ?thesis by (subst (asm) take_append) (simp add: k_def)
      qed
      ultimately show ?thesis using sr pos
        by (subst read_loop.simps) (simp add: k_def)
    qed
  qed
qed

definition chomp :: "u8 list \<Rightarrow> u8 list" where
  "chomp s = (if s \<noteq> [] \<and> last s = 10 then butlast s else s)"

lemma chomp_line [simp]: "chomp (s @ [10]) = s"
  by (simp add: chomp_def)

lemma length_chomp: "length (chomp s) \<le> length s"
  by (simp add: chomp_def)

lemma cstring_of_terminated: "0 \<notin> set s \<Longrightarrow> cstring_of (s @ 0 # r) = s"
  by (simp add: cstring_of_def takeWhile_append)

lemma finish_text_ok:
  assumes "s \<noteq> []" and "0 \<notin> set s"
  shows "\<exists>b. finish_text (s @ x # r) (length s) = Some b \<and> length b = Suc (length s + length r)
           \<and> cstring_of b = chomp s"
proof -
  obtain q l where s: "s = q @ [l]" using assms(1) by (cases s rule: rev_cases) auto
  show ?thesis
    using assms(2) by (cases "l = 10")
      (auto simp: s finish_text_def defined_simps nth_append list_update_append chomp_def
        cstring_of_def takeWhile_append)
qed

text \<open>A file that is not empty and holds no zero byte is read up to \<open>n - 1\<close> bytes,
  and the text in the buffer is what was read without a newline at its end.\<close>

lemma read_fd_content:
  assumes "content segs s" and "s \<noteq> []" and "0 \<notin> set s" and "2 \<le> n" and "length buf = n"
  shows "\<exists>b. read_fd segs buf n = Some (int (length (take (n - 1) s)), b) \<and> length b = n
           \<and> cstring_of b = chomp (take (n - 1) s)"
proof -
  define q where "q = take (n - 1) s"
  obtain rest where rl: "read_loop (n - 1) [] segs = (0, q, rest)"
    using read_loop_content [OF assms(1), of "[]" "n - 1"] by (auto simp: q_def)
  have "length q < length buf" using assms(4,5) by (simp add: q_def)
  then obtain x r where d: "drop (length q) buf = x # r" by (metis Cons_nth_drop_Suc)
  have "length (drop (length q) buf) = n - length q" using assms(5) by simp
  then have lr: "Suc (length q + length r) = n" using d \<open>length q < length buf\<close> assms(5) by simp
  have "q \<noteq> []" "0 \<notin> set q" using assms(2,3,4) by (auto simp: q_def dest: in_set_takeD)
  then obtain b where "finish_text (q @ x # r) (length q) = Some b" "length b = n" "cstring_of b = chomp q"
    using finish_text_ok [of q x r] lr by auto
  moreover have "memcpy_to buf q = q @ x # r" by (simp add: memcpy_to_def d)
  ultimately show ?thesis
    unfolding read_fd_def rl by (auto simp: q_def)
qed

section \<open>The table as text\<close>

text \<open>What is to be printed, stated without buffers: every line of a table starts its four
  columns at the same places, wide enough for the longest entry of each.\<close>

definition col_width :: "u8 list list \<Rightarrow> nat" where
  "col_width entries = fold max (map length entries) 0 + 2"

definition pad :: "nat \<Rightarrow> u8 list \<Rightarrow> u8 list" where
  "pad w s = s @ replicate (w - length s) 32"

definition table_line :: "nat list \<Rightarrow> u8 list list \<Rightarrow> u8 list" where
  "table_line ws entries = concat (map2 pad ws entries) @ last entries @ [10]"

definition column :: "u8 list list list \<Rightarrow> nat \<Rightarrow> u8 list list" where
  "column rows k = map (\<lambda>r. r ! k) rows"

definition table_text :: "u8 list list list \<Rightarrow> u8 list" where
  "table_text rows =
     (let all = [cstr ''Name'', cstr ''Value'', cstr ''Minimum'', cstr ''Maximum'', cstr ''Description''] # rows;
          ws = map (\<lambda>k. col_width (column all k)) [0, 1, 2, 3]
      in concat (map (table_line ws) all))"

definition texts :: "row \<Rightarrow> u8 list list" where
  "texts r = [cstring_of (names r), cstring_of (valuez r), cstring_of (minima r),
              cstring_of (maxima r), cstring_of (descs r)]"

lemma widen_fold:
  "fold widen rows (a, b, c, d) =
     (fold max (map (\<lambda>r. strlen (names r)) rows) a, fold max (map (\<lambda>r. strlen (valuez r)) rows) b,
      fold max (map (\<lambda>r. strlen (minima r)) rows) c, fold max (map (\<lambda>r. strlen (maxima r)) rows) d)"
  by (induction rows arbitrary: a b c d) (simp_all add: widen_def max.commute max_def)

lemma col_width_header:
  "col_width (x # map f rows) = fold max (map (\<lambda>r. length (f r)) rows) (length x) + 2"
  by (simp add: col_width_def comp_def)

lemma puts_row_eq:
  "puts_row (a, b, c, d) r t = printf (table_line [a, b, c, d] (texts r)) t"
  by (simp add: puts_row_def puts_pad_def table_line_def texts_def pad_def strlen_def)

lemma puts_rows_eq:
  "fold (puts_row (a, b, c, d)) rows t = printf (concat (map (table_line [a, b, c, d]) (map texts rows))) t"
  by (induction rows arbitrary: t) (simp_all add: puts_row_eq)

lemma header_texts:
  "texts header = [cstr ''Name'', cstr ''Value'', cstr ''Minimum'', cstr ''Maximum'', cstr ''Description'']"
  by (simp add: texts_def header_def cstr_def cstring_of_def)

lemma table_widths:
  assumes "fold widen rows (4, 5, 7, 7) = (a, b, c, d)"
  shows "map (\<lambda>k. col_width (column (map texts (header # rows)) k)) [0, 1, 2, 3]
           = [a + 2, b + 2, c + 2, d + 2]"
  using assms
  by (simp add: widen_fold header_texts column_def comp_def col_width_header strlen_def)
    (simp add: texts_def eval_nat_numeral)

lemma show_table_eq: "show_table rows t = printf (table_text (map texts rows)) t"
proof -
  obtain a b c d where w: "fold widen rows (4, 5, 7, 7) = (a, b, c, d)" by (cases rule: prod_cases4)
  show ?thesis
    using table_widths [OF w]
    by (simp add: table_text_def header_texts [symmetric] show_table_def w puts_row_eq puts_rows_eq Let_def)
qed

section \<open>What the program prints\<close>

definition text_file :: "fsys \<Rightarrow> u8 list \<Rightarrow> u8 list \<Rightarrow> bool" where
  "text_file os fn s \<longleftrightarrow>
     (case fopen os fn of Inl _ \<Rightarrow> False | Inr segs \<Rightarrow> content segs s) \<and> s \<noteq> [] \<and> 0 \<notin> set s"

text \<open>The four files of a variable, and the line to be printed for it.\<close>

definition variable_files :: "fsys \<Rightarrow> u8 list \<Rightarrow> (u8 list \<Rightarrow> string \<Rightarrow> u8 list) \<Rightarrow> u8 list \<Rightarrow> bool" where
  "variable_files os path cont n \<longleftrightarrow> 0 \<notin> set n \<and>
     list_all (\<lambda>d. text_file os (file_name path d n) (cont n d)) [''val'', ''min'', ''max'', ''desc'']"

definition variable_line :: "(u8 list \<Rightarrow> string \<Rightarrow> u8 list) \<Rightarrow> u8 list \<Rightarrow> u8 list list" where
  "variable_line cont n =
     [n, chomp (take 11 (cont n ''val'')), chomp (take 11 (cont n ''min'')),
      chomp (take 11 (cont n ''max'')), chomp (take 199 (cont n ''desc''))]"

lemma text_fileD:
  "text_file os fn s \<Longrightarrow> \<exists>segs. fopen os fn = Inr segs \<and> content segs s \<and> s \<noteq> [] \<and> 0 \<notin> set s"
  by (auto simp: text_file_def split: sum.splits)

lemma read_text_file:
  assumes "content segs s" and "s \<noteq> []" and "0 \<notin> set s" and "2 \<le> n"
  obtains b where "read_fd segs (replicate n g) n = Some (int (length (take (n - 1) s)), b)"
    and "cstring_of b = chomp (take (n - 1) s)"
  using read_fd_content [OF assms, of "replicate n g"] by auto

lemma load_one_ok:
  assumes "variable_files os path cont n"
  shows "\<exists>r. load_one os path n t = Some (Ret (Inr r), t) \<and> texts r = variable_line cont n"
proof -
  from assms have n: "0 \<notin> set n"
    and f: "text_file os (file_name path ''val'' n) (cont n ''val'')"
           "text_file os (file_name path ''min'' n) (cont n ''min'')"
           "text_file os (file_name path ''max'' n) (cont n ''max'')"
           "text_file os (file_name path ''desc'' n) (cont n ''desc'')"
    by (simp_all add: variable_files_def)
  from text_fileD [OF f(1)] obtain v where v: "fopen os (file_name path ''val'' n) = Inr v"
    "content v (cont n ''val'')" "cont n ''val'' \<noteq> []" "0 \<notin> set (cont n ''val'')" by blast
  from text_fileD [OF f(2)] obtain lo where lo: "fopen os (file_name path ''min'' n) = Inr lo"
    "content lo (cont n ''min'')" "cont n ''min'' \<noteq> []" "0 \<notin> set (cont n ''min'')" by blast
  from text_fileD [OF f(3)] obtain hi where hi: "fopen os (file_name path ''max'' n) = Inr hi"
    "content hi (cont n ''max'')" "cont n ''max'' \<noteq> []" "0 \<notin> set (cont n ''max'')" by blast
  from text_fileD [OF f(4)] obtain d where d: "fopen os (file_name path ''desc'' n) = Inr d"
    "content d (cont n ''desc'')" "cont n ''desc'' \<noteq> []" "0 \<notin> set (cont n ''desc'')" by blast
  obtain bv where bv: "read_fd v (replicate 12 (junk os)) 12 = Some (int (length (take (12 - 1) (cont n ''val''))), bv)"
    "cstring_of bv = chomp (take (12 - 1) (cont n ''val''))" 
    using read_text_file [OF v(2-4), of 12 "junk os"] by auto
  obtain bl where bl: "read_fd lo (replicate 12 (junk os)) 12 = Some (int (length (take (12 - 1) (cont n ''min''))), bl)"
    "cstring_of bl = chomp (take (12 - 1) (cont n ''min''))" 
    using read_text_file [OF lo(2-4), of 12 "junk os"] by auto
  obtain bh where bh: "read_fd hi (replicate 12 (junk os)) 12 = Some (int (length (take (12 - 1) (cont n ''max''))), bh)"
    "cstring_of bh = chomp (take (12 - 1) (cont n ''max''))" 
    using read_text_file [OF hi(2-4), of 12 "junk os"] by auto
  obtain bd where bd: "read_fd d (replicate 200 (junk os)) 200 = Some (int (length (take (200 - 1) (cont n ''desc''))), bd)"
    "cstring_of bd = chomp (take (200 - 1) (cont n ''desc''))" 
    using read_text_file [OF d(2-4), of 200 "junk os"] by auto
  show ?thesis
    using n bv(2) bl(2) bh(2) bd(2)
    by (simp add: load_one_def v(1) lo(1) hi(1) d(1) bv(1) bl(1) bh(1) bd(1) texts_def variable_line_def
        cstring_of_terminated [of _ "[]", simplified] del: length_take)
qed

lemma load_ok:
  assumes "\<forall>n \<in> set ns. variable_files os path cont n"
  shows "\<exists>rs. load os path ns t = Some (Ret (Inr rs), t) \<and> map texts rs = map (variable_line cont) ns"
  using assms
proof (induction ns)
  case Nil
  then show ?case by simp
next
  case (Cons n ns)
  then obtain rs where "load os path ns t = Some (Ret (Inr rs), t)" "map texts rs = map (variable_line cont) ns"
    by auto
  moreover obtain r where "load_one os path n t = Some (Ret (Inr r), t)" "texts r = variable_line cont n"
    using load_one_ok Cons.prems by force
  ultimately show ?case by simp
qed

lemma show_vars_ok:
  assumes "scan os (snprintf fn_buf_len (path @ cstr ''/val'')) = Inr found"
    and "sort (filter no_dot_filter found) = nl" and "nl \<noteq> []"
    and "\<forall>n \<in> set nl. variable_files os path cont n"
  shows "show_vars os path t = Some (Ret 0, printf (table_text (map (variable_line cont) nl)) t)"
proof -
  obtain rs where "load os path nl t = Some (Ret (Inr rs), t)" "map texts rs = map (variable_line cont) nl"
    using load_ok [OF assms(4)] by blast
  then show ?thesis
    using assms(1-3) by (simp add: show_vars_def show_table_eq Let_def)
qed


definition demo_fs :: fsys where
  "demo_fs = \<lparr>
     fopen = (\<lambda>fn. if fn = cstr ''/d/val/b'' then Inr [Data (cstr ''4''), Data (cstr ''2'' @ [10])]
                   else if fn = cstr ''/d/val/a'' then Inr [Data (cstr ''-7'' @ [10])]
                   else if take 6 fn = cstr ''/d/des'' then Inr [Data (cstr ''gain'')]
                   else if take 3 fn = cstr ''/d/'' then Inr [Data (cstr ''0'' @ [10])]
                   else Inl 2),
     scan = (\<lambda>fn. if fn = cstr ''/d/val'' then Inr [cstr ''b'', cstr ''a''] else Inl 2),
     junk = 0xAA\<rparr>"

definition demo_content :: "u8 list \<Rightarrow> string \<Rightarrow> u8 list" where
  "demo_content n d = (if d = ''desc'' then cstr ''gain''
     else if d = ''val'' then (if n = cstr ''b'' then cstr ''42'' @ [10] else cstr ''-7'' @ [10])
     else cstr ''0'' @ [10])"


text \<open>Every line of the table, the heading included, has its last entry in the same column.\<close>

lemma length_pad: "length s \<le> w \<Longrightarrow> length (pad w s) = w"
  by (simp add: pad_def)

lemma fold_max_ge: "x \<in> set xs \<Longrightarrow> (x :: nat) \<le> fold max xs m"
  using Max.set_eq_fold [of m xs, symmetric] by simp

lemma col_width_ge: "s \<in> set xs \<Longrightarrow> length s + 2 \<le> col_width xs"
  by (auto simp: col_width_def intro: fold_max_ge)

lemma table_lines_aligned:
  assumes "r \<in> set rows" and "length r = 5"
  shows "\<exists>cols. table_line (map (\<lambda>k. col_width (column rows k)) [0, 1, 2, 3]) r = cols @ r ! 4 @ [10]
           \<and> length cols = sum_list (map (\<lambda>k. col_width (column rows k)) [0, 1, 2, 3])"
proof -
  obtain a b c d e where r: "r = [a, b, c, d, e]"
    using assms(2) by (auto simp: length_Suc_conv eval_nat_numeral)
  have w: "length (r ! k) \<le> col_width (column rows k)" for k
    using col_width_ge [of "r ! k" "column rows k"] assms(1) by (simp add: column_def)
  show ?thesis
    using w [of 0] w [of 1] w [of 2] w [of 3]
    by (intro exI [of _ "pad (col_width (column rows 0)) a @ pad (col_width (column rows 1)) b
          @ pad (col_width (column rows 2)) c @ pad (col_width (column rows 3)) d"])
       (simp add: r table_line_def length_pad eval_nat_numeral)
qed

text \<open>A variable file from which nothing can be read (its first \<open>read\<close> returns 0) makes \<open>read_fd\<close>
  look at the byte before its buffer: it has no result, whatever the buffer holds. A text in
  the file gives its length and, in the buffer, its first line feed at the end removed; a
  failing \<open>read\<close> gives its error code.\<close>

theorem read_fd_cases:
  assumes "length buf = n" and "2 \<le> n" and "0 \<notin> set s" and "s \<noteq> []"
    and "content nofile []" and "content segs s"
  shows "read_fd nofile buf n = None \<and>
         (\<exists>b. read_fd segs buf n = Some (int (min (length s) (n - 1)), b) \<and> length b = n \<and>
              cstring_of b = chomp (take (n - 1) s)) \<and>
         read_fd (Fail # segs) buf n = Some (-1, buf)"
proof (intro conjI)
  show "read_fd nofile buf n = None"
    using read_loop_content [OF assms(5), of "[]" "n - 1"]
    by (auto simp: read_fd_def finish_text_def memcpy_to_def)
  show "\<exists>b. read_fd segs buf n = Some (int (min (length s) (n - 1)), b) \<and> length b = n \<and>
          cstring_of b = chomp (take (n - 1) s)"
    using read_fd_content [OF assms(6,4,3,2,1)] by (simp add: min.commute)
  show "read_fd (Fail # segs) buf n = Some (-1, buf)"
    by (simp add: read_fd_def read_loop.simps memcpy_to_def)
qed

lemma read_fd_cases_witness:
  "read_fd [] (replicate 12 7) 12 = None \<and>
   (\<exists>b. read_fd [Data [52], Data [50, 10]] (replicate 12 7) 12 = Some (3, b) \<and> length b = 12 \<and>
        cstring_of b = [52, 50]) \<and>
   read_fd [Fail, Data [52], Data [50, 10]] (replicate 12 7) 12 = Some (-1, replicate 12 7)"
  using read_fd_cases [of "replicate 12 7" 12 "[52, 50, 10]" "[]" "[Data [52], Data [50, 10]]"]
  by (simp add: content_def chomp_def)

text \<open>\<open>-h\<close> prints the help text, then falls into the branch for wrong options: it complains
  about an option \<open>-?\<close> and ends with status 1, whatever the system holds.\<close>

theorem help_falls_through:
  "clist_main os [cstr ''-h''] t =
     Some (1, eprintf (cstr ''Unknown option `-?'' @ [39, 46, 10]) (printf help_text t))"
  by (simp add: clist_main_def parse_opts.simps cstr_def bad_option_def isprint_def show_help_def)

end
