(* ===== verification/BmStdio.thy ===== *)
theory BmStdio
  imports Prelude
begin

text \<open>
  The kernel module that carries the standard input and output of the firmware
  (bm_stdio_mod/bm_stdio.c): messages of the channel go into a kernel FIFO that a character
  device reads, and what is written to the device is sent on the channel. The kernel's FIFO
  and user copies are the parameter \<open>b\<close> of type \<open>bapi\<close>; what \<open>register_rpmsg_driver\<close>,
  \<open>register_chrdev\<close> and \<open>rpmsg_send\<close> return is decided outside (\<open>bm_rets\<close>). Log output is not
  modelled.
\<close>

abbreviation (input) "MAJOR_NR \<equiv> (242 :: nat)"
abbreviation (input) "TX_BUF_SIZE \<equiv> (256 :: nat)"

section \<open>State\<close>

text \<open>\<open>kfifo_in\<close> gives the new content of the FIFO; \<open>kfifo_to_user\<close> a return code, the bytes
  copied to user space and the new content; \<open>copy_from_user\<close> the number of bytes it could not
  copy and the bytes it put into the destination.\<close>

record bapi =
  kfifo_in :: "u8 list \<Rightarrow> u8 list \<Rightarrow> u8 list"
  kfifo_to_user :: "u8 list \<Rightarrow> nat \<Rightarrow> int \<times> u8 list \<times> u8 list"
  copy_from_user :: "u8 list \<Rightarrow> nat \<Rightarrow> nat \<times> u8 list"

text \<open>What the kernel documents of them: a FIFO of 64 KB takes what fits and gives the oldest
  bytes first, and an accessible user buffer is copied whole.\<close>

definition fifo_in_ok :: "bapi \<Rightarrow> bool" where
  "fifo_in_ok b \<longleftrightarrow> (\<forall>q d. length q + length d \<le> 65536 \<longrightarrow> kfifo_in b q d = q @ d)"

definition fifo_out_ok :: "bapi \<Rightarrow> bool" where
  "fifo_out_ok b \<longleftrightarrow> (\<forall>q n. kfifo_to_user b q n = (0, take n q, drop n q))"

definition copy_ok :: "bapi \<Rightarrow> bool" where
  "copy_ok b \<longleftrightarrow> (\<forall>u n. n \<le> length u \<longrightarrow> copy_from_user b u n = (0, take n u))"

definition bapi_ref :: bapi where
  "bapi_ref = \<lparr>kfifo_in = (\<lambda>q d. q @ take (65536 - length q) d),
     kfifo_to_user = (\<lambda>q n. (0, take n q, drop n q)),
     copy_from_user = (\<lambda>u n. (n - length u, take n u))\<rparr>"

lemma bapi_ref_ok: "fifo_in_ok bapi_ref" "fifo_out_ok bapi_ref" "copy_ok bapi_ref"
  by (simp_all add: fifo_in_ok_def fifo_out_ok_def copy_ok_def bapi_ref_def)

record bm_stdio =
  bm_driver :: bool
  bm_chrdev :: "nat option" \<comment> \<open>the number the character device was registered under\<close>
  bm_chnl :: bool \<comment> \<open>\<open>rpmsg_chnl\<close> has been set\<close>
  bm2lin_fifo :: "u8 list"
  times :: u32
  tx_buf :: "u8 list"
  bm_rets :: "int list"
  bm_sent :: "u8 list list"

section \<open>Loading, probing and removing\<close>

definition bm_ret :: "bm_stdio \<Rightarrow> (int \<times> bm_stdio) option" where
  "bm_ret s = (case bm_rets s of [] \<Rightarrow> None | r # rs \<Rightarrow> Some (r, s\<lparr>bm_rets := rs\<rparr>))"

definition bm_send :: "u8 list \<Rightarrow> bm_stdio \<Rightarrow> (int \<times> bm_stdio) option" where
  "bm_send m s = do {
     (ret, s) \<leftarrow> bm_ret s;
     Some (ret, if ret = 0 then s\<lparr>bm_sent := bm_sent s @ [m]\<rparr> else s) }"

definition MKDEV :: "nat \<Rightarrow> nat \<Rightarrow> nat" where
  "MKDEV ma mi = ma * 2 ^ 20 + mi"

definition bm_init :: "bm_stdio \<Rightarrow> (int \<times> bm_stdio) option" where
  "bm_init s = do {
     (ret, s) \<leftarrow> bm_ret s;
     Some (ret, if ret = 0 then s\<lparr>bm_driver := True\<rparr> else s) }"

definition bm_exit :: "bm_stdio \<Rightarrow> bm_stdio" where
  "bm_exit s = s\<lparr>bm_driver := False\<rparr>"

text \<open>The message sent is the first byte of the variable \<open>ret\<close>, which was just set to 0; the
  result of sending it is only logged.\<close>

definition bm_stdio_probe :: "bm_stdio \<Rightarrow> (int \<times> bm_stdio) option" where
  "bm_stdio_probe s = do {
     let s = s\<lparr>bm_chnl := True, bm2lin_fifo := []\<rparr>;
     (ret, s) \<leftarrow> bm_ret s;
     if ret \<noteq> 0 then Some (ret, s) else do {
       let s = s\<lparr>bm_chrdev := Some (MKDEV MAJOR_NR 0)\<rparr>;
       (ret, s) \<leftarrow> bm_send [0] s;
       Some (0, s) } }"

definition bm_stdio_remove :: "bm_stdio \<Rightarrow> bm_stdio" where
  "bm_stdio_remove s =
     (if bm_chrdev s = Some (MKDEV MAJOR_NR 0) then s\<lparr>bm_chrdev := None\<rparr> else s)"

section \<open>Messages and files\<close>

text \<open>The callback terminates the message in place, one byte past its end: \<open>data\<close> is the
  whole buffer the message lies in, and the access has no value if the message fills it.\<close>

definition bm_stdio_rpmsg_cb :: "bapi \<Rightarrow> u8 list \<Rightarrow> nat \<Rightarrow> bm_stdio \<Rightarrow> bm_stdio option" where
  "bm_stdio_rpmsg_cb b data len s = do {
     d \<leftarrow> aset data len 0;
     Some (s\<lparr>bm2lin_fifo := kfifo_in b (bm2lin_fifo s) (take len d)\<rparr>) }"

definition dev_open :: "bm_stdio \<Rightarrow> int \<times> bm_stdio" where
  "dev_open s = (0, s\<lparr>times := times s + 1\<rparr>)"

definition dev_rls :: "bm_stdio \<Rightarrow> int \<times> bm_stdio" where
  "dev_rls s = (0, s)"

definition dev_read :: "bapi \<Rightarrow> nat \<Rightarrow> bm_stdio \<Rightarrow> int \<times> u8 list \<times> bm_stdio" where
  "dev_read b len s = (case kfifo_to_user b (bm2lin_fifo s) len of (ret, out, q) \<Rightarrow>
     let s = s\<lparr>bm2lin_fifo := q\<rparr> in
     if ret < 0 then (ret, out, s) else (int (length out), out, s))"

text \<open>The loop of \<open>dev_write\<close>, from its test on. Every round copies from the start of the user
  buffer, and adds the length of the whole write to \<open>copied\<close>.\<close>

function write_loop :: "bapi \<Rightarrow> u8 list \<Rightarrow> nat \<Rightarrow> nat \<Rightarrow> bm_stdio \<Rightarrow> (int \<times> bm_stdio) option" where
  "write_loop b buf len copied s =
     (if copied < len then do {
        let n = (if len - copied > TX_BUF_SIZE then TX_BUF_SIZE else len - copied);
        let (ret, bs) = copy_from_user b buf n;
        let s = s\<lparr>tx_buf := memcpy_to (tx_buf s) bs\<rparr>;
        if ret \<noteq> 0 then Some (-1, s) else do {
          (ret, s) \<leftarrow> bm_send (take n (tx_buf s)) s;
          if ret \<noteq> 0 then Some (ret, s) else write_loop b buf len (copied + len) s } }
      else Some (int copied, s))"
  by auto
termination
  by (relation "measure (\<lambda>(_, _, len, copied, _). len - copied)") auto

declare write_loop.simps [simp del]

definition dev_write :: "bapi \<Rightarrow> u8 list \<Rightarrow> nat \<Rightarrow> bm_stdio \<Rightarrow> (int \<times> bm_stdio) option" where
  "dev_write b buf len s = write_loop b buf len 0 s"

section \<open>Properties\<close>

lemma bm_send_ok:
  "bm_rets s = 0 # rs \<Longrightarrow> bm_send m s = Some (0, s\<lparr>bm_rets := rs, bm_sent := bm_sent s @ [m]\<rparr>)"
  by (simp add: bm_send_def bm_ret_def)

text \<open>A write to the device sends one message with at most the first 256 bytes and reports
  the whole write as done: the rest of a longer text never reaches the firmware.\<close>

theorem write_sends_first_chunk:
  assumes "copy_ok b" and "0 < len" and "length buf = len" and "length (tx_buf s) = TX_BUF_SIZE"
    and "bm_rets s = 0 # rs"
  shows "\<exists>s'. dev_write b buf len s = Some (int len, s')
           \<and> bm_sent s' = bm_sent s @ [take 256 buf] \<and> bm2lin_fifo s' = bm2lin_fifo s"
proof -
  define n where "n = min len 256"
  have n: "(if len - 0 > TX_BUF_SIZE then TX_BUF_SIZE else len - 0) = n" by (simp add: n_def)
  have c: "copy_from_user b buf n = (0, take n buf)"
    using assms(1,3) by (simp add: copy_ok_def n_def)
  have m: "take n (memcpy_to (tx_buf s) (take n buf)) = take 256 buf"
    using assms(3) by (simp add: memcpy_to_def n_def min_def)
  show ?thesis
    unfolding dev_write_def
    using assms(2,5) m
    by (subst write_loop.simps, unfold n) (simp add: c bm_send_ok, subst write_loop.simps, simp)
qed

lemma write_sends_first_chunk_witness:
  "\<exists>s'. dev_write bapi_ref (replicate 300 65) 300
          \<lparr>bm_driver = True, bm_chrdev = None, bm_chnl = True, bm2lin_fifo = [1], times = 0,
           tx_buf = replicate 256 0, bm_rets = [0], bm_sent = []\<rparr> = Some (300, s')
     \<and> bm_sent s' = [replicate 256 65] \<and> bm2lin_fifo s' = [1]"
  using write_sends_first_chunk [OF bapi_ref_ok(3), of 300 "replicate 300 65"
      "\<lparr>bm_driver = True, bm_chrdev = None, bm_chnl = True, bm2lin_fifo = [1], times = 0,
        tx_buf = replicate 256 0, bm_rets = [0], bm_sent = []\<rparr>" "[]"]
  by (simp add: take_replicate)

text \<open>The life of the receiving side: messages arrive and a process reads, in any order. The
  result is what the reads returned.\<close>

datatype bm_event = Arrive "u8 list" nat | Reading nat

fun bm_run :: "bapi \<Rightarrow> bm_event list \<Rightarrow> bm_stdio \<Rightarrow> (u8 list \<times> bm_stdio) option" where
  "bm_run b [] s = Some ([], s)"
| "bm_run b (Arrive data len # es) s = do { s \<leftarrow> bm_stdio_rpmsg_cb b data len s; bm_run b es s }"
| "bm_run b (Reading n # es) s = (case dev_read b n s of (ret, out, s) \<Rightarrow>
     do { (more, s) \<leftarrow> bm_run b es s; Some (out @ more, s) })"

fun received :: "bm_event list \<Rightarrow> u8 list" where
  "received [] = []"
| "received (Arrive data len # es) = take len data @ received es"
| "received (Reading n # es) = received es"


definition bm_demo :: bm_stdio where
  "bm_demo = \<lparr>bm_driver = True, bm_chrdev = None, bm_chnl = True, bm2lin_fifo = [1], times = 0,
              tx_buf = replicate 256 0, bm_rets = [0], bm_sent = []\<rparr>"


text \<open>Probing registers the device before it sends the byte from which the firmware learns
  the address of the kernel, and sends nothing if registering fails.\<close>

lemma probe_announces:
  "bm_rets s = 0 # r # rs \<Longrightarrow> bm_stdio_probe s = Some (0, s\<lparr>bm_chnl := True, bm2lin_fifo := [],
     bm_chrdev := Some 253755392, bm_rets := rs, bm_sent := (if r = 0 then bm_sent s @ [[0]] else bm_sent s)\<rparr>)"
  "bm_rets s = r # rs \<Longrightarrow> r \<noteq> 0 \<Longrightarrow>
     bm_stdio_probe s = Some (r, s\<lparr>bm_chnl := True, bm2lin_fifo := [], bm_rets := rs\<rparr>)"
  by (simp_all add: bm_stdio_probe_def bm_ret_def bm_send_def MKDEV_def Let_def)

text \<open>A message that fills its buffer to the last byte makes the callback write behind it.\<close>

lemma full_message_overruns: "len = length data \<Longrightarrow> bm_stdio_rpmsg_cb b data len s = None"
  by (simp add: bm_stdio_rpmsg_cb_def defined_simps)

end
