(* ===== verification/UartPs.thy ===== *)
theory UartPs
  imports Gic
begin

text \<open>
  The driver of the serial port (iplib/uartps_v2_2/src): xuartps.c, xuartps_hw.c,
  xuartps_intr.c and xuartps_sinit.c. There is one instance, whose fields are part of the
  state (prefix \<open>u\<close>), so a test of the instance pointer for \<open>NULL\<close> never fails and is left out;
  every other failed assertion loops for ever and has no value. Buffers are pointers into the
  byte addressed memory. The application's event handler is the argument \<open>app\<close>.
\<close>

section \<open>Registers and masks\<close>

abbreviation (input) "XUARTPS_CR_OFFSET \<equiv> (0x00 :: u32)"
abbreviation (input) "XUARTPS_MR_OFFSET \<equiv> (0x04 :: u32)"
abbreviation (input) "XUARTPS_IER_OFFSET \<equiv> (0x08 :: u32)"
abbreviation (input) "XUARTPS_IDR_OFFSET \<equiv> (0x0C :: u32)"
abbreviation (input) "XUARTPS_IMR_OFFSET \<equiv> (0x10 :: u32)"
abbreviation (input) "XUARTPS_ISR_OFFSET \<equiv> (0x14 :: u32)"
abbreviation (input) "XUARTPS_BAUDGEN_OFFSET \<equiv> (0x18 :: u32)"
abbreviation (input) "XUARTPS_RXTOUT_OFFSET \<equiv> (0x1C :: u32)"
abbreviation (input) "XUARTPS_RXWM_OFFSET \<equiv> (0x20 :: u32)"
abbreviation (input) "XUARTPS_MODEMCR_OFFSET \<equiv> (0x24 :: u32)"
abbreviation (input) "XUARTPS_MODEMSR_OFFSET \<equiv> (0x28 :: u32)"
abbreviation (input) "XUARTPS_SR_OFFSET \<equiv> (0x2C :: u32)"
abbreviation (input) "XUARTPS_FIFO_OFFSET \<equiv> (0x30 :: u32)"
abbreviation (input) "XUARTPS_BAUDDIV_OFFSET \<equiv> (0x34 :: u32)"
abbreviation (input) "XUARTPS_FLOWDEL_OFFSET \<equiv> (0x38 :: u32)"
abbreviation (input) "XUARTPS_TXWM_OFFSET \<equiv> (0x44 :: u32)"

abbreviation (input) "XUARTPS_CR_STOPBRK \<equiv> (0x100 :: u32)"
abbreviation (input) "XUARTPS_CR_STARTBRK \<equiv> (0x80 :: u32)"
abbreviation (input) "XUARTPS_CR_TORST \<equiv> (0x40 :: u32)"
abbreviation (input) "XUARTPS_CR_TX_DIS \<equiv> (0x20 :: u32)"
abbreviation (input) "XUARTPS_CR_TX_EN \<equiv> (0x10 :: u32)"
abbreviation (input) "XUARTPS_CR_RX_DIS \<equiv> (0x08 :: u32)"
abbreviation (input) "XUARTPS_CR_RX_EN \<equiv> (0x04 :: u32)"
abbreviation (input) "XUARTPS_CR_EN_DIS_MASK \<equiv> (0x3C :: u32)"
abbreviation (input) "XUARTPS_CR_TXRST \<equiv> (0x02 :: u32)"
abbreviation (input) "XUARTPS_CR_RXRST \<equiv> (0x01 :: u32)"

abbreviation (input) "XUARTPS_MR_CHMODE_R_LOOP \<equiv> (0x300 :: u32)"
abbreviation (input) "XUARTPS_MR_CHMODE_L_LOOP \<equiv> (0x200 :: u32)"
abbreviation (input) "XUARTPS_MR_CHMODE_ECHO \<equiv> (0x100 :: u32)"
abbreviation (input) "XUARTPS_MR_CHMODE_NORM \<equiv> (0x000 :: u32)"
abbreviation (input) "XUARTPS_MR_CHMODE_SHIFT \<equiv> (8 :: nat)"
abbreviation (input) "XUARTPS_MR_CHMODE_MASK \<equiv> (0x300 :: u32)"
abbreviation (input) "XUARTPS_MR_STOPMODE_SHIFT \<equiv> (6 :: nat)"
abbreviation (input) "XUARTPS_MR_STOPMODE_MASK \<equiv> (0xA0 :: u32)"
abbreviation (input) "XUARTPS_MR_STOPMODE_1_BIT \<equiv> (0x00 :: u32)"
abbreviation (input) "XUARTPS_MR_PARITY_NONE \<equiv> (0x20 :: u32)"
abbreviation (input) "XUARTPS_MR_PARITY_SHIFT \<equiv> (3 :: nat)"
abbreviation (input) "XUARTPS_MR_PARITY_MASK \<equiv> (0x38 :: u32)"
abbreviation (input) "XUARTPS_MR_CHARLEN_8_BIT \<equiv> (0x00 :: u32)"
abbreviation (input) "XUARTPS_MR_CHARLEN_SHIFT \<equiv> (1 :: nat)"
abbreviation (input) "XUARTPS_MR_CHARLEN_MASK \<equiv> (0x06 :: u32)"
abbreviation (input) "XUARTPS_MR_CLKSEL \<equiv> (0x01 :: u32)"

abbreviation (input) "XUARTPS_IXR_DMS \<equiv> (0x200 :: u32)"
abbreviation (input) "XUARTPS_IXR_TOUT \<equiv> (0x100 :: u32)"
abbreviation (input) "XUARTPS_IXR_PARITY \<equiv> (0x80 :: u32)"
abbreviation (input) "XUARTPS_IXR_FRAMING \<equiv> (0x40 :: u32)"
abbreviation (input) "XUARTPS_IXR_OVER \<equiv> (0x20 :: u32)"
abbreviation (input) "XUARTPS_IXR_TXFULL \<equiv> (0x10 :: u32)"
abbreviation (input) "XUARTPS_IXR_TXEMPTY \<equiv> (0x08 :: u32)"
abbreviation (input) "XUARTPS_IXR_RXFULL \<equiv> (0x04 :: u32)"
abbreviation (input) "XUARTPS_IXR_RXEMPTY \<equiv> (0x02 :: u32)"
abbreviation (input) "XUARTPS_IXR_RXOVR \<equiv> (0x01 :: u32)"
abbreviation (input) "XUARTPS_IXR_MASK \<equiv> (0x1FFF :: u32)"

abbreviation (input) "XUARTPS_SR_TACTIVE \<equiv> (0x800 :: u32)"
abbreviation (input) "XUARTPS_SR_TXFULL \<equiv> (0x10 :: u32)"
abbreviation (input) "XUARTPS_SR_TXEMPTY \<equiv> (0x08 :: u32)"
abbreviation (input) "XUARTPS_SR_RXEMPTY \<equiv> (0x02 :: u32)"

abbreviation (input) "XUARTPS_EVENT_RECV_DATA \<equiv> (1 :: u32)"
abbreviation (input) "XUARTPS_EVENT_RECV_TOUT \<equiv> (2 :: u32)"
abbreviation (input) "XUARTPS_EVENT_SENT_DATA \<equiv> (3 :: u32)"
abbreviation (input) "XUARTPS_EVENT_RECV_ERROR \<equiv> (4 :: u32)"
abbreviation (input) "XUARTPS_EVENT_MODEM \<equiv> (5 :: u32)"

abbreviation (input) "XUARTPS_MAX_RATE \<equiv> (921600 :: u32)"
abbreviation (input) "XUARTPS_MIN_RATE \<equiv> (110 :: u32)"
abbreviation (input) "XUARTPS_DFT_BAUDRATE \<equiv> (115200 :: u32)"
abbreviation (input) "XUARTPS_MAX_BAUD_ERROR_RATE \<equiv> (10 :: u32)"
abbreviation (input) "XST_UART_BAUD_ERROR \<equiv> (1055 :: s32)"
abbreviation (input) "XST_UART_TEST_FAIL \<equiv> (1054 :: s32)"
abbreviation (input) "XST_INVALID_PARAM \<equiv> (15 :: s32)"

section \<open>The instance\<close>

record XUartPsBuffer =
  NextBytePtr :: u32
  RequestedBytes :: u32
  RemainingBytes :: u32

record XUartPs_Config =
  DeviceId :: u16
  BaseAddress :: u32
  ConfigClockHz :: u32
  ModemPinsConnected :: s32

text \<open>The driver's own stub, or the handler the application has set.\<close>

datatype uart_handler = UartStub | UartApp

record uart = gic +
  uBase :: u32
  uClockHz :: u32
  uModemPins :: s32
  uInputClockHz :: u32
  uIsReady :: u32
  uBaudRate :: u32
  SendBuffer :: XUartPsBuffer
  ReceiveBuffer :: XUartPsBuffer
  uHandler :: uart_handler
  uRef :: cbref

type_synonym 'a uart_op = "'a uart_scheme \<Rightarrow> 'a uart_scheme option"
type_synonym 'a app = "u32 \<Rightarrow> u32 \<Rightarrow> 'a uart_scheme \<Rightarrow> 'a uart_scheme option"

definition uart_ready :: "'a uart_scheme \<Rightarrow> bool" where
  "uart_ready s \<longleftrightarrow> uIsReady s = XIL_COMPONENT_IS_READY"

definition XUartPs_ReadReg :: "u32 \<Rightarrow> u32 \<Rightarrow> 'a machine_scheme \<Rightarrow> (u32 \<times> 'a machine_scheme) option" where
  "XUartPs_ReadReg base off s = Xil_In32 (base + off) s"

definition XUartPs_WriteReg :: "u32 \<Rightarrow> u32 \<Rightarrow> u32 \<Rightarrow> 'a machine_scheme \<Rightarrow> 'a machine_scheme" where
  "XUartPs_WriteReg base off v s = Xil_Out32 (base + off) v s"

definition XUartPs_IsReceiveData :: "u32 \<Rightarrow> 'a machine_scheme \<Rightarrow> (bool \<times> 'a machine_scheme) option" where
  "XUartPs_IsReceiveData base s = do {
     (r, s) \<leftarrow> Xil_In32 (base + XUARTPS_SR_OFFSET) s;
     Some (r AND XUARTPS_SR_RXEMPTY \<noteq> XUARTPS_SR_RXEMPTY, s) }"

definition XUartPs_IsTransmitFull :: "u32 \<Rightarrow> 'a machine_scheme \<Rightarrow> (bool \<times> 'a machine_scheme) option" where
  "XUartPs_IsTransmitFull base s = do {
     (r, s) \<leftarrow> Xil_In32 (base + XUARTPS_SR_OFFSET) s;
     Some (r AND XUARTPS_SR_TXFULL = XUARTPS_SR_TXFULL, s) }"

definition XUartPs_IsTransmitEmpty :: "'a uart_scheme \<Rightarrow> (bool \<times> 'a uart_scheme) option" where
  "XUartPs_IsTransmitEmpty s = do {
     (r, s) \<leftarrow> Xil_In32 (uBase s + XUARTPS_SR_OFFSET) s;
     Some (r AND XUARTPS_SR_TXEMPTY = XUARTPS_SR_TXEMPTY, s) }"

definition XUartPs_GetChannelStatus :: "'a uart_scheme \<Rightarrow> (u32 \<times> 'a uart_scheme) option" where
  "XUartPs_GetChannelStatus s = Xil_In32 (uBase s + XUARTPS_SR_OFFSET) s"

definition XUartPs_GetModeControl :: "'a uart_scheme \<Rightarrow> (u32 \<times> 'a uart_scheme) option" where
  "XUartPs_GetModeControl s = Xil_In32 (uBase s + XUARTPS_CR_OFFSET) s"

definition XUartPs_SetModeControl :: "u32 \<Rightarrow> 'a uart_scheme \<Rightarrow> 'a uart_scheme" where
  "XUartPs_SetModeControl v s = Xil_Out32 (uBase s + XUARTPS_CR_OFFSET) v s"

definition XUartPs_EnableUart :: "'a uart_op" where
  "XUartPs_EnableUart s = do {
     (r, s) \<leftarrow> Xil_In32 (uBase s + XUARTPS_CR_OFFSET) s;
     Some (Xil_Out32 (uBase s + XUARTPS_CR_OFFSET)
       ((r AND NOT XUARTPS_CR_EN_DIS_MASK) OR (XUARTPS_CR_RX_EN OR XUARTPS_CR_TX_EN)) s) }"

definition XUartPs_DisableUart :: "'a uart_op" where
  "XUartPs_DisableUart s = do {
     (r, s) \<leftarrow> Xil_In32 (uBase s + XUARTPS_CR_OFFSET) s;
     Some (Xil_Out32 (uBase s + XUARTPS_CR_OFFSET)
       ((r AND NOT XUARTPS_CR_EN_DIS_MASK) OR (XUARTPS_CR_RX_DIS OR XUARTPS_CR_TX_DIS)) s) }"

section \<open>Sending and receiving\<close>

text \<open>The loop of \<open>XUartPs_SendBuffer\<close>: \<open>n\<close> bytes are left at \<open>p\<close>; the result counts those sent.
  The status is read before the count is tested.\<close>

fun send_loop :: "nat \<Rightarrow> u32 \<Rightarrow> 'a uart_scheme \<Rightarrow> (nat \<times> 'a uart_scheme) option" where
  "send_loop 0 p s = do {
     (full, s) \<leftarrow> XUartPs_IsTransmitFull (uBase s) s;
     Some (0, s) }"
| "send_loop (Suc n) p s = do {
     (full, s) \<leftarrow> XUartPs_IsTransmitFull (uBase s) s;
     if full then Some (0, s) else do {
       let s = XUartPs_WriteReg (uBase s) XUARTPS_FIFO_OFFSET (ucast (mem s p)) s;
       (k, s) \<leftarrow> send_loop n (p + 1) s;
       Some (Suc k, s) } }"

definition advance :: "nat \<Rightarrow> XUartPsBuffer \<Rightarrow> XUartPsBuffer" where
  "advance k b = b\<lparr>NextBytePtr := NextBytePtr b + of_nat k, RemainingBytes := RemainingBytes b - of_nat k\<rparr>"

definition XUartPs_SendBuffer :: "'a uart_scheme \<Rightarrow> (u32 \<times> 'a uart_scheme) option" where
  "XUartPs_SendBuffer s = do {
     (k, s) \<leftarrow> send_loop (unat (RemainingBytes (SendBuffer s))) (NextBytePtr (SendBuffer s)) s;
     let s = s\<lparr>SendBuffer := advance k (SendBuffer s)\<rparr>;
     (imr, s) \<leftarrow> XUartPs_ReadReg (uBase s) XUARTPS_IMR_OFFSET s;
     Some (of_nat k,
       if imr AND XUARTPS_IXR_RXFULL \<noteq> 0 \<or> imr AND XUARTPS_IXR_RXEMPTY \<noteq> 0 \<or> imr AND XUARTPS_IXR_RXOVR \<noteq> 0
       then XUartPs_WriteReg (uBase s) XUARTPS_IER_OFFSET (imr OR XUARTPS_IXR_TXEMPTY) s else s) }"

definition XUartPs_Send :: "u32 \<Rightarrow> u32 \<Rightarrow> 'a uart_scheme \<Rightarrow> (u32 \<times> 'a uart_scheme) option" where
  "XUartPs_Send BufferPtr NumBytes s =
     (if BufferPtr \<noteq> 0 \<and> uart_ready s then
        XUartPs_SendBuffer ((XUartPs_WriteReg (uBase s) XUARTPS_IDR_OFFSET
            (XUARTPS_IXR_TXEMPTY OR XUARTPS_IXR_TXFULL) s)
          \<lparr>SendBuffer := \<lparr>NextBytePtr = BufferPtr, RequestedBytes = NumBytes, RemainingBytes = NumBytes\<rparr>\<rparr>)
      else None)"

fun recv_loop :: "nat \<Rightarrow> u32 \<Rightarrow> u32 \<Rightarrow> 'a uart_scheme \<Rightarrow> (nat \<times> 'a uart_scheme) option" where
  "recv_loop 0 p csr s = Some (0, s)"
| "recv_loop (Suc n) p csr s =
     (if csr AND XUARTPS_SR_RXEMPTY = 0 then do {
        (v, s) \<leftarrow> XUartPs_ReadReg (uBase s) XUARTPS_FIFO_OFFSET s;
        let s = s\<lparr>mem := (mem s)(p := ucast v)\<rparr>;
        (csr, s) \<leftarrow> XUartPs_ReadReg (uBase s) XUARTPS_SR_OFFSET s;
        (k, s) \<leftarrow> recv_loop n (p + 1) csr s;
        Some (Suc k, s) }
      else Some (0, s))"

definition XUartPs_ReceiveBuffer :: "'a uart_scheme \<Rightarrow> (u32 \<times> 'a uart_scheme) option" where
  "XUartPs_ReceiveBuffer s = do {
     (csr, s) \<leftarrow> XUartPs_ReadReg (uBase s) XUARTPS_SR_OFFSET s;
     (k, s) \<leftarrow> recv_loop (unat (RemainingBytes (ReceiveBuffer s))) (NextBytePtr (ReceiveBuffer s)) csr s;
     Some (of_nat k, s\<lparr>ReceiveBuffer := advance k (ReceiveBuffer s)\<rparr>) }"

definition XUartPs_Recv :: "u32 \<Rightarrow> u32 \<Rightarrow> 'a uart_scheme \<Rightarrow> (u32 \<times> 'a uart_scheme) option" where
  "XUartPs_Recv BufferPtr NumBytes s =
     (if BufferPtr \<noteq> 0 \<and> uart_ready s then do {
        (imr, s) \<leftarrow> XUartPs_ReadReg (uBase s) XUARTPS_IMR_OFFSET s;
        let s = XUartPs_WriteReg (uBase s) XUARTPS_IDR_OFFSET XUARTPS_IXR_MASK s;
        (k, s) \<leftarrow> XUartPs_ReceiveBuffer
          (s\<lparr>ReceiveBuffer := \<lparr>NextBytePtr = BufferPtr, RequestedBytes = NumBytes, RemainingBytes = NumBytes\<rparr>\<rparr>);
        Some (k, XUartPs_WriteReg (uBase s) XUARTPS_IER_OFFSET imr s) }
      else None)"

section \<open>The baud rate\<close>

text \<open>One divider of the search: generator value, achieved rate and its distance from the wanted
  rate. A division by zero has no value.\<close>

definition udiv :: "u32 \<Rightarrow> u32 \<Rightarrow> u32 option" where
  "udiv a b = (if b = 0 then None else Some (a div b))"

definition baud_try :: "u32 \<Rightarrow> u32 \<Rightarrow> nat \<Rightarrow> (u32 \<times> u32) option" where
  "baud_try clk baud i = do {
     brgr \<leftarrow> udiv clk (baud * (of_nat i + 1));
     calc \<leftarrow> udiv clk (brgr * (of_nat i + 1));
     Some (brgr, if baud > calc then baud - calc else calc - baud) }"

fun baud_search :: "u32 \<Rightarrow> u32 \<Rightarrow> nat list \<Rightarrow> u32 \<times> nat \<times> u32 \<Rightarrow> (u32 \<times> nat \<times> u32) option" where
  "baud_search clk baud [] best = Some best"
| "baud_search clk baud (i # is) (bbrgr, bdiv, berr) = do {
     (brgr, err) \<leftarrow> baud_try clk baud i;
     baud_search clk baud is (if berr > err then (brgr, i, err) else (bbrgr, bdiv, berr)) }"

text \<open>The divider values \<open>for (IterBAUDDIV = 4; IterBAUDDIV < 255; IterBAUDDIV++)\<close> tries.\<close>

definition bauddivs :: "nat list" where
  "bauddivs = [4..<255]"

lemma in_bauddivs [simp]: "i \<in> set bauddivs \<longleftrightarrow> 4 \<le> i \<and> i < 255"
  by (simp only: bauddivs_def set_upt atLeastLessThan_iff)

lemma bauddivs_Cons: "bauddivs = 4 # [Suc 4..<255]"
  unfolding bauddivs_def by (rule upt_conv_Cons) simp

definition baud_program :: "u32 \<Rightarrow> u32 \<Rightarrow> 'a uart_op" where
  "baud_program brgr bdiv s = do {
     s \<leftarrow> XUartPs_DisableUart s;
     let s = XUartPs_WriteReg (uBase s) XUARTPS_BAUDGEN_OFFSET brgr s;
     let s = XUartPs_WriteReg (uBase s) XUARTPS_BAUDDIV_OFFSET bdiv s;
     let s = XUartPs_WriteReg (uBase s) XUARTPS_CR_OFFSET (XUARTPS_CR_TXRST OR XUARTPS_CR_RXRST) s;
     XUartPs_EnableUart s }"

definition XUartPs_SetBaudRate :: "u32 \<Rightarrow> 'a uart_scheme \<Rightarrow> (s32 \<times> 'a uart_scheme) option" where
  "XUartPs_SetBaudRate BaudRate s =
     (if uart_ready s \<and> BaudRate \<le> XUARTPS_MAX_RATE \<and> BaudRate \<ge> XUARTPS_MIN_RATE then
        if BaudRate * 2 > uClockHz s then Some (XST_UART_BAUD_ERROR, s)
        else do {
          (mr, s) \<leftarrow> XUartPs_ReadReg (uBase s) XUARTPS_MR_OFFSET s;
          let clk = (if mr AND XUARTPS_MR_CLKSEL \<noteq> 0 then uClockHz s div 8 else uClockHz s);
          (brgr, bdiv, err) \<leftarrow> baud_search clk BaudRate bauddivs (0, 0, 0xFFFFFFFF);
          if XUARTPS_MAX_BAUD_ERROR_RATE < err * 100 div BaudRate then Some (XST_UART_BAUD_ERROR, s)
          else do {
            s \<leftarrow> baud_program brgr (of_nat bdiv) s;
            Some (XST_SUCCESS, s\<lparr>uBaudRate := BaudRate\<rparr>) } }
      else None)"

section \<open>Initialisation\<close>

definition XUartPs_StubHandler :: "u32 \<Rightarrow> u32 \<Rightarrow> 'a uart_op" where
  "XUartPs_StubHandler Event ByteCount s = None"

definition no_buffer :: XUartPsBuffer where
  "no_buffer = \<lparr>NextBytePtr = 0, RequestedBytes = 0, RemainingBytes = 0\<rparr>"

definition XUartPs_CfgInitialize ::
    "XUartPs_Config option \<Rightarrow> u32 \<Rightarrow> 'a uart_scheme \<Rightarrow> (s32 \<times> 'a uart_scheme) option" where
  "XUartPs_CfgInitialize Config EffectiveAddr s = (case Config of None \<Rightarrow> None | Some c \<Rightarrow> do {
     let s = s\<lparr>uBase := EffectiveAddr, uClockHz := ConfigClockHz c, uModemPins := ModemPinsConnected c,
               uHandler := UartStub, SendBuffer := no_buffer, ReceiveBuffer := no_buffer,
               uIsReady := XIL_COMPONENT_IS_READY\<rparr>;
     (Status, s) \<leftarrow> XUartPs_SetBaudRate XUARTPS_DFT_BAUDRATE s;
     if Status \<noteq> XST_SUCCESS then Some (Status, s\<lparr>uIsReady := 0\<rparr>)
     else do {
       (mr, s) \<leftarrow> XUartPs_ReadReg (uBase s) XUARTPS_MR_OFFSET s;
       let mr = mr AND NOT (XUARTPS_MR_CHARLEN_MASK OR XUARTPS_MR_STOPMODE_MASK OR XUARTPS_MR_PARITY_MASK);
       let mr = mr OR (XUARTPS_MR_CHARLEN_8_BIT OR XUARTPS_MR_STOPMODE_1_BIT OR XUARTPS_MR_PARITY_NONE);
       let s = XUartPs_WriteReg (uBase s) XUARTPS_MR_OFFSET mr s;
       let s = XUartPs_WriteReg (uBase s) XUARTPS_RXWM_OFFSET 0x08 s;
       let s = XUartPs_WriteReg (uBase s) XUARTPS_RXTOUT_OFFSET 0x01 s;
       Some (XST_SUCCESS, XUartPs_WriteReg (uBase s) XUARTPS_IDR_OFFSET XUARTPS_IXR_MASK s) } })"

definition XUartPs_LookupConfig :: "XUartPs_Config list \<Rightarrow> u16 \<Rightarrow> XUartPs_Config option" where
  "XUartPs_LookupConfig table devid =
     map_option (\<lambda>i. table ! i) (find_index (\<lambda>c. DeviceId c = devid) table)"

section \<open>Interrupts\<close>

definition run_handler :: "'a app \<Rightarrow> u32 \<Rightarrow> u32 \<Rightarrow> 'a uart_op" where
  "run_handler app Event EventData s = (case uHandler s of
     UartStub \<Rightarrow> XUartPs_StubHandler Event EventData s
   | UartApp \<Rightarrow> app Event EventData s)"

definition XUartPs_GetInterruptMask :: "'a uart_scheme \<Rightarrow> (u32 \<times> 'a uart_scheme) option" where
  "XUartPs_GetInterruptMask s = XUartPs_ReadReg (uBase s) XUARTPS_IMR_OFFSET s"

definition XUartPs_SetInterruptMask :: "u32 \<Rightarrow> 'a uart_scheme \<Rightarrow> 'a uart_scheme" where
  "XUartPs_SetInterruptMask Mask s =
     (let Mask = Mask AND XUARTPS_IXR_MASK;
          s = XUartPs_WriteReg (uBase s) XUARTPS_IER_OFFSET Mask s
      in XUartPs_WriteReg (uBase s) XUARTPS_IDR_OFFSET (NOT Mask) s)"

definition XUartPs_SetHandler :: "uart_handler option \<Rightarrow> cbref \<Rightarrow> 'a uart_op" where
  "XUartPs_SetHandler FuncPtr ref s = (case FuncPtr of
     None \<Rightarrow> None
   | Some h \<Rightarrow> if uart_ready s then Some (s\<lparr>uHandler := h, uRef := ref\<rparr>) else None)"

definition done_bytes :: "XUartPsBuffer \<Rightarrow> u32" where
  "done_bytes b = RequestedBytes b - RemainingBytes b"

text \<open>All three receive handlers first take what has arrived, if a buffer is waiting.\<close>

definition take_received :: "'a uart_op" where
  "take_received s =
     (if RemainingBytes (ReceiveBuffer s) \<noteq> 0 then map_option snd (XUartPs_ReceiveBuffer s) else Some s)"

definition ReceiveErrorHandler :: "'a app \<Rightarrow> 'a uart_op" where
  "ReceiveErrorHandler app s = do {
     s \<leftarrow> take_received s;
     run_handler app XUARTPS_EVENT_RECV_ERROR (done_bytes (ReceiveBuffer s)) s }"

definition ReceiveTimeoutHandler :: "'a app \<Rightarrow> 'a uart_op" where
  "ReceiveTimeoutHandler app s = do {
     s \<leftarrow> take_received s;
     let Event = (if RemainingBytes (ReceiveBuffer s) \<noteq> 0 then XUARTPS_EVENT_RECV_TOUT
                  else XUARTPS_EVENT_RECV_DATA);
     run_handler app Event (done_bytes (ReceiveBuffer s)) s }"

definition ReceiveDataHandler :: "'a app \<Rightarrow> 'a uart_op" where
  "ReceiveDataHandler app s = do {
     s \<leftarrow> take_received s;
     if RemainingBytes (ReceiveBuffer s) = 0
     then run_handler app XUARTPS_EVENT_RECV_DATA (done_bytes (ReceiveBuffer s)) s
     else Some s }"

definition SendDataHandler :: "'a app \<Rightarrow> u32 \<Rightarrow> 'a uart_op" where
  "SendDataHandler app IsrStatus s =
     (if RemainingBytes (SendBuffer s) = 0 then
        run_handler app XUARTPS_EVENT_SENT_DATA (done_bytes (SendBuffer s))
          (XUartPs_WriteReg (uBase s) XUARTPS_IDR_OFFSET (XUARTPS_IXR_TXEMPTY OR XUARTPS_IXR_TXFULL) s)
      else if IsrStatus AND XUARTPS_IXR_TXEMPTY \<noteq> 0 then map_option snd (XUartPs_SendBuffer s)
      else Some s)"

definition ModemHandler :: "'a app \<Rightarrow> 'a uart_op" where
  "ModemHandler app s = do {
     (msr, s) \<leftarrow> XUartPs_ReadReg (uBase s) XUARTPS_MODEMSR_OFFSET s;
     run_handler app XUARTPS_EVENT_MODEM msr s }"

text \<open>The mask is read before the pending bits, and what is handled is acknowledged last.\<close>

definition when_set :: "u32 \<Rightarrow> u32 \<Rightarrow> 'a uart_op \<Rightarrow> 'a uart_op" where
  "when_set status bits f s = (if 0 \<noteq> status AND bits then f s else Some s)"

definition XUartPs_InterruptHandler :: "'a app \<Rightarrow> 'a uart_op" where
  "XUartPs_InterruptHandler app s = (if \<not> uart_ready s then None else do {
     (imr, s) \<leftarrow> XUartPs_ReadReg (uBase s) XUARTPS_IMR_OFFSET s;
     (isr, s) \<leftarrow> XUartPs_ReadReg (uBase s) XUARTPS_ISR_OFFSET s;
     let IsrStatus = imr AND isr;
     s \<leftarrow> when_set IsrStatus (XUARTPS_IXR_RXOVR OR XUARTPS_IXR_RXEMPTY OR XUARTPS_IXR_RXFULL)
            (ReceiveDataHandler app) s;
     s \<leftarrow> when_set IsrStatus (XUARTPS_IXR_TXEMPTY OR XUARTPS_IXR_TXFULL)
            (SendDataHandler app IsrStatus) s;
     s \<leftarrow> when_set IsrStatus (XUARTPS_IXR_OVER OR XUARTPS_IXR_FRAMING OR XUARTPS_IXR_PARITY)
            (ReceiveErrorHandler app) s;
     s \<leftarrow> when_set IsrStatus XUARTPS_IXR_TOUT (ReceiveTimeoutHandler app) s;
     s \<leftarrow> when_set IsrStatus XUARTPS_IXR_DMS (ModemHandler app) s;
     Some (XUartPs_WriteReg (uBase s) XUARTPS_ISR_OFFSET IsrStatus s) })"

section \<open>Single bytes and reset\<close>

text \<open>The waiting loops consume the status words the device answers with; one that never
  reports space or data exhausts every tape.\<close>

fun wait_not_full :: "u32 \<Rightarrow> nat \<Rightarrow> 'a machine_scheme \<Rightarrow> 'a machine_scheme option" where
  "wait_not_full base 0 s = None"
| "wait_not_full base (Suc k) s = do {
     (full, s) \<leftarrow> XUartPs_IsTransmitFull base s;
     if full then wait_not_full base k s else Some s }"

definition XUartPs_SendByte :: "u32 \<Rightarrow> u8 \<Rightarrow> 'a machine_scheme \<Rightarrow> 'a machine_scheme option" where
  "XUartPs_SendByte base d s = do {
     s \<leftarrow> wait_not_full base (length (io_tape s)) s;
     Some (XUartPs_WriteReg base XUARTPS_FIFO_OFFSET (ucast d) s) }"

fun wait_data :: "u32 \<Rightarrow> nat \<Rightarrow> 'a machine_scheme \<Rightarrow> 'a machine_scheme option" where
  "wait_data base 0 s = None"
| "wait_data base (Suc k) s = do {
     (rdy, s) \<leftarrow> XUartPs_IsReceiveData base s;
     if rdy then Some s else wait_data base k s }"

definition XUartPs_RecvByte :: "u32 \<Rightarrow> 'a machine_scheme \<Rightarrow> (u8 \<times> 'a machine_scheme) option" where
  "XUartPs_RecvByte base s = do {
     s \<leftarrow> wait_data base (length (io_tape s)) s;
     (v, s) \<leftarrow> XUartPs_ReadReg base XUARTPS_FIFO_OFFSET s;
     Some (ucast v, s) }"

definition reset_writes :: "(u32 \<times> u32) list" where
  "reset_writes =
    [(XUARTPS_IDR_OFFSET, XUARTPS_IXR_MASK),
     (XUARTPS_CR_OFFSET, XUARTPS_CR_RX_DIS OR XUARTPS_CR_TX_DIS),
     (XUARTPS_CR_OFFSET, XUARTPS_CR_TXRST OR XUARTPS_CR_RXRST),
     (XUARTPS_ISR_OFFSET, XUARTPS_IXR_MASK),
     (XUARTPS_MR_OFFSET, XUARTPS_MR_CHMODE_NORM),
     (XUARTPS_RXWM_OFFSET, 0x20),
     (XUARTPS_TXWM_OFFSET, 0x20),
     (XUARTPS_RXTOUT_OFFSET, 0),
     (XUARTPS_BAUDGEN_OFFSET, 0x28B),
     (XUARTPS_BAUDDIV_OFFSET, 0x0F),
     (XUARTPS_CR_OFFSET, XUARTPS_CR_RX_DIS OR XUARTPS_CR_TX_DIS OR XUARTPS_CR_STOPBRK)]"

definition XUartPs_ResetHw :: "u32 \<Rightarrow> 'a machine_scheme \<Rightarrow> 'a machine_scheme" where
  "XUartPs_ResetHw base s = fold (\<lambda>(off, v). XUartPs_WriteReg base off v) reset_writes s"

section \<open>What crosses the FIFO register\<close>

text \<open>The bytes written to the FIFO, and those read from it, in a log of register accesses.\<close>

definition fifo_out :: "u32 \<Rightarrow> io_event list \<Rightarrow> u8 list" where
  "fifo_out base log = concat (map (\<lambda>e. case e of
     IoWrite a v \<Rightarrow> if a = base + XUARTPS_FIFO_OFFSET then [ucast v] else []
   | _ \<Rightarrow> []) log)"

definition fifo_in :: "u32 \<Rightarrow> io_event list \<Rightarrow> u8 list" where
  "fifo_in base log = concat (map (\<lambda>e. case e of
     IoRead a v \<Rightarrow> if a = base + XUARTPS_FIFO_OFFSET then [ucast v] else []
   | _ \<Rightarrow> []) log)"

lemma fifo_out_simps [simp]:
  "fifo_out base [] = []" "fifo_out base (l @ l') = fifo_out base l @ fifo_out base l'"
  "fifo_out base (IoRead a v # l) = fifo_out base l"
  "fifo_out base (IoWrite (base + 0x30) v # l) = ucast v # fifo_out base l"
  "a \<noteq> base + 0x30 \<Longrightarrow> fifo_out base (IoWrite a v # l) = fifo_out base l"
  by (simp_all add: fifo_out_def)

lemma fifo_in_simps [simp]:
  "fifo_in base [] = []" "fifo_in base (l @ l') = fifo_in base l @ fifo_in base l'"
  "fifo_in base (IoWrite a v # l) = fifo_in base l"
  "fifo_in base (IoRead (base + 0x30) v # l) = ucast v # fifo_in base l"
  "a \<noteq> base + 0x30 \<Longrightarrow> fifo_in base (IoRead a v # l) = fifo_in base l"
  by (simp_all add: fifo_in_def)

text \<open>The accesses a driver function makes: it consumes some of the tape and appends to the log,
  and everything else is as before.\<close>

definition uses_io :: "'a machine_scheme \<Rightarrow> io_event list \<Rightarrow> 'a machine_scheme \<Rightarrow> bool" where
  "uses_io s l s' \<longleftrightarrow> (\<exists>t. s' = s\<lparr>io_tape := t, io_log := io_log s @ l\<rparr>)"

lemma uses_io_refl [simp]: "uses_io s [] s"
  by (auto simp: uses_io_def intro: exI [of _ "io_tape s"])

lemma uses_io_trans: "uses_io s l s1 \<Longrightarrow> uses_io s1 l' s' \<Longrightarrow> uses_io s (l @ l') s'"
  by (auto simp: uses_io_def)

lemma uses_io_read: "Xil_In32 a s = Some (v, s') \<Longrightarrow> uses_io s [IoRead a v] s'"
  by (auto simp: uses_io_def Xil_In32_def split: list.splits)

lemma uses_io_write [simp]: "uses_io s [IoWrite a v] (Xil_Out32 a v s)"
  by (auto simp: uses_io_def Xil_Out32_def intro: exI [of _ "io_tape s"])

lemma uses_io_sel:
  "uses_io s l s' \<Longrightarrow> mem s' = mem s" "uses_io s l s' \<Longrightarrow> io_log s' = io_log s @ l"
  "uses_io s l s' \<Longrightarrow> machine.more s' = machine.more s"
  by (auto simp: uses_io_def)

lemma uses_io_uart:
  assumes "uses_io s l (s' :: 'a uart_scheme)"
  shows "uBase s' = uBase s" "SendBuffer s' = SendBuffer s" "ReceiveBuffer s' = ReceiveBuffer s"
    "uHandler s' = uHandler s" "uIsReady s' = uIsReady s" "uClockHz s' = uClockHz s" "uBaudRate s' = uBaudRate s"
  using assms by (auto simp: uses_io_def)

text \<open>The send loop puts the bytes at \<open>p\<close> into the FIFO, in order, and no more than it was given.\<close>

lemma send_loop_io:
  "send_loop n p s = Some (k, s') \<Longrightarrow>
     k \<le> n \<and> (\<exists>l. uses_io s l s' \<and> fifo_out (uBase s) l = rd_bytes (mem s) p k \<and> fifo_in (uBase s) l = [])"
proof (induction n arbitrary: p s k)
  case 0
  then obtain r where "k = 0" "uses_io s [IoRead (uBase s + 0x2C) r] s'"
    by (auto simp: XUartPs_IsTransmitFull_def bind_eq_Some_conv dest!: uses_io_read)
  then show ?case by (auto simp: rd_bytes_def intro!: exI)
next
  case (Suc n)
  from Suc.prems obtain r s1 where rd: "Xil_In32 (uBase s + 0x2C) s = Some (r, s1)"
    by (auto simp: XUartPs_IsTransmitFull_def bind_eq_Some_conv)
  have io1: "uses_io s [IoRead (uBase s + 0x2C) r] s1" by (rule uses_io_read [OF rd])
  note s1 = uses_io_sel [OF io1] uses_io_uart [OF io1]
  show ?case
  proof (cases "r AND 0x10 = 0x10")
    case True
    with Suc.prems rd io1 show ?thesis
      by (auto simp: XUartPs_IsTransmitFull_def rd_bytes_def intro!: exI [of _ "[IoRead (uBase s + 0x2C) r]"])
  next
    case False
    define s2 where "s2 = Xil_Out32 (uBase s + 0x30) (ucast (mem s p)) s1"
    have io2: "uses_io s1 [IoWrite (uBase s + 0x30) (ucast (mem s p))] s2" by (simp add: s2_def)
    note s2 = uses_io_sel [OF io2] uses_io_uart [OF io2]
    from Suc.prems False rd obtain j where sl: "send_loop n (p + 1) s2 = Some (j, s')" and k: "k = Suc j"
      by (auto simp: XUartPs_IsTransmitFull_def XUartPs_WriteReg_def bind_eq_Some_conv s2_def s1 split: if_splits)
    from Suc.IH [OF sl] obtain l where l: "j \<le> n" "uses_io s2 l s'"
        "fifo_out (uBase s) l = rd_bytes (mem s) (p + 1) j" "fifo_in (uBase s) l = []"
      by (auto simp: s1 s2)
    have "uses_io s ([IoRead (uBase s + 0x2C) r] @ [IoWrite (uBase s + 0x30) (ucast (mem s p))] @ l) s'"
      by (rule uses_io_trans [OF io1 uses_io_trans [OF io2 l(2)]])
    then show ?thesis using l k by (auto simp: rd_bytes_Suc intro!: exI)
  qed
qed

text \<open>The receive loop stores what it takes from the FIFO, in order, in the \<open>n\<close> bytes at \<open>p\<close> and
  nowhere else.\<close>

definition stores :: "'a machine_scheme \<Rightarrow> io_event list \<Rightarrow> u32 \<Rightarrow> u8 list \<Rightarrow> 'a machine_scheme \<Rightarrow> bool" where
  "stores s l p bs s' \<longleftrightarrow> uses_io (s\<lparr>mem := wr_bytes (mem s) p bs\<rparr>) l s'"

lemma wr_bytes_Nil [simp]: "wr_bytes m p [] = m"
  by (rule ext) (simp add: wr_bytes_def)

lemma wr_bytes_single: "wr_bytes m p [b] = m(p := b)"
  by (rule ext) (auto simp: wr_bytes_def unat_eq_zero)

lemma wr_bytes_Cons:
  assumes "Suc (length bs) \<le> 4294967296"
  shows "wr_bytes m p (b # bs) = wr_bytes (m(p := b)) (p + 1) bs"
  using wr_bytes_append [of "[b]" bs m p] assms by (simp add: wr_bytes_single)

lemma recv_loop_io:
  "recv_loop n p csr s = Some (k, s') \<Longrightarrow> n < 4294967296 \<Longrightarrow>
     k \<le> n \<and> (\<exists>l bs. stores s l p bs s' \<and> length bs = k \<and> fifo_in (uBase s) l = bs \<and> fifo_out (uBase s) l = [])"
proof (induction n arbitrary: p csr s k)
  case 0
  then show ?case by (auto simp: stores_def intro!: exI [of _ "[]"])
next
  case (Suc n)
  show ?case
  proof (cases "csr AND 2 = 0")
    case False
    with Suc.prems show ?thesis by (auto simp: stores_def intro!: exI [of _ "[]"])
  next
    case True
    with Suc.prems(1) obtain v s1 c s2 j where
      v: "Xil_In32 (uBase s + 0x30) s = Some (v, s1)" and
      c: "Xil_In32 (uBase s1 + 0x2C) (s1\<lparr>mem := (mem s1)(p := ucast v)\<rparr>) = Some (c, s2)" and
      rl: "recv_loop n (p + 1) c s2 = Some (j, s')" and k: "k = Suc j"
      by (auto simp: XUartPs_ReadReg_def bind_eq_Some_conv)
    have b: "uBase s1 = uBase s" by (rule uses_io_uart(1) [OF uses_io_read [OF v]])
    have s2: "stores s [IoRead (uBase s + 0x30) v, IoRead (uBase s + 0x2C) c] p [ucast v] s2"
      using uses_io_read [OF v] uses_io_read [OF c] b
      by (auto simp: stores_def uses_io_def wr_bytes_single)
    then have b2: "uBase s2 = uBase s" by (auto simp: stores_def uses_io_def)
    obtain l bs where l: "j \<le> n" "stores s2 l (p + 1) bs s'" "length bs = j"
        "fifo_in (uBase s) l = bs" "fifo_out (uBase s) l = []"
      using Suc.IH [OF rl] Suc.prems(2) by (auto simp: b2)
    have "stores s ([IoRead (uBase s + 0x30) v, IoRead (uBase s + 0x2C) c] @ l) p (ucast v # bs) s'"
      using s2 l(1-3) Suc.prems(2) by (auto simp: stores_def uses_io_def wr_bytes_Cons wr_bytes_single)
    then show ?thesis using l k
      by (intro conjI exI [of _ "[IoRead (uBase s + 0x30) v, IoRead (uBase s + 0x2C) c] @ l"]
            exI [of _ "ucast v # bs"]) auto
  qed
qed

section \<open>A transfer as a whole\<close>

lemma SendBuffer_io:
  assumes "XUartPs_SendBuffer s = Some (k, s')"
  shows "\<exists>j l. j \<le> unat (RemainingBytes (SendBuffer s)) \<and> k = of_nat j
      \<and> uses_io (s\<lparr>SendBuffer := advance j (SendBuffer s)\<rparr>) l s'
      \<and> fifo_out (uBase s) l = rd_bytes (mem s) (NextBytePtr (SendBuffer s)) j"
proof -
  from assms obtain j s1 imr s2 where
    sl: "send_loop (unat (RemainingBytes (SendBuffer s))) (NextBytePtr (SendBuffer s)) s = Some (j, s1)" and
    rd: "Xil_In32 (uBase s1 + 0x10) (s1\<lparr>SendBuffer := advance j (SendBuffer s1)\<rparr>) = Some (imr, s2)" and
    k: "k = of_nat j" and
    s': "s' = s2 \<or> s' = Xil_Out32 (uBase s2 + 0x08) (imr OR 0x08) s2"
    by (auto simp: XUartPs_SendBuffer_def XUartPs_ReadReg_def XUartPs_WriteReg_def bind_eq_Some_conv)
  from send_loop_io [OF sl] obtain l where l: "j \<le> unat (RemainingBytes (SendBuffer s))" "uses_io s l s1"
      "fifo_out (uBase s) l = rd_bytes (mem s) (NextBytePtr (SendBuffer s)) j" by auto
  have s1: "uBase s1 = uBase s" "SendBuffer s1 = SendBuffer s" using uses_io_uart [OF l(2)] by auto
  have s2: "uses_io (s\<lparr>SendBuffer := advance j (SendBuffer s)\<rparr>) (l @ [IoRead (uBase s + 0x10) imr]) s2"
    using l(2) uses_io_read [OF rd] by (auto simp: uses_io_def s1)
  have b2: "uBase s2 = uBase s" using uses_io_uart(1) [OF s2] by simp
  from s' show ?thesis
  proof
    assume "s' = s2"
    with s2 l k show ?thesis
      by (intro exI [of _ j] exI [of _ "l @ [IoRead (uBase s + 0x10) imr]"] conjI) auto
  next
    assume "s' = Xil_Out32 (uBase s2 + 0x08) (imr OR 0x08) s2"
    then have "uses_io (s\<lparr>SendBuffer := advance j (SendBuffer s)\<rparr>)
        ((l @ [IoRead (uBase s + 0x10) imr]) @ [IoWrite (uBase s + 0x08) (imr OR 0x08)]) s'"
      using uses_io_trans [OF s2 uses_io_write [of s2 "uBase s + 8" "imr OR 8"]] by (simp add: b2)
    with l k show ?thesis
      by (intro exI [of _ j] exI [of _ "(l @ [IoRead (uBase s + 0x10) imr]) @ [IoWrite (uBase s + 0x08) (imr OR 0x08)]"]
          conjI) auto
  qed
qed

lemma ReceiveBuffer_io:
  assumes "XUartPs_ReceiveBuffer s = Some (k, s')"
  shows "\<exists>l bs. length bs \<le> unat (RemainingBytes (ReceiveBuffer s)) \<and> k = of_nat (length bs)
      \<and> stores (s\<lparr>ReceiveBuffer := advance (length bs) (ReceiveBuffer s)\<rparr>) l (NextBytePtr (ReceiveBuffer s)) bs s'
      \<and> fifo_in (uBase s) l = bs \<and> fifo_out (uBase s) l = []"
proof -
  from assms obtain csr s1 j s2 where
    rd: "Xil_In32 (uBase s + 0x2C) s = Some (csr, s1)" and
    rl: "recv_loop (unat (RemainingBytes (ReceiveBuffer s1))) (NextBytePtr (ReceiveBuffer s1)) csr s1 = Some (j, s2)" and
    k: "k = of_nat j" "s' = s2\<lparr>ReceiveBuffer := advance j (ReceiveBuffer s2)\<rparr>"
    by (auto simp: XUartPs_ReceiveBuffer_def XUartPs_ReadReg_def bind_eq_Some_conv)
  have io: "uses_io s [IoRead (uBase s + 0x2C) csr] s1" by (rule uses_io_read [OF rd])
  note s1 = uses_io_uart [OF io]
  from recv_loop_io [OF rl unat_u32_less] obtain l bs where
    l: "j \<le> unat (RemainingBytes (ReceiveBuffer s1))" "stores s1 l (NextBytePtr (ReceiveBuffer s1)) bs s2"
      "length bs = j" "fifo_in (uBase s) l = bs" "fifo_out (uBase s) l = []" by (auto simp: s1)
  have "stores (s\<lparr>ReceiveBuffer := advance (length bs) (ReceiveBuffer s)\<rparr>)
      ([IoRead (uBase s + 0x2C) csr] @ l) (NextBytePtr (ReceiveBuffer s)) bs s'"
    using io l(2,3) k(2) by (auto simp: stores_def uses_io_def intro!: exI [of _ "io_tape s2"] uart.equality)
  with l k(1) show ?thesis
    by (intro exI [of _ "[IoRead (uBase s + 0x2C) csr] @ l"] exI [of _ bs] conjI) (auto simp: s1)
qed

end
