(* ===== verification/UartTransfer.thy ===== *)
theory UartTransfer
  imports UartPs
begin

text \<open>
  What the serial port driver guarantees of a transfer: a buffer handed to \<open>XUartPs_Send\<close>
  reaches the FIFO byte for byte, over any number of interrupts and whatever the device
  answers, and received bytes are stored in order inside the buffer they were meant for.
\<close>

section \<open>The invariant of a transmission\<close>

text \<open>\<open>text\<close> lies in memory at \<open>a\<close>; the driver's bookkeeping agrees with the bytes that have gone
  into the FIFO since the log was \<open>log0\<close>; and the receive buffer does not overlap the text.\<close>

definition sending :: "u32 \<Rightarrow> u32 \<Rightarrow> u8 list \<Rightarrow> io_event list \<Rightarrow> 'a uart_scheme \<Rightarrow> bool" where
  "sending base a bs log0 s \<longleftrightarrow> uBase s = base \<and> length bs < 4294967296 \<and> rd_bytes (mem s) a (length bs) = bs \<and>
     (\<exists>k l. k \<le> length bs \<and> SendBuffer s = \<lparr>NextBytePtr = a + of_nat k, RequestedBytes = of_nat (length bs),
                                              RemainingBytes = of_nat (length bs - k)\<rparr> \<and>
            io_log s = log0 @ l \<and> fifo_out base l = take k bs) \<and>
     apart (NextBytePtr (ReceiveBuffer s)) (unat (RemainingBytes (ReceiveBuffer s))) a (length bs)"

definition app_keeps_sending :: "'a app \<Rightarrow> u32 \<Rightarrow> u32 \<Rightarrow> u8 list \<Rightarrow> io_event list \<Rightarrow> bool" where
  "app_keeps_sending app base a bs log0 \<longleftrightarrow>
     (\<forall>ev d s s'. sending base a bs log0 s \<and> app ev d s = Some s' \<longrightarrow> sending base a bs log0 s')"

lemma sending_io:
  assumes "sending base a bs log0 s" and "uses_io s l s'" and "fifo_out base l = []"
  shows "sending base a bs log0 s'"
  using assms uses_io_sel [OF assms(2)] uses_io_uart [OF assms(2)]
  by (auto simp: sending_def)

lemma sending_read: "sending base a bs log0 s \<Longrightarrow> Xil_In32 r s = Some (v, s') \<Longrightarrow> sending base a bs log0 s'"
  by (rule sending_io [OF _ uses_io_read]) simp_all

lemma sending_write:
  "sending base a bs log0 s \<Longrightarrow> r \<noteq> base + XUARTPS_FIFO_OFFSET \<Longrightarrow> sending base a bs log0 (Xil_Out32 r v s)"
  by (rule sending_io [OF _ uses_io_write]) simp_all

lemma unat_of_nat_u32: "n < 4294967296 \<Longrightarrow> unat (of_nat n :: u32) = n"
  by (simp add: unat_of_nat)

lemma sending_SendBuffer:
  assumes "sending base a bs log0 s" and "XUartPs_SendBuffer s = Some (c, s')"
  shows "sending base a bs log0 s'"
proof -
  from assms(1) obtain k l where b: "uBase s = base" "length bs < 4294967296"
      "rd_bytes (mem s) a (length bs) = bs" and k: "k \<le> length bs"
      "SendBuffer s = \<lparr>NextBytePtr = a + of_nat k, RequestedBytes = of_nat (length bs),
         RemainingBytes = of_nat (length bs - k)\<rparr>" "io_log s = log0 @ l" "fifo_out base l = take k bs"
    by (auto simp: sending_def)
  have n: "unat (RemainingBytes (SendBuffer s)) = length bs - k"
    using k(2) b(2) by (simp add: unat_of_nat_u32)
  from SendBuffer_io [OF assms(2)] obtain j l' where j: "j \<le> length bs - k"
      "uses_io (s\<lparr>SendBuffer := advance j (SendBuffer s)\<rparr>) l' s'"
      "fifo_out base l' = rd_bytes (mem s) (a + of_nat k) j"
    using n b(1) k(2) by auto
  have "rd_bytes (mem s) (a + of_nat k) j = take j (drop k (rd_bytes (mem s) a (length bs)))"
    using j(1) by (simp add: rd_bytes_drop)
  then have out: "fifo_out base (l @ l') = take (k + j) bs"
    using k(4) j(3) b(3) by (simp add: take_add)
  have adv: "SendBuffer s' = \<lparr>NextBytePtr = a + of_nat (k + j), RequestedBytes = of_nat (length bs),
      RemainingBytes = of_nat (length bs - (k + j))\<rparr>"
    using uses_io_uart(2) [OF j(2)] j(1) k(1,2) by (simp add: advance_def of_nat_diff)
  show ?thesis
    unfolding sending_def
    using assms(1) uses_io_sel [OF j(2)] uses_io_uart [OF j(2)] adv out k j(1) b
    by (auto simp: sending_def intro!: exI [of _ "k + j"] exI [of _ "l @ l'"])
qed

lemma apart_tail:
  assumes "apart p r a n" and "j \<le> r" and "r \<le> 4294967296"
  shows "apart (p + of_nat j) (r - j) a n"
  unfolding apart_def
proof (intro allI notI)
  fix x
  assume x: "unat (x - (p + of_nat j)) < r - j \<and> unat (x - a) < n"
  define d where "d = unat (x - (p + of_nat j))"
  have d: "d < r - j" using x by (simp add: d_def)
  have "x - p = of_nat (d + j)" by (simp add: d_def)
  moreover have "d + j < 4294967296" using d assms(2,3) by linarith
  ultimately have "unat (x - p) = d + j" by (simp add: unat_of_nat del: of_nat_add)
  then have "unat (x - p) < r" using d by simp
  with x assms(1) show False by (auto simp: apart_def)
qed

lemma sending_ReceiveBuffer:
  assumes "sending base a bs log0 s" and "XUartPs_ReceiveBuffer s = Some (c, s')"
  shows "sending base a bs log0 s'"
proof -
  let ?p = "NextBytePtr (ReceiveBuffer s)" and ?r = "unat (RemainingBytes (ReceiveBuffer s))"
  from ReceiveBuffer_io [OF assms(2)] obtain l rs where r: "length rs \<le> ?r"
      "stores (s\<lparr>ReceiveBuffer := advance (length rs) (ReceiveBuffer s)\<rparr>) l ?p rs s'" "fifo_out (uBase s) l = []"
    by auto
  have ap: "apart ?p ?r a (length bs)" using assms(1) by (simp add: sending_def)
  have len: "length rs < 4294967296" using r(1) unat_u32_less [of "RemainingBytes (ReceiveBuffer s)"] by simp
  have "rd_bytes (wr_bytes (mem s) ?p rs) a (length bs) = rd_bytes (mem s) a (length bs)"
    using ap r(1) assms(1) by (intro rd_wr_apart) (auto simp: sending_def apart_sym intro: apart_sub)
  moreover have "unat (RemainingBytes (advance (length rs) (ReceiveBuffer s))) = ?r - length rs"
    using r(1) len by (simp add: advance_def unat_sub word_le_nat_alt unat_of_nat_u32)
  then have "apart (NextBytePtr (advance (length rs) (ReceiveBuffer s)))
      (unat (RemainingBytes (advance (length rs) (ReceiveBuffer s)))) a (length bs)"
    using apart_tail [OF ap r(1)] unat_u32_less [of "RemainingBytes (ReceiveBuffer s)"]
    by (simp add: advance_def)
  ultimately show ?thesis
    using assms(1) r(2,3) uses_io_sel uses_io_uart
    by (auto simp: sending_def stores_def uses_io_def)
qed

section \<open>Interrupts during a transmission\<close>

lemma sending_handler:
  "app_keeps_sending app base a bs log0 \<Longrightarrow> sending base a bs log0 s \<Longrightarrow>
     run_handler app ev d s = Some s' \<Longrightarrow> sending base a bs log0 s'"
  by (auto simp: run_handler_def XUartPs_StubHandler_def app_keeps_sending_def split: uart_handler.splits)

lemma sending_take_received:
  "sending base a bs log0 s \<Longrightarrow> take_received s = Some s' \<Longrightarrow> sending base a bs log0 s'"
  by (auto simp: take_received_def split: if_splits intro: sending_ReceiveBuffer)

lemma sending_receive_handlers:
  assumes "app_keeps_sending app base a bs log0" and "sending base a bs log0 s"
  shows "ReceiveDataHandler app s = Some s' \<Longrightarrow> sending base a bs log0 s'"
    and "ReceiveErrorHandler app s = Some s' \<Longrightarrow> sending base a bs log0 s'"
    and "ReceiveTimeoutHandler app s = Some s' \<Longrightarrow> sending base a bs log0 s'"
  using assms
  by (auto simp: ReceiveDataHandler_def ReceiveErrorHandler_def ReceiveTimeoutHandler_def
      bind_eq_Some_conv Let_def split: if_splits dest: sending_take_received intro: sending_handler)

lemma sending_SendDataHandler:
  assumes "app_keeps_sending app base a bs log0" and "sending base a bs log0 s"
    and "SendDataHandler app isr s = Some s'"
  shows "sending base a bs log0 s'"
proof -
  have "sending base a bs log0 (XUartPs_WriteReg (uBase s) 0x0C v s)" for v
    unfolding XUartPs_WriteReg_def using assms(2) by (intro sending_write) (auto simp: sending_def)
  with assms show ?thesis
    by (auto simp: SendDataHandler_def split: if_splits intro: sending_handler sending_SendBuffer)
qed

lemma sending_ModemHandler:
  "app_keeps_sending app base a bs log0 \<Longrightarrow> sending base a bs log0 s \<Longrightarrow>
     ModemHandler app s = Some s' \<Longrightarrow> sending base a bs log0 s'"
  by (auto simp: ModemHandler_def XUartPs_ReadReg_def bind_eq_Some_conv dest: sending_read intro: sending_handler)

lemma sending_when:
  "when_set st m f s = Some s' \<Longrightarrow> sending base a bs log0 s \<Longrightarrow>
     (\<And>s'. f s = Some s' \<Longrightarrow> sending base a bs log0 s') \<Longrightarrow> sending base a bs log0 s'"
  by (auto simp: when_set_def split: if_splits)

lemma sending_InterruptHandler:
  assumes ok: "app_keeps_sending app base a bs log0" and s: "sending base a bs log0 s"
    and "XUartPs_InterruptHandler app s = Some s'"
  shows "sending base a bs log0 s'"
proof -
  from assms(3) obtain imr s1 isr s2 s3 s4 s5 s6 s7 where
    r1: "Xil_In32 (uBase s + 0x10) s = Some (imr, s1)" and
    r2: "Xil_In32 (uBase s1 + 0x14) s1 = Some (isr, s2)" and
    h1: "when_set (imr AND isr) (1 OR 2 OR 4) (ReceiveDataHandler app) s2 = Some s3" and
    h2: "when_set (imr AND isr) (8 OR 0x10) (SendDataHandler app (imr AND isr)) s3 = Some s4" and
    h3: "when_set (imr AND isr) (0x20 OR 0x40 OR 0x80) (ReceiveErrorHandler app) s4 = Some s5" and
    h4: "when_set (imr AND isr) 0x100 (ReceiveTimeoutHandler app) s5 = Some s6" and
    h5: "when_set (imr AND isr) 0x200 (ModemHandler app) s6 = Some s7" and
    s': "s' = Xil_Out32 (uBase s7 + 0x14) (imr AND isr) s7"
    by (auto simp: XUartPs_InterruptHandler_def XUartPs_ReadReg_def XUartPs_WriteReg_def Let_def
        bind_eq_Some_conv split: if_splits)
  have "sending base a bs log0 s2" by (rule sending_read [OF sending_read [OF s r1] r2])
  with sending_receive_handlers [OF ok] h1 have "sending base a bs log0 s3" by (rule_tac sending_when)
  with sending_SendDataHandler [OF ok] h2 have "sending base a bs log0 s4" by (rule_tac sending_when)
  with sending_receive_handlers [OF ok] h3 have "sending base a bs log0 s5" by (rule_tac sending_when)
  with sending_receive_handlers [OF ok] h4 have "sending base a bs log0 s6" by (rule_tac sending_when)
  with sending_ModemHandler [OF ok] h5 have "sending base a bs log0 s7" by (rule_tac sending_when)
  then show ?thesis unfolding s' by (intro sending_write) (auto simp: sending_def)
qed

text \<open>A transmission: the call that starts it, then interrupts, each answered by the device in
  its own way.\<close>

fun uart_irqs :: "'a app \<Rightarrow> u32 list list \<Rightarrow> 'a uart_op" where
  "uart_irqs app [] s = Some s"
| "uart_irqs app (t # ts) s = do {
     s \<leftarrow> XUartPs_InterruptHandler app (s\<lparr>io_tape := t\<rparr>);
     uart_irqs app ts s }"

definition uart_transmit :: "'a app \<Rightarrow> u32 \<Rightarrow> u32 \<Rightarrow> u32 list list \<Rightarrow> 'a uart_op" where
  "uart_transmit app p n ts s = do { (k, s) \<leftarrow> XUartPs_Send p n s; uart_irqs app ts s }"

lemma sending_irqs:
  assumes "app_keeps_sending app base a bs log0"
  shows "uart_irqs app ts s = Some s' \<Longrightarrow> sending base a bs log0 s \<Longrightarrow> sending base a bs log0 s'"
proof (induction ts arbitrary: s)
  case (Cons t ts)
  have "sending base a bs log0 (s\<lparr>io_tape := t\<rparr>)"
    by (rule sending_io [OF Cons.prems(2), of "[]"]) (auto simp: uses_io_def)
  with Cons sending_InterruptHandler [OF assms] show ?case by (auto simp: bind_eq_Some_conv)
qed simp

lemma sending_start:
  assumes "XUartPs_Send p (of_nat (length bs)) s = Some (k, s')" and "rd_bytes (mem s) p (length bs) = bs"
    and "length bs < 4294967296"
    and "apart (NextBytePtr (ReceiveBuffer s)) (unat (RemainingBytes (ReceiveBuffer s))) p (length bs)"
  shows "sending (uBase s) p bs (io_log s) s'"
proof -
  let ?s1 = "(Xil_Out32 (uBase s + 0x0C) (8 OR 0x10) s)
      \<lparr>SendBuffer := \<lparr>NextBytePtr = p, RequestedBytes = of_nat (length bs), RemainingBytes = of_nat (length bs)\<rparr>\<rparr>"
  from assms(1) have sb: "XUartPs_SendBuffer ?s1 = Some (k, s')"
    by (simp add: XUartPs_Send_def XUartPs_WriteReg_def split: if_splits)
  have "sending (uBase s) p bs (io_log s) ?s1"
    using assms(2-4) unfolding sending_def
    by (auto simp: Xil_Out32_def intro!: exI [of _ "0::nat"])
  then show ?thesis by (rule sending_SendBuffer [OF _ sb])
qed

text \<open>C11: A buffer handed to \<open>XUartPs_Send\<close> goes into the transmit FIFO in order: after any number
  of interrupts, whatever events they carry, and for every behaviour of the device, the bytes
  written so far are a prefix of the buffer, the driver's count of remaining bytes is exact, and
  when it is zero the whole buffer has been written. The application's handler must not disturb
  the transfer itself.\<close>

theorem uart_sends_in_order:
  assumes "rd_bytes (mem s) p (length bs) = bs" and "length bs < 4294967296"
    and "apart (NextBytePtr (ReceiveBuffer s)) (unat (RemainingBytes (ReceiveBuffer s))) p (length bs)"
    and "app_keeps_sending app (uBase s) p bs (io_log s)"
    and "uart_transmit app p (of_nat (length bs)) ts s = Some s'"
  shows "\<exists>k l. k \<le> length bs \<and> io_log s' = io_log s @ l \<and> fifo_out (uBase s) l = take k bs
     \<and> unat (RemainingBytes (SendBuffer s')) = length bs - k"
proof -
  from assms(5) obtain c s1 where "XUartPs_Send p (of_nat (length bs)) s = Some (c, s1)"
      "uart_irqs app ts s1 = Some s'" by (auto simp: uart_transmit_def bind_eq_Some_conv)
  with assms have "sending (uBase s) p bs (io_log s) s'"
    by (blast intro: sending_irqs sending_start)
  then obtain k l where "k \<le> length bs" "SendBuffer s' = \<lparr>NextBytePtr = p + of_nat k,
      RequestedBytes = of_nat (length bs), RemainingBytes = of_nat (length bs - k)\<rparr>"
      "io_log s' = io_log s @ l" "fifo_out (uBase s) l = take k bs" by (auto simp: sending_def)
  moreover have "unat (of_nat (length bs - k) :: u32) = length bs - k"
    using assms(2) by (intro unat_of_nat_u32) simp
  ultimately show ?thesis by (intro exI [of _ k] exI [of _ l]) simp
qed

definition uart_demo :: "u32 list \<Rightarrow> uart" where
  "uart_demo t = \<lparr>mem = (\<lambda>x. if x = 0x100 then 72 else if x = 0x101 then 105 else 0), io_tape = t, io_log = [],
     tlb = (\<lambda>_. 0), XExc_VectorTable = exc_table_init, cpsr = 0xD3, CpuBaseAddress = 0, DistBaseAddress = 0, HandlerTable = [], gicConfig = False,
     gicIsReady = 0, UnhandledInterrupts = 0, uBase = 0xE0001000, uClockHz = 50000000, uModemPins = 0,
     uInputClockHz = 0, uIsReady = 0x11111111, uBaudRate = 115200, SendBuffer = no_buffer,
     ReceiveBuffer = \<lparr>NextBytePtr = 0x200, RequestedBytes = 8, RemainingBytes = 8\<rparr>,
     uHandler = UartApp, uRef = RefNull\<rparr>"

text \<open>The device takes one byte of ``Hi'' at once, the second after its interrupt, and reports
  the end with another.\<close>

lemma uart_sends_in_order_witness:
  "\<exists>s'. uart_transmit (\<lambda>ev d s. Some s) 0x100 2 [[0x8, 0x8, 0, 0, 0], [0x8, 0x8]] (uart_demo [0, 0x10, 0]) = Some s'
     \<and> (\<exists>k l. k \<le> 2 \<and> io_log s' = l \<and> fifo_out 0xE0001000 l = take k [72, 105]
            \<and> unat (RemainingBytes (SendBuffer s')) = 2 - k)"
proof -
  let ?app = "\<lambda>(ev :: u32) (d :: u32) (s :: uart). Some s"
  have "case uart_transmit ?app 0x100 2 [[0x8, 0x8, 0, 0, 0], [0x8, 0x8]] (uart_demo [0, 0x10, 0]) of
      None \<Rightarrow> False | Some _ \<Rightarrow> True"
    by code_simp
  then obtain s' where
    r: "uart_transmit ?app 0x100 2 [[0x8, 0x8, 0, 0, 0], [0x8, 0x8]] (uart_demo [0, 0x10, 0]) = Some s'"
    by (auto split: option.splits)
  have m: "rd_bytes (mem (uart_demo [0, 0x10, 0])) 0x100 2 = [72, 105]"
    by (simp add: uart_demo_def numeral_2_eq_2 rd_bytes_Suc)
  have a: "apart (NextBytePtr (ReceiveBuffer (uart_demo [0, 0x10, 0])))
      (unat (RemainingBytes (ReceiveBuffer (uart_demo [0, 0x10, 0])))) 0x100 2"
    by (subst apart_sym) (rule apart_below; simp add: uart_demo_def)
  have b: "uBase (uart_demo [0, 0x10, 0]) = 0xE0001000" "io_log (uart_demo [0, 0x10, 0]) = []"
    by (simp_all add: uart_demo_def)
  have len: "length [72, 105 :: u8] = 2" by simp
  have "\<exists>k l. k \<le> 2 \<and> io_log s' = io_log (uart_demo [0, 0x10, 0]) @ l
      \<and> fifo_out (uBase (uart_demo [0, 0x10, 0])) l = take k [72, 105]
      \<and> unat (RemainingBytes (SendBuffer s')) = 2 - k"
    by (rule uart_sends_in_order [of _ "0x100" "[72, 105]" ?app "[[0x8, 0x8, 0, 0, 0], [0x8, 0x8]]" s',
          unfolded len of_nat_numeral])
      (simp_all add: m a r app_keeps_sending_def)
  with r show ?thesis by (simp add: b)
qed

section \<open>A transmission comes to its end\<close>

text \<open>The send loop reads the status once more than it sends.\<close>

lemma send_loop_total:
  "n + 1 \<le> length (io_tape s) \<Longrightarrow>
     \<exists>k s'. send_loop n p s = Some (k, s') \<and> length (io_tape s) \<le> length (io_tape s') + n + 1"
proof (induction n arbitrary: p s)
  case 0
  then show ?case by (cases "io_tape s") (auto simp: XUartPs_IsTransmitFull_def Xil_In32_def)
next
  case (Suc n)
  then obtain v t where t: "io_tape s = v # t" "n + 1 \<le> length t" by (cases "io_tape s") auto
  show ?case
  proof (cases "v AND 0x10 = 0x10")
    case True
    then show ?thesis using t by (auto simp: XUartPs_IsTransmitFull_def Xil_In32_def)
  next
    case False
    let ?s = "s\<lparr>io_tape := t, io_log := io_log s @ [IoRead (uBase s + 0x2C) v, IoWrite (uBase s + 0x30) (ucast (mem s p))]\<rparr>"
    obtain k s' where "send_loop n (p + 1) ?s = Some (k, s')" "length t \<le> length (io_tape s') + n + 1"
      using Suc.IH [of ?s "p + 1"] t(2) by auto
    then show ?thesis using False t(1)
      by (simp add: XUartPs_IsTransmitFull_def XUartPs_WriteReg_def Xil_In32_def Xil_Out32_def)
  qed
qed

lemma SendBuffer_total:
  assumes "unat (RemainingBytes (SendBuffer s)) + 2 \<le> length (io_tape s)"
  shows "\<exists>k s'. XUartPs_SendBuffer s = Some (k, s') \<and>
    (hd (io_tape s) AND 0x10 = 0 \<and> RemainingBytes (SendBuffer s) \<noteq> 0 \<longrightarrow> k \<noteq> 0)"
proof -
  let ?n = "unat (RemainingBytes (SendBuffer s))" and ?p = "NextBytePtr (SendBuffer s)"
  obtain k s1 where sl: "send_loop ?n ?p s = Some (k, s1)" "length (io_tape s) \<le> length (io_tape s1) + ?n + 1"
    using send_loop_total [of ?n s ?p] assms by auto
  then obtain imr t where t: "io_tape s1 = imr # t" using assms by (cases "io_tape s1") auto
  have "k < 4294967296" using send_loop_io [OF sl(1)] unat_u32_less [of "RemainingBytes (SendBuffer s)"] by simp
  then have k: "of_nat k = (0 :: u32) \<longleftrightarrow> k = 0"
    using unat_of_nat_u32 [of k] unat_eq_zero [of "of_nat k :: u32"] by simp
  have "k \<noteq> 0" if "hd (io_tape s) AND 0x10 = 0" "RemainingBytes (SendBuffer s) \<noteq> 0"
  proof -
    from that(2) obtain m where m: "?n = Suc m" by (cases ?n) (auto simp: unat_eq_zero)
    obtain v r where "io_tape s = v # r" using assms by (cases "io_tape s") auto
    with sl(1) that(1) show ?thesis unfolding m
      by (auto simp: XUartPs_IsTransmitFull_def Xil_In32_def bind_eq_Some_conv)
  qed
  with sl(1) t k show ?thesis
    by (simp add: XUartPs_SendBuffer_def XUartPs_ReadReg_def XUartPs_WriteReg_def Xil_In32_def Let_def)
qed

text \<open>An interrupt that reports an empty transmit FIFO and nothing else, from a device that has room
  for a byte; \<open>n\<close> bounds the answers that are needed.\<close>

definition tx_irq :: "nat \<Rightarrow> u32 list \<Rightarrow> bool" where
  "tx_irq n t \<longleftrightarrow> (case t of imr # isr # v # r \<Rightarrow>
     (imr AND isr) AND 0x3FF = XUARTPS_IXR_TXEMPTY \<and> v AND XUARTPS_SR_TXFULL = 0 \<and> n + 1 \<le> length r | _ \<Rightarrow> False)"

definition uart_on :: "'a uart_scheme \<Rightarrow> bool" where
  "uart_on s \<longleftrightarrow> uart_ready s \<and> uHandler s = UartApp"

lemma uart_on_io:
  assumes "uses_io s l s'"
  shows "uart_on s' = uart_on s"
  using uses_io_uart [OF assms] by (simp add: uart_on_def uart_ready_def)

text \<open>The application accepts the event at the end of the transfer.\<close>

definition app_accepts_end :: "'a app \<Rightarrow> u32 \<Rightarrow> u32 \<Rightarrow> u8 list \<Rightarrow> io_event list \<Rightarrow> bool" where
  "app_accepts_end app base a bs log0 \<longleftrightarrow>
     (\<forall>d s. sending base a bs log0 s \<and> RemainingBytes (SendBuffer s) = 0 \<and> uart_on s \<longrightarrow>
        (\<exists>s'. app XUARTPS_EVENT_SENT_DATA d s = Some s' \<and> sending base a bs log0 s' \<and>
              RemainingBytes (SendBuffer s') = 0 \<and> uart_on s'))"

lemma sending_remaining:
  assumes "sending base a bs log0 s"
  shows "unat (RemainingBytes (SendBuffer s)) \<le> length bs"
proof -
  from assms obtain k where "length bs < 4294967296" "RemainingBytes (SendBuffer s) = of_nat (length bs - k)"
    by (auto simp: sending_def simp del: of_nat_diff)
  then show ?thesis using unat_of_nat_u32 [of "length bs - k"] by simp
qed

lemma SendDataHandler_progress:
  assumes ok: "app_accepts_end app base a bs log0" and s: "sending base a bs log0 s" "uart_on s"
    and e: "isr AND XUARTPS_IXR_TXEMPTY \<noteq> 0"
    and t: "length bs + 2 \<le> length (io_tape s)" "hd (io_tape s) AND XUARTPS_SR_TXFULL = 0"
  shows "\<exists>s'. SendDataHandler app isr s = Some s' \<and> sending base a bs log0 s' \<and> uart_on s' \<and>
    unat (RemainingBytes (SendBuffer s')) \<le> unat (RemainingBytes (SendBuffer s)) - 1"
proof (cases "RemainingBytes (SendBuffer s) = 0")
  case True
  let ?w = "Xil_Out32 (uBase s + 0x0C) (8 OR 0x10) s"
  have b: "uBase s = base" using s(1) by (simp add: sending_def)
  have "sending base a bs log0 ?w" using s(1) b by (intro sending_write) simp_all
  moreover have "uart_on ?w" "SendBuffer ?w = SendBuffer s" "uHandler ?w = UartApp"
    using s(2) by (simp_all add: uart_on_def uart_ready_def Xil_Out32_def)
  ultimately obtain s' where
    "app XUARTPS_EVENT_SENT_DATA (done_bytes (SendBuffer s)) ?w = Some s'" "sending base a bs log0 s'"
    "RemainingBytes (SendBuffer s') = 0" "uart_on s'"
    using ok True unfolding app_accepts_end_def by metis
  then show ?thesis
    using True \<open>uHandler ?w = UartApp\<close>
    by (simp add: SendDataHandler_def run_handler_def XUartPs_WriteReg_def)
next
  case False
  from SendBuffer_total [of s] sending_remaining [OF s(1)] t False obtain k s' where
    r: "XUartPs_SendBuffer s = Some (k, s')" "k \<noteq> 0" by auto
  from SendBuffer_io [OF r(1)] obtain j l where j: "j \<le> unat (RemainingBytes (SendBuffer s))" "k = of_nat j"
      "uses_io (s\<lparr>SendBuffer := advance j (SendBuffer s)\<rparr>) l s'" by blast
  have "unat (RemainingBytes (SendBuffer s')) = unat (RemainingBytes (SendBuffer s)) - j"
    using uses_io_uart(2) [OF j(3)] j(1) unat_of_nat_u32 [of j] unat_u32_less [of "RemainingBytes (SendBuffer s)"]
    by (simp add: advance_def unat_sub word_le_nat_alt)
  moreover have "j \<noteq> 0" using r(2) j(2) by (cases j) simp_all
  moreover have "uart_on s'" using uart_on_io [OF j(3)] s(2) by (simp add: uart_on_def uart_ready_def)
  ultimately show ?thesis
    using r(1) False e sending_SendBuffer [OF s(1) r(1)] by (auto simp: SendDataHandler_def)
qed

lemma tx_irq_progress:
  assumes ok: "app_accepts_end app base a bs log0" and s: "sending base a bs log0 s" "uart_on s"
    and t: "tx_irq (length bs) t"
  shows "\<exists>s'. XUartPs_InterruptHandler app (s\<lparr>io_tape := t\<rparr>) = Some s' \<and> sending base a bs log0 s' \<and>
    uart_on s' \<and> unat (RemainingBytes (SendBuffer s')) \<le> unat (RemainingBytes (SendBuffer s)) - 1"
proof -
  from t obtain imr isr v r where t: "t = imr # isr # v # r" "(imr AND isr) AND 0x3FF = 8" "v AND 0x10 = 0"
      "length bs + 1 \<le> length r"
    by (auto simp: tx_irq_def split: list.splits)
  define st where "st = imr AND isr"
  have bits: "st AND m = 8 AND m" if "0x3FF AND m = m" for m
    using arg_cong [OF t(2), of "\<lambda>x. x AND m"] that by (simp add: st_def word_bw_assocs)
  have st: "st AND 7 = 0" "st AND 0x18 = 8" "st AND 0xE0 = 0" "st AND 0x100 = 0" "st AND 0x200 = 0" "st AND 8 = 8"
    by (subst bits; simp)+
  let ?s2 = "s\<lparr>io_tape := v # r, io_log := io_log s @ [IoRead (uBase s + 0x10) imr, IoRead (uBase s + 0x14) isr]\<rparr>"
  have u: "uses_io s [IoRead (uBase s + 0x10) imr, IoRead (uBase s + 0x14) isr] ?s2" by (auto simp: uses_io_def)
  have s2: "sending base a bs log0 ?s2" "uart_on ?s2"
    using sending_io [OF s(1) u] uart_on_io [OF u] s(2) by simp_all
  from SendDataHandler_progress [OF ok s2, of st] st(6) t(3,4) obtain s3 where
    s3: "SendDataHandler app st ?s2 = Some s3" "sending base a bs log0 s3" "uart_on s3"
      "unat (RemainingBytes (SendBuffer s3)) \<le> unat (RemainingBytes (SendBuffer s)) - 1" by auto
  let ?s' = "Xil_Out32 (uBase s3 + 0x14) st s3"
  have "XUartPs_InterruptHandler app (s\<lparr>io_tape := t\<rparr>) = Some ?s'"
    using s(2) s3(1) st t(1)
    by (simp add: XUartPs_InterruptHandler_def uart_on_def uart_ready_def XUartPs_ReadReg_def XUartPs_WriteReg_def
        Xil_In32_def when_set_def Let_def st_def [symmetric])
  moreover have "sending base a bs log0 ?s'"
    using s3(2) by (intro sending_write) (auto simp: sending_def)
  moreover have "uart_on ?s'" "SendBuffer ?s' = SendBuffer s3"
    using s3(3) by (simp_all add: uart_on_def uart_ready_def Xil_Out32_def)
  ultimately show ?thesis using s3(4) by auto
qed

lemma tx_irqs_finish:
  assumes "app_accepts_end app base a bs log0"
  shows "sending base a bs log0 s \<Longrightarrow> uart_on s \<Longrightarrow> \<forall>t \<in> set ts. tx_irq (length bs) t \<Longrightarrow>
    unat (RemainingBytes (SendBuffer s)) \<le> length ts \<Longrightarrow>
    \<exists>s'. uart_irqs app ts s = Some s' \<and> sending base a bs log0 s' \<and> RemainingBytes (SendBuffer s') = 0"
proof (induction ts arbitrary: s)
  case Nil
  then show ?case by (simp add: unat_eq_zero)
next
  case (Cons t ts)
  from tx_irq_progress [OF assms Cons.prems(1,2)] Cons.prems(3) obtain s1 where
    s1: "XUartPs_InterruptHandler app (s\<lparr>io_tape := t\<rparr>) = Some s1" "sending base a bs log0 s1" "uart_on s1"
      "unat (RemainingBytes (SendBuffer s1)) \<le> unat (RemainingBytes (SendBuffer s)) - 1" by auto
  with Cons.IH [OF s1(2,3)] Cons.prems(3,4) show ?case by auto
qed

text \<open>C12: A buffer handed to \<open>XUartPs_Send\<close> is sent completely, however much of it the device takes at
  first: if it then raises one interrupt for each byte, each time with room for at least one more,
  all bytes have gone to the FIFO in order and the driver returns with nothing left.\<close>

theorem uart_send_completes:
  assumes "uart_on s" and "p \<noteq> 0" and "rd_bytes (mem s) p (length bs) = bs" and "length bs < 4294967296"
    and "apart (NextBytePtr (ReceiveBuffer s)) (unat (RemainingBytes (ReceiveBuffer s))) p (length bs)"
    and "length bs + 2 \<le> length (io_tape s)" and "app_accepts_end app (uBase s) p bs (io_log s)"
    and "\<forall>t \<in> set ts. tx_irq (length bs) t" and "length bs \<le> length ts"
  shows "\<exists>s' l. uart_transmit app p (of_nat (length bs)) ts s = Some s' \<and> io_log s' = io_log s @ l \<and>
    fifo_out (uBase s) l = bs \<and> RemainingBytes (SendBuffer s') = 0"
proof -
  let ?s1 = "(Xil_Out32 (uBase s + 0x0C) (8 OR 0x10) s)
      \<lparr>SendBuffer := \<lparr>NextBytePtr = p, RequestedBytes = of_nat (length bs), RemainingBytes = of_nat (length bs)\<rparr>\<rparr>"
  obtain k s1 where sb: "XUartPs_SendBuffer ?s1 = Some (k, s1)"
    using SendBuffer_total [of ?s1] assms(4,6) by (auto simp: unat_of_nat_u32)
  have r: "uart_ready s" using assms(1) by (simp add: uart_on_def)
  have send: "XUartPs_Send p (of_nat (length bs)) s = Some (k, s1)"
    using sb assms(2) r by (simp add: XUartPs_Send_def XUartPs_WriteReg_def)
  from SendBuffer_io [OF sb] obtain j l where "uses_io (?s1\<lparr>SendBuffer := advance j (SendBuffer ?s1)\<rparr>) l s1" by blast
  from uart_on_io [OF this] assms(1) have on: "uart_on s1" by (simp add: uart_on_def uart_ready_def Xil_Out32_def)
  have s1: "sending (uBase s) p bs (io_log s) s1" by (rule sending_start [OF send assms(3,4,5)])
  from tx_irqs_finish [OF assms(7) s1 on assms(8)] sending_remaining [OF s1] assms(9) obtain s' where
    s': "uart_irqs app ts s1 = Some s'" "sending (uBase s) p bs (io_log s) s'" "RemainingBytes (SendBuffer s') = 0" by auto
  from s'(2) obtain k l where k: "k \<le> length bs" "RemainingBytes (SendBuffer s') = of_nat (length bs - k)"
      "io_log s' = io_log s @ l" "fifo_out (uBase s) l = take k bs" by (auto simp: sending_def)
  have "length bs - k = 0" using k(2) s'(3) unat_of_nat_u32 [of "length bs - k"] assms(4) by simp
  with k s' send show ?thesis by (auto simp: uart_transmit_def)
qed

lemma uart_send_completes_witness:
  "\<exists>s' l. uart_transmit (\<lambda>ev d s. Some s) 0x100 2 [[8, 8, 0, 0x10, 0, 0], [8, 8, 0, 0, 0, 0]] (uart_demo [0x10, 0, 0, 0]) = Some s' \<and>
     io_log s' = l \<and> fifo_out 0xE0001000 l = [72, 105] \<and> RemainingBytes (SendBuffer s') = 0"
proof -
  let ?app = "\<lambda>(ev :: u32) (d :: u32) (s :: uart). Some s" and ?s = "uart_demo [0x10, 0, 0, 0]"
  have m: "rd_bytes (mem ?s) 0x100 2 = [72, 105]"
    by (simp add: uart_demo_def numeral_2_eq_2 rd_bytes_Suc)
  have a: "apart (NextBytePtr (ReceiveBuffer ?s)) (unat (RemainingBytes (ReceiveBuffer ?s))) 0x100 2"
    by (subst apart_sym) (rule apart_below; simp add: uart_demo_def)
  have b: "uBase ?s = 0xE0001000" "io_log ?s = []" "uart_on ?s" "length (io_tape ?s) = 4"
    by (simp_all add: uart_demo_def uart_on_def uart_ready_def)
  have len: "length [72, 105 :: u8] = 2" by simp
  show ?thesis
    using uart_send_completes [of ?s "0x100" "[72, 105]" ?app "[[8, 8, 0, 0x10, 0, 0], [8, 8, 0, 0, 0, 0]]",
        unfolded len of_nat_numeral] m a b
    by (auto simp: app_accepts_end_def tx_irq_def)
qed

section \<open>Receiving\<close>

text \<open>What a call that returns has done.\<close>

lemma Recv_io:
  assumes "XUartPs_Recv p n s = Some (c, s')"
  shows "\<exists>bs l. io_log s' = io_log s @ l \<and> fifo_in (uBase s) l = bs \<and> length bs \<le> unat n \<and>
     c = of_nat (length bs) \<and> mem s' = wr_bytes (mem s) p bs \<and>
     RemainingBytes (ReceiveBuffer s') = n - c \<and> fifo_out (uBase s) l = []"
proof -
  from assms obtain imr s1 s3 where
    rd: "Xil_In32 (uBase s + 0x10) s = Some (imr, s1)" and
    rb: "XUartPs_ReceiveBuffer ((Xil_Out32 (uBase s1 + 0x0C) 0x1FFF s1)
           \<lparr>ReceiveBuffer := \<lparr>NextBytePtr = p, RequestedBytes = n, RemainingBytes = n\<rparr>\<rparr>) = Some (c, s3)" and
    s': "s' = Xil_Out32 (uBase s3 + 0x08) imr s3"
    by (auto simp: XUartPs_Recv_def XUartPs_ReadReg_def XUartPs_WriteReg_def bind_eq_Some_conv Let_def
        Xil_Out32_def split: if_splits)
  have s1: "uBase s1 = uBase s" "mem s1 = mem s" "io_log s1 = io_log s @ [IoRead (uBase s + 0x10) imr]"
    using uses_io_read [OF rd] uses_io_uart uses_io_sel by (auto simp: uses_io_def)
  from ReceiveBuffer_io [OF rb] obtain l bs where l: "length bs \<le> unat n" "c = of_nat (length bs)"
      "fifo_in (uBase s) l = bs" "fifo_out (uBase s) l = []"
      "mem s3 = wr_bytes (mem s) p bs" "uBase s3 = uBase s" "RemainingBytes (ReceiveBuffer s3) = n - c"
      "io_log s3 = io_log s @ [IoRead (uBase s + 0x10) imr, IoWrite (uBase s + 0x0C) 0x1FFF] @ l"
    by (auto simp: stores_def uses_io_def Xil_Out32_def s1 advance_def)
  let ?l = "[IoRead (uBase s + 0x10) imr, IoWrite (uBase s + 0x0C) 0x1FFF] @ l @ [IoWrite (uBase s + 0x08) imr]"
  have "io_log s' = io_log s @ ?l" "mem s' = wr_bytes (mem s) p bs" "ReceiveBuffer s' = ReceiveBuffer s3"
    using l by (simp_all add: s' Xil_Out32_def)
  with l show ?thesis by (intro exI [of _ bs] exI [of _ ?l]) simp
qed

text \<open>The loop needs at most two answers of the device for each byte.\<close>

lemma recv_loop_total:
  "2 * n \<le> length (io_tape s) \<Longrightarrow> \<exists>k s'. recv_loop n p csr s = Some (k, s')"
proof (induction n arbitrary: p csr s)
  case 0
  then show ?case by simp
next
  case (Suc n)
  then obtain v c t where t: "io_tape s = v # c # t" "2 * n \<le> length t"
    by (cases "io_tape s" rule: list.exhaust; cases "tl (io_tape s)") auto
  show ?case
  proof (cases "csr AND XUARTPS_SR_RXEMPTY = 0")
    case True
    let ?s2 = "s\<lparr>mem := (mem s)(p := ucast v), io_tape := t,
      io_log := io_log s @ [IoRead (uBase s + 0x30) v, IoRead (uBase s + 0x2C) c]\<rparr>"
    have "recv_loop (Suc n) p csr s = recv_loop n (p + 1) c ?s2 \<bind> (\<lambda>(k, s). Some (Suc k, s))"
      using True t(1) by (simp add: XUartPs_ReadReg_def Xil_In32_def)
    moreover obtain k s' where "recv_loop n (p + 1) c ?s2 = Some (k, s')"
      using Suc.IH [of ?s2 "p + 1" c] t(2) by auto
    ultimately show ?thesis by simp
  qed simp
qed

lemma Recv_total:
  assumes "uart_ready s" and "p \<noteq> 0" and "2 * unat n + 2 \<le> length (io_tape s)"
  shows "\<exists>c s'. XUartPs_Recv p n s = Some (c, s')"
proof -
  from assms(3) obtain imr csr t where t: "io_tape s = imr # csr # t" "2 * unat n \<le> length t"
    by (cases "io_tape s" rule: list.exhaust; cases "tl (io_tape s)") auto
  let ?s = "s\<lparr>ReceiveBuffer := \<lparr>NextBytePtr = p, RequestedBytes = n, RemainingBytes = n\<rparr>, io_tape := t,
      io_log := io_log s @ [IoRead (uBase s + 0x10) imr, IoWrite (uBase s + 0x0C) 0x1FFF, IoRead (uBase s + 0x2C) csr]\<rparr>"
  obtain k s' where "recv_loop (unat n) p csr ?s = Some (k, s')"
    using recv_loop_total [of "unat n" ?s p csr] t(2) by auto
  then show ?thesis
    using assms(1,2) t(1)
    by (simp add: XUartPs_Recv_def XUartPs_ReceiveBuffer_def XUartPs_ReadReg_def XUartPs_WriteReg_def Xil_In32_def
        Xil_Out32_def Let_def)
qed

text \<open>C28: Whatever the device answers, \<open>XUartPs_Recv\<close> returns, after at most two answers for each byte
  of the buffer and two more; it stores the bytes it takes from the FIFO in order at the start of
  the buffer, never more than the buffer holds, touches no other byte of memory, and returns how
  many there were.\<close>

theorem uart_receives_in_order:
  assumes "uart_ready s" and "p \<noteq> 0" and "2 * unat n + 2 \<le> length (io_tape s)"
  shows "\<exists>c s' bs l. XUartPs_Recv p n s = Some (c, s') \<and> io_log s' = io_log s @ l \<and> fifo_in (uBase s) l = bs \<and>
     length bs \<le> unat n \<and> c = of_nat (length bs) \<and> mem s' = wr_bytes (mem s) p bs \<and>
     RemainingBytes (ReceiveBuffer s') = n - c \<and> fifo_out (uBase s) l = []"
proof -
  from Recv_total [OF assms] obtain c s' where r: "XUartPs_Recv p n s = Some (c, s')" by blast
  from Recv_io [OF r] show ?thesis by (intro exI [of _ c] exI [of _ s']) (simp add: r)
qed

lemma uart_receives_in_order_witness:
  "\<exists>c s' l. XUartPs_Recv 0x200 4 (uart_demo [0, 0, 65, 0, 66, 2, 0, 0, 0, 0]) = Some (c, s')
     \<and> io_log s' = l \<and> length (fifo_in 0xE0001000 l) \<le> 4
     \<and> mem s' = wr_bytes (mem (uart_demo [])) 0x200 (fifo_in 0xE0001000 l)"
proof -
  let ?s = "uart_demo [0, 0, 65, 0, 66, 2, 0, 0, 0, 0]"
  have "uart_ready ?s" "2 * unat (4 :: u32) + 2 \<le> length (io_tape ?s)" "uBase ?s = 0xE0001000" "io_log ?s = []"
    "mem ?s = mem (uart_demo [])"
    by (simp_all add: uart_demo_def uart_ready_def)
  with uart_receives_in_order [of ?s "0x200" 4] show ?thesis by auto
qed

section \<open>The baud rate\<close>

text \<open>The search keeps the first divider with the smallest error.\<close>

lemma baud_search_best:
  "baud_search clk baud is (b, d, e) = Some (b', d', e') \<Longrightarrow>
     e' \<le> e \<and> (\<forall>i \<in> set is. case baud_try clk baud i of None \<Rightarrow> False | Some (x, err) \<Rightarrow> e' \<le> err) \<and>
     ((b', d', e') = (b, d, e) \<or> d' \<in> set is \<and> baud_try clk baud d' = Some (b', e'))"
proof (induction "is" arbitrary: b d e)
  case (Cons i "is")
  then obtain x err where t: "baud_try clk baud i = Some (x, err)"
    by (auto simp: bind_eq_Some_conv)
  have "baud_search clk baud is (if e > err then (x, i, err) else (b, d, e)) = Some (b', d', e')"
    using Cons.prems t by simp
  with Cons.IH t show ?case by (cases "e > err") (fastforce simp: not_less)+
qed simp

lemma baud_search_defined:
  "(\<And>i. i \<in> set is \<Longrightarrow> baud_try clk baud i \<noteq> None) \<Longrightarrow> baud_search clk baud is best \<noteq> None"
proof (induction "is" arbitrary: best)
  case (Cons i "is")
  from Cons.prems [of i] obtain x err where "baud_try clk baud i = Some (x, err)" by auto
  with Cons show ?case by (cases best) auto
qed simp

lemma baud_search_undefined:
  "i \<in> set is \<Longrightarrow> baud_try clk baud i = None \<Longrightarrow> baud_search clk baud is best = None"
proof (induction "is" arbitrary: best)
  case (Cons j "is")
  then show ?case by (cases best; cases "baud_try clk baud j") (auto split: prod.splits)
qed simp

text \<open>When a divider works: the products do not wrap around for the rates the driver allows.\<close>

lemma baud_mult:
  assumes "unat baud \<le> 921600" and "i < 255"
  shows "unat (baud * (of_nat i + 1) :: u32) = unat baud * (i + 1)"
proof -
  have "unat baud * (i + 1) \<le> 921600 * 255" using assms by (intro mult_mono) auto
  then have "unat baud * (i + 1) < 4294967296" by simp
  moreover have "(baud * (of_nat i + 1) :: u32) = of_nat (unat baud * (i + 1))"
    by (simp add: algebra_simps)
  ultimately show ?thesis by (simp add: unat_of_nat del: of_nat_mult of_nat_add)
qed

lemma baud_try_defined:
  assumes "0 < unat baud" and "unat baud \<le> 921600" and "i < 255"
  shows "baud_try clk baud i = None \<longleftrightarrow> unat clk < unat baud * (i + 1)"
proof -
  define m where "m = unat baud * (i + 1)"
  have um: "unat (baud * (of_nat i + 1) :: u32) = m" using baud_mult assms by (simp add: m_def)
  have m0: "0 < m" using assms by (simp add: m_def)
  define q where "q = clk div (baud * (of_nat i + 1))"
  have uq: "unat q = unat clk div m" by (simp add: q_def unat_div um)
  have "1 * (i + 1) \<le> m" unfolding m_def using assms(1) by (intro mult_le_mono1) simp
  then have "unat q * (i + 1) \<le> unat clk div m * m" unfolding uq by (intro mult_le_mono2) simp
  also have "\<dots> \<le> unat clk" by simp
  finally have qi: "unat q * (i + 1) < 4294967296" using unat_u32_less [of clk] by linarith
  have "(q * (of_nat i + 1) :: u32) = of_nat (unat q * (i + 1))" by (simp add: algebra_simps)
  then have uqi: "unat (q * (of_nat i + 1)) = unat q * (i + 1)"
    using qi by (simp add: unat_of_nat del: of_nat_mult of_nat_add)
  have "baud * (of_nat i + 1) \<noteq> 0" using um m0 by auto
  then have "baud_try clk baud i = None \<longleftrightarrow> q * (of_nat i + 1) = 0"
    by (simp add: baud_try_def udiv_def q_def)
  also have "\<dots> \<longleftrightarrow> unat q = 0" using uqi by (metis add_is_0 mult_is_0 unat_0 unat_eq_zero zero_neq_one)
  also have "\<dots> \<longleftrightarrow> unat clk < m" using m0 by (simp add: uq div_eq_0_iff)
  finally show ?thesis by (simp add: m_def)
qed

lemma baud_try_error:
  assumes "baud_try clk baud i = Some (x, err)" and "0 < unat baud" and "unat baud \<le> 921600"
  shows "err < 0xFFFFFFFF"
proof -
  from assms(1) obtain calc where e: "err = (if baud > calc then baud - calc else calc - baud)"
    by (auto simp: baud_try_def bind_eq_Some_conv)
  have "unat err < 4294967295"
  proof (cases "baud > calc")
    case True
    then have "unat err = unat baud - unat calc" using e by (simp add: unat_sub_if' word_less_nat_alt)
    with assms(3) show ?thesis by simp
  next
    case False
    then have "unat err = unat calc - unat baud" using e by (simp add: unat_sub_if' word_less_nat_alt)
    with assms(2) unat_u32_less [of calc] show ?thesis by linarith
  qed
  then show ?thesis by (simp add: word_less_nat_alt)
qed

lemma baud_search_from_start:
  assumes "110 \<le> unat baud" and "unat baud \<le> 921600" and "255 * unat baud \<le> unat clk"
  shows "\<exists>brgr i err. baud_search clk baud bauddivs (0, 0, 0xFFFFFFFF) = Some (brgr, i, err)
     \<and> 4 \<le> i \<and> i < 255 \<and> baud_try clk baud i = Some (brgr, err)
     \<and> (\<forall>j \<in> {4..<255}. \<exists>x e. baud_try clk baud j = Some (x, e) \<and> err \<le> e)"
proof -
  have def: "baud_try clk baud j \<noteq> None" if "j < 255" for j
  proof -
    have "unat baud * (j + 1) \<le> unat baud * 255" using that by (intro mult_le_mono2) simp
    with assms(3) have "\<not> unat clk < unat baud * (j + 1)" by linarith
    then show ?thesis using baud_try_defined [OF _ assms(2) that] assms(1) by simp
  qed
  then have "baud_search clk baud bauddivs (0, 0, 0xFFFFFFFF) \<noteq> None"
    by (intro baud_search_defined) simp
  then obtain b d e where r: "baud_search clk baud bauddivs (0, 0, 0xFFFFFFFF) = Some (b, d, e)" by auto
  note best = baud_search_best [OF r]
  have all: "\<exists>x err. baud_try clk baud j = Some (x, err) \<and> e \<le> err" if "4 \<le> j" "j < 255" for j
  proof -
    from best that have "case baud_try clk baud j of None \<Rightarrow> False | Some (x, err) \<Rightarrow> e \<le> err"
      using in_bauddivs by blast
    then show ?thesis by (cases "baud_try clk baud j") auto
  qed
  from all [of 4] obtain x err where "baud_try clk baud 4 = Some (x, err)" "e \<le> err" by auto
  with baud_try_error assms(1,2) have "e < 0xFFFFFFFF" by fastforce
  with best have "d \<in> set bauddivs" "baud_try clk baud d = Some (b, e)" by auto
  with r all show ?thesis by (intro exI [of _ b] exI [of _ d] exI [of _ e]) auto
qed



text \<open>A rate that is more than 1/255 of that clock, but not more than half of it, makes the search
  divide by zero: with the 50 MHz of the board this concerns every allowed rate above 196078.\<close>

theorem fast_baud_rates_divide_by_zero:
  assumes "110 \<le> unat baud" and "unat baud \<le> 921600"
    and "io_tape s = mr # t" and "mr AND XUARTPS_MR_CLKSEL = 0"
    and "2 * unat baud \<le> unat (uClockHz s)" and "unat (uClockHz s) < 255 * unat baud"
  shows "XUartPs_SetBaudRate baud s = None"
proof -
  have "unat (baud * 2) = unat baud * 2" using baud_mult [OF assms(2), of 1] by simp
  with assms(5) have two: "\<not> baud * 2 > uClockHz s" by (simp add: word_less_nat_alt)
  have "baud_try (uClockHz s) baud 254 = None"
    using baud_try_defined [of baud 254] assms(1,2,6) by simp
  then have "baud_search (uClockHz s) baud bauddivs best = None" for best
    by (rule baud_search_undefined [rotated]) simp
  with two assms(3,4) show ?thesis
    by (simp add: XUartPs_SetBaudRate_def XUartPs_ReadReg_def Xil_In32_def Let_def)
qed

lemma fast_baud_rates_divide_by_zero_witness: "XUartPs_SetBaudRate 230400 (uart_demo [0]) = None"
  by (rule fast_baud_rates_divide_by_zero [of _ _ 0 "[]"]) (simp_all add: uart_demo_def)

text \<open>A divider without error ends the search in effect.\<close>

lemma baud_search_zero_error: "baud_search clk baud is (b, d, 0) \<noteq> None \<Longrightarrow> baud_search clk baud is (b, d, 0) = Some (b, d, 0)"
proof (induction "is")
  case (Cons i "is")
  then show ?case by (cases "baud_try clk baud i") auto
qed simp

lemma baud_search_exact:
  assumes "baud_try clk baud 4 = Some (b, 0)"
    and "110 \<le> unat baud" and "unat baud \<le> 921600" and "255 * unat baud \<le> unat clk"
  shows "baud_search clk baud bauddivs (0, 0, 0xFFFFFFFF) = Some (b, 4, 0)"
proof -
  obtain r where "baud_search clk baud bauddivs (0, 0, 0xFFFFFFFF) = Some r"
    using baud_search_from_start [OF assms(2-4)] by auto
  moreover have "baud_search clk baud (4 # is) (0, 0, 0xFFFFFFFF) = baud_search clk baud is (b, 4, 0)" for "is"
    using assms(1) by simp
  ultimately show ?thesis
    using baud_search_zero_error [of clk baud "[Suc 4..<255]" b 4]
    by (metis bauddivs_Cons option.distinct(1))
qed

text \<open>At the lowest rate the search settles for a generator value that does not fit the 16 bits of
  its register.\<close>

lemma slow_baud_rate_overflows_register:
  "baud_search 50000000 110 bauddivs (0, 0, 0xFFFFFFFF) = Some (90909, 4, 0)"
proof (rule baud_search_exact)
  show "baud_try 50000000 110 4 = Some (90909, 0)" by code_simp
qed simp_all

end
