(* ===== verification/UartOptions.thy ===== *)
theory UartOptions
  imports UartTransfer
begin

text \<open>
  The options of the serial port driver (iplib/uartps_v2_2/src/xuartps_options.c): the table
  of option bits, thresholds, time-outs, the operating mode and the data format, and which of
  the pairs of setters and getters give back what was set.
\<close>

section \<open>The option table\<close>

text \<open>\<open>Mapping\<close>: an option bit, its register and its bit there.\<close>

record uart_mapping =
  Option :: u16
  RegisterOffset :: u32
  Mask :: u32

definition OptionsTable :: "uart_mapping list" where
  "OptionsTable = map (\<lambda>(opt, r, m). \<lparr>Option = opt, RegisterOffset = r, Mask = m\<rparr>)
    [(0x80, XUARTPS_CR_OFFSET, XUARTPS_CR_STARTBRK),
     (0x40, XUARTPS_CR_OFFSET, XUARTPS_CR_STOPBRK),
     (0x20, XUARTPS_CR_OFFSET, XUARTPS_CR_TORST),
     (0x10, XUARTPS_CR_OFFSET, XUARTPS_CR_TXRST),
     (0x08, XUARTPS_CR_OFFSET, XUARTPS_CR_RXRST),
     (0x04, XUARTPS_MODEMCR_OFFSET, 0x02),
     (0x02, XUARTPS_MODEMCR_OFFSET, 0x01),
     (0x01, XUARTPS_MODEMCR_OFFSET, 0x10)]"

fun get_options :: "uart_mapping list \<Rightarrow> u16 \<Rightarrow> 'a uart_scheme \<Rightarrow> (u16 \<times> 'a uart_scheme) option" where
  "get_options [] Options s = Some (Options, s)"
| "get_options (m # ms) Options s = do {
     (r, s) \<leftarrow> XUartPs_ReadReg (uBase s) (RegisterOffset m) s;
     get_options ms (if r AND Mask m \<noteq> 0 then Options OR Option m else Options) s }"

definition XUartPs_GetOptions :: "'a uart_scheme \<Rightarrow> (u16 \<times> 'a uart_scheme) option" where
  "XUartPs_GetOptions s = (if uart_ready s then get_options OptionsTable 0 s else None)"

definition option_value :: "u16 \<Rightarrow> uart_mapping \<Rightarrow> u32 \<Rightarrow> u32" where
  "option_value Options m r = (if Options AND Option m \<noteq> 0 then r OR Mask m else r AND NOT (Mask m))"

fun set_options :: "uart_mapping list \<Rightarrow> u16 \<Rightarrow> 'a uart_op" where
  "set_options [] Options s = Some s"
| "set_options (m # ms) Options s = do {
     (r, s) \<leftarrow> XUartPs_ReadReg (uBase s) (RegisterOffset m) s;
     set_options ms Options (XUartPs_WriteReg (uBase s) (RegisterOffset m) (option_value Options m r) s) }"

definition XUartPs_SetOptions :: "u16 \<Rightarrow> 'a uart_op" where
  "XUartPs_SetOptions Options s = (if uart_ready s then set_options OptionsTable Options s else None)"

section \<open>Thresholds and status\<close>

definition XUartPs_GetFifoThreshold :: "'a uart_scheme \<Rightarrow> (u8 \<times> 'a uart_scheme) option" where
  "XUartPs_GetFifoThreshold s = (if \<not> uart_ready s then None else do {
     (r, s) \<leftarrow> XUartPs_ReadReg (uBase s) XUARTPS_RXWM_OFFSET s;
     Some (ucast r AND 0x3F, s) })"

definition XUartPs_SetFifoThreshold :: "u8 \<Rightarrow> 'a uart_op" where
  "XUartPs_SetFifoThreshold TriggerLevel s =
     (if TriggerLevel \<le> 0x3F \<and> uart_ready s
      then Some (XUartPs_WriteReg (uBase s) XUARTPS_RXWM_OFFSET (ucast TriggerLevel AND 0x3F) s)
      else None)"

definition XUartPs_GetModemStatus :: "'a uart_scheme \<Rightarrow> (u16 \<times> 'a uart_scheme) option" where
  "XUartPs_GetModemStatus s = (if \<not> uart_ready s then None else do {
     (r, s) \<leftarrow> XUartPs_ReadReg (uBase s) XUARTPS_MODEMSR_OFFSET s;
     Some (ucast r, s) })"

definition XUartPs_IsSending :: "'a uart_scheme \<Rightarrow> (bool \<times> 'a uart_scheme) option" where
  "XUartPs_IsSending s = (if \<not> uart_ready s then None else do {
     (r, s) \<leftarrow> XUartPs_ReadReg (uBase s) XUARTPS_SR_OFFSET s;
     Some (XUARTPS_SR_TACTIVE = r AND XUARTPS_SR_TACTIVE \<or> XUARTPS_SR_TXEMPTY \<noteq> r AND XUARTPS_SR_TXEMPTY, s) })"

section \<open>Operating mode\<close>

definition XUartPs_GetOperMode :: "'a uart_scheme \<Rightarrow> (u8 \<times> 'a uart_scheme) option" where
  "XUartPs_GetOperMode s = (if \<not> uart_ready s then None else do {
     (r, s) \<leftarrow> XUartPs_ReadReg (uBase s) XUARTPS_MR_OFFSET s;
     let r = r AND XUARTPS_MR_CHMODE_MASK;
     Some (if r = XUARTPS_MR_CHMODE_NORM then 0
           else if r = XUARTPS_MR_CHMODE_ECHO then 1
           else if r = XUARTPS_MR_CHMODE_L_LOOP then 2
           else if r = XUARTPS_MR_CHMODE_R_LOOP then 3
           else ucast (drop_bit XUARTPS_MR_CHMODE_SHIFT (r AND XUARTPS_MR_CHMODE_MASK)), s) })"

definition XUartPs_SetOperMode :: "u8 \<Rightarrow> 'a uart_op" where
  "XUartPs_SetOperMode mode s = (if uart_ready s \<and> mode \<le> 3 then do {
     (r, s) \<leftarrow> XUartPs_ReadReg (uBase s) XUARTPS_MR_OFFSET s;
     let r = r AND NOT XUARTPS_MR_CHMODE_MASK;
     let r = (if mode = 0 then r OR XUARTPS_MR_CHMODE_NORM
              else if mode = 1 then r OR XUARTPS_MR_CHMODE_ECHO
              else if mode = 2 then r OR XUARTPS_MR_CHMODE_L_LOOP
              else if mode = 3 then r OR XUARTPS_MR_CHMODE_R_LOOP
              else r);
     Some (XUartPs_WriteReg (uBase s) XUARTPS_MR_OFFSET r s) }
   else None)"

section \<open>Flow delay and receive time-out\<close>

definition XUartPs_GetFlowDelay :: "'a uart_scheme \<Rightarrow> (u8 \<times> 'a uart_scheme) option" where
  "XUartPs_GetFlowDelay s = (if \<not> uart_ready s then None else do {
     (r, s) \<leftarrow> XUartPs_ReadReg (uBase s) XUARTPS_FLOWDEL_OFFSET s;
     Some (ucast (r AND 0x3F), s) })"

definition XUartPs_SetFlowDelay :: "u8 \<Rightarrow> 'a uart_op" where
  "XUartPs_SetFlowDelay FlowDelayValue s =
     (if FlowDelayValue > 0x3F \<and> uart_ready s
      then Some (XUartPs_WriteReg (uBase s) XUARTPS_FLOWDEL_OFFSET (ucast FlowDelayValue AND 0x3F) s)
      else None)"

definition XUartPs_GetRecvTimeout :: "'a uart_scheme \<Rightarrow> (u8 \<times> 'a uart_scheme) option" where
  "XUartPs_GetRecvTimeout s = (if \<not> uart_ready s then None else do {
     (r, s) \<leftarrow> XUartPs_ReadReg (uBase s) XUARTPS_RXTOUT_OFFSET s;
     Some (ucast (r AND 0xFF), s) })"

definition XUartPs_SetRecvTimeout :: "u8 \<Rightarrow> 'a uart_op" where
  "XUartPs_SetRecvTimeout RecvTimeout s = (if \<not> uart_ready s then None else do {
     let s = XUartPs_WriteReg (uBase s) XUARTPS_RXTOUT_OFFSET (ucast RecvTimeout AND 0xFF) s;
     (r, s) \<leftarrow> XUartPs_ReadReg (uBase s) XUARTPS_CR_OFFSET s;
     Some (XUartPs_WriteReg (uBase s) XUARTPS_CR_OFFSET (r OR XUARTPS_CR_TORST) s) })"

section \<open>Data format\<close>

record XUartPsFormat =
  BaudRate :: u32
  DataBits :: u32
  Parity :: u32
  StopBits :: u8

text \<open>The new mode register: three fields are cleared and set in turn. The mask of the stop bits
  is 0xA0 in xuartps_hw.h, though the field is bits 6 and 7.\<close>

definition format_bits :: "XUartPsFormat \<Rightarrow> u32 \<Rightarrow> u32" where
  "format_bits f r =
     (let r = (r AND NOT XUARTPS_MR_CHARLEN_MASK) OR push_bit XUARTPS_MR_CHARLEN_SHIFT (DataBits f);
          r = (r AND NOT XUARTPS_MR_STOPMODE_MASK) OR push_bit XUARTPS_MR_STOPMODE_SHIFT (ucast (StopBits f))
      in (r AND NOT XUARTPS_MR_PARITY_MASK) OR push_bit XUARTPS_MR_PARITY_SHIFT (Parity f))"

definition XUartPs_SetDataFormat :: "XUartPsFormat option \<Rightarrow> 'a uart_scheme \<Rightarrow> (s32 \<times> 'a uart_scheme) option" where
  "XUartPs_SetDataFormat FormatPtr s = (case FormatPtr of None \<Rightarrow> None | Some f \<Rightarrow>
     if \<not> uart_ready s then None
     else if DataBits f > 3 \<or> StopBits f > 2 \<or> Parity f > 4 then Some (XST_INVALID_PARAM, s)
     else do {
       (Status, s) \<leftarrow> XUartPs_SetBaudRate (BaudRate f) s;
       if Status \<noteq> XST_SUCCESS then Some (Status, s) else do {
         (r, s) \<leftarrow> XUartPs_ReadReg (uBase s) XUARTPS_MR_OFFSET s;
         Some (XST_SUCCESS, XUartPs_WriteReg (uBase s) XUARTPS_MR_OFFSET (format_bits f r) s) } })"

definition XUartPs_GetDataFormat :: "'a uart_scheme \<Rightarrow> (XUartPsFormat \<times> 'a uart_scheme) option" where
  "XUartPs_GetDataFormat s = (if \<not> uart_ready s then None else do {
     (r, s') \<leftarrow> XUartPs_ReadReg (uBase s) XUARTPS_MR_OFFSET s;
     Some (\<lparr>BaudRate = uBaudRate s,
            DataBits = drop_bit XUARTPS_MR_CHARLEN_SHIFT (r AND XUARTPS_MR_CHARLEN_MASK),
            Parity = drop_bit XUARTPS_MR_PARITY_SHIFT (r AND XUARTPS_MR_PARITY_MASK),
            StopBits = ucast (drop_bit XUARTPS_MR_STOPMODE_SHIFT (r AND XUARTPS_MR_STOPMODE_MASK))\<rparr>, s') })"

section \<open>Registers that keep what is written\<close>

text \<open>A device whose registers are plain storage: a read gives the content, a write changes it.
  The content after a log, and whether the log is one of such a device.\<close>

fun memory_log :: "(u32 \<Rightarrow> u32) \<Rightarrow> io_event list \<Rightarrow> bool" where
  "memory_log regs [] = True"
| "memory_log regs (IoRead a v # l) = (v = regs a \<and> memory_log regs l)"
| "memory_log regs (IoWrite a v # l) = memory_log (regs(a := v)) l"
| "memory_log regs (_ # l) = memory_log regs l"

fun after_log :: "(u32 \<Rightarrow> u32) \<Rightarrow> io_event list \<Rightarrow> (u32 \<Rightarrow> u32)" where
  "after_log regs [] = regs"
| "after_log regs (IoRead a v # l) = after_log regs l"
| "after_log regs (IoWrite a v # l) = after_log (regs(a := v)) l"
| "after_log regs (_ # l) = after_log regs l"

lemma memory_log_append [simp]:
  "memory_log regs (l @ l') \<longleftrightarrow> memory_log regs l \<and> memory_log (after_log regs l) l'"
proof (induction l arbitrary: regs)
  case (Cons e l)
  then show ?case by (cases e) (simp_all add: fun_upd_def conj_assoc)
qed simp

lemma after_log_append [simp]: "after_log regs (l @ l') = after_log (after_log regs l) l'"
proof (induction l arbitrary: regs)
  case (Cons e l)
  then show ?case by (cases e) (simp_all add: fun_upd_def conj_assoc)
qed simp

lemma bit_flag: "bit (if c then 2 ^ k else 0 :: u16) n \<longleftrightarrow> c \<and> n = k \<and> k < 16"
  by (auto simp: bit_simps)

lemma bit_option_value:
  "n < 32 \<Longrightarrow> bit (option_value opts m r) n =
     (if bit (Mask m) n then opts AND Option m \<noteq> 0 else bit r n)"
  by (auto simp: option_value_def bit_simps)

lemma and_power_nonzero: "n < LENGTH('w) \<Longrightarrow> (w :: 'w::len word) AND 2 ^ n \<noteq> 0 \<longleftrightarrow> bit w n"
proof
  assume n: "n < LENGTH('w)" and "w AND 2 ^ n \<noteq> 0"
  then obtain k where "bit (w AND 2 ^ n) k" by (metis bit_eqI bit_0_eq bot_apply bot_bool_def)
  then show "bit w n" by (auto simp: bit_simps)
next
  assume n: "n < LENGTH('w)" and "bit w n"
  then have "bit (w AND 2 ^ n) n" by (simp add: bit_simps)
  then show "w AND 2 ^ n \<noteq> 0" by (metis bit_0_eq bot_apply bot_bool_def)
qed

lemma single_bits:
  "r AND 0x80 \<noteq> 0 \<longleftrightarrow> bit (r :: u32) 7" "r AND 0x40 \<noteq> 0 \<longleftrightarrow> bit r 6" "r AND 0x20 \<noteq> 0 \<longleftrightarrow> bit r 5"
  "r AND 0x10 \<noteq> 0 \<longleftrightarrow> bit r 4" "r AND 0x08 \<noteq> 0 \<longleftrightarrow> bit r 3" "r AND 0x04 \<noteq> 0 \<longleftrightarrow> bit r 2"
  "r AND 0x02 \<noteq> 0 \<longleftrightarrow> bit r 1" "r AND 0x01 \<noteq> 0 \<longleftrightarrow> bit r 0" "r AND 0x100 \<noteq> 0 \<longleftrightarrow> bit r 8"
  using and_power_nonzero [of 7 r] and_power_nonzero [of 6 r] and_power_nonzero [of 5 r]
    and_power_nonzero [of 4 r] and_power_nonzero [of 3 r] and_power_nonzero [of 2 r]
    and_power_nonzero [of 1 r] and_power_nonzero [of 0 r] and_power_nonzero [of 8 r] by simp_all

lemma single_bits16:
  "r AND 0x80 \<noteq> 0 \<longleftrightarrow> bit (r :: u16) 7" "r AND 0x40 \<noteq> 0 \<longleftrightarrow> bit r 6" "r AND 0x20 \<noteq> 0 \<longleftrightarrow> bit r 5"
  "r AND 0x10 \<noteq> 0 \<longleftrightarrow> bit r 4" "r AND 0x08 \<noteq> 0 \<longleftrightarrow> bit r 3" "r AND 0x04 \<noteq> 0 \<longleftrightarrow> bit r 2"
  "r AND 0x02 \<noteq> 0 \<longleftrightarrow> bit r 1" "r AND 0x01 \<noteq> 0 \<longleftrightarrow> bit r 0"
  using and_power_nonzero [of 7 r] and_power_nonzero [of 6 r] and_power_nonzero [of 5 r]
    and_power_nonzero [of 4 r] and_power_nonzero [of 3 r] and_power_nonzero [of 2 r]
    and_power_nonzero [of 1 r] and_power_nonzero [of 0 r] by simp_all

text \<open>The registers after \<open>XUartPs_SetOptions\<close>, and the options they stand for, as functions of what
  they held.\<close>

definition put_options :: "u16 \<Rightarrow> uart_mapping list \<Rightarrow> (u32 \<Rightarrow> u32) \<Rightarrow> (u32 \<Rightarrow> u32)" where
  "put_options opts ms regs =
     fold (\<lambda>m regs. regs(RegisterOffset m := option_value opts m (regs (RegisterOffset m)))) ms regs"

definition read_options :: "uart_mapping list \<Rightarrow> (u32 \<Rightarrow> u32) \<Rightarrow> u16" where
  "read_options ms regs = fold (\<lambda>m opts. if regs (RegisterOffset m) AND Mask m \<noteq> 0 then opts OR Option m else opts) ms 0"

lemma read_put_options: "read_options OptionsTable (put_options opts OptionsTable regs) = opts AND 0xFF"
proof -
  have "read_options OptionsTable (put_options opts OptionsTable regs) =
     (if bit opts 7 then 0x80 else 0) OR (if bit opts 6 then 0x40 else 0) OR
     (if bit opts 5 then 0x20 else 0) OR (if bit opts 4 then 0x10 else 0) OR
     (if bit opts 3 then 0x08 else 0) OR (if bit opts 2 then 0x04 else 0) OR
     (if bit opts 1 then 0x02 else 0) OR (if bit opts 0 then 0x01 else 0)"
    by (simp add: read_options_def put_options_def OptionsTable_def single_bits bit_option_value single_bits16)
  also have "\<dots> = (if bit opts 7 then 2 ^ 7 else 0) OR (if bit opts 6 then 2 ^ 6 else 0) OR
     (if bit opts 5 then 2 ^ 5 else 0) OR (if bit opts 4 then 2 ^ 4 else 0) OR
     (if bit opts 3 then 2 ^ 3 else 0) OR (if bit opts 2 then 2 ^ 2 else 0) OR
     (if bit opts 1 then 2 ^ 1 else 0) OR (if bit opts 0 then 2 ^ 0 else 0)"
    by simp
  also have "\<dots> = opts AND mask 8"
    by (rule bit_word_eqI)
      (simp only: bit_or_iff bit_flag bit_and_iff bit_mask_iff, auto simp: numeral_eq_Suc less_Suc_eq)
  also have "(mask 8 :: u16) = 0xFF" by (simp add: mask_eq_exp_minus_1)
  finally show ?thesis .
qed

lemma set_options_log:
  "set_options ms opts s = Some s' \<Longrightarrow> \<exists>l. uses_io s l s' \<and> (\<forall>regs. memory_log regs l \<longrightarrow>
     (\<lambda>off. after_log regs l (uBase s + off)) = put_options opts ms (\<lambda>off. regs (uBase s + off)))"
proof (induction ms arbitrary: s)
  case Nil
  then show ?case by (auto simp: put_options_def intro!: exI [of _ "[]"])
next
  case (Cons m ms)
  let ?a = "uBase s + RegisterOffset m"
  from Cons.prems obtain r s1 where r: "Xil_In32 ?a s = Some (r, s1)"
    and st: "set_options ms opts (Xil_Out32 ?a (option_value opts m r) s1) = Some s'"
    using uses_io_uart(1) [OF uses_io_read]
    by (fastforce simp: XUartPs_ReadReg_def XUartPs_WriteReg_def bind_eq_Some_conv)
  let ?s2 = "Xil_Out32 ?a (option_value opts m r) s1"
  have io: "uses_io s ([IoRead ?a r] @ [IoWrite ?a (option_value opts m r)]) ?s2"
    by (rule uses_io_trans [OF uses_io_read [OF r] uses_io_write])
  have b: "uBase ?s2 = uBase s" by (rule uses_io_uart [OF io])
  from Cons.IH [OF st] obtain l where l: "uses_io ?s2 l s'" and
    reg: "\<And>regs. memory_log regs l \<Longrightarrow>
      (\<lambda>off. after_log regs l (uBase s + off)) = put_options opts ms (\<lambda>off. regs (uBase s + off))"
    by (auto simp: b)
  have upd: "(\<lambda>off. (regs(?a := v)) (uBase s + off)) = (\<lambda>off. regs (uBase s + off))(RegisterOffset m := v)"
    for regs and v :: u32 by auto
  show ?case
    using uses_io_trans [OF io l] reg [unfolded upd]
    by (intro exI [of _ "[IoRead ?a r, IoWrite ?a (option_value opts m r)] @ l"])
      (auto simp: put_options_def upd [unfolded fun_upd_def] fun_upd_def)
qed

lemma get_options_log:
  "get_options ms o0 s = Some (opts, s') \<Longrightarrow> \<exists>l. uses_io s l s' \<and> (\<forall>regs. memory_log regs l \<longrightarrow>
     opts = fold (\<lambda>m opts. if regs (uBase s + RegisterOffset m) AND Mask m \<noteq> 0 then opts OR Option m else opts) ms o0)"
proof (induction ms arbitrary: o0 s)
  case Nil
  then show ?case by (auto intro!: exI [of _ "[]"])
next
  case (Cons m ms)
  let ?a = "uBase s + RegisterOffset m"
  from Cons.prems obtain r s1 where r: "Xil_In32 ?a s = Some (r, s1)"
    and st: "get_options ms (if r AND Mask m \<noteq> 0 then o0 OR Option m else o0) s1 = Some (opts, s')"
    by (auto simp: XUartPs_ReadReg_def bind_eq_Some_conv)
  have io: "uses_io s [IoRead ?a r] s1" by (rule uses_io_read [OF r])
  from Cons.IH [OF st] obtain l where "uses_io s1 l s'" "\<And>regs. memory_log regs l \<Longrightarrow>
     opts = fold (\<lambda>m opts. if regs (uBase s + RegisterOffset m) AND Mask m \<noteq> 0 then opts OR Option m else opts) ms
       (if r AND Mask m \<noteq> 0 then o0 OR Option m else o0)"
    by (auto simp: uses_io_uart [OF io])
  with uses_io_trans [OF io] show ?case by (intro exI [of _ "[IoRead ?a r] @ l"]) auto
qed

text \<open>One answer of the device for each entry of the table is enough.\<close>

lemma set_options_total:
  "length ms \<le> length (io_tape s) \<Longrightarrow>
     \<exists>s'. set_options ms opts s = Some s' \<and> io_tape s' = drop (length ms) (io_tape s) \<and> uart_ready s' = uart_ready s"
proof (induction ms arbitrary: s)
  case (Cons m ms)
  then obtain r t where "io_tape s = r # t" by (cases "io_tape s") auto
  with Cons.prems Cons.IH [of "s\<lparr>io_tape := t, io_log := io_log s @ [IoRead (uBase s + RegisterOffset m) r,
      IoWrite (uBase s + RegisterOffset m) (option_value opts m r)]\<rparr>"] show ?case
    by (simp add: XUartPs_ReadReg_def XUartPs_WriteReg_def Xil_In32_def Xil_Out32_def uart_ready_def)
qed simp

lemma get_options_total:
  "length ms \<le> length (io_tape s) \<Longrightarrow> \<exists>o' s'. get_options ms o0 s = Some (o', s')"
proof (induction ms arbitrary: o0 s)
  case (Cons m ms)
  then obtain r t where "io_tape s = r # t" by (cases "io_tape s") auto
  with Cons.prems Cons.IH [of "s\<lparr>io_tape := t, io_log := io_log s @ [IoRead (uBase s + RegisterOffset m) r]\<rparr>"] show ?case
    by (simp add: XUartPs_ReadReg_def Xil_In32_def)
qed simp

lemma options_agree:
  assumes "set_options OptionsTable opts s = Some s1" and "get_options OptionsTable 0 s1 = Some (opts', s2)"
  shows "\<exists>l. io_log s2 = io_log s @ l \<and> (\<forall>regs. memory_log regs l \<longrightarrow> opts' = opts AND 0xFF)"
proof -
  from set_options_log [OF assms(1)] obtain l1 where l1: "uses_io s l1 s1" "\<And>regs. memory_log regs l1 \<Longrightarrow>
     (\<lambda>off. after_log regs l1 (uBase s + off)) = put_options opts OptionsTable (\<lambda>off. regs (uBase s + off))"
    by blast
  have b: "uBase s1 = uBase s" by (rule uses_io_uart [OF l1(1)])
  from get_options_log [OF assms(2)] obtain l2 where l2: "uses_io s1 l2 s2" "\<And>regs. memory_log regs l2 \<Longrightarrow>
     opts' = read_options OptionsTable (\<lambda>off. regs (uBase s + off))"
    by (auto simp: read_options_def b)
  have "opts' = opts AND 0xFF" if "memory_log regs (l1 @ l2)" for regs
    using that l1(2) l2(2) read_put_options by (metis memory_log_append)
  with uses_io_sel(2) [OF uses_io_trans [OF l1(1) l2(1)]] show ?thesis by blast
qed

text \<open>\<open>XUartPs_SetOptions\<close> and then \<open>XUartPs_GetOptions\<close> return; if the registers of the port
  keep what is written, the second gives the eight defined options as the first set them, whatever
  the registers held before.\<close>

theorem options_roundtrip:
  assumes "uart_ready s" and "16 \<le> length (io_tape s)"
  shows "\<exists>s1 opts' s2 l. XUartPs_SetOptions opts s = Some s1 \<and> XUartPs_GetOptions s1 = Some (opts', s2) \<and>
    io_log s2 = io_log s @ l \<and> (\<forall>regs. memory_log regs l \<longrightarrow> opts' = opts AND 0xFF)"
proof -
  have n: "length OptionsTable = 8" by (simp add: OptionsTable_def)
  from set_options_total [of OptionsTable s opts] assms(2) obtain s1 where
    s1: "set_options OptionsTable opts s = Some s1" "io_tape s1 = drop 8 (io_tape s)" "uart_ready s1"
    using assms(1) by (auto simp: n)
  have "length OptionsTable \<le> length (io_tape s1)" using assms(2) unfolding n s1(2) length_drop by linarith
  from get_options_total [OF this, of 0] obtain opts' s2 where
    s2: "get_options OptionsTable 0 s1 = Some (opts', s2)" by blast
  from options_agree [OF s1(1) s2] s1 s2 assms(1) show ?thesis
    by (auto simp: XUartPs_SetOptions_def XUartPs_GetOptions_def)
qed

lemma options_roundtrip_witness:
  "\<exists>s1 s2. XUartPs_SetOptions 0x185 (uart_demo [0, 0x80, 0x80, 0x80, 0x80, 0, 2, 2,
       0x80, 0x80, 0x80, 0x80, 0x80, 0x12, 0x12, 0x12]) = Some s1
     \<and> XUartPs_GetOptions s1 = Some (0x85, s2)"
proof -
  let ?s = "uart_demo [0, 0x80, 0x80, 0x80, 0x80, 0, 2, 2, 0x80, 0x80, 0x80, 0x80, 0x80, 0x12, 0x12, 0x12]"
  have e: "case XUartPs_SetOptions 0x185 ?s of None \<Rightarrow> False | Some s1 \<Rightarrow>
      (case XUartPs_GetOptions s1 of None \<Rightarrow> False | Some (opts', s2) \<Rightarrow> memory_log (\<lambda>_. 0) (io_log s2))"
    by code_simp
  have "uart_ready ?s" "16 \<le> length (io_tape ?s)" "io_log ?s = []" by (simp_all add: uart_demo_def uart_ready_def)
  with options_roundtrip [of ?s "0x185"] obtain s1 opts' s2 where
    r: "XUartPs_SetOptions 0x185 ?s = Some s1" "XUartPs_GetOptions s1 = Some (opts', s2)"
      "\<And>regs. memory_log regs (io_log s2) \<Longrightarrow> opts' = 0x185 AND 0xFF" by auto
  have "memory_log (\<lambda>_. 0) (io_log s2)" using e r(1,2) by simp
  from r(3) [OF this] r(1,2) show ?thesis by simp
qed

section \<open>The data format\<close>

text \<open>The fields of the mode register after the driver has set a format.\<close>

lemma bits_of_sum:
  "(w :: u32) = 2 ^ a OR 2 ^ b \<Longrightarrow> a < 32 \<Longrightarrow> b < 32 \<Longrightarrow> bit w n \<longleftrightarrow> n = a \<or> n = b"
  "(w :: u32) = 2 ^ a OR 2 ^ b OR 2 ^ c \<Longrightarrow> a < 32 \<Longrightarrow> b < 32 \<Longrightarrow> c < 32 \<Longrightarrow> bit w n \<longleftrightarrow> n = a \<or> n = b \<or> n = c"
  by (auto simp: bit_simps)

lemma mask_bits:
  "bit (0x06 :: u32) n \<longleftrightarrow> n = 1 \<or> n = 2" "bit (0x38 :: u32) n \<longleftrightarrow> n = 3 \<or> n = 4 \<or> n = 5"
  "bit (0xA0 :: u32) n \<longleftrightarrow> n = 5 \<or> n = 7" "bit (0x300 :: u32) n \<longleftrightarrow> n = 8 \<or> n = 9"
  by (rule bits_of_sum; simp)+

lemma high_bits:
  assumes "(w :: 'w::len word) < 2 ^ k" and "k < LENGTH('w)" and "bit w n"
  shows "n < k"
proof -
  have "w mod 2 ^ k = w"
    using assms(1,2) by (simp add: word_unat_eq_iff unat_mod word_less_nat_alt)
  then have "bit (take_bit k w) n" using assms(3) by (simp add: take_bit_eq_mod)
  then show ?thesis by (simp add: bit_take_bit_iff)
qed

text \<open>What \<open>XUartPs_GetDataFormat\<close> makes of a mode register the driver has written: data length and
  parity come back; of the stop bits only the bit for two does.\<close>

lemma bit_times_2: "bit ((w :: u32) * 2) n \<longleftrightarrow> 0 < n \<and> n < 32 \<and> bit w (n - 1)"
  using bit_push_bit_iff [of 1 w n] by (auto simp: possible_bit_def)

lemma format_bit:
  assumes "DataBits f \<le> 3" and "StopBits f \<le> 2" and "Parity f \<le> 4"
  shows "2 \<le> n \<Longrightarrow> \<not> bit (DataBits f) n" "3 \<le> n \<Longrightarrow> \<not> bit (Parity f) n" "2 \<le> n \<Longrightarrow> \<not> bit (StopBits f) n"
    and "bit (format_bits f r) 1 = bit (DataBits f) 0" "bit (format_bits f r) 2 = bit (DataBits f) 1"
      "bit (format_bits f r) 3 = bit (Parity f) 0" "bit (format_bits f r) 4 = bit (Parity f) 1"
      "bit (format_bits f r) 5 = bit (Parity f) 2" "bit (format_bits f r) 7 = bit (StopBits f) 1"
      "bit (format_bits f r) 6 = (bit (StopBits f) 0 \<or> bit r 6)"
proof -
  have "DataBits f < 2 ^ 2" "Parity f < 2 ^ 3" "StopBits f < 2 ^ 2"
    using assms by (auto simp: word_le_nat_alt word_less_nat_alt)
  then show small: "2 \<le> n \<Longrightarrow> \<not> bit (DataBits f) n" "3 \<le> n \<Longrightarrow> \<not> bit (Parity f) n"
      "2 \<le> n \<Longrightarrow> \<not> bit (StopBits f) n" for n
    using high_bits [of "DataBits f" 2 n] high_bits [of "Parity f" 3 n] high_bits [of "StopBits f" 2 n] by auto
  note bits = format_bits_def Let_def bit_or_iff bit_and_iff bit_not_iff bit_push_bit_iff bit_ucast_iff mask_bits
  show "bit (format_bits f r) 1 = bit (DataBits f) 0" "bit (format_bits f r) 2 = bit (DataBits f) 1"
      "bit (format_bits f r) 3 = bit (Parity f) 0" "bit (format_bits f r) 4 = bit (Parity f) 1"
      "bit (format_bits f r) 5 = bit (Parity f) 2" "bit (format_bits f r) 7 = bit (StopBits f) 1"
      "bit (format_bits f r) 6 = (bit (StopBits f) 0 \<or> bit r 6)"
    by (simp_all add: bits small bit_times_2 disj_commute)
qed

lemma format_fields:
  assumes "DataBits f \<le> 3" and "StopBits f \<le> 2" and "Parity f \<le> 4"
  shows "drop_bit 1 (format_bits f r AND 0x06) = DataBits f"
    and "drop_bit 3 (format_bits f r AND 0x38) = Parity f"
    and "ucast (drop_bit 6 (format_bits f r AND 0xA0)) = StopBits f AND 2"
proof -
  note fb = format_bit [OF assms] format_bit [OF assms, unfolded One_nat_def]
  let ?x = "format_bits f r"
  show "drop_bit 1 (?x AND 0x06) = DataBits f"
  proof (rule bit_word_eqI)
    fix n assume "n < LENGTH(32)"
    consider "n = 0" | "n = 1" | "2 \<le> n" by linarith
    then show "bit (drop_bit 1 (?x AND 0x06)) n = bit (DataBits f) n"
      by cases (auto simp only: bit_drop_bit_eq comp_def bit_and_iff mask_bits fb, simp_all add: fb numeral_2_eq_2 [symmetric])
  qed
  show "drop_bit 3 (?x AND 0x38) = Parity f"
  proof (rule bit_word_eqI)
    fix n assume "n < LENGTH(32)"
    consider "n = 0" | "n = 1" | "n = 2" | "3 \<le> n" by linarith
    then show "bit (drop_bit 3 (?x AND 0x38)) n = bit (Parity f) n"
      by cases (simp_all only: bit_drop_bit_eq comp_def bit_and_iff mask_bits fb, simp_all add: fb)
  qed
  show "ucast (drop_bit 6 (?x AND 0xA0)) = StopBits f AND 2"
  proof (rule bit_word_eqI)
    fix n assume "n < LENGTH(8)"
    have b2: "bit (2 :: u8) n \<longleftrightarrow> n = 1" using bit_exp_iff [of 1 n, where 'a = "8 word"] by auto
    consider "n = 0" | "n = 1" | "2 \<le> n" by linarith
    then show "bit (ucast (drop_bit 6 (?x AND 0xA0)) :: u8) n = bit (StopBits f AND 2) n"
      by cases (simp_all only: bit_ucast_iff bit_drop_bit_eq comp_def bit_and_iff mask_bits fb b2, simp_all add: fb)
  qed
qed

text \<open>Setting the rate touches the device and the recorded rate only.\<close>

lemma switch_io:
  "XUartPs_DisableUart s = Some s' \<Longrightarrow> \<exists>l. uses_io s l s'"
  "XUartPs_EnableUart s = Some s' \<Longrightarrow> \<exists>l. uses_io s l s'"
  by (auto simp: XUartPs_DisableUart_def XUartPs_EnableUart_def bind_eq_Some_conv
      dest!: uses_io_read intro: uses_io_trans [OF _ uses_io_write])

lemma baud_program_io: "baud_program brgr bdiv s = Some s' \<Longrightarrow> \<exists>l. uses_io s l s'"
  by (auto simp: baud_program_def XUartPs_WriteReg_def Let_def bind_eq_Some_conv dest!: switch_io)
    (meson uses_io_trans uses_io_write)

lemma SetBaudRate_io:
  assumes "XUartPs_SetBaudRate b s = Some (st, s')"
  shows "\<exists>l. uses_io (s\<lparr>uBaudRate := (if st = 0 then b else uBaudRate s)\<rparr>) l s'"
proof (cases "b * 2 > uClockHz s")
  case True
  with assms show ?thesis
    by (auto simp: XUartPs_SetBaudRate_def split: if_splits intro: exI [of _ "[]"])
next
  case False
  with assms obtain mr s1 brgr bdiv err where r: "Xil_In32 (uBase s + 0x04) s = Some (mr, s1)"
      and c: "st = 1055 \<and> s' = s1 \<or>
        st = 0 \<and> (\<exists>s2. baud_program brgr (of_nat bdiv) s1 = Some s2 \<and> s' = s2\<lparr>uBaudRate := b\<rparr>)"
    by (auto simp: XUartPs_SetBaudRate_def XUartPs_ReadReg_def bind_eq_Some_conv Let_def split: if_splits prod.splits)
  from c show ?thesis
  proof (elim disjE conjE exE)
    assume "st = 1055" "s' = s1"
    with uses_io_read [OF r] show ?thesis by auto
  next
    fix s2 assume st: "st = 0" and p: "baud_program brgr (of_nat bdiv) s1 = Some s2" and s': "s' = s2\<lparr>uBaudRate := b\<rparr>"
    from baud_program_io [OF p] uses_io_read [OF r] obtain l where "uses_io s l s2"
      by (auto intro: uses_io_trans)
    then show ?thesis using st s' by (auto simp: uses_io_def intro!: exI [of _ l] exI [of _ "io_tape s2"])
  qed
qed

text \<open>C27: After a successful \<open>XUartPs_SetDataFormat\<close>, \<open>XUartPs_GetDataFormat\<close> on a port that kept the mode
  register gives back rate, data length and parity. The stop bits come back only as far as they
  are two: one and a half read as one, and setting one after one and a half leaves the bit for a
  half in the register.\<close>

theorem data_format_roundtrip:
  assumes "XUartPs_SetDataFormat (Some f) s = Some (XST_SUCCESS, s1)"
  shows "\<exists>l r w. io_log s1 = io_log s @ l @ [IoRead (uBase s + 0x04) r, IoWrite (uBase s + 0x04) w] \<and>
     (bit w 6 \<longleftrightarrow> bit (StopBits f) 0 \<or> bit r 6) \<and>
     (\<forall>t. io_tape s1 = w # t \<longrightarrow> (\<exists>s2. XUartPs_GetDataFormat s1 = Some (f\<lparr>StopBits := StopBits f AND 2\<rparr>, s2)))"
proof -
  from assms have rdy: "uart_ready s" and ok: "DataBits f \<le> 3" "StopBits f \<le> 2" "Parity f \<le> 4"
    by (auto simp: XUartPs_SetDataFormat_def split: if_splits)
  then obtain st s' where sb: "XUartPs_SetBaudRate (BaudRate f) s = Some (st, s')"
    using assms by (cases "XUartPs_SetBaudRate (BaudRate f) s") (auto simp: XUartPs_SetDataFormat_def split: if_splits)
  have st: "st = 0"
    using assms sb rdy ok by (auto simp: XUartPs_SetDataFormat_def not_less [symmetric] split: if_splits)
  from SetBaudRate_io [OF sb] st obtain l where io: "uses_io (s\<lparr>uBaudRate := BaudRate f\<rparr>) l s'" by auto
  have s': "uBase s' = uBase s" "io_log s' = io_log s @ l" "uIsReady s' = uIsReady s" "uBaudRate s' = BaudRate f"
    using uses_io_uart [OF io] uses_io_sel(2) [OF io] by simp_all
  from assms sb st rdy ok obtain r s'' where r: "Xil_In32 (uBase s + 0x04) s' = Some (r, s'')"
      and s1: "s1 = Xil_Out32 (uBase s + 0x04) (format_bits f r) s''"
    using uses_io_uart(1) [OF uses_io_read]
    by (fastforce simp: XUartPs_SetDataFormat_def XUartPs_ReadReg_def XUartPs_WriteReg_def s' not_less [symmetric]
        bind_eq_Some_conv split: if_splits)
  have io2: "uses_io s' [IoRead (uBase s + 0x04) r] s''" by (rule uses_io_read [OF r])
  have "uart_ready s1" "uBase s1 = uBase s" "uBaudRate s1 = BaudRate f"
    using rdy uses_io_uart [OF io2] by (simp_all add: s1 Xil_Out32_def s' uart_ready_def)
  then have "io_tape s1 = format_bits f r # t' \<Longrightarrow>
      \<exists>s2. XUartPs_GetDataFormat s1 = Some (f\<lparr>StopBits := StopBits f AND 2\<rparr>, s2)" for t'
    using format_fields [OF ok]
    by (auto simp: XUartPs_GetDataFormat_def XUartPs_ReadReg_def Xil_In32_def)
  moreover have "io_log s1 = io_log s @ l @ [IoRead (uBase s + 0x04) r, IoWrite (uBase s + 0x04) (format_bits f r)]"
    using uses_io_sel(2) [OF io2] by (simp add: s1 Xil_Out32_def s')
  ultimately show ?thesis using format_bit(10) [OF ok] by blast
qed

lemma data_format_roundtrip_witness:
  "\<exists>s1 l r w. XUartPs_SetDataFormat (Some \<lparr>BaudRate = 100000, DataBits = 2, Parity = 4, StopBits = 0\<rparr>)
       (uart_demo [0, 0, 0, 0x40]) = Some (0, s1) \<and>
     io_log s1 = l @ [IoRead 0xE0001004 r, IoWrite 0xE0001004 w] \<and> (bit w 6 \<longleftrightarrow> bit r 6)"
proof -
  let ?f = "\<lparr>BaudRate = 100000, DataBits = 2, Parity = 4, StopBits = 0\<rparr>"
  let ?s = "uart_demo [0, 0, 0, 0x40]"
  have "baud_try 50000000 100000 4 = Some (100, 0)" by code_simp
  then have "baud_search 50000000 100000 bauddivs (0, 0, 0xFFFFFFFF) = Some (100, 4, 0)"
    by (rule baud_search_exact) simp_all
  then obtain s1 where r: "XUartPs_SetDataFormat (Some ?f) ?s = Some (0, s1)"
    by (simp add: XUartPs_SetDataFormat_def XUartPs_SetBaudRate_def uart_demo_def uart_ready_def
        XUartPs_ReadReg_def XUartPs_WriteReg_def Xil_In32_def Xil_Out32_def baud_program_def
        XUartPs_DisableUart_def XUartPs_EnableUart_def Let_def word_less_nat_alt word_le_nat_alt)
  have d: "uBase ?s = 0xE0001000" "io_log ?s = []" by (simp_all add: uart_demo_def)
  show ?thesis using data_format_roundtrip [OF r] r by (auto simp: d)
qed

end
