(* ===== verification/UartApp.thy ===== *)
theory UartApp
  imports UartOptions
begin

text \<open>
  What is built on the serial port driver: its self test (xuartps_selftest.c) and the application
  of bm_fw/src/uart.c, which sets the port up, connects its interrupt and handles its events. The
  addresses the linker gives to buffers are arguments (\<open>tp\<close>, \<open>rp\<close>, \<open>rx\<close>).
\<close>

section \<open>The self test\<close>

definition TestString :: "u8 list" where
  "TestString = cstr ''abcdefghABCDEFGH012345677654321'' @ [0]"

lemma length_TestString: "length TestString = 32"
  by (simp add: TestString_def cstr_def)

text \<open>Sending and receiving the bytes one at a time. \<open>tp\<close> is the address of \<open>TestString\<close>, \<open>rp\<close> that
  of \<open>ReturnString\<close>.\<close>

fun selftest_bytes :: "u32 \<Rightarrow> u32 \<Rightarrow> nat list \<Rightarrow> 'a uart_op" where
  "selftest_bytes tp rp [] s = Some s"
| "selftest_bytes tp rp (i # is) s = do {
     (_, s) \<leftarrow> XUartPs_Send (tp + of_nat i) 1 s;
     s \<leftarrow> wait_data (uBase s) (length (io_tape s)) s;
     (_, s) \<leftarrow> XUartPs_Recv (rp + of_nat i) 1 s;
     selftest_bytes tp rp is s }"

definition selftest_compare :: "u32 \<Rightarrow> u32 \<Rightarrow> memory \<Rightarrow> s32" where
  "selftest_compare tp rp m =
     fold (\<lambda>i Status. if m (tp + of_nat i) \<noteq> m (rp + of_nat i) then XST_UART_TEST_FAIL else Status)
       [0..<32] XST_SUCCESS"

definition XUartPs_SelfTest :: "u32 \<Rightarrow> u32 \<Rightarrow> 'a uart_scheme \<Rightarrow> (s32 \<times> 'a uart_scheme) option" where
  "XUartPs_SelfTest tp rp s = (if \<not> uart_ready s then None else do {
     (IntrRegister, s) \<leftarrow> XUartPs_ReadReg (uBase s) XUARTPS_IMR_OFFSET s;
     let s = XUartPs_WriteReg (uBase s) XUARTPS_IDR_OFFSET XUARTPS_IXR_MASK s;
     (ModeRegister, s) \<leftarrow> XUartPs_ReadReg (uBase s) XUARTPS_MR_OFFSET s;
     let s = XUartPs_WriteReg (uBase s) XUARTPS_MR_OFFSET
               ((ModeRegister AND NOT XUARTPS_MR_CHMODE_MASK) OR XUARTPS_MR_CHMODE_L_LOOP) s;
     s \<leftarrow> selftest_bytes tp rp [0..<32] s;
     let Status = selftest_compare tp rp (mem s);
     let s = XUartPs_WriteReg (uBase s) XUARTPS_IER_OFFSET IntrRegister s;
     Some (Status, XUartPs_WriteReg (uBase s) XUARTPS_MR_OFFSET ModeRegister s) })"

section \<open>The application\<close>

abbreviation (input) "SLCR_BASE \<equiv> (0xF8000000 :: u32)"
abbreviation (input) "UART_CLK_CTRL \<equiv> (0x154 :: u32)"
abbreviation (input) "APER_CLK_CTRL \<equiv> (0x12C :: u32)"
abbreviation (input) "UART_RST_CTRL \<equiv> (0x218 :: u32)"
abbreviation (input) "UART1_CPU1X_RST \<equiv> (2 :: u32)" \<comment> \<open>\<open>1 << UART1_CPU1X_RST\<close>\<close>
abbreviation (input) "CLKACT1 \<equiv> (2 :: u32)"
abbreviation (input) "UART1_CPU_1XCLKACT \<equiv> (0x200000 :: u32)"
abbreviation (input) "XPAR_PS7_UART_1_DEVICE_ID \<equiv> (1 :: u16)"
abbreviation (input) "XPAR_PS7_UART_1_BASEADDR \<equiv> (0xE0001000 :: u32)"
abbreviation (input) "XPAR_PS7_UART_1_UART_CLK_FREQ_HZ \<equiv> (50000000 :: u32)"

text \<open>The event handler; \<open>rx\<close> is the address of \<open>RxBuffer\<close>.\<close>

definition uart_Handler :: "u32 \<Rightarrow> 'a app" where
  "uart_Handler rx Event EventData s =
     (if Event = XUARTPS_EVENT_RECV_DATA then map_option snd (XUartPs_Recv rx EventData s) else Some s)"

text \<open>One read, change and write of a register of the clock and reset unit.\<close>

definition slcr_change :: "u32 \<Rightarrow> (u32 \<Rightarrow> u32) \<Rightarrow> 'a uart_op" where
  "slcr_change off f s = do { (reg, s) \<leftarrow> Xil_In32 (SLCR_BASE + off) s; Some (Xil_Out32 (SLCR_BASE + off) (f reg) s) }"

definition UartInit :: "'a uart_scheme \<Rightarrow> (s32 \<times> 'a uart_scheme) option" where
  "UartInit s = do {
     s \<leftarrow> slcr_change UART_RST_CTRL (\<lambda>r. r OR UART1_CPU1X_RST) s;
     s \<leftarrow> slcr_change APER_CLK_CTRL (\<lambda>r. r OR UART1_CPU_1XCLKACT) s;
     s \<leftarrow> slcr_change UART_CLK_CTRL (\<lambda>r. r OR CLKACT1) s;
     s \<leftarrow> slcr_change UART_RST_CTRL (\<lambda>r. r AND NOT UART1_CPU1X_RST) s;
     let s = s\<lparr>uInputClockHz := XPAR_PS7_UART_1_UART_CLK_FREQ_HZ\<rparr>;
     (ret, s) \<leftarrow> XUartPs_CfgInitialize (Some \<lparr>DeviceId = XPAR_PS7_UART_1_DEVICE_ID, BaseAddress = XPAR_PS7_UART_1_BASEADDR,
         ConfigClockHz = XPAR_PS7_UART_1_UART_CLK_FREQ_HZ, ModemPinsConnected = 0\<rparr>) XPAR_PS7_UART_1_BASEADDR s;
     if ret \<noteq> XST_SUCCESS then Some (ret, s) else do {
       (_, s) \<leftarrow> XUartPs_SetBaudRate 115200 s;
       s \<leftarrow> XUartPs_SetOperMode 0 s;
       s \<leftarrow> XUartPs_EnableUart s;
       Some (if uIsReady s \<noteq> XIL_COMPONENT_IS_READY then 1337 else XST_SUCCESS, s) } }"

text \<open>The routines the controller's table can name in this program.\<close>

definition run_uart_isr :: "u32 \<Rightarrow> isr \<Rightarrow> cbref \<Rightarrow> 'a uart_op" where
  "run_uart_isr rx h ref s = (case h of
     StubHandler \<Rightarrow> run_StubHandler ref s
   | Isr_uart \<Rightarrow> if ref = RefUart then XUartPs_InterruptHandler (uart_Handler rx) s else None
   | _ \<Rightarrow> None)"

definition SetupInterruptSystem :: "bool \<Rightarrow> nat \<Rightarrow> 'a uart_scheme \<Rightarrow> (s32 \<times> 'a uart_scheme) option" where
  "SetupInterruptSystem amp UartIntrId s = (case XScuGic_LookupConfig 0 of
     None \<Rightarrow> Some (XST_FAILURE, Xil_ExceptionInit s)
   | Some c \<Rightarrow> do {
       (Status, s) \<leftarrow> XScuGic_CfgInitialize amp (Some c) (Xil_ExceptionInit s);
       if Status \<noteq> XST_SUCCESS then Some (XST_FAILURE, s) else do {
         s \<leftarrow> Xil_ExceptionRegisterHandler XIL_EXCEPTION_ID_INT Exc_XScuGic_InterruptHandler RefGic s;
         (Status, s) \<leftarrow> XScuGic_Connect UartIntrId (Some Isr_uart) RefUart s;
         if Status \<noteq> XST_SUCCESS then Some (XST_FAILURE, s) else do {
           s \<leftarrow> XScuGic_Enable UartIntrId s;
           s \<leftarrow> XScuGic_SetPriorityTriggerType UartIntrId 0xA0 3 s;
           Some (XST_SUCCESS, Xil_ExceptionEnable s) } } })"

definition UartPsIntrInit ::
    "bool \<Rightarrow> XUartPs_Config list \<Rightarrow> u16 \<Rightarrow> nat \<Rightarrow> 'a uart_scheme \<Rightarrow> (s32 \<times> 'a uart_scheme) option" where
  "UartPsIntrInit amp table DevId UartIntrId s = (case XUartPs_LookupConfig table DevId of
     None \<Rightarrow> Some (XST_FAILURE, s)
   | Some Config \<Rightarrow> do {
       (Status, s) \<leftarrow> XUartPs_CfgInitialize (Some Config) (BaseAddress Config) s;
       if Status \<noteq> XST_SUCCESS then Some (XST_FAILURE, s) else do {
         (Status, s) \<leftarrow> SetupInterruptSystem amp UartIntrId s;
         if Status \<noteq> XST_SUCCESS then Some (XST_FAILURE, s) else do {
           s \<leftarrow> XUartPs_SetHandler (Some UartApp) RefUart s;
           let s = XUartPs_SetInterruptMask (XUARTPS_IXR_RXFULL OR XUARTPS_IXR_RXOVR) s;
           s \<leftarrow> XUartPs_SetOperMode 0 s;
           s \<leftarrow> XUartPs_SetRecvTimeout 2 s;
           Some (XST_SUCCESS, s) } } })"

section \<open>The port when nobody asked for data\<close>

text \<open>What the handlers do while no receive buffer is waiting: at most the (empty) receive buffer is
  set again, nothing is taken from the FIFO, and at most \<open>n\<close> answers of the device are used.\<close>

definition quiet :: "nat \<Rightarrow> 'a uart_scheme \<Rightarrow> 'a uart_scheme \<Rightarrow> bool" where
  "quiet n s s' \<longleftrightarrow> (\<exists>t l rb. s' = s\<lparr>ReceiveBuffer := rb, io_tape := t, io_log := io_log s @ l\<rparr> \<and>
     RequestedBytes rb = 0 \<and> RemainingBytes rb = 0 \<and> fifo_in (uBase s) l = [] \<and>
     length (io_tape s) \<le> length t + n)"

definition app_idle :: "'a uart_scheme \<Rightarrow> bool" where
  "app_idle s \<longleftrightarrow> uart_on s \<and> RemainingBytes (SendBuffer s) = 0 \<and>
     RequestedBytes (ReceiveBuffer s) = 0 \<and> RemainingBytes (ReceiveBuffer s) = 0"

lemma quiet_refl: "app_idle s \<Longrightarrow> quiet n s s"
  unfolding quiet_def app_idle_def
  by (intro exI [of _ "io_tape s"] exI [of _ "[]"] exI [of _ "ReceiveBuffer s"]) simp

lemma quiet_trans:
  assumes "quiet n s s'" and "quiet m s' s''"
  shows "quiet (n + m) s s''"
proof -
  from assms obtain t l rb t' l' rb' where "s' = s\<lparr>ReceiveBuffer := rb, io_tape := t, io_log := io_log s @ l\<rparr>"
    "s'' = s'\<lparr>ReceiveBuffer := rb', io_tape := t', io_log := io_log s' @ l'\<rparr>"
    "RequestedBytes rb' = 0" "RemainingBytes rb' = 0" "fifo_in (uBase s) l = []" "fifo_in (uBase s') l' = []"
    "length (io_tape s) \<le> length t + n" "length (io_tape s') \<le> length t' + m"
    by (auto simp: quiet_def)
  then show ?thesis
    unfolding quiet_def by (intro exI [of _ t'] exI [of _ "l @ l'"] exI [of _ rb']) simp
qed

lemma quiet_idle:
  assumes "quiet n s s'" and "app_idle s"
  shows "app_idle s'" "length (io_tape s) \<le> length (io_tape s') + n"
  using assms by (auto simp: quiet_def app_idle_def uart_on_def uart_ready_def)

lemma quiet_write: "app_idle s \<Longrightarrow> quiet n s (XUartPs_WriteReg b r v s)"
  unfolding quiet_def app_idle_def XUartPs_WriteReg_def Xil_Out32_def
  by (intro exI [of _ "io_tape s"] exI [of _ "[IoWrite (b + r) v]"] exI [of _ "ReceiveBuffer s"]) simp

lemma quiet_read:
  assumes "app_idle s" and "a \<noteq> uBase s + XUARTPS_FIFO_OFFSET" and "io_tape s = v # t"
  shows "quiet 1 s (s\<lparr>io_tape := t, io_log := io_log s @ [IoRead a v]\<rparr>)"
  unfolding quiet_def
  using assms by (intro exI [of _ t] exI [of _ "[IoRead a v]"] exI [of _ "ReceiveBuffer s"]) (simp add: app_idle_def)

text \<open>The application asks for as many bytes as the event reports, which is none.\<close>

lemma Recv_nothing:
  assumes "app_idle s" and "rx \<noteq> 0" and "2 \<le> length (io_tape s)"
  shows "\<exists>s'. XUartPs_Recv rx 0 s = Some (0, s') \<and> quiet 2 s s'"
proof -
  from assms(3) obtain imr csr t where t: "io_tape s = imr # csr # t"
    by (cases "io_tape s" rule: list.exhaust; cases "tl (io_tape s)") auto
  let ?l = "[IoRead (uBase s + 0x10) imr, IoWrite (uBase s + 0x0C) 0x1FFF, IoRead (uBase s + 0x2C) csr,
    IoWrite (uBase s + 0x08) imr]"
  let ?s' = "s\<lparr>ReceiveBuffer := \<lparr>NextBytePtr = rx, RequestedBytes = 0, RemainingBytes = 0\<rparr>, io_tape := t,
    io_log := io_log s @ ?l\<rparr>"
  have "XUartPs_Recv rx 0 s = Some (0, ?s')"
    using assms(1,2) t
    by (simp add: XUartPs_Recv_def app_idle_def uart_on_def XUartPs_ReadReg_def XUartPs_WriteReg_def Xil_In32_def
        Xil_Out32_def XUartPs_ReceiveBuffer_def advance_def Let_def)
  moreover have "quiet 2 s ?s'"
    unfolding quiet_def using t by (intro exI [of _ t] exI [of _ ?l] exI) auto
  ultimately show ?thesis by blast
qed

lemma run_app_quiet:
  assumes "app_idle s" and "rx \<noteq> 0" and "2 \<le> length (io_tape s)" and "ev = XUARTPS_EVENT_RECV_DATA \<Longrightarrow> d = 0"
  shows "\<exists>s'. run_handler (uart_Handler rx) ev d s = Some s' \<and> quiet 2 s s'"
proof -
  have h: "uHandler s = UartApp" using assms(1) by (simp add: app_idle_def uart_on_def)
  show ?thesis
    using Recv_nothing [OF assms(1-3)] quiet_refl [OF assms(1)] assms(4) h
    by (cases "ev = XUARTPS_EVENT_RECV_DATA") (auto simp: run_handler_def uart_Handler_def)
qed

lemma handlers_quiet:
  assumes i: "app_idle s" and rx: "rx \<noteq> 0" and t: "3 \<le> length (io_tape s)"
  shows "\<exists>s'. ReceiveDataHandler (uart_Handler rx) s = Some s' \<and> quiet 3 s s'"
    and "\<exists>s'. ReceiveErrorHandler (uart_Handler rx) s = Some s' \<and> quiet 3 s s'"
    and "\<exists>s'. ReceiveTimeoutHandler (uart_Handler rx) s = Some s' \<and> quiet 3 s s'"
    and "\<exists>s'. SendDataHandler (uart_Handler rx) st s = Some s' \<and> quiet 3 s s'"
    and "\<exists>s'. ModemHandler (uart_Handler rx) s = Some s' \<and> quiet 3 s s'"
proof -
  have r: "take_received s = Some s" "done_bytes (ReceiveBuffer s) = 0" "RemainingBytes (ReceiveBuffer s) = 0"
    using i by (simp_all add: take_received_def done_bytes_def app_idle_def)
  have t2: "2 \<le> length (io_tape s)" using t by simp
  note app = run_app_quiet [OF i rx t2]
  have more: "quiet 2 s s' \<Longrightarrow> quiet 3 s s'" for s' by (force simp: quiet_def)
  show "\<exists>s'. ReceiveDataHandler (uart_Handler rx) s = Some s' \<and> quiet 3 s s'"
    "\<exists>s'. ReceiveErrorHandler (uart_Handler rx) s = Some s' \<and> quiet 3 s s'"
    "\<exists>s'. ReceiveTimeoutHandler (uart_Handler rx) s = Some s' \<and> quiet 3 s s'"
    using app [of 1 0] app [of 4 0] more
    by (auto simp: ReceiveDataHandler_def ReceiveErrorHandler_def ReceiveTimeoutHandler_def r)
  let ?w = "XUartPs_WriteReg (uBase s) XUARTPS_IDR_OFFSET (XUARTPS_IXR_TXEMPTY OR XUARTPS_IXR_TXFULL) s"
  have w: "quiet 1 s ?w" "app_idle ?w" using quiet_write [OF i] quiet_idle(1) [OF quiet_write [OF i] i] by blast+
  have "2 \<le> length (io_tape ?w)" using t2 by (simp add: XUartPs_WriteReg_def)
  from run_app_quiet [OF w(2) rx this, of 3 "done_bytes (SendBuffer s)"] obtain s' where
    "run_handler (uart_Handler rx) XUARTPS_EVENT_SENT_DATA (done_bytes (SendBuffer s)) ?w = Some s'" "quiet 2 ?w s'"
    by auto
  moreover from quiet_trans [OF w(1) this(2)] have "quiet 3 s s'" by (simp add: numeral_eq_Suc)
  ultimately show "\<exists>s'. SendDataHandler (uart_Handler rx) st s = Some s' \<and> quiet 3 s s'"
    using i by (auto simp: SendDataHandler_def app_idle_def)
  from t obtain v tl where v: "io_tape s = v # tl" by (cases "io_tape s") auto
  let ?m = "s\<lparr>io_tape := tl, io_log := io_log s @ [IoRead (uBase s + 0x28) v]\<rparr>"
  have m: "quiet 1 s ?m" "app_idle ?m"
    using quiet_read [OF i _ v, of "uBase s + 0x28"] quiet_idle(1) [OF quiet_read [OF i _ v, of "uBase s + 0x28"] i]
    by simp_all
  have "2 \<le> length (io_tape ?m)" using t v by simp
  from run_app_quiet [OF m(2) rx this, of 5 v] obtain s' where
    "run_handler (uart_Handler rx) 5 v ?m = Some s'" "quiet 2 ?m s'" by auto
  moreover from quiet_trans [OF m(1) this(2)] have "quiet 3 s s'" by (simp add: numeral_eq_Suc)
  ultimately show "\<exists>s'. ModemHandler (uart_Handler rx) s = Some s' \<and> quiet 3 s s'"
    using v by (auto simp: ModemHandler_def XUartPs_ReadReg_def Xil_In32_def)
qed

lemma when_quiet:
  assumes "app_idle s" and "\<exists>s'. f s = Some s' \<and> quiet n s s'"
  shows "\<exists>s'. when_set st m f s = Some s' \<and> quiet n s s' \<and> app_idle s' \<and> length (io_tape s) \<le> length (io_tape s') + n"
  using assms quiet_refl [OF assms(1)] quiet_idle by (fastforce simp: when_set_def)

lemma InterruptHandler_quiet:
  assumes i: "app_idle s" and rx: "rx \<noteq> 0" and t: "17 \<le> length (io_tape s)"
  shows "\<exists>s'. XUartPs_InterruptHandler (uart_Handler rx) s = Some s' \<and> quiet 17 s s'"
proof -
  from t obtain imr isr tl where tl: "io_tape s = imr # isr # tl"
    by (cases "io_tape s" rule: list.exhaust; cases "tl (io_tape s)") auto
  define st where "st = imr AND isr"
  let ?l = "[IoRead (uBase s + 0x10) imr, IoRead (uBase s + 0x14) isr]"
  let ?s2 = "s\<lparr>io_tape := tl, io_log := io_log s @ ?l\<rparr>"
  have q2: "quiet 2 s ?s2"
    unfolding quiet_def using tl i
    by (intro exI [of _ tl] exI [of _ ?l] exI [of _ "ReceiveBuffer s"]) (simp add: app_idle_def)
  have i2: "app_idle ?s2" "15 \<le> length (io_tape ?s2)" using quiet_idle(1) [OF q2 i] t tl by simp_all
  obtain s3 where s3: "when_set st (1 OR 2 OR 4) (ReceiveDataHandler (uart_Handler rx)) ?s2 = Some s3"
      "quiet 3 ?s2 s3" "app_idle s3" "12 \<le> length (io_tape s3)"
    using when_quiet [where f = "ReceiveDataHandler (uart_Handler rx)" and st = st and m = "1 OR 2 OR 4",
        OF i2(1) handlers_quiet(1) [OF i2(1) rx]] i2(2) by fastforce
  obtain s4 where s4: "when_set st (8 OR 0x10) (SendDataHandler (uart_Handler rx) st) s3 = Some s4"
      "quiet 3 s3 s4" "app_idle s4" "9 \<le> length (io_tape s4)"
    using when_quiet [where f = "SendDataHandler (uart_Handler rx) st" and st = st and m = "8 OR 0x10",
        OF s3(3) handlers_quiet(4) [OF s3(3) rx, of st]] s3(4) by fastforce
  obtain s5 where s5: "when_set st (0x20 OR 0x40 OR 0x80) (ReceiveErrorHandler (uart_Handler rx)) s4 = Some s5"
      "quiet 3 s4 s5" "app_idle s5" "6 \<le> length (io_tape s5)"
    using when_quiet [where f = "ReceiveErrorHandler (uart_Handler rx)" and st = st and m = "0x20 OR 0x40 OR 0x80",
        OF s4(3) handlers_quiet(2) [OF s4(3) rx]] s4(4) by fastforce
  obtain s6 where s6: "when_set st 0x100 (ReceiveTimeoutHandler (uart_Handler rx)) s5 = Some s6"
      "quiet 3 s5 s6" "app_idle s6" "3 \<le> length (io_tape s6)"
    using when_quiet [where f = "ReceiveTimeoutHandler (uart_Handler rx)" and st = st and m = "0x100",
        OF s5(3) handlers_quiet(3) [OF s5(3) rx]] s5(4) by fastforce
  obtain s7 where s7: "when_set st 0x200 (ModemHandler (uart_Handler rx)) s6 = Some s7" "quiet 3 s6 s7" "app_idle s7"
    using when_quiet [where f = "ModemHandler (uart_Handler rx)" and st = st and m = "0x200",
        OF s6(3) handlers_quiet(5) [OF s6(3) rx]] s6(4) by fastforce
  have "XUartPs_InterruptHandler (uart_Handler rx) s = Some (XUartPs_WriteReg (uBase s7) 0x14 st s7)"
    using i tl s3(1) s4(1) s5(1) s6(1) s7(1)
    by (simp add: XUartPs_InterruptHandler_def app_idle_def uart_on_def XUartPs_ReadReg_def Xil_In32_def Let_def
        st_def [symmetric])
  moreover have "quiet (2 + (3 + (3 + (3 + (3 + (3 + 0)))))) s (XUartPs_WriteReg (uBase s7) 0x14 st s7)"
    by (rule quiet_trans [OF q2 quiet_trans [OF s3(2) quiet_trans [OF s4(2) quiet_trans [OF s5(2)
          quiet_trans [OF s6(2) quiet_trans [OF s7(2) quiet_write [OF s7(3)]]]]]]])
  ultimately show ?thesis by simp
qed

section \<open>From the processor to the handler\<close>

definition run_uart_exc :: "u32 \<Rightarrow> exc_handler \<Rightarrow> cbref \<Rightarrow> 'a uart_op" where
  "run_uart_exc rx h d s = (case h of
     Exc_XScuGic_InterruptHandler \<Rightarrow> if d = RefGic then XScuGic_InterruptHandler (run_uart_isr rx) s else None
   | _ \<Rightarrow> None)"

text \<open>An interrupt: the controller answers \<open>v\<close> when it is asked for the source, then the port
  answers \<open>t\<close>. And any number of them.\<close>

definition take_uart_irq :: "u32 \<Rightarrow> u32 \<Rightarrow> u32 list \<Rightarrow> 'a uart_op" where
  "take_uart_irq rx v t s = (if irqs_masked s then Some s
     else IRQInterrupt (run_uart_exc rx) (s\<lparr>io_tape := v # t\<rparr>))"

fun take_uart_irqs :: "u32 \<Rightarrow> (u32 \<times> u32 list) list \<Rightarrow> 'a uart_op" where
  "take_uart_irqs rx [] s = Some s"
| "take_uart_irqs rx ((v, t) # ts) s = take_uart_irq rx v t s \<bind> take_uart_irqs rx ts"

definition uart_wired :: "nat \<Rightarrow> 'a uart_scheme \<Rightarrow> bool" where
  "uart_wired i s \<longleftrightarrow> app_idle s \<and> irqs_routed s \<and> gic_inv s \<and> vector_of i s = Some (Isr_uart, RefUart)"

text \<open>Nothing but registers, and no byte from the FIFO.\<close>

definition leaves_fifo :: "'a uart_scheme \<Rightarrow> 'a uart_scheme \<Rightarrow> bool" where
  "leaves_fifo s s' \<longleftrightarrow> (\<exists>t l rb. s' = s\<lparr>ReceiveBuffer := rb, io_tape := t, io_log := io_log s @ l\<rparr> \<and>
     fifo_in (uBase s) l = [])"

lemma leaves_fifo_trans: "leaves_fifo s s' \<Longrightarrow> leaves_fifo s' s'' \<Longrightarrow> leaves_fifo s s''"
  unfolding leaves_fifo_def by force

lemma take_uart_irq_idle:
  assumes w: "uart_wired i s" and rx: "rx \<noteq> 0" and v: "unat (v AND 0x3FF) = i" and t: "17 \<le> length t"
    and a: "CpuBaseAddress s + XSCUGIC_INT_ACK_OFFSET \<noteq> uBase s + XUARTPS_FIFO_OFFSET"
  shows "\<exists>s'. take_uart_irq rx v t s = Some s' \<and> uart_wired i s' \<and> leaves_fifo s s'"
proof -
  let ?s0 = "s\<lparr>io_tape := v # t\<rparr>"
  let ?s1 = "acked v t ?s0"
  have vec: "vector_of (unat (v AND 0x3FF)) ?s0 = Some (Isr_uart, RefUart)"
    using w v vector_of_frame [of ?s0 s] by (simp add: uart_wired_def)
  have i1: "app_idle ?s1" "17 \<le> length (io_tape ?s1)"
    using w t by (simp_all add: uart_wired_def app_idle_def uart_on_def uart_ready_def acked_def)
  from InterruptHandler_quiet [OF i1(1) rx i1(2)] obtain s2 where
    s2: "XUartPs_InterruptHandler (uart_Handler rx) ?s1 = Some s2" "quiet 17 ?s1 s2" by blast
  let ?s' = "XScuGic_CPUWriteReg XSCUGIC_EOI_OFFSET v s2"
  have "XScuGic_InterruptHandler (run_uart_isr rx) ?s0 = Some ?s'"
    using dispatch_vector [OF _ vec, of t "run_uart_isr rx"] w s2(1)
    by (simp add: uart_wired_def gic_inv_def run_uart_isr_def)
  then have run: "take_uart_irq rx v t s = Some ?s'"
    using w by (simp add: take_uart_irq_def uart_wired_def irqs_routed_def IRQInterrupt_def call_vector_def run_uart_exc_def
        defined_simps)
  from s2(2) obtain t' l rb where q: "s2 = ?s1\<lparr>ReceiveBuffer := rb, io_tape := t', io_log := io_log ?s1 @ l\<rparr>"
    "RequestedBytes rb = 0" "RemainingBytes rb = 0" "fifo_in (uBase s) l = []" by (auto simp: quiet_def acked_def)
  have s': "?s' = s\<lparr>ReceiveBuffer := rb, io_tape := t', io_log := io_log s @
      [IoRead (CpuBaseAddress s + 0x0C) v] @ l @ [IoWrite (CpuBaseAddress s + 0x10) v]\<rparr>"
    using q(1) by (simp add: XScuGic_CPUWriteReg_def Xil_Out32_def acked_def)
  have "leaves_fifo s ?s'"
    unfolding leaves_fifo_def s' using q(4) a
    by (intro exI [of _ t'] exI [of _ "[IoRead (CpuBaseAddress s + 0x0C) v] @ l @ [IoWrite (CpuBaseAddress s + 0x10) v]"]
        exI [of _ rb]) simp
  moreover have "uart_wired i ?s'"
    using w q(2,3) vector_of_frame [of ?s' s] irqs_routed_frame [of ?s' s] unfolding s'
    by (simp add: uart_wired_def app_idle_def uart_on_def uart_ready_def gic_inv_def gic_ready_def)
  ultimately show ?thesis using run by blast
qed

lemma take_uart_irqs_idle:
  "uart_wired i s \<Longrightarrow> rx \<noteq> 0 \<Longrightarrow> \<forall>(v, t) \<in> set ts. unat (v AND 0x3FF) = i \<and> 17 \<le> length t \<Longrightarrow>
   CpuBaseAddress s + XSCUGIC_INT_ACK_OFFSET \<noteq> uBase s + XUARTPS_FIFO_OFFSET \<Longrightarrow>
   \<exists>s'. take_uart_irqs rx ts s = Some s' \<and> leaves_fifo s s'"
proof (induction ts arbitrary: s)
  case Nil
  show ?case unfolding leaves_fifo_def
    by (intro exI [of _ s] conjI exI [of _ "io_tape s"] exI [of _ "[]"] exI [of _ "ReceiveBuffer s"]) simp_all
next
  case (Cons vt ts)
  obtain v t where vt: "vt = (v, t)" by fastforce
  from take_uart_irq_idle [OF Cons.prems(1,2) _ _ Cons.prems(4), of v t] Cons.prems(3) obtain s1 where
    s1: "take_uart_irq rx v t s = Some s1" "uart_wired i s1" "leaves_fifo s s1" by (auto simp: vt)
  have "CpuBaseAddress s1 = CpuBaseAddress s" "uBase s1 = uBase s" using s1(3) by (auto simp: leaves_fifo_def)
  with Cons.IH [OF s1(2) Cons.prems(2)] Cons.prems(3,4) obtain s' where
    "take_uart_irqs rx ts s1 = Some s'" "leaves_fifo s1 s'" by auto
  with s1 leaves_fifo_trans show ?case by (auto simp: vt)
qed

section \<open>A device that answers every byte\<close>

text \<open>What the port answers while one byte is sent and one received: room for the byte, any number
  of times that nothing has arrived, and then the byte \<open>b\<close>.\<close>

definition echo :: "u8 \<Rightarrow> u32 list \<Rightarrow> bool" where
  "echo b t \<longleftrightarrow> (\<exists>v1 v2 im ws r im2 c x e. t = [v1, v2, im] @ ws @ [r, im2, c, x, e] \<and>
     v1 AND XUARTPS_SR_TXFULL = 0 \<and> (\<forall>w \<in> set ws. w AND XUARTPS_SR_RXEMPTY = XUARTPS_SR_RXEMPTY) \<and>
     r AND XUARTPS_SR_RXEMPTY = 0 \<and> c AND XUARTPS_SR_RXEMPTY = 0 \<and> ucast x = b)"

lemma Send_one:
  assumes "uart_ready s" and "p \<noteq> 0" and "io_tape s = v1 # v2 # im # t" and "v1 AND 0x10 = 0"
  shows "\<exists>l sb. XUartPs_Send p 1 s = Some (1, s\<lparr>SendBuffer := sb, io_tape := t, io_log := io_log s @ l\<rparr>) \<and>
    fifo_out (uBase s) l = [mem s p] \<and> fifo_in (uBase s) l = []"
proof -
  let ?sb = "advance 1 \<lparr>NextBytePtr = p, RequestedBytes = 1, RemainingBytes = 1\<rparr>"
  let ?ie = "im AND 4 \<noteq> 0 \<or> im AND 2 \<noteq> 0 \<or> im AND 1 \<noteq> 0"
  let ?l = "[IoWrite (uBase s + 0x0C) (8 OR 0x10), IoRead (uBase s + 0x2C) v1, IoWrite (uBase s + 0x30) (ucast (mem s p)),
    IoRead (uBase s + 0x2C) v2, IoRead (uBase s + 0x10) im] @ (if ?ie then [IoWrite (uBase s + 0x08) (im OR 8)] else [])"
  have "XUartPs_Send p 1 s = Some (1, s\<lparr>SendBuffer := ?sb, io_tape := t, io_log := io_log s @ ?l\<rparr>)"
    using assms
    by (simp add: XUartPs_Send_def XUartPs_SendBuffer_def XUartPs_IsTransmitFull_def XUartPs_ReadReg_def
        XUartPs_WriteReg_def Xil_In32_def Xil_Out32_def Let_def)
  then show ?thesis by (intro exI [of _ ?l] exI [of _ ?sb]) simp
qed

lemma wait_data_ready:
  assumes "\<forall>w \<in> set ws. w AND 2 = 2" and "r AND 2 = 0"
  shows "io_tape s = ws @ r # t \<Longrightarrow> length ws < k \<Longrightarrow>
    wait_data base k s = Some (s\<lparr>io_tape := t, io_log := io_log s @ map (IoRead (base + 0x2C)) (ws @ [r])\<rparr>)"
  using assms(1)
proof (induction ws arbitrary: k s)
  case Nil
  then show ?case using assms(2) by (cases k) (simp_all add: XUartPs_IsReceiveData_def Xil_In32_def)
next
  case (Cons w ws)
  then obtain j where k: "k = Suc j" "length ws < j" by (cases k) auto
  let ?s = "s\<lparr>io_tape := ws @ r # t, io_log := io_log s @ [IoRead (base + 0x2C) w]\<rparr>"
  have "wait_data base k s = wait_data base j ?s"
    using Cons.prems k(1) by (simp add: XUartPs_IsReceiveData_def Xil_In32_def)
  with Cons.IH [of ?s j] Cons.prems(3) k(2) show ?case by simp
qed

lemma fifo_polls [simp]:
  "fifo_in base (map (IoRead (base + 0x2C)) xs) = []" "fifo_out base (map (IoRead (base + 0x2C)) xs) = []"
  by (induction xs) simp_all

lemma Recv_one:
  assumes "uart_ready s" and "p \<noteq> 0" and "io_tape s = im # c # x # e # t" and "c AND 2 = 0"
  shows "\<exists>l rb. XUartPs_Recv p 1 s = Some (1, s\<lparr>ReceiveBuffer := rb, mem := (mem s)(p := ucast x), io_tape := t,
      io_log := io_log s @ l\<rparr>) \<and> fifo_in (uBase s) l = [ucast x] \<and> fifo_out (uBase s) l = []"
proof -
  let ?rb = "advance 1 \<lparr>NextBytePtr = p, RequestedBytes = 1, RemainingBytes = 1\<rparr>"
  let ?l = "[IoRead (uBase s + 0x10) im, IoWrite (uBase s + 0x0C) 0x1FFF, IoRead (uBase s + 0x2C) c,
    IoRead (uBase s + 0x30) x, IoRead (uBase s + 0x2C) e, IoWrite (uBase s + 0x08) im]"
  have "XUartPs_Recv p 1 s = Some (1, s\<lparr>ReceiveBuffer := ?rb, mem := (mem s)(p := ucast x), io_tape := t,
      io_log := io_log s @ ?l\<rparr>)"
    using assms
    by (simp add: XUartPs_Recv_def XUartPs_ReceiveBuffer_def XUartPs_ReadReg_def
        XUartPs_WriteReg_def Xil_In32_def Xil_Out32_def Let_def)
  then show ?thesis by (intro exI [of _ ?l] exI [of _ ?rb]) simp
qed

text \<open>One round of the test.\<close>

lemma selftest_byte:
  assumes "uart_ready s" and "tp + of_nat i \<noteq> 0" and "rp + of_nat i \<noteq> 0" and "echo b t" and "io_tape s = t @ rest"
  shows "\<exists>s1 l. selftest_bytes tp rp (i # is) s = selftest_bytes tp rp is s1 \<and> io_tape s1 = rest \<and> uart_ready s1 \<and>
    uBase s1 = uBase s \<and> mem s1 = (mem s)(rp + of_nat i := b) \<and> io_log s1 = io_log s @ l \<and>
    fifo_out (uBase s) l = [mem s (tp + of_nat i)] \<and> fifo_in (uBase s) l = [b]"
proof -
  from assms(4) obtain v1 v2 im ws r im2 c x e where t: "t = [v1, v2, im] @ ws @ [r, im2, c, x, e]"
      "v1 AND 0x10 = 0" "\<forall>w \<in> set ws. w AND 2 = 2" "r AND 2 = 0" "c AND 2 = 0" "ucast x = b"
    unfolding echo_def by blast
  from Send_one [OF assms(1,2), of v1 v2 im "ws @ r # im2 # c # x # e # rest"] assms(5) t(1,2) obtain l1 sb where
    snd: "XUartPs_Send (tp + of_nat i) 1 s =
      Some (1, s\<lparr>SendBuffer := sb, io_tape := ws @ r # im2 # c # x # e # rest, io_log := io_log s @ l1\<rparr>)"
      (is "_ = Some (1, ?s1)")
    and l1: "fifo_out (uBase s) l1 = [mem s (tp + of_nat i)]" "fifo_in (uBase s) l1 = []" by auto
  let ?w = "map (IoRead (uBase s + 0x2C)) (ws @ [r])"
  let ?s2 = "?s1\<lparr>io_tape := im2 # c # x # e # rest, io_log := io_log ?s1 @ ?w\<rparr>"
  have w: "wait_data (uBase ?s1) (length (io_tape ?s1)) ?s1 = Some ?s2"
    using wait_data_ready [OF t(3,4), of ?s1 "im2 # c # x # e # rest" "length (io_tape ?s1)" "uBase s"] by simp
  have "uart_ready ?s2" using assms(1) by (simp add: uart_ready_def)
  from Recv_one [OF this assms(3), of im2 c x e rest] t(5) obtain l2 rb where
    rcv: "XUartPs_Recv (rp + of_nat i) 1 ?s2 =
      Some (1, ?s2\<lparr>ReceiveBuffer := rb, mem := (mem s)(rp + of_nat i := ucast x), io_tape := rest, io_log := io_log ?s2 @ l2\<rparr>)"
      (is "_ = Some (1, ?s3)")
    and l2: "fifo_in (uBase s) l2 = [ucast x]" "fifo_out (uBase s) l2 = []" by auto
  have "selftest_bytes tp rp (i # is) s = selftest_bytes tp rp is ?s3"
    using snd w rcv by simp
  moreover have "io_log ?s3 = io_log s @ (l1 @ ?w @ l2)" by simp
  moreover have "fifo_out (uBase s) (l1 @ ?w @ l2) = [mem s (tp + of_nat i)]" "fifo_in (uBase s) (l1 @ ?w @ l2) = [b]"
    using l1 l2 t(6) by (simp_all del: map_append)
  moreover have "uart_ready ?s3" "mem ?s3 = (mem s)(rp + of_nat i := b)" "uBase ?s3 = uBase s" "io_tape ?s3 = rest"
    using assms(1) t(6) by (simp_all add: uart_ready_def)
  ultimately show ?thesis by blast
qed

text \<open>All rounds from the \<open>k\<close>-th on. The two strings and the null address are apart.\<close>

definition selftest_room :: "u32 \<Rightarrow> u32 \<Rightarrow> bool" where
  "selftest_room tp rp \<longleftrightarrow> apart tp 32 rp 32 \<and> apart tp 32 0 1 \<and> apart rp 32 0 1"

lemma apart_offset:
  assumes "apart a n b m" and "i < n" and "j < m" and "n \<le> 4294967296" and "m \<le> 4294967296"
  shows "a + of_nat i \<noteq> b + of_nat j"
proof
  assume eq: "a + of_nat i = b + of_nat j"
  have "unat (a + of_nat i - a) < n" using assms(2,4) by (simp add: unat_of_nat)
  moreover have "unat (a + of_nat i - b) < m" unfolding eq using assms(3,5) by (simp add: unat_of_nat)
  ultimately show False using assms(1) unfolding apart_def by blast
qed

lemma selftest_loop:
  assumes room: "selftest_room tp rp"
  shows "list_all2 echo bs ts \<Longrightarrow> io_tape s = concat ts @ rest \<Longrightarrow> k + length bs \<le> 32 \<Longrightarrow> uart_ready s \<Longrightarrow>
    \<exists>s' l. selftest_bytes tp rp [k..<k + length bs] s = Some s' \<and> io_tape s' = rest \<and> uBase s' = uBase s \<and>
      mem s' = wr_bytes (mem s) (rp + of_nat k) bs \<and> io_log s' = io_log s @ l \<and>
      fifo_out (uBase s) l = rd_bytes (mem s) (tp + of_nat k) (length bs) \<and> fifo_in (uBase s) l = bs"
proof (induction bs arbitrary: ts s k)
  case Nil
  then show ?case by (auto intro!: exI [of _ "[]"])
next
  case (Cons b bs)
  from Cons.prems(1) obtain t ts' where ts: "ts = t # ts'" "echo b t" "list_all2 echo bs ts'" by (auto simp: list_all2_Cons1)
  have k: "k < 32" "[k..<k + length (b # bs)] = k # [Suc k..<Suc k + length bs]"
    using Cons.prems(3) upt_conv_Cons [of k "k + length (b # bs)"] by simp_all
  have nz: "tp + of_nat k \<noteq> 0" "rp + of_nat k \<noteq> 0"
    using apart_offset [of tp 32 0 1 k 0] apart_offset [of rp 32 0 1 k 0] room k(1) by (simp_all add: selftest_room_def)
  from selftest_byte [OF Cons.prems(4) nz ts(2), of "concat ts' @ rest" "[Suc k..<Suc k + length bs]"] Cons.prems(2) ts(1)
  obtain s1 l where s1: "selftest_bytes tp rp (k # [Suc k..<Suc k + length bs]) s = selftest_bytes tp rp [Suc k..<Suc k + length bs] s1"
      "io_tape s1 = concat ts' @ rest" "uart_ready s1" "uBase s1 = uBase s" "mem s1 = (mem s)(rp + of_nat k := b)"
      "io_log s1 = io_log s @ l" "fifo_out (uBase s) l = [mem s (tp + of_nat k)]" "fifo_in (uBase s) l = [b]" by auto
  have "Suc k + length bs \<le> 32" using Cons.prems(3) by simp
  from Cons.IH [OF ts(3) s1(2) this s1(3)] obtain s' l' where
    s': "selftest_bytes tp rp [Suc k..<Suc k + length bs] s1 = Some s'" "io_tape s' = rest" "uBase s' = uBase s"
      "mem s' = wr_bytes (mem s1) (rp + of_nat (Suc k)) bs" "io_log s' = io_log s1 @ l'"
      "fifo_out (uBase s) l' = rd_bytes (mem s1) (tp + of_nat (Suc k)) (length bs)" "fifo_in (uBase s) l' = bs"
    by (auto simp: s1(4))
  have "mem s1 (tp + of_nat i) = mem s (tp + of_nat i)" if "i < 32" for i
    using apart_offset [of tp 32 rp 32 i k] room that k(1) by (simp add: s1(5) selftest_room_def)
  then have rd: "rd_bytes (mem s1) (tp + of_nat (Suc k)) (length bs) = rd_bytes (mem s) (tp + of_nat (Suc k)) (length bs)"
    using Cons.prems(3) by (auto simp: rd_bytes_def add.assoc simp flip: of_nat_add of_nat_Suc simp del: of_nat_Suc)
  have wr: "wr_bytes (mem s1) (rp + of_nat (Suc k)) bs = wr_bytes (mem s) (rp + of_nat k) (b # bs)"
    using Cons.prems(3) by (subst wr_bytes_Cons) (simp_all add: s1(5) ac_simps)
  have "io_log s' = io_log s @ (l @ l')" using s'(5) s1(6) by simp
  moreover have "fifo_out (uBase s) (l @ l') = rd_bytes (mem s) (tp + of_nat k) (length (b # bs))"
    using s1(7) s'(6) rd by (simp add: rd_bytes_Suc ac_simps)
  moreover have "fifo_in (uBase s) (l @ l') = b # bs" using s1(8) s'(7) by simp
  ultimately show ?case
    using s1(1) s' wr unfolding k(2) by (intro exI [of _ s'] exI [of _ "l @ l'"]) simp
qed

lemma fold_verdict: "fold (\<lambda>i st. if P i then f else st) is st = (if \<exists>i \<in> set is. P i then f else st)"
  by (induction "is" arbitrary: st) auto

lemma selftest_compare_eq:
  "selftest_compare tp rp m = (if rd_bytes m tp 32 = rd_bytes m rp 32 then XST_SUCCESS else XST_UART_TEST_FAIL)"
  unfolding selftest_compare_def fold_verdict rd_bytes_def by (auto simp: map_eq_conv)

text \<open>C29: The self test against a device that takes every byte and answers each with a byte of its
  own, after any delay: the test returns, has sent exactly the test string, and reports success if
  and only if the device answered with the same string. Interrupt mask and mode are then as
  before, and of the memory only the buffer for the answers has changed.\<close>

theorem self_test_verdict:
  assumes "uart_ready s" and "selftest_room tp rp" and "rd_bytes (mem s) tp 32 = TestString"
    and "length bs = 32" and "list_all2 echo bs ts" and "io_tape s = imr # mr # concat ts @ rest"
  shows "\<exists>s' l. XUartPs_SelfTest tp rp s = Some (if bs = TestString then XST_SUCCESS else XST_UART_TEST_FAIL, s') \<and>
    io_tape s' = rest \<and> mem s' = wr_bytes (mem s) rp bs \<and>
    io_log s' = io_log s @ l @ [IoWrite (uBase s + XUARTPS_IER_OFFSET) imr, IoWrite (uBase s + XUARTPS_MR_OFFSET) mr] \<and>
    fifo_out (uBase s) l = TestString \<and> fifo_in (uBase s) l = bs"
proof -
  let ?l0 = "[IoRead (uBase s + 0x10) imr, IoWrite (uBase s + 0x0C) 0x1FFF, IoRead (uBase s + 0x04) mr,
    IoWrite (uBase s + 0x04) ((mr AND NOT 0x300) OR 0x200)]"
  let ?s1 = "s\<lparr>io_tape := concat ts @ rest, io_log := io_log s @ ?l0\<rparr>"
  have "uart_ready ?s1" using assms(1) by (simp add: uart_ready_def)
  with selftest_loop [OF assms(2,5), of ?s1 rest 0] assms(4) obtain s2 l where
    s2: "selftest_bytes tp rp [0..<32] ?s1 = Some s2" "io_tape s2 = rest" "uBase s2 = uBase s"
      "mem s2 = wr_bytes (mem s) rp bs" "io_log s2 = io_log s @ ?l0 @ l"
      "fifo_out (uBase s) l = rd_bytes (mem s) tp 32" "fifo_in (uBase s) l = bs" by auto
  have "rd_bytes (mem s2) tp 32 = TestString" "rd_bytes (mem s2) rp 32 = bs"
    using rd_wr_apart [of tp 32 rp bs "mem s"] rd_wr_bytes [of bs "mem s" rp] assms(2,3,4)
    by (simp_all add: s2(4) selftest_room_def)
  then have v: "selftest_compare tp rp (mem s2) = (if bs = TestString then XST_SUCCESS else XST_UART_TEST_FAIL)"
    by (auto simp: selftest_compare_eq)
  let ?s' = "XUartPs_WriteReg (uBase s2) XUARTPS_MR_OFFSET mr (XUartPs_WriteReg (uBase s2) XUARTPS_IER_OFFSET imr s2)"
  have "XUartPs_SelfTest tp rp s = Some (if bs = TestString then XST_SUCCESS else XST_UART_TEST_FAIL, ?s')"
    using assms(1,6) s2(1) v
    by (simp add: XUartPs_SelfTest_def XUartPs_ReadReg_def XUartPs_WriteReg_def Xil_In32_def Xil_Out32_def Let_def)
  then show ?thesis
    using s2 assms(3) by (intro exI [of _ ?s'] exI [of _ "?l0 @ l"]) (simp add: XUartPs_WriteReg_def)
qed

text \<open>A port in local loopback, and one that answers with zeros.\<close>

definition echo_tape :: "u8 \<Rightarrow> u32 list" where
  "echo_tape b = [0, 0, 0, 2, 0, 0, 0, ucast b, 2]"

lemma echo_tapes: "list_all2 echo bs (map echo_tape bs)"
proof -
  have "echo b (echo_tape b)" for b
    unfolding echo_def echo_tape_def
    by (intro exI [of _ 0] exI [of _ "[2]"] exI [of _ "ucast b"] exI [of _ 2]) simp
  then show ?thesis by (simp add: list_all2_map2 list.rel_refl)
qed

lemma self_test_verdict_witness:
  "\<exists>s1 s2. XUartPs_SelfTest 0x100 0x200 ((uart_demo (0 # 0 # concat (map echo_tape TestString)))
       \<lparr>mem := wr_bytes (\<lambda>_. 0) 0x100 TestString\<rparr>) = Some (XST_SUCCESS, s1) \<and>
     XUartPs_SelfTest 0x100 0x200 ((uart_demo (0 # 0 # concat (map echo_tape (replicate 32 0))))
       \<lparr>mem := wr_bytes (\<lambda>_. 0) 0x100 TestString\<rparr>) = Some (XST_UART_TEST_FAIL, s2)"
proof -
  let ?s = "\<lambda>bs. (uart_demo (0 # 0 # concat (map echo_tape bs)))\<lparr>mem := wr_bytes (\<lambda>_. 0) 0x100 TestString\<rparr>"
  have "apart 0x100 32 0x200 32" "apart 0 1 0x100 32" "apart 0 1 0x200 32" by (rule apart_below; simp)+
  then have room: "selftest_room 0x100 0x200" by (simp add: selftest_room_def apart_sym)
  have m: "rd_bytes (mem (?s bs)) 0x100 32 = TestString" for bs
    using rd_wr_bytes [of TestString "\<lambda>_. 0" "0x100"] by (simp add: length_TestString)
  have r: "uart_ready (?s bs)" "io_tape (?s bs) = 0 # 0 # concat (map echo_tape bs) @ []" for bs
    by (simp_all add: uart_ready_def uart_demo_def)
  have "hd TestString \<noteq> hd (replicate 32 0)" by (simp add: TestString_def cstr_def)
  then have ne: "replicate 32 0 \<noteq> TestString" by metis
  show ?thesis
    using self_test_verdict [OF r(1) room m length_TestString echo_tapes r(2)]
      self_test_verdict [OF r(1) room m _ echo_tapes r(2), of "replicate 32 0"] ne by auto
qed

section \<open>Setting up and receiving\<close>

text \<open>115200 is within the tolerance for the 50 MHz of the board.\<close>

lemma default_rate:
  assumes "uart_ready s" and "uClockHz s = 50000000" and "io_tape s = mr # c1 # c2 # t" and "mr AND XUARTPS_MR_CLKSEL = 0"
  shows "\<exists>l. XUartPs_SetBaudRate 115200 s = Some (XST_SUCCESS, s\<lparr>io_tape := t, io_log := io_log s @ l, uBaudRate := 115200\<rparr>)"
proof -
  from baud_search_from_start [of 115200 50000000] obtain brgr i err where
    r: "baud_search 50000000 115200 bauddivs (0, 0, 0xFFFFFFFF) = Some (brgr, i, err)" and
    b: "\<forall>j \<in> {4..<255}. \<exists>x e. baud_try 50000000 115200 j = Some (x, e) \<and> err \<le> e" by auto
  have "baud_try 50000000 115200 6 = Some (62, 7)" by code_simp
  with b [THEN bspec, of 6] have "unat err \<le> 7" by (simp add: word_le_nat_alt)
  then have "unat (err * 100) \<le> 700" by (simp add: unat_word_ariths)
  then have "err * 100 div 115200 = 0" by (simp add: word_arith_nat_div)
  with r assms show ?thesis
    by (simp add: XUartPs_SetBaudRate_def XUartPs_ReadReg_def XUartPs_WriteReg_def Xil_In32_def Xil_Out32_def
        baud_program_def XUartPs_DisableUart_def XUartPs_EnableUart_def Let_def cong: if_cong) (rule exI, rule refl)
qed

lemma CfgInitialize_uart:
  assumes "ConfigClockHz c = 50000000" and "io_tape s = mr # c1 # c2 # m2 # t" and "mr AND XUARTPS_MR_CLKSEL = 0"
  shows "\<exists>l. XUartPs_CfgInitialize (Some c) ea s = Some (XST_SUCCESS, s\<lparr>uBase := ea, uClockHz := 50000000,
    uModemPins := ModemPinsConnected c, uHandler := UartStub, SendBuffer := no_buffer, ReceiveBuffer := no_buffer,
    uIsReady := XIL_COMPONENT_IS_READY, uBaudRate := 115200, io_tape := t, io_log := io_log s @ l\<rparr>)"
proof -
  let ?s = "s\<lparr>uBase := ea, uClockHz := 50000000, uModemPins := ModemPinsConnected c, uHandler := UartStub,
    SendBuffer := no_buffer, ReceiveBuffer := no_buffer, uIsReady := XIL_COMPONENT_IS_READY\<rparr>"
  from default_rate [of ?s mr c1 c2 "m2 # t"] assms(2,3) obtain l where
    "XUartPs_SetBaudRate 115200 ?s = Some (XST_SUCCESS, ?s\<lparr>io_tape := m2 # t, io_log := io_log s @ l, uBaudRate := 115200\<rparr>)"
    by (auto simp: uart_ready_def)
  with assms(1) show ?thesis
    by (simp add: XUartPs_CfgInitialize_def XUartPs_ReadReg_def XUartPs_WriteReg_def Xil_In32_def Xil_Out32_def Let_def)
      (rule exI, rule refl)
qed

lemma SetupInterruptSystem_ok:
  fixes s :: "'a uart_scheme"
  assumes "\<not> gic_ready s" and "length (HandlerTable s) = XSCUGIC_MAX_NUM_INTR_INPUTS"
    and "length (XExc_VectorTable s) = 7" and "i < XSCUGIC_MAX_NUM_INTR_INPUTS" and "io_tape s = pr # cf # t"
  shows "\<exists>s'. SetupInterruptSystem amp i s = Some (XST_SUCCESS, s') \<and> gic_inv s' \<and> irqs_routed s' \<and>
    vector_of i s' = Some (Isr_uart, RefUart) \<and> io_tape s' = t \<and> CpuBaseAddress s' = CpuBaseAddress s \<and>
    gic.more s' = gic.more s"
proof -
  from CfgInitialize_eq [OF assms(1), of amp 0] obtain l where
    init: "XScuGic_CfgInitialize amp (Some 0) s = Some (XST_SUCCESS, s\<lparr>io_log := io_log s @ l,
      HandlerTable := map init_vector (HandlerTable s), gicConfig := True, gicIsReady := XIL_COMPONENT_IS_READY\<rparr>)" by blast
  let ?tab = "(map init_vector (HandlerTable s))[i := \<lparr>Handler = Some Isr_uart, CallBackRef = RefUart\<rparr>]"
  let ?exc = "(XExc_VectorTable s)[5 := \<lparr>eHandler = Exc_XScuGic_InterruptHandler, eData = RefGic\<rparr>]"
  have "\<exists>l'. SetupInterruptSystem amp i s = Some (XST_SUCCESS, Xil_ExceptionEnable (s\<lparr>gicConfig := True,
      gicIsReady := XIL_COMPONENT_IS_READY, XExc_VectorTable := ?exc, HandlerTable := ?tab, io_tape := t, io_log := l'\<rparr>))"
    using init assms(2-5)
    by (simp add: SetupInterruptSystem_def XScuGic_LookupConfig_def Xil_ExceptionInit_def Xil_ExceptionRegisterHandler_def
        XScuGic_Connect_def XScuGic_Enable_def XScuGic_SetPriorityTriggerType_def gic_ready_def defined_simps
        reg_defs Xil_In32_def Xil_Out32_def Let_def) (rule exI, rule refl)
  then obtain l' where run: "SetupInterruptSystem amp i s = Some (XST_SUCCESS, Xil_ExceptionEnable (s\<lparr>gicConfig := True,
      gicIsReady := XIL_COMPONENT_IS_READY, XExc_VectorTable := ?exc, HandlerTable := ?tab, io_tape := t, io_log := l'\<rparr>))"
    (is "_ = Some (_, Xil_ExceptionEnable ?s')") by blast
  have "gic_inv (Xil_ExceptionEnable ?s')"
    using gic_inv_table [OF init_vector_inv [OF assms(2)], of "\<lparr>Handler = Some Isr_uart, CallBackRef = RefUart\<rparr>"
        XIL_COMPONENT_IS_READY i]
    by (simp add: Xil_ExceptionEnable_def Xil_ExceptionEnableMask_def gic_inv_def gic_ready_def)
  moreover have "irqs_routed (Xil_ExceptionEnable ?s')"
    using irqs_masked_set(1) [of ?s'] assms(3) unfolding irqs_routed_def
    by (simp add: Xil_ExceptionEnable_def Xil_ExceptionEnableMask_def)
  moreover have "vector_of i (Xil_ExceptionEnable ?s') = Some (Isr_uart, RefUart)"
    using assms(2,4) by (simp add: vector_of_def Xil_ExceptionEnable_def Xil_ExceptionEnableMask_def)
  ultimately show ?thesis
    using run by (simp add: Xil_ExceptionEnable_def Xil_ExceptionEnableMask_def)
qed

lemma gic_more_uart:
  assumes "gic.more s' = gic.more (s :: 'a uart_scheme)"
  shows "uBase s' = uBase s" "uIsReady s' = uIsReady s" "SendBuffer s' = SendBuffer s" "ReceiveBuffer s' = ReceiveBuffer s"
  using assms by (cases s; cases s'; simp)+

lemma UartPsIntrInit_ok:
  fixes s :: "'a uart_scheme"
  assumes "XUartPs_LookupConfig table dev = Some c" and "ConfigClockHz c = 50000000"
    and "\<not> gic_ready s" and "length (HandlerTable s) = XSCUGIC_MAX_NUM_INTR_INPUTS"
    and "length (XExc_VectorTable s) = 7" and "i < XSCUGIC_MAX_NUM_INTR_INPUTS"
    and "io_tape s = mr # c1 # c2 # m2 # pr # cf # m3 # c4 # t" and "mr AND XUARTPS_MR_CLKSEL = 0"
  shows "\<exists>s'. UartPsIntrInit amp table dev i s = Some (XST_SUCCESS, s') \<and> uart_wired i s' \<and> uBase s' = BaseAddress c \<and>
    CpuBaseAddress s' = CpuBaseAddress s"
proof -
  from CfgInitialize_uart [OF assms(2) assms(7,8), of "BaseAddress c"] obtain l where
    s1: "XUartPs_CfgInitialize (Some c) (BaseAddress c) s = Some (XST_SUCCESS, s\<lparr>uBase := BaseAddress c,
      uClockHz := 50000000, uModemPins := ModemPinsConnected c, uHandler := UartStub, SendBuffer := no_buffer,
      ReceiveBuffer := no_buffer, uIsReady := XIL_COMPONENT_IS_READY, uBaudRate := 115200,
      io_tape := pr # cf # m3 # c4 # t, io_log := io_log s @ l\<rparr>)" (is "_ = Some (_, ?s1)") by blast
  have g: "\<not> gic_ready ?s1" using assms(3) by (simp add: gic_ready_def)
  from SetupInterruptSystem_ok [OF g, of i pr cf "m3 # c4 # t" amp] assms(4-6) obtain s2 where
    s2: "SetupInterruptSystem amp i ?s1 = Some (XST_SUCCESS, s2)" "gic_inv s2" "irqs_routed s2"
      "vector_of i s2 = Some (Isr_uart, RefUart)" "io_tape s2 = m3 # c4 # t" "CpuBaseAddress s2 = CpuBaseAddress s"
      "gic.more s2 = gic.more ?s1" by auto
  note u = gic_more_uart [OF s2(7)]
  let ?s3 = "s2\<lparr>uHandler := UartApp, uRef := RefUart\<rparr>"
  have "\<exists>l'. UartPsIntrInit amp table dev i s = Some (XST_SUCCESS, ?s3\<lparr>io_tape := t, io_log := l'\<rparr>)"
    using assms(1) s1 s2(1,5) u
    by (simp add: UartPsIntrInit_def XUartPs_SetHandler_def uart_ready_def XUartPs_SetInterruptMask_def
        XUartPs_SetOperMode_def XUartPs_SetRecvTimeout_def XUartPs_ReadReg_def XUartPs_WriteReg_def
        Xil_In32_def Xil_Out32_def Let_def) (rule exI, rule refl)
  then obtain l' where run: "UartPsIntrInit amp table dev i s = Some (XST_SUCCESS, ?s3\<lparr>io_tape := t, io_log := l'\<rparr>)"
    (is "_ = Some (_, ?s')") by blast
  have "uart_wired i ?s'"
    using s2(2-4) u vector_of_frame [of ?s' s2] irqs_routed_frame [of ?s' s2]
    by (simp add: uart_wired_def app_idle_def uart_on_def uart_ready_def no_buffer_def gic_inv_def gic_ready_def)
  with run u s2(6) show ?thesis by simp
qed

text \<open>C30: The application never receives anything: its handler asks only for as many bytes as the
  event says have arrived, and the driver, which was given no buffer, always says none. After
  \<open>UartPsIntrInit\<close> every interrupt of the port, whatever it reports, is handled and returns, takes no byte
  from the receive FIFO and changes no memory.\<close>

theorem app_never_receives:
  fixes s :: "'a uart_scheme"
  assumes "XUartPs_LookupConfig table dev = Some c" and "ConfigClockHz c = 50000000"
    and "\<not> gic_ready s" and "length (HandlerTable s) = XSCUGIC_MAX_NUM_INTR_INPUTS"
    and "length (XExc_VectorTable s) = 7" and "i < XSCUGIC_MAX_NUM_INTR_INPUTS"
    and "io_tape s = mr # c1 # c2 # m2 # pr # cf # m3 # c4 # t" and "mr AND XUARTPS_MR_CLKSEL = 0"
    and "rx \<noteq> 0" and "CpuBaseAddress s + XSCUGIC_INT_ACK_OFFSET \<noteq> BaseAddress c + XUARTPS_FIFO_OFFSET"
    and "\<forall>(v, t) \<in> set ts. unat (v AND 0x3FF) = i \<and> 17 \<le> length t"
  shows "\<exists>s1 s' l. UartPsIntrInit amp table dev i s = Some (XST_SUCCESS, s1) \<and> take_uart_irqs rx ts s1 = Some s' \<and>
    io_log s' = io_log s1 @ l \<and> fifo_in (uBase s1) l = [] \<and> mem s' = mem s1"
proof -
  from UartPsIntrInit_ok [OF assms(1-8), of amp] obtain s1 where
    s1: "UartPsIntrInit amp table dev i s = Some (XST_SUCCESS, s1)" "uart_wired i s1" "uBase s1 = BaseAddress c"
      "CpuBaseAddress s1 = CpuBaseAddress s" by blast
  from take_uart_irqs_idle [OF s1(2) assms(9,11)] s1(3,4) assms(10) obtain s' where
    "take_uart_irqs rx ts s1 = Some s'" "leaves_fifo s1 s'" by auto
  then show ?thesis using s1(1) by (auto simp: leaves_fifo_def)
qed

lemma app_never_receives_witness:
  "\<exists>s1 s' l. UartPsIntrInit False [\<lparr>DeviceId = 1, BaseAddress = 0xE0001000, ConfigClockHz = 50000000, ModemPinsConnected = 0\<rparr>]
       1 82 ((uart_demo (replicate 8 0))\<lparr>HandlerTable := replicate 95 \<lparr>Handler = None, CallBackRef = RefNull\<rparr>,
         CpuBaseAddress := 0xF8F00100\<rparr>) = Some (XST_SUCCESS, s1) \<and>
     take_uart_irqs 0x200 [(82, [4, 4] @ replicate 15 0), (82, 0x101 # 0x101 # replicate 15 0)] s1 = Some s' \<and>
     io_log s' = io_log s1 @ l \<and> fifo_in (uBase s1) l = []"
proof -
  let ?c = "\<lparr>DeviceId = 1, BaseAddress = 0xE0001000, ConfigClockHz = 50000000, ModemPinsConnected = 0\<rparr>"
  let ?s = "(uart_demo (replicate 8 0))\<lparr>HandlerTable := replicate 95 \<lparr>Handler = None, CallBackRef = RefNull\<rparr>,
         CpuBaseAddress := 0xF8F00100\<rparr>"
  have l: "XUartPs_LookupConfig [?c] 1 = Some ?c" by (simp add: XUartPs_LookupConfig_def)
  have t: "io_tape ?s = 0 # 0 # 0 # 0 # 0 # 0 # 0 # 0 # []" by (simp add: uart_demo_def numeral_eq_Suc)
  show ?thesis
    using app_never_receives [OF l _ _ _ _ _ t, of 82 "0x200"
        "[(82, [4, 4] @ replicate 15 0), (82, 0x101 # 0x101 # replicate 15 0)]" False]
    by (auto simp: uart_demo_def gic_ready_def exc_table_init_def)
qed

end
