(* ===== verification/Cache.thy ===== *)
theory Cache
  imports Exceptions
begin

text \<open>
  Cache maintenance (bsp/cortexa9/xil_cache.c) and the functions of xil_mmu.c that switch the memory
  management unit. The functions write coprocessor registers and registers of the second level
  cache controller; the model records these writes in their order in \<open>io_log\<close>. What the writes do
  to a data cache is a second, abstract model, the architecture's description of the operations;
  the theorems apply it to the recorded writes.

  The firmware calls \<open>Xil_L1DCacheFlush\<close> so that messages reach the kernel, and
  \<open>Xil_DCacheFlushRange\<close> on the trace buffer. The compiler switches are those of the firmware's
  compiler (GNU C) and of xil_errata.h, which enables all work-arounds. \<open>_stack_end\<close> and \<open>_stack\<close>
  are symbols of the linker and arguments here.
\<close>

section \<open>State\<close>

text \<open>The control register, the selector of a cache, and the size description of each cache.\<close>

record cpu = exc +
  sys_control :: u32
  size_sel :: u32
  size_id :: "u32 \<Rightarrow> u32"

abbreviation (input) "IRQ_FIQ_MASK \<equiv> (0xC0 :: u32)"
abbreviation (input) "XPS_L2CC_BASEADDR \<equiv> (0xF8F02000 :: u32)"
abbreviation (input) "XPS_L2CC_CNTRL_OFFSET \<equiv> (0x100 :: u32)"
abbreviation (input) "XPS_L2CC_AUX_CNTRL_OFFSET \<equiv> (0x104 :: u32)"
abbreviation (input) "XPS_L2CC_TAG_RAM_CNTRL_OFFSET \<equiv> (0x108 :: u32)"
abbreviation (input) "XPS_L2CC_DATA_RAM_CNTRL_OFFSET \<equiv> (0x10C :: u32)"
abbreviation (input) "XPS_L2CC_ISR_OFFSET \<equiv> (0x21C :: u32)"
abbreviation (input) "XPS_L2CC_IAR_OFFSET \<equiv> (0x220 :: u32)"
abbreviation (input) "XPS_L2CC_DUMMY_CACHE_SYNC_OFFSET \<equiv> (0x740 :: u32)"
abbreviation (input) "XPS_L2CC_CACHE_INVLD_PA_OFFSET \<equiv> (0x770 :: u32)"
abbreviation (input) "XPS_L2CC_CACHE_INVLD_WAY_OFFSET \<equiv> (0x77C :: u32)"
abbreviation (input) "XPS_L2CC_CACHE_CLEAN_PA_OFFSET \<equiv> (0x7B0 :: u32)"
abbreviation (input) "XPS_L2CC_CACHE_INV_CLN_PA_OFFSET \<equiv> (0x7F0 :: u32)"
abbreviation (input) "XPS_L2CC_CACHE_INV_CLN_WAY_OFFSET \<equiv> (0x7FC :: u32)"
abbreviation (input) "XPS_L2CC_DEBUG_CTRL_OFFSET \<equiv> (0xF40 :: u32)"
abbreviation (input) "XREG_CP15_CONTROL_I_BIT \<equiv> (0x1000 :: u32)"
abbreviation (input) "XREG_CP15_CONTROL_C_BIT \<equiv> (4 :: u32)"

definition emit :: "io_event \<Rightarrow> 'a machine_scheme \<Rightarrow> 'a machine_scheme" where
  "emit e s = s\<lparr>io_log := io_log s @ [e]\<rparr>"

definition dsb :: "'a cpu_scheme \<Rightarrow> 'a cpu_scheme" where
  "dsb s = emit DSB s"

definition isb :: "'a cpu_scheme \<Rightarrow> 'a cpu_scheme" where
  "isb s = emit ISB s"

text \<open>\<open>mtcp\<close>: two of the registers are storage, the others start an operation.\<close>

definition mtcp :: "cp_reg \<Rightarrow> u32 \<Rightarrow> 'a cpu_scheme \<Rightarrow> 'a cpu_scheme" where
  "mtcp r v s = emit (CpWrite r v) (case r of
     XREG_CP15_CACHE_SIZE_SEL \<Rightarrow> s\<lparr>size_sel := v\<rparr>
   | XREG_CP15_SYS_CONTROL \<Rightarrow> s\<lparr>sys_control := v\<rparr>
   | _ \<Rightarrow> s)"

text \<open>\<open>currmask = mfcpsr(); mtcpsr(currmask | IRQ_FIQ_MASK); ... mtcpsr(currmask)\<close> around a body.\<close>

definition irqs_off :: "('a cpu_scheme \<Rightarrow> 'a cpu_scheme option) \<Rightarrow> 'a cpu_scheme \<Rightarrow> 'a cpu_scheme option" where
  "irqs_off body s = do {
     s1 \<leftarrow> body (s\<lparr>cpsr := cpsr s OR IRQ_FIQ_MASK\<rparr>);
     Some (s1\<lparr>cpsr := cpsr s\<rparr>)
   }"

text \<open>\<open>while (adr < end) { ...; adr += cacheline }\<close>. The loop need not end.\<close>

partial_function (option) line_loop ::
    "(u32 \<Rightarrow> 'a cpu_scheme \<Rightarrow> 'a cpu_scheme) \<Rightarrow> u32 \<Rightarrow> u32 \<Rightarrow> 'a cpu_scheme \<Rightarrow> 'a cpu_scheme option" where
  "line_loop f adr end' s = (if adr < end' then line_loop f (adr + 32) end' (f adr s) else Some s)"

section \<open>The second level cache\<close>

definition Xil_L2WriteDebugCtrl :: "u32 \<Rightarrow> 'a cpu_scheme \<Rightarrow> 'a cpu_scheme" where
  "Xil_L2WriteDebugCtrl v s = Xil_Out32 (XPS_L2CC_BASEADDR + XPS_L2CC_DEBUG_CTRL_OFFSET) v s"

definition Xil_L2CacheSync :: "'a cpu_scheme \<Rightarrow> 'a cpu_scheme" where
  "Xil_L2CacheSync s = Xil_Out32 (XPS_L2CC_BASEADDR + XPS_L2CC_DUMMY_CACHE_SYNC_OFFSET) 0 s"

text \<open>\<open>while ((Xil_In32(reg)) & 0x0000FFFF);\<close>\<close>

partial_function (option) wait_ways :: "u32 \<Rightarrow> 'a cpu_scheme \<Rightarrow> 'a cpu_scheme option" where
  "wait_ways reg s = do {
     (v, s1) \<leftarrow> Xil_In32 reg s;
     if v AND 0xFFFF \<noteq> 0 then wait_ways reg s1 else Some s1
   }"

definition Xil_L2CacheInvalidate :: "'a cpu_scheme \<Rightarrow> 'a cpu_scheme option" where
  "Xil_L2CacheInvalidate s = do {
     s1 \<leftarrow> wait_ways (XPS_L2CC_BASEADDR + XPS_L2CC_CACHE_INVLD_WAY_OFFSET)
            (Xil_Out32 (XPS_L2CC_BASEADDR + XPS_L2CC_CACHE_INVLD_WAY_OFFSET) 0xFFFF s);
     Some (dsb (Xil_L2CacheSync s1))
   }"

definition Xil_L2CacheInvalidateLine :: "u32 \<Rightarrow> 'a cpu_scheme \<Rightarrow> 'a cpu_scheme" where
  "Xil_L2CacheInvalidateLine adr s = dsb (Xil_Out32 (XPS_L2CC_BASEADDR + XPS_L2CC_CACHE_INVLD_PA_OFFSET) adr s)"

definition Xil_L2CacheInvalidateRange :: "u32 \<Rightarrow> u32 \<Rightarrow> 'a cpu_scheme \<Rightarrow> 'a cpu_scheme option" where
  "Xil_L2CacheInvalidateRange adr len = irqs_off (\<lambda>s. do {
     s1 \<leftarrow> (if len \<noteq> 0 then do {
              s2 \<leftarrow> line_loop (Xil_Out32 (XPS_L2CC_BASEADDR + XPS_L2CC_CACHE_INVLD_PA_OFFSET)) (adr AND NOT 31) (adr + len)
                (Xil_L2WriteDebugCtrl 3 s);
              Some (Xil_L2WriteDebugCtrl 0 s2)
            } else Some s);
     Some (dsb s1)
   })"

definition Xil_L2CacheFlush :: "'a cpu_scheme \<Rightarrow> 'a cpu_scheme option" where
  "Xil_L2CacheFlush s = do {
     s1 \<leftarrow> wait_ways (XPS_L2CC_BASEADDR + XPS_L2CC_CACHE_INV_CLN_WAY_OFFSET)
            (Xil_Out32 (XPS_L2CC_BASEADDR + XPS_L2CC_CACHE_INV_CLN_WAY_OFFSET) 0xFFFF (Xil_L2WriteDebugCtrl 3 s));
     Some (dsb (Xil_L2WriteDebugCtrl 0 (Xil_L2CacheSync s1)))
   }"

definition Xil_L2CacheFlushLine :: "u32 \<Rightarrow> 'a cpu_scheme \<Rightarrow> 'a cpu_scheme" where
  "Xil_L2CacheFlushLine adr s = dsb (Xil_Out32 (XPS_L2CC_BASEADDR + XPS_L2CC_CACHE_INVLD_PA_OFFSET) adr
     (Xil_Out32 (XPS_L2CC_BASEADDR + XPS_L2CC_CACHE_CLEAN_PA_OFFSET) adr s))"

definition Xil_L2CacheFlushRange :: "u32 \<Rightarrow> u32 \<Rightarrow> 'a cpu_scheme \<Rightarrow> 'a cpu_scheme option" where
  "Xil_L2CacheFlushRange adr len = irqs_off (\<lambda>s. do {
     s1 \<leftarrow> (if len \<noteq> 0 then do {
              s2 \<leftarrow> line_loop (\<lambda>a s. Xil_L2CacheSync (Xil_Out32 (XPS_L2CC_BASEADDR + XPS_L2CC_CACHE_INV_CLN_PA_OFFSET) a s))
                (adr AND NOT 31) (adr + len) (Xil_L2WriteDebugCtrl 3 s);
              Some (Xil_L2WriteDebugCtrl 0 s2)
            } else Some s);
     Some (dsb s1)
   })"

definition Xil_L2CacheStoreLine :: "u32 \<Rightarrow> 'a cpu_scheme \<Rightarrow> 'a cpu_scheme" where
  "Xil_L2CacheStoreLine adr s = dsb (Xil_Out32 (XPS_L2CC_BASEADDR + XPS_L2CC_CACHE_CLEAN_PA_OFFSET) adr s)"

definition Xil_L2CacheEnable :: "'a cpu_scheme \<Rightarrow> 'a cpu_scheme option" where
  "Xil_L2CacheEnable s0 = do {
     (c, s) \<leftarrow> Xil_In32 (XPS_L2CC_BASEADDR + XPS_L2CC_CNTRL_OFFSET) s0;
     if c AND 1 = 0 then do {
       (aux, s1) \<leftarrow> Xil_In32 (XPS_L2CC_BASEADDR + XPS_L2CC_AUX_CNTRL_OFFSET) s;
       let s2 = Xil_Out32 (XPS_L2CC_BASEADDR + XPS_L2CC_AUX_CNTRL_OFFSET) ((aux AND 0xFFF1FFFF) OR 0x72360000) s1;
       let s3 = Xil_Out32 (XPS_L2CC_BASEADDR + XPS_L2CC_TAG_RAM_CNTRL_OFFSET) 0x111 s2;
       let s4 = Xil_Out32 (XPS_L2CC_BASEADDR + XPS_L2CC_DATA_RAM_CNTRL_OFFSET) 0x121 s3;
       (isr, s5) \<leftarrow> Xil_In32 (XPS_L2CC_BASEADDR + XPS_L2CC_ISR_OFFSET) s4;
       s6 \<leftarrow> Xil_L2CacheInvalidate (Xil_Out32 (XPS_L2CC_BASEADDR + XPS_L2CC_IAR_OFFSET) isr s5);
       (c1, s7) \<leftarrow> Xil_In32 (XPS_L2CC_BASEADDR + XPS_L2CC_CNTRL_OFFSET) s6;
       Some (dsb (Xil_L2CacheSync (Xil_Out32 (XPS_L2CC_BASEADDR + XPS_L2CC_CNTRL_OFFSET) (c1 OR 1) s7)))
     } else Some s
   }"

definition Xil_L2CacheDisable :: "'a cpu_scheme \<Rightarrow> 'a cpu_scheme option" where
  "Xil_L2CacheDisable s0 = do {
     (c, s) \<leftarrow> Xil_In32 (XPS_L2CC_BASEADDR + XPS_L2CC_CNTRL_OFFSET) s0;
     if c AND 1 \<noteq> 0 then do {
       s1 \<leftarrow> Xil_L2CacheFlush s;
       (c1, s2) \<leftarrow> Xil_In32 (XPS_L2CC_BASEADDR + XPS_L2CC_CNTRL_OFFSET) s1;
       Some (dsb (Xil_Out32 (XPS_L2CC_BASEADDR + XPS_L2CC_CNTRL_OFFSET) (c1 AND NOT 1) s2))
     } else Some s
   }"

section \<open>Both levels\<close>

definition Xil_DCacheFlushRange :: "u32 \<Rightarrow> u32 \<Rightarrow> 'a cpu_scheme \<Rightarrow> 'a cpu_scheme option" where
  "Xil_DCacheFlushRange adr len = irqs_off (\<lambda>s. do {
     s1 \<leftarrow> (if len \<noteq> 0 then line_loop (\<lambda>a s. dsb (Xil_Out32 (XPS_L2CC_BASEADDR + XPS_L2CC_CACHE_INV_CLN_PA_OFFSET) a
                (mtcp XREG_CP15_CLEAN_INVAL_DC_LINE_MVA_POC a s))) (adr AND NOT 31) (adr + len) s
            else Some s);
     Some (dsb s1)
   })"

section \<open>The first level caches\<close>

text \<open>The two loops over the ways and the sets of a cache, with their running values.\<close>

primrec set_loop :: "cp_reg \<Rightarrow> u32 \<Rightarrow> u32 \<Rightarrow> nat \<Rightarrow> u32 \<Rightarrow> 'a cpu_scheme \<Rightarrow> 'a cpu_scheme" where
  "set_loop r st Way 0 Set s = s"
| "set_loop r st Way (Suc n) Set s = set_loop r st Way n (Set + st) (mtcp r (Way OR Set) s)"

primrec way_loop :: "cp_reg \<Rightarrow> u32 \<Rightarrow> nat \<Rightarrow> nat \<Rightarrow> u32 \<Rightarrow> 'a cpu_scheme \<Rightarrow> 'a cpu_scheme" where
  "way_loop r st NumSet 0 Way s = s"
| "way_loop r st NumSet (Suc n) Way s = way_loop r st NumSet n (Way + 0x40000000) (set_loop r st Way NumSet 0 s)"

definition all_lines :: "cp_reg \<Rightarrow> 'a cpu_scheme \<Rightarrow> 'a cpu_scheme" where
  "all_lines r s0 = (let
     s = mtcp XREG_CP15_CACHE_SIZE_SEL 0 s0;
     CsidReg = size_id s (size_sel s);
     CacheSize = ((drop_bit 13 CsidReg AND 0x1FF) + 1) * 128;
     NumWays = drop_bit 3 (CsidReg AND 0x3FF) + 1;
     LineSize = (CsidReg AND 7) + 4;
     NumSet = CacheSize div NumWays div push_bit (unat LineSize) 1
   in dsb (way_loop r (push_bit (unat LineSize) 1) (unat NumSet) (unat NumWays) 0 s))"

definition Xil_L1DCacheFlush :: "'a cpu_scheme \<Rightarrow> 'a cpu_scheme option" where
  "Xil_L1DCacheFlush = irqs_off (\<lambda>s. Some (all_lines XREG_CP15_CLEAN_INVAL_DC_LINE_SW s))"

definition Xil_L1DCacheInvalidate :: "u32 \<Rightarrow> u32 \<Rightarrow> 'a cpu_scheme \<Rightarrow> 'a cpu_scheme option" where
  "Xil_L1DCacheInvalidate stack_end stack = irqs_off (\<lambda>s. do {
     s1 \<leftarrow> Xil_DCacheFlushRange stack_end (stack - stack_end) s;
     Some (all_lines XREG_CP15_INVAL_DC_LINE_SW s1)
   })"

definition Xil_L1DCacheEnable :: "u32 \<Rightarrow> u32 \<Rightarrow> 'a cpu_scheme \<Rightarrow> 'a cpu_scheme option" where
  "Xil_L1DCacheEnable stack_end stack s = (let CtrlReg = sys_control s in
     if CtrlReg AND XREG_CP15_CONTROL_C_BIT \<noteq> 0 then Some s
     else do {
       s1 \<leftarrow> Xil_L1DCacheInvalidate stack_end stack s;
       Some (mtcp XREG_CP15_SYS_CONTROL (CtrlReg OR XREG_CP15_CONTROL_C_BIT) s1)
     })"

definition Xil_L1DCacheDisable :: "'a cpu_scheme \<Rightarrow> 'a cpu_scheme option" where
  "Xil_L1DCacheDisable s = do {
     s1 \<leftarrow> Xil_L1DCacheFlush s;
     Some (mtcp XREG_CP15_SYS_CONTROL (sys_control s1 AND NOT XREG_CP15_CONTROL_C_BIT) s1)
   }"

text \<open>One line, and a range of lines, of the data cache.\<close>

definition L1_line :: "cp_reg \<Rightarrow> u32 \<Rightarrow> u32 \<Rightarrow> 'a cpu_scheme \<Rightarrow> 'a cpu_scheme" where
  "L1_line r sel adr s = dsb (mtcp r (adr AND NOT 0x1F) (mtcp XREG_CP15_CACHE_SIZE_SEL sel s))"

definition L1_range :: "cp_reg \<Rightarrow> u32 \<Rightarrow> u32 \<Rightarrow> u32 \<Rightarrow> 'a cpu_scheme \<Rightarrow> 'a cpu_scheme option" where
  "L1_range r sel adr len = irqs_off (\<lambda>s. do {
     s1 \<leftarrow> (if len \<noteq> 0 then line_loop (mtcp r) (adr AND NOT 31) (adr + len) (mtcp XREG_CP15_CACHE_SIZE_SEL sel s)
            else Some s);
     Some (dsb s1)
   })"

definition Xil_L1DCacheInvalidateLine :: "u32 \<Rightarrow> 'a cpu_scheme \<Rightarrow> 'a cpu_scheme" where
  "Xil_L1DCacheInvalidateLine adr s = L1_line XREG_CP15_INVAL_DC_LINE_MVA_POC 0 adr s"

definition Xil_L1DCacheFlushLine :: "u32 \<Rightarrow> 'a cpu_scheme \<Rightarrow> 'a cpu_scheme" where
  "Xil_L1DCacheFlushLine adr s = L1_line XREG_CP15_CLEAN_INVAL_DC_LINE_MVA_POC 0 adr s"

definition Xil_L1DCacheStoreLine :: "u32 \<Rightarrow> 'a cpu_scheme \<Rightarrow> 'a cpu_scheme" where
  "Xil_L1DCacheStoreLine adr s = L1_line XREG_CP15_CLEAN_DC_LINE_MVA_POC 0 adr s"

definition Xil_L1DCacheInvalidateRange :: "u32 \<Rightarrow> u32 \<Rightarrow> 'a cpu_scheme \<Rightarrow> 'a cpu_scheme option" where
  "Xil_L1DCacheInvalidateRange adr len s = L1_range XREG_CP15_INVAL_DC_LINE_MVA_POC 0 adr len s"

definition Xil_L1DCacheFlushRange :: "u32 \<Rightarrow> u32 \<Rightarrow> 'a cpu_scheme \<Rightarrow> 'a cpu_scheme option" where
  "Xil_L1DCacheFlushRange adr len s = L1_range XREG_CP15_CLEAN_INVAL_DC_LINE_MVA_POC 0 adr len s"

text \<open>The instruction cache.\<close>

definition Xil_L1ICacheEnable :: "'a cpu_scheme \<Rightarrow> 'a cpu_scheme" where
  "Xil_L1ICacheEnable s = (let CtrlReg = sys_control s in
     if CtrlReg AND XREG_CP15_CONTROL_I_BIT \<noteq> 0 then s
     else mtcp XREG_CP15_SYS_CONTROL (CtrlReg OR XREG_CP15_CONTROL_I_BIT) (mtcp XREG_CP15_INVAL_IC_POU 0 s))"

definition Xil_L1ICacheDisable :: "'a cpu_scheme \<Rightarrow> 'a cpu_scheme" where
  "Xil_L1ICacheDisable s = (let s1 = mtcp XREG_CP15_INVAL_IC_POU 0 (dsb s)
     in mtcp XREG_CP15_SYS_CONTROL (sys_control s1 AND NOT XREG_CP15_CONTROL_I_BIT) s1)"

definition Xil_L1ICacheInvalidate :: "'a cpu_scheme \<Rightarrow> 'a cpu_scheme" where
  "Xil_L1ICacheInvalidate s = dsb (mtcp XREG_CP15_INVAL_IC_POU 0 (mtcp XREG_CP15_CACHE_SIZE_SEL 1 s))"

definition Xil_L1ICacheInvalidateLine :: "u32 \<Rightarrow> 'a cpu_scheme \<Rightarrow> 'a cpu_scheme" where
  "Xil_L1ICacheInvalidateLine adr s = L1_line XREG_CP15_INVAL_IC_LINE_MVA_POU 1 adr s"

definition Xil_L1ICacheInvalidateRange :: "u32 \<Rightarrow> u32 \<Rightarrow> 'a cpu_scheme \<Rightarrow> 'a cpu_scheme option" where
  "Xil_L1ICacheInvalidateRange adr len s = L1_range XREG_CP15_INVAL_IC_LINE_MVA_POU 1 adr len s"

section \<open>The interface\<close>

definition Xil_DCacheEnable :: "u32 \<Rightarrow> u32 \<Rightarrow> 'a cpu_scheme \<Rightarrow> 'a cpu_scheme option" where
  "Xil_DCacheEnable stack_end stack s = Xil_L1DCacheEnable stack_end stack s \<bind> Xil_L2CacheEnable"

definition Xil_DCacheDisable :: "'a cpu_scheme \<Rightarrow> 'a cpu_scheme option" where
  "Xil_DCacheDisable s = Xil_L2CacheDisable s \<bind> Xil_L1DCacheDisable"

definition Xil_DCacheInvalidate :: "u32 \<Rightarrow> u32 \<Rightarrow> 'a cpu_scheme \<Rightarrow> 'a cpu_scheme option" where
  "Xil_DCacheInvalidate stack_end stack =
     irqs_off (\<lambda>s. Xil_L2CacheInvalidate s \<bind> Xil_L1DCacheInvalidate stack_end stack)"

definition Xil_DCacheInvalidateLine :: "u32 \<Rightarrow> 'a cpu_scheme \<Rightarrow> 'a cpu_scheme option" where
  "Xil_DCacheInvalidateLine adr = irqs_off (\<lambda>s. Some (Xil_L1DCacheInvalidateLine adr (Xil_L2CacheInvalidateLine adr s)))"

text \<open>A line at an end of the range that the range covers only in part is flushed, not invalidated.\<close>

definition flush_end :: "u32 \<Rightarrow> 'a cpu_scheme \<Rightarrow> 'a cpu_scheme" where
  "flush_end a s = Xil_L2CacheSync (Xil_L2WriteDebugCtrl 0 (Xil_L2CacheFlushLine a (Xil_L2WriteDebugCtrl 3 (Xil_L1DCacheFlushLine a s))))"

definition Xil_DCacheInvalidateRange :: "u32 \<Rightarrow> u32 \<Rightarrow> 'a cpu_scheme \<Rightarrow> 'a cpu_scheme option" where
  "Xil_DCacheInvalidateRange adr len = irqs_off (\<lambda>s0. do {
     s3 \<leftarrow> (if len \<noteq> 0 then
              let tempend = adr + len;
                  s = mtcp XREG_CP15_CACHE_SIZE_SEL 0 s0;
                  (tempadr, s1) = (if adr AND 31 \<noteq> 0 then ((adr AND NOT 31) + 32, flush_end (adr AND NOT 31) s) else (adr, s));
                  (tempend1, s2) = (if tempend AND 31 \<noteq> 0 then (tempend AND NOT 31, flush_end (tempend AND NOT 31) s1) else (tempend, s1))
              in line_loop (\<lambda>a s. mtcp XREG_CP15_INVAL_DC_LINE_MVA_POC a
                   (dsb (Xil_Out32 (XPS_L2CC_BASEADDR + XPS_L2CC_CACHE_INVLD_PA_OFFSET) a s))) tempadr tempend1 s2
            else Some s0);
     Some (dsb s3)
   })"

definition Xil_DCacheFlush :: "'a cpu_scheme \<Rightarrow> 'a cpu_scheme option" where
  "Xil_DCacheFlush = irqs_off (\<lambda>s. Xil_L1DCacheFlush s \<bind> Xil_L2CacheFlush)"

definition Xil_DCacheFlushLine :: "u32 \<Rightarrow> 'a cpu_scheme \<Rightarrow> 'a cpu_scheme option" where
  "Xil_DCacheFlushLine adr = irqs_off (\<lambda>s. Some (flush_end adr s))"

definition Xil_DCacheStoreLine :: "u32 \<Rightarrow> 'a cpu_scheme \<Rightarrow> 'a cpu_scheme option" where
  "Xil_DCacheStoreLine adr = irqs_off (\<lambda>s. Some (Xil_L2CacheStoreLine adr (Xil_L1DCacheStoreLine adr s)))"

definition Xil_ICacheEnable :: "'a cpu_scheme \<Rightarrow> 'a cpu_scheme option" where
  "Xil_ICacheEnable s = Xil_L2CacheEnable (Xil_L1ICacheEnable s)"

definition Xil_ICacheDisable :: "'a cpu_scheme \<Rightarrow> 'a cpu_scheme option" where
  "Xil_ICacheDisable s = map_option Xil_L1ICacheDisable (Xil_L2CacheDisable s)"

definition Xil_ICacheInvalidate :: "'a cpu_scheme \<Rightarrow> 'a cpu_scheme option" where
  "Xil_ICacheInvalidate = irqs_off (\<lambda>s. map_option Xil_L1ICacheInvalidate (Xil_L2CacheInvalidate s))"

definition Xil_ICacheInvalidateLine :: "u32 \<Rightarrow> 'a cpu_scheme \<Rightarrow> 'a cpu_scheme option" where
  "Xil_ICacheInvalidateLine adr = irqs_off (\<lambda>s. Some (Xil_L1ICacheInvalidateLine adr (Xil_L2CacheInvalidateLine adr s)))"

definition Xil_ICacheInvalidateRange :: "u32 \<Rightarrow> u32 \<Rightarrow> 'a cpu_scheme \<Rightarrow> 'a cpu_scheme option" where
  "Xil_ICacheInvalidateRange adr len = irqs_off (\<lambda>s. do {
     s1 \<leftarrow> (if len \<noteq> 0 then line_loop (\<lambda>a s. mtcp XREG_CP15_INVAL_IC_LINE_MVA_POU a
                (dsb (Xil_Out32 (XPS_L2CC_BASEADDR + XPS_L2CC_CACHE_INVLD_PA_OFFSET) a s))) (adr AND NOT 31) (adr + len)
                (mtcp XREG_CP15_CACHE_SIZE_SEL 1 s)
            else Some s);
     Some (dsb s1)
   })"

section \<open>Switching the memory management unit\<close>

text \<open>\<open>amp\<close> is the compiler switch \<open>USE_AMP\<close>.\<close>

definition Xil_EnableMMU :: "bool \<Rightarrow> u32 \<Rightarrow> u32 \<Rightarrow> 'a cpu_scheme \<Rightarrow> 'a cpu_scheme option" where
  "Xil_EnableMMU amp stack_end stack s = do {
     s1 \<leftarrow> (if amp then map_option Xil_L1ICacheInvalidate (Xil_L1DCacheInvalidate stack_end stack s)
            else Xil_DCacheInvalidate stack_end stack s \<bind> Xil_ICacheInvalidate);
     Some (isb (dsb (mtcp XREG_CP15_SYS_CONTROL (sys_control s1 OR 5) s1)))
   }"

definition Xil_DisableMMU :: "bool \<Rightarrow> 'a cpu_scheme \<Rightarrow> 'a cpu_scheme option" where
  "Xil_DisableMMU amp s = do {
     s1 \<leftarrow> (if amp then Xil_L1DCacheFlush else Xil_DCacheFlush)
            (mtcp XREG_CP15_INVAL_BRANCH_ARRAY 0 (mtcp XREG_CP15_INVAL_UTLB_UNLOCKED 0 s));
     Some (mtcp XREG_CP15_SYS_CONTROL (sys_control s1 AND NOT 5 AND NOT 0x800) s1)
   }"

text \<open>\<open>Xil_SetTlbAttributes\<close> with the maintenance that follows the table entry; theory Machine has the entry
  alone.\<close>

definition SetTlbAttributes_whole :: "bool \<Rightarrow> u32 \<Rightarrow> u32 \<Rightarrow> 'a cpu_scheme \<Rightarrow> 'a cpu_scheme option" where
  "SetTlbAttributes_whole amp addr attrib s = do {
     s1 \<leftarrow> (if amp then Xil_L1DCacheFlush else Xil_DCacheFlush) (Xil_SetTlbAttributes addr attrib s);
     Some (isb (dsb (mtcp XREG_CP15_INVAL_BRANCH_ARRAY 0 (mtcp XREG_CP15_INVAL_UTLB_UNLOCKED 0 s1))))
   }"

end
