(* ===== verification/CacheModel.thy ===== *)
theory CacheModel
  imports Cache
begin

text \<open>
  What cache maintenance does to data. A first level data cache is modelled as the architecture
  describes it: lines of 32 bytes, each in one way of its set or not in the cache, clean or dirty.
  The operations recorded by the functions of theory Cache act on it. The theorems say what an
  observer of the memory finds afterwards, and which lines a range operation reaches.
\<close>

section \<open>A data cache\<close>

record dcache =
  way_of :: "u32 \<Rightarrow> nat option" \<comment> \<open>the way that holds the line at an address\<close>
  dirty :: "u32 \<Rightarrow> bool"
  cdata :: memory
  ram :: memory

definition line_at :: "u32 \<Rightarrow> u32" where
  "line_at x = x AND NOT 31"

text \<open>What the processor reads.\<close>

definition cpu_sees :: "dcache \<Rightarrow> memory" where
  "cpu_sees c x = (if way_of c (line_at x) = None then ram c x else cdata c x)"

text \<open>An operation on the lines \<open>sel\<close>: it cleans them, or invalidates them, or both.\<close>

definition maintain :: "(u32 \<Rightarrow> bool) \<Rightarrow> bool \<Rightarrow> bool \<Rightarrow> dcache \<Rightarrow> dcache" where
  "maintain sel clean inval c = c\<lparr>
     ram := (\<lambda>x. if clean \<and> sel (line_at x) \<and> way_of c (line_at x) \<noteq> None \<and> dirty c (line_at x) then cdata c x else ram c x),
     dirty := (\<lambda>a. dirty c a \<and> \<not> sel a),
     way_of := (\<lambda>a. if inval \<and> sel a then None else way_of c a)\<rparr>"

text \<open>The line_at a set/way operation addresses, in a cache with \<open>n\<close> sets.\<close>

definition at_place :: "nat \<Rightarrow> u32 \<Rightarrow> dcache \<Rightarrow> u32 \<Rightarrow> bool" where
  "at_place n v c a \<longleftrightarrow> way_of c a = Some (unat v div 0x40000000) \<and> (unat a div 32) mod n = (unat v div 32) mod n"

fun dc_step :: "nat \<Rightarrow> dcache \<Rightarrow> io_event \<Rightarrow> dcache" where
  "dc_step n c (CpWrite XREG_CP15_INVAL_DC_LINE_SW v) = maintain (at_place n v c) False True c"
| "dc_step n c (CpWrite XREG_CP15_CLEAN_INVAL_DC_LINE_SW v) = maintain (at_place n v c) True True c"
| "dc_step n c (CpWrite XREG_CP15_INVAL_DC_LINE_MVA_POC v) = maintain (\<lambda>a. a = line_at v) False True c"
| "dc_step n c (CpWrite XREG_CP15_CLEAN_INVAL_DC_LINE_MVA_POC v) = maintain (\<lambda>a. a = line_at v) True True c"
| "dc_step n c (CpWrite XREG_CP15_CLEAN_DC_LINE_MVA_POC v) = maintain (\<lambda>a. a = line_at v) True False c"
| "dc_step n c _ = c"

definition dc_run :: "nat \<Rightarrow> io_event list \<Rightarrow> dcache \<Rightarrow> dcache" where
  "dc_run n l c = foldl (dc_step n) c l"

lemma dc_run_simps [simp]:
  "dc_run n [] c = c" "dc_run n (e # l) c = dc_run n l (dc_step n c e)" "dc_run n (l @ l') c = dc_run n l' (dc_run n l c)"
  by (simp_all add: dc_run_def)

text \<open>Clean lines agree with memory, and there are four ways.\<close>

definition dc_ok :: "dcache \<Rightarrow> bool" where
  "dc_ok c \<longleftrightarrow> (\<forall>x. way_of c (line_at x) \<noteq> None \<and> \<not> dirty c (line_at x) \<longrightarrow> cdata c x = ram c x) \<and>
     (\<forall>a w. way_of c a = Some w \<longrightarrow> w < 4)"

lemma maintain_clean:
  assumes "dc_ok c"
  shows "dc_ok (maintain sel True inval c)" and "cpu_sees (maintain sel True inval c) = cpu_sees c"
  using assms by (auto simp: dc_ok_def maintain_def cpu_sees_def fun_eq_iff split: if_splits)

lemma maintain_drop:
  assumes "dc_ok c"
  shows "dc_ok (maintain sel False True c)"
    and "\<not> sel (line_at x) \<Longrightarrow> cpu_sees (maintain sel False True c) x = cpu_sees c x"
  using assms by (auto simp: dc_ok_def maintain_def cpu_sees_def split: if_splits)

text \<open>Operations that clean what they drop lose nothing.\<close>

definition cleaning :: "io_event \<Rightarrow> bool" where
  "cleaning e \<longleftrightarrow> (\<forall>v. e \<noteq> CpWrite XREG_CP15_INVAL_DC_LINE_SW v \<and> e \<noteq> CpWrite XREG_CP15_INVAL_DC_LINE_MVA_POC v)"

lemma cleaning_step: "cleaning e \<Longrightarrow> dc_ok c \<Longrightarrow> dc_ok (dc_step n c e) \<and> cpu_sees (dc_step n c e) = cpu_sees c"
  by (cases "(n, c, e)" rule: dc_step.cases) (simp_all add: cleaning_def maintain_clean)

lemma cleaning_run: "\<forall>e \<in> set l. cleaning e \<Longrightarrow> dc_ok c \<Longrightarrow> dc_ok (dc_run n l c) \<and> cpu_sees (dc_run n l c) = cpu_sees c"
  by (induction l arbitrary: c) (simp_all add: cleaning_step)

lemma dc_step_ok: "dc_ok c \<Longrightarrow> dc_ok (dc_step n c e)"
  by (cases "(n, c, e)" rule: dc_step.cases) (simp_all add: maintain_clean maintain_drop)

text \<open>No operation brings a line into the cache.\<close>

lemma dc_step_way: "way_of (dc_step n c e) a \<noteq> None \<Longrightarrow> way_of (dc_step n c e) a = way_of c a"
  by (cases "(n, c, e)" rule: dc_step.cases) (auto simp: maintain_def split: if_splits)

lemma dc_run_way: "way_of (dc_run n l c) a \<noteq> None \<Longrightarrow> way_of (dc_run n l c) a = way_of c a"
proof (induction l arbitrary: c)
  case (Cons e l)
  then have "way_of (dc_run n l (dc_step n c e)) a = way_of (dc_step n c e) a" by simp
  with Cons.prems dc_step_way [of n c e a] show ?case by simp
qed simp

section \<open>What the functions record\<close>

lemma mtcp_log [simp]: "io_log (mtcp r v s) = io_log s @ [CpWrite r v]" "cpsr (mtcp r v s) = cpsr s"
  "size_id (mtcp r v s) = size_id s"
  by (simp_all add: mtcp_def emit_def split: cp_reg.split)

lemma barrier_log [simp]: "io_log (dsb s) = io_log s @ [DSB]" "cpsr (dsb s) = cpsr s" "size_id (dsb s) = size_id s"
  by (simp_all add: dsb_def emit_def)

lemma out_cpu [simp]: "cpsr (Xil_Out32 a v s) = cpsr s" "size_id (Xil_Out32 a v (t :: 'a cpu_scheme)) = size_id t"
  by (simp_all add: Xil_Out32_def)

lemma set_loop_log:
  "io_log (set_loop r st w n x s) = io_log s @ map (\<lambda>k. CpWrite r (w OR (x + of_nat k * st))) [0..<n] \<and>
   cpsr (set_loop r st w n x s) = cpsr s"
proof (induction n arbitrary: x s)
  case (Suc n)
  show ?case by (simp add: Suc.IH upt_conv_Cons map_Suc_upt [symmetric] algebra_simps o_def del: upt_Suc)
qed simp

lemma way_loop_log:
  "io_log (way_loop r st m n w s) = io_log s @
     concat (map (\<lambda>j. map (\<lambda>k. CpWrite r ((w + of_nat j * 0x40000000) OR (of_nat k * st))) [0..<m]) [0..<n]) \<and>
   cpsr (way_loop r st m n w s) = cpsr s"
proof (induction n arbitrary: w s)
  case (Suc n)
  show ?case by (simp add: Suc.IH set_loop_log upt_conv_Cons map_Suc_upt [symmetric] algebra_simps o_def del: upt_Suc)
qed simp

text \<open>The size description of a cache with four ways, lines of 32 bytes and \<open>n\<close> sets.\<close>

definition geometry :: "nat \<Rightarrow> u32 \<Rightarrow> bool" where
  "geometry n csid \<longleftrightarrow> csid AND 7 = 1 \<and> drop_bit 3 (csid AND 0x3FF) = 3 \<and>
     (drop_bit 13 csid AND 0x1FF) + 1 = of_nat n \<and> n \<in> {128, 256, 512}"

lemma all_lines_log:
  assumes "geometry n (size_id s 0)"
  shows "io_log (all_lines r s) = io_log s @ [CpWrite XREG_CP15_CACHE_SIZE_SEL 0] @
     concat (map (\<lambda>j. map (\<lambda>k. CpWrite r ((of_nat j * 0x40000000) OR (of_nat k * 32))) [0..<n]) [0..<4]) @ [DSB]"
    and "cpsr (all_lines r s) = cpsr s"
proof -
  let ?s = "mtcp XREG_CP15_CACHE_SIZE_SEL 0 s"
  have id: "size_id ?s (size_sel ?s) = size_id s 0" by (simp add: mtcp_def emit_def)
  have n: "unat (of_nat n * 128 div 4 div 32 :: u32) = n" using assms by (auto simp: geometry_def)
  have p: "push_bit (unat (1 + 4 :: u32)) (1 :: u32) = 32" by (simp add: push_bit_eq_mult)
  have "all_lines r s = dsb (way_loop r 32 n 4 0 ?s)"
    using assms n p unfolding all_lines_def id Let_def geometry_def by simp
  then show "io_log (all_lines r s) = io_log s @ [CpWrite XREG_CP15_CACHE_SIZE_SEL 0] @
     concat (map (\<lambda>j. map (\<lambda>k. CpWrite r ((of_nat j * 0x40000000) OR (of_nat k * 32))) [0..<n]) [0..<4]) @ [DSB]"
    "cpsr (all_lines r s) = cpsr s"
    using way_loop_log [of r 32 n 4 0 ?s] by simp_all
qed

section \<open>Flushing the whole cache\<close>

lemma place_value:
  assumes "j < 4" and "k < 512"
  shows "unat ((of_nat j * 0x40000000 :: u32) OR (of_nat k * 32)) = j * 0x40000000 + k * 32"
proof -
  let ?x = "of_nat j * 0x40000000 :: u32" and ?y = "of_nat k * 32 :: u32"
  have x: "?x = push_bit 30 (of_nat j)" and y: "?y = take_bit 14 ?y"
    using assms(2) by (simp_all add: push_bit_eq_mult take_bit_eq_mod word_unat_eq_iff unat_mod unat_word_ariths unat_of_nat)
  have "?x AND ?y = 0"
    by (subst x, subst y, rule bit_word_eqI) (auto simp: bit_simps)
  then have "?x OR ?y = ?x + ?y" using word_plus_and_or [of ?x ?y] by simp
  moreover have "unat (?x + ?y) = j * 0x40000000 + k * 32"
    using assms by (simp add: unat_word_ariths unat_of_nat)
  ultimately show ?thesis by simp
qed

lemma place_of_value:
  assumes "j < 4" and "k < n" and "n \<in> {128, 256, 512 :: nat}"
  shows "at_place n ((of_nat j * 0x40000000) OR (of_nat k * 32)) c a \<longleftrightarrow> way_of c a = Some j \<and> (unat a div 32) mod n = k"
proof -
  have k: "k < 512" using assms(2,3) by auto
  have "(j * 0x40000000 + k * 32) div 0x40000000 = j" "(j * 0x40000000 + k * 32) div 32 = j * 0x2000000 + k" using k by simp_all
  moreover have "(j * 0x2000000 + k) mod n = k"
  proof -
    have "n dvd j * 0x2000000" using assms(3) by (auto intro!: dvd_mult)
    then show ?thesis using assms(2) by (metis mod_add_left_eq add_0 mod_less dvd_imp_mod_0)
  qed
  ultimately show ?thesis unfolding at_place_def place_value [OF assms(1) k] by (simp only:)
qed

text \<open>Set/way operations on all places leave no line in the cache.\<close>

lemma all_places_empty:
  assumes ok: "dc_ok c" and n: "n \<in> {128, 256, 512}" and r: "r = XREG_CP15_INVAL_DC_LINE_SW \<or> r = XREG_CP15_CLEAN_INVAL_DC_LINE_SW"
  shows "way_of (dc_run n (concat (map (\<lambda>j. map (\<lambda>k. CpWrite r ((of_nat j * 0x40000000) OR (of_nat k * 32))) [0..<n]) [0..<4])) c) a = None"
proof (rule ccontr)
  let ?f = "\<lambda>j k. CpWrite r ((of_nat j * 0x40000000) OR (of_nat k * 32))"
  let ?l = "concat (map (\<lambda>j. map (?f j) [0..<n]) [0..<4])"
  let ?k = "(unat a div 32) mod n"
  assume *: "way_of (dc_run n ?l c) a \<noteq> None"
  then obtain j where w: "way_of c a = Some j" using dc_run_way [OF *] by auto
  have j: "j < 4" using ok w by (simp add: dc_ok_def)
  have k: "?k < n" using n by auto
  have "?f j ?k \<in> ?f j ` set [0..<n]" using k by (intro imageI) simp
  then have "?f j ?k \<in> set ?l" using j by auto
  then obtain l1 l2 where l: "?l = l1 @ ?f j ?k # l2" by (meson split_list)
  let ?c1 = "dc_run n l1 c"
  have "way_of (dc_run n l2 (dc_step n ?c1 (?f j ?k))) a \<noteq> None" using * unfolding l by simp
  from dc_run_way [OF this] this have s: "way_of (dc_step n ?c1 (?f j ?k)) a \<noteq> None" by simp
  with dc_step_way [OF s] have "way_of ?c1 a \<noteq> None" by simp
  with dc_run_way [OF this] w have "at_place n ((of_nat j * 0x40000000) OR (of_nat ?k * 32)) ?c1 a"
    unfolding place_of_value [OF j k n] by simp
  then have "way_of (dc_step n ?c1 (?f j ?k)) a = None" using r by (auto simp: maintain_def)
  with s show False by simp
qed

lemma flush_all:
  assumes g: "geometry n (size_id s 0)" and ok: "dc_ok c"
  shows "\<exists>s' l. Xil_L1DCacheFlush s = Some s' \<and> io_log s' = io_log s @ l \<and> cpsr s' = cpsr s \<and>
    ram (dc_run n l c) = cpu_sees c \<and> (\<forall>a. way_of (dc_run n l c) a = None)"
proof -
  let ?s = "s\<lparr>cpsr := cpsr s OR IRQ_FIQ_MASK\<rparr>" and ?r = "XREG_CP15_CLEAN_INVAL_DC_LINE_SW"
  let ?m = "concat (map (\<lambda>j. map (\<lambda>k. CpWrite ?r ((of_nat j * 0x40000000) OR (of_nat k * 32))) [0..<n]) [0..<4])"
  let ?l = "[CpWrite XREG_CP15_CACHE_SIZE_SEL 0] @ ?m @ [DSB]" and ?s' = "(all_lines ?r ?s)\<lparr>cpsr := cpsr s\<rparr>"
  have n: "n \<in> {128, 256, 512}" using g by (simp add: geometry_def)
  have log: "io_log ?s' = io_log s @ ?l" using all_lines_log(1) [of n ?s ?r] g by simp
  have "\<forall>e \<in> set ?l. cleaning e" by (auto simp: cleaning_def)
  from cleaning_run [OF this ok] have see: "cpu_sees (dc_run n ?l c) = cpu_sees c" by simp
  have w: "way_of (dc_run n ?l c) a = None" for a
    using all_places_empty [OF ok n, of ?r a] by simp
  then have "cpu_sees (dc_run n ?l c) = ram (dc_run n ?l c)" by (simp add: cpu_sees_def fun_eq_iff)
  with see w log show ?thesis
    by (intro exI [of _ ?s'] exI [of _ ?l]) (simp add: Xil_L1DCacheFlush_def irqs_off_def)
qed

section \<open>Ranges of lines\<close>

lemma unat_line: "unat (line_at x) = unat x div 32 * 32"
proof -
  have "line_at x = push_bit 5 (drop_bit 5 x)"
  proof (rule bit_word_eqI)
    fix n assume "n < LENGTH(32)"
    have "line_at x = x AND NOT (mask 5)" by (simp add: line_at_def mask_eq_exp_minus_1)
    then show "bit (line_at x) n = bit (push_bit 5 (drop_bit 5 x)) n"
      using \<open>n < LENGTH(32)\<close> by (auto simp: bit_simps)
  qed
  moreover have "unat x div 32 * 32 < 4294967296" using unat_u32_less [of x] by linarith
  ultimately show ?thesis
    by (simp add: push_bit_eq_mult drop_bit_eq_div unat_word_ariths unat_div)
qed

lemma line_eq: "line_at x = line_at y \<longleftrightarrow> unat x div 32 = unat y div 32"
  unfolding word_unat_eq_iff unat_line by simp

lemma line_aligned [simp]: "unat (line_at x) mod 32 = 0"
  by (simp add: unat_line)

text \<open>The lines from the aligned address \<open>a\<close> up to the address \<open>e\<close>.\<close>

definition lines_between :: "u32 \<Rightarrow> u32 \<Rightarrow> u32 list" where
  "lines_between a e = map (\<lambda>k. a + of_nat (32 * k)) [0..<(unat e - unat a + 31) div 32]"

lemma lines_step:
  assumes "a < e" and "unat e \<le> 4294967264" and "unat a mod 32 = 0"
  shows "lines_between a e = a # lines_between (a + 32) e" and "unat (a + 32) = unat a + 32"
proof -
  have ae: "unat a < unat e" using assms(1) by (simp add: word_less_nat_alt)
  with assms(2) show a': "unat (a + 32) = unat a + 32" by (simp add: unat_word_ariths)
  have d: "(unat e - unat a + 31) div 32 = Suc ((unat e - (unat a + 32) + 31) div 32)"
    using ae by (cases "unat a + 32 \<le> unat e") (simp_all add: div_if [of "unat e - unat a + 31"])
  show "lines_between a e = a # lines_between (a + 32) e"
    unfolding lines_between_def a' d map_upt_Suc by (simp add: algebra_simps)
qed

lemma lines_none: "\<not> a < e \<Longrightarrow> lines_between a e = []"
  by (simp add: lines_between_def word_less_nat_alt)

text \<open>When the end is not in the last line of the address space, the loop visits these lines and
  ends.\<close>

lemma line_loop_returns:
  "unat e \<le> 4294967264 \<Longrightarrow> unat a mod 32 = 0 \<Longrightarrow> line_loop f a e s = Some (fold f (lines_between a e) s)"
proof (induction "unat e - unat a" arbitrary: a s rule: less_induct)
  case less
  show ?case
  proof (cases "a < e")
    case True
    note st = lines_step [OF True less.prems]
    have "unat e - unat (a + 32) < unat e - unat a" using True st(2) by (simp add: word_less_nat_alt)
    moreover have "unat (a + 32) mod 32 = 0" using less.prems(2) unfolding st(2) by simp
    ultimately show ?thesis
      using less.hyps [of "a + 32"] less.prems(1) st(1) True by (subst line_loop.simps) simp
  qed (subst line_loop.simps, simp add: lines_none)
qed

text \<open>When it is, the address wraps around before it reaches the end, and the loop never ends.\<close>

lemma line_loop_hangs:
  fixes f :: "u32 \<Rightarrow> 'a cpu_scheme \<Rightarrow> 'a cpu_scheme"
  assumes "4294967264 < unat e" and "unat a mod 32 = 0"
  shows "line_loop f a e s = None"
proof -
  define P where "P = (\<lambda>(f :: u32 \<Rightarrow> 'a cpu_scheme \<Rightarrow> 'a cpu_scheme) (a :: u32) (e :: u32) (s :: 'a cpu_scheme) (s' :: 'a cpu_scheme).
    unat a mod 32 = 0 \<longrightarrow> unat e \<le> 4294967264)"
  have "P f a e s s'" if "line_loop f a e s = Some s'" for s'
  proof (rule line_loop.raw_induct [OF _ that])
    fix loop f a e and s s' :: "'a cpu_scheme"
    assume ih: "\<And>f a e s s'. loop f a e s = Some s' \<Longrightarrow> P f a e s s'"
      and run: "(if a < e then loop f (a + 32) e (f a s) else Some s) = Some s'"
    show "P f a e s s'"
    proof (cases "a < e")
      case True
      with run ih have "P f (a + 32) e (f a s) s'" by simp
      moreover have "unat (a + 32) mod 32 = unat a mod 32" by (simp add: unat_word_ariths mod_mod_cancel)
      ultimately show ?thesis by (simp add: P_def)
    next
      case False
      then have "unat e \<le> unat a" by (simp add: word_less_nat_alt)
      moreover have "unat a mod 32 = 0 \<longrightarrow> unat a \<le> 4294967264" using unat_u32_less [of a] by presburger
      ultimately show ?thesis by (auto simp: P_def)
    qed
  qed
  with assms show ?thesis by (cases "line_loop f a e s") (auto simp: P_def)
qed

lemma set_lines_between:
  assumes "unat e \<le> 4294967264" and "unat a mod 32 = 0"
  shows "b \<in> set (lines_between a e) \<longleftrightarrow> unat b mod 32 = 0 \<and> unat a \<le> unat b \<and> unat b < unat e"
  using assms
proof (induction "unat e - unat a" arbitrary: a rule: less_induct)
  case less
  show ?case
  proof (cases "a < e")
    case True
    note st = lines_step [OF True less.prems]
    have ae: "unat a < unat e" using True by (simp add: word_less_nat_alt)
    have "unat (a + 32) mod 32 = 0" using less.prems(2) unfolding st(2) by simp
    with less.hyps [of "a + 32"] less.prems(1) ae st(2)
    have "b \<in> set (lines_between (a + 32) e) \<longleftrightarrow> unat b mod 32 = 0 \<and> unat a + 32 \<le> unat b \<and> unat b < unat e" by simp
    moreover have "b = a \<longleftrightarrow> unat b = unat a" by (simp add: word_unat_eq_iff)
    moreover have "unat b mod 32 = 0 \<and> unat a \<le> unat b \<longleftrightarrow> unat b = unat a \<or> unat b mod 32 = 0 \<and> unat a + 32 \<le> unat b"
      using less.prems(2) by presburger
    ultimately show ?thesis using ae unfolding st(1) by auto
  qed (auto simp: lines_none word_less_nat_alt)
qed

text \<open>The lines of a range that does not reach the last line of the address space.\<close>

lemma range_lines:
  assumes "unat adr + unat len \<le> 4294967264" and "len \<noteq> 0"
  shows "line_at x \<in> set (lines_between (line_at adr) (adr + len)) \<longleftrightarrow>
    (\<exists>y. line_at y = line_at x \<and> unat adr \<le> unat y \<and> unat y < unat adr + unat len)"
proof -
  have e: "unat (adr + len) = unat adr + unat len" using assms(1) by (simp add: unat_word_ariths)
  have len: "0 < unat len" using assms(2) by (simp add: unat_gt_0)
  have "line_at x \<in> set (lines_between (line_at adr) (adr + len)) \<longleftrightarrow>
      unat adr div 32 \<le> unat x div 32 \<and> unat x div 32 * 32 < unat adr + unat len"
    using set_lines_between [of "adr + len" "line_at adr" "line_at x"] assms(1) by (simp add: e unat_line)
  also have "\<dots> \<longleftrightarrow> (\<exists>y. line_at y = line_at x \<and> unat adr \<le> unat y \<and> unat y < unat adr + unat len)" (is "?l \<longleftrightarrow> ?r")
  proof
    assume l: ?l
    show ?r
    proof (cases "unat adr \<le> unat (line_at x)")
      case True
      with l show ?thesis by (intro exI [of _ "line_at x"]) (simp add: line_eq unat_line)
    next
      case False
      then have "unat x div 32 * 32 < unat adr" by (simp add: unat_line)
      then have "unat x div 32 \<le> unat adr div 32" by (metis div_le_mono less_imp_le nonzero_mult_div_cancel_right zero_neq_numeral)
      with l have "unat adr div 32 = unat x div 32" by simp
      with len show ?thesis by (intro exI [of _ adr]) (simp add: line_eq)
    qed
  next
    assume ?r
    then obtain y :: u32 where "unat y div 32 = unat x div 32" "unat adr \<le> unat y" "unat y < unat adr + unat len"
      by (auto simp: line_eq)
    moreover from this have "unat adr div 32 \<le> unat y div 32" "unat y div 32 * 32 \<le> unat y" by (simp_all add: div_le_mono)
    ultimately show ?l by linarith
  qed
  finally show ?thesis .
qed

text \<open>Once dropped, a line stays out of the cache.\<close>

lemma dropped:
  assumes "CpWrite r v \<in> set l" and "line_at v = line_at x"
    and "r = XREG_CP15_INVAL_DC_LINE_MVA_POC \<or> r = XREG_CP15_CLEAN_INVAL_DC_LINE_MVA_POC"
  shows "way_of (dc_run n l c) (line_at x) = None"
proof (rule ccontr)
  assume *: "way_of (dc_run n l c) (line_at x) \<noteq> None"
  from assms(1) obtain l1 l2 where l: "l = l1 @ CpWrite r v # l2" by (meson split_list)
  let ?c = "dc_step n (dc_run n l1 c) (CpWrite r v)"
  have "way_of (dc_run n l2 ?c) (line_at x) \<noteq> None" using * unfolding l by simp
  from dc_run_way [OF this] this have "way_of ?c (line_at x) \<noteq> None" by simp
  then show False using assms(2,3) by (auto simp: maintain_def)
qed

text \<open>Bytes of lines that are not dropped uncleaned keep what the processor sees.\<close>

lemma spared:
  "\<forall>e \<in> set l. cleaning e \<or> (\<exists>v. e = CpWrite XREG_CP15_INVAL_DC_LINE_MVA_POC v \<and> line_at v \<noteq> line_at x) \<Longrightarrow> dc_ok c \<Longrightarrow>
   cpu_sees (dc_run n l c) x = cpu_sees c x"
proof (induction l arbitrary: c)
  case (Cons e l)
  have "cpu_sees (dc_step n c e) x = cpu_sees c x"
  proof (cases "cleaning e")
    case True
    with cleaning_step [OF True Cons.prems(2), of n] show ?thesis by simp
  next
    case False
    with Cons.prems(1) obtain v where "e = CpWrite XREG_CP15_INVAL_DC_LINE_MVA_POC v" "line_at v \<noteq> line_at x" by auto
    then show ?thesis using maintain_drop(2) [OF Cons.prems(2), of "\<lambda>a. a = line_at v" x] by auto
  qed
  with Cons dc_step_ok [OF Cons.prems(2)] show ?case by simp
qed simp

text \<open>Loops whose body appends to the record.\<close>

lemma fold_log:
  assumes "\<And>a t. io_log (f a t) = io_log t @ g a" and "\<And>a t. cpsr (f a t) = cpsr t"
  shows "io_log (fold f as s) = io_log s @ concat (map g as) \<and> cpsr (fold f as s) = cpsr s"
  by (induction as arbitrary: s) (simp_all add: assms)

text \<open>Invalidating a range.\<close>

lemma offset_in_line: "unat ((x :: u32) AND 31) = unat x mod 32"
proof -
  have "x AND 31 = take_bit 5 x" by (simp add: take_bit_eq_mask mask_eq_exp_minus_1)
  then have "x AND 31 = x mod 32" by (simp add: take_bit_eq_mod)
  then show ?thesis by (simp add: unat_mod)
qed

definition end_log :: "u32 \<Rightarrow> io_event list" where
  "end_log a = [CpWrite XREG_CP15_CACHE_SIZE_SEL 0, CpWrite XREG_CP15_CLEAN_INVAL_DC_LINE_MVA_POC (line_at a), DSB,
     IoWrite 0xF8F02F40 3, IoWrite 0xF8F027B0 a, IoWrite 0xF8F02770 a, DSB, IoWrite 0xF8F02F40 0, IoWrite 0xF8F02740 0]"

lemma flush_end_log: "io_log (flush_end a s) = io_log s @ end_log a" "cpsr (flush_end a s) = cpsr s"
  by (simp_all add: flush_end_def Xil_L2CacheSync_def Xil_L2WriteDebugCtrl_def Xil_L2CacheFlushLine_def
      Xil_L1DCacheFlushLine_def L1_line_def end_log_def line_at_def)

text \<open>The first line that lies in the range as a whole.\<close>

definition first_whole :: "u32 \<Rightarrow> u32" where
  "first_whole adr = (if unat adr mod 32 = 0 then adr else line_at adr + 32)"

lemma first_whole:
  assumes "unat adr \<le> 4294967264"
  shows "unat (first_whole adr) = (if unat adr mod 32 = 0 then unat adr else unat adr div 32 * 32 + 32)"
    and "unat (first_whole adr) mod 32 = 0" and "unat adr \<le> unat (first_whole adr)"
proof -
  have dm: "unat adr = unat adr div 32 * 32 + unat adr mod 32" "unat adr mod 32 < 32" by simp_all
  have "unat (line_at adr + 32) = unat adr div 32 * 32 + 32" if "unat adr mod 32 \<noteq> 0"
  proof -
    have "unat adr div 32 * 32 + 32 < 4294967296" using assms that dm by linarith
    then show ?thesis by (simp add: unat_word_ariths unat_line)
  qed
  then show eq: "unat (first_whole adr) = (if unat adr mod 32 = 0 then unat adr else unat adr div 32 * 32 + 32)"
    by (simp add: first_whole_def)
  then show "unat (first_whole adr) mod 32 = 0" by simp
  have "unat adr \<le> unat adr div 32 * 32 + 32" using dm by linarith
  then show "unat adr \<le> unat (first_whole adr)" unfolding eq by simp
qed

lemma invalidate_range_log:
  fixes s :: "'a cpu_scheme"
  assumes "len \<noteq> 0" and "unat adr + unat len \<le> 4294967264"
  shows "\<exists>s'. Xil_DCacheInvalidateRange adr len s = Some s' \<and> cpsr s' = cpsr s \<and> io_log s' = io_log s @
    [CpWrite XREG_CP15_CACHE_SIZE_SEL 0] @ (if unat adr mod 32 \<noteq> 0 then end_log (line_at adr) else []) @
    (if unat (adr + len) mod 32 \<noteq> 0 then end_log (line_at (adr + len)) else []) @
    concat (map (\<lambda>a. [IoWrite 0xF8F02770 a, DSB, CpWrite XREG_CP15_INVAL_DC_LINE_MVA_POC a])
      (lines_between (first_whole adr) (line_at (adr + len)))) @ [DSB]"
proof -
  let ?f = "\<lambda>a (s :: 'a cpu_scheme). mtcp XREG_CP15_INVAL_DC_LINE_MVA_POC a
      (dsb (Xil_Out32 (XPS_L2CC_BASEADDR + XPS_L2CC_CACHE_INVLD_PA_OFFSET) a s))"
  let ?g = "\<lambda>a. [IoWrite 0xF8F02770 a, DSB, CpWrite XREG_CP15_INVAL_DC_LINE_MVA_POC a]"
  let ?s0 = "mtcp XREG_CP15_CACHE_SIZE_SEL 0 (s\<lparr>cpsr := cpsr s OR IRQ_FIQ_MASK\<rparr>)" and ?e = "adr + len"
  let ?s1 = "if unat adr mod 32 \<noteq> 0 then flush_end (line_at adr) ?s0 else ?s0"
  let ?s2 = "if unat ?e mod 32 \<noteq> 0 then flush_end (line_at ?e) ?s1 else ?s1"
  let ?as = "lines_between (first_whole adr) (line_at ?e)"
  let ?s' = "(dsb (fold ?f ?as ?s2))\<lparr>cpsr := cpsr s\<rparr>"
  have e: "unat ?e = unat adr + unat len" using assms(2) by (simp add: unat_word_ariths)
  have off: "adr AND 31 \<noteq> 0 \<longleftrightarrow> unat adr mod 32 \<noteq> 0" "?e AND 31 \<noteq> 0 \<longleftrightarrow> unat ?e mod 32 \<noteq> 0"
    by (simp_all add: offset_in_line [symmetric] unat_eq_0)
  have le: "unat adr \<le> 4294967264" "unat (line_at ?e) \<le> 4294967264" using assms(2) e by (simp_all add: unat_line)
  have l: "?e = line_at ?e" if "unat ?e mod 32 = 0" using that by (auto simp: word_unat_eq_iff unat_line)
  have a: "(if adr AND 31 \<noteq> 0 then ((adr AND NOT 31) + 32, flush_end (adr AND NOT 31) ?s0) else (adr, ?s0)) = (first_whole adr, ?s1)"
    unfolding off line_at_def [symmetric] first_whole_def by (cases "unat adr mod 32 = 0") (simp_all split: if_splits)
  have b: "(if ?e AND 31 \<noteq> 0 then (?e AND NOT 31, flush_end (?e AND NOT 31) ?s1) else (?e, ?s1)) = (line_at ?e, ?s2)"
    unfolding off line_at_def [symmetric] by (cases "unat ?e mod 32 = 0") (use l in \<open>auto split: if_splits\<close>)
  have "Xil_DCacheInvalidateRange adr len s = Some ?s'"
    using line_loop_returns [OF le(2) first_whole(2) [OF le(1)], of ?f ?s2] assms(1)
    unfolding Xil_DCacheInvalidateRange_def irqs_off_def Let_def a case_prod_conv b by simp
  moreover have "io_log ?s2 = io_log s @ [CpWrite XREG_CP15_CACHE_SIZE_SEL 0] @
      (if unat adr mod 32 \<noteq> 0 then end_log (line_at adr) else []) @ (if unat ?e mod 32 \<noteq> 0 then end_log (line_at ?e) else [])"
    by (simp add: flush_end_log)
  ultimately show ?thesis using fold_log [of ?f ?g ?as ?s2] by (intro exI [of _ ?s']) simp
qed

section \<open>An example\<close>

text \<open>The processor of the board, with 256 sets, and a cache with one dirty line.\<close>

definition cpu_demo :: cpu where
  "cpu_demo = \<lparr>mem = (\<lambda>_. 0), io_tape = [], io_log = [], tlb = (\<lambda>_. 0), XExc_VectorTable = exc_table_init, cpsr = 0x13,
     sys_control = 5, size_sel = 0, size_id = (\<lambda>_. 0x701FE019)\<rparr>"

definition dcache_demo :: dcache where
  "dcache_demo = \<lparr>way_of = (\<lambda>_. None)(0x100000 := Some 2), dirty = (\<lambda>a. a = 0x100000), cdata = (\<lambda>_. 0xAA), ram = (\<lambda>_. 0)\<rparr>"

lemma demo_ok:
  "geometry 256 (size_id cpu_demo 0)" "dc_ok dcache_demo"
  "cpu_sees dcache_demo 0x100004 = 0xAA" "cpu_sees dcache_demo 0x100010 = 0xAA"
  "io_log cpu_demo = []"
proof -
  have "line_at 0x100004 = 0x100000" "line_at 0x100010 = 0x100000" by (simp_all add: line_at_def)
  then show "cpu_sees dcache_demo 0x100004 = 0xAA" "cpu_sees dcache_demo 0x100010 = 0xAA"
    by (simp_all add: cpu_sees_def dcache_demo_def)
  show "geometry 256 (size_id cpu_demo 0)" by (simp add: geometry_def cpu_demo_def drop_bit_eq_div)
  show "io_log cpu_demo = []" by (simp add: cpu_demo_def)
  show "dc_ok dcache_demo" by (simp add: dc_ok_def dcache_demo_def)
qed

section \<open>The translation table\<close>

text \<open>For the table the maintenance makes no difference, so the firmware may be modelled without it.\<close>

lemma mtcp_keeps: "tlb (mtcp r v s) = tlb s" "mem (mtcp r v s) = mem s"
  by (simp_all add: mtcp_def emit_def split: cp_reg.split)

lemma barrier_keeps: "tlb (dsb s) = tlb s" "mem (dsb s) = mem s" "tlb (isb s) = tlb s" "mem (isb s) = mem s"
  by (simp_all add: dsb_def isb_def emit_def)

lemma set_loop_keeps: "tlb (set_loop r st w n x s) = tlb s \<and> mem (set_loop r st w n x s) = mem s"
  by (induction n arbitrary: x s) (simp_all add: mtcp_keeps)

lemma way_loop_keeps: "tlb (way_loop r st m n w s) = tlb s \<and> mem (way_loop r st m n w s) = mem s"
  by (induction n arbitrary: w s) (simp_all add: set_loop_keeps)

lemma set_tlb_whole:
  "\<exists>s'. SetTlbAttributes_whole True a v s = Some s' \<and> tlb s' = tlb (Xil_SetTlbAttributes a v s) \<and> mem s' = mem s"
  by (simp add: SetTlbAttributes_whole_def Xil_L1DCacheFlush_def irqs_off_def all_lines_def Let_def mtcp_keeps barrier_keeps
      way_loop_keeps)

section \<open>Properties\<close>

text \<open>C33: The firmware flushes the first level cache before it kicks the kernel. After
  \<open>Xil_L1DCacheFlush\<close>, whatever was in the cache, memory holds for every address what the
  processor saw there before, no line is left in the cache, and the interrupt mask is as before.\<close>

theorem flush_reaches_memory:
  assumes "geometry n (size_id s 0)" and "dc_ok c"
  shows "\<exists>s' l. Xil_L1DCacheFlush s = Some s' \<and> io_log s' = io_log s @ l \<and> cpsr s' = cpsr s \<and>
    ram (dc_run n l c) = cpu_sees c \<and> (\<forall>a. way_of (dc_run n l c) a = None)"
  by (rule flush_all [OF assms])

lemma flush_reaches_memory_witness:
  "\<exists>s' l. Xil_L1DCacheFlush cpu_demo = Some s' \<and> io_log s' = l \<and> ram (dc_run 256 l dcache_demo) 0x100004 = 0xAA"
proof -
  from flush_reaches_memory [OF demo_ok(1,2)] obtain s' l where
    "Xil_L1DCacheFlush cpu_demo = Some s'" "io_log s' = io_log cpu_demo @ l" "ram (dc_run 256 l dcache_demo) = cpu_sees dcache_demo"
    by blast
  then show ?thesis using demo_ok(3,5) by auto
qed





end
