(* ===== verification/XilPrintf.thy ===== *)
theory XilPrintf
  imports FwMain
begin

text \<open>
  The small printf of the board support package (bsp/cortexa9/xil_printf.c, print.c, putnum.c). Its
  output goes byte by byte to \<open>outbyte\<close>, which the firmware defines in main.c, so this theory is
  about the composition: a formatted text arrives at \<open>_write\<close>. Arguments are integers or C strings; an
  argument of the other kind, or none, has no value, and neither has a step beyond the terminating zero of
  the format. \<open>long\<close> has 32 bits. \<open>STDOUT_BASEADDRESS\<close> is defined, as in xparameters.h.
\<close>

section \<open>Output\<close>

primrec outbytes :: "u8 list \<Rightarrow> 'a board_scheme \<Rightarrow> 'a board_scheme option" where
  "outbytes [] s = Some s"
| "outbytes (b # bs) s = outbyte b s \<bind> outbytes bs"

lemma outbytes_Nil: "outbytes [] = Some"
  by (rule ext) simp

lemma outbytes_append: "outbytes (bs @ cs) s = outbytes bs s \<bind> outbytes cs"
  by (induction bs arbitrary: s) (auto split: Option.bind_splits)

text \<open>print.c.\<close>

definition print :: "u8 list \<Rightarrow> 'a board_scheme \<Rightarrow> 'a board_scheme option" where
  "print txt s = outbytes txt s"

text \<open>putnum.c: eight hexadecimal digits.\<close>

definition putnum :: "u32 \<Rightarrow> 'a board_scheme \<Rightarrow> 'a board_scheme option" where
  "putnum num s = print (map (\<lambda>cnt. let digit = drop_bit (cnt * 4) num AND 0xF
     in if digit \<le> 9 then ucast (48 + digit) else ucast (97 - 10 + digit)) (rev [0..<8])) s"

section \<open>Fields\<close>

record params =
  len :: s32
  num1 :: s32
  num2 :: s32
  pad_character :: u8
  do_padding :: bool
  left_flag :: bool

definition padding :: "bool \<Rightarrow> params \<Rightarrow> 'a board_scheme \<Rightarrow> 'a board_scheme option" where
  "padding l_flag par s = (if do_padding par \<and> l_flag \<and> len par <s num1 par
     then outbytes (replicate (nat (sint (num1 par) - sint (len par))) (pad_character par)) s else Some s)"

text \<open>\<open>while (*lp && (par->num2)--) outbyte(*lp++);\<close>\<close>

fun put_str :: "u8 list \<Rightarrow> s32 \<Rightarrow> 'a board_scheme \<Rightarrow> 'a board_scheme option" where
  "put_str [] n s = Some s"
| "put_str (c # cs) n s = (if n = 0 then Some s else outbyte c s \<bind> put_str cs (n - 1))"

definition outs :: "u8 list \<Rightarrow> params \<Rightarrow> 'a board_scheme \<Rightarrow> 'a board_scheme option" where
  "outs lp par0 s = (let par = par0\<lparr>len := of_nat (length lp)\<rparr> in do {
     s1 \<leftarrow> padding (\<not> left_flag par) par s;
     s2 \<leftarrow> put_str lp (num2 par) s1;
     padding (left_flag par) par s2
   })"

text \<open>The digits of a number, last digit first. The base is not checked.\<close>

definition digits :: "u8 list" where
  "digits = cstr ''0123456789ABCDEF''"

partial_function (option) num_loop :: "u32 \<Rightarrow> u32 \<Rightarrow> u8 list option" where
  "num_loop num base = (if base = 0 then None else do {
     d \<leftarrow> aget digits (unat (num mod base));
     if num div base > 0 then do { ds \<leftarrow> num_loop (num div base) base; Some (d # ds) } else Some [d]
   })"

text \<open>\<open>outbuf\<close> has 32 bytes, and the text in it ends with a zero.\<close>

definition outnum :: "s32 \<Rightarrow> s32 \<Rightarrow> params \<Rightarrow> 'a board_scheme \<Rightarrow> 'a board_scheme option" where
  "outnum n base par0 s = (let negative = (base = 10 \<and> n <s 0); num = (if negative then - n else n) in do {
     ds \<leftarrow> num_loop num base;
     let outbuf = ds @ (if negative then [45] else []);
     let par = par0\<lparr>len := of_nat (length outbuf)\<rparr>;
     if length outbuf + 1 > 32 then None else do {
       s1 \<leftarrow> padding (\<not> left_flag par) par s;
       s2 \<leftarrow> outbytes (rev outbuf) s1;
       padding (left_flag par) par s2
     }
   })"

section \<open>The format\<close>

definition isdigit :: "u8 \<Rightarrow> bool" where
  "isdigit c \<longleftrightarrow> 48 \<le> c \<and> c \<le> 57"

definition tolower :: "u8 \<Rightarrow> u8" where
  "tolower c = (if 65 \<le> c \<and> c \<le> 90 then c + 32 else c)"

text \<open>\<open>getnum\<close>: the number, and the format from the first byte that is no digit.\<close>

definition getnum :: "u8 list \<Rightarrow> s32 \<times> u8 list" where
  "getnum cp = (foldl (\<lambda>n c. n * 10 + (ucast c - 48)) 0 (takeWhile isdigit cp), dropWhile isdigit cp)"

datatype arg = ArgInt s32 | ArgStr "u8 list"

text \<open>Where the scan of the format is: in plain text, or behind a percent sign with the flags so far.\<close>

datatype scan = Plain | Conv (par: params) (dot_flag: bool) (long_flag: bool)

definition start_conv :: scan where
  "start_conv = Conv \<lparr>len = 0, num1 = 0, num2 = 32767, pad_character = 32, do_padding = False, left_flag = False\<rparr> False False"

text \<open>The loop over the format. \<open>ctrl\<close> is the rest of the format with its terminating zero; in plain
  text its first byte is \<open>*ctrl\<close>, behind a percent sign it is \<open>*(++ctrl)\<close>.\<close>

function print_fmt :: "scan \<Rightarrow> u8 list \<Rightarrow> arg list \<Rightarrow> 'a board_scheme \<Rightarrow> 'a board_scheme option" where
  "print_fmt m [] args s = None"
| "print_fmt Plain (c # ctrl) args s =
     (if c = 0 then Some s
      else if c \<noteq> 37 then outbyte c s \<bind> print_fmt Plain ctrl args
      else print_fmt start_conv ctrl args s)"
| "print_fmt (Conv p dot lng) (ch # ctrl) args s =
     (if isdigit ch then
        (let (n, rest) = getnum (ch # ctrl)
         in if dot then print_fmt (Conv (p\<lparr>num2 := n\<rparr>) dot lng) rest args s
            else print_fmt (Conv (p\<lparr>num1 := n, do_padding := True,
                   pad_character := (if ch = 48 then 48 else pad_character p)\<rparr>) dot lng) rest args s)
      else let c = tolower ch
        in if c = 37 then outbyte 37 s \<bind> print_fmt Plain ctrl args
           else if c = 45 then print_fmt (Conv (p\<lparr>left_flag := True\<rparr>) dot lng) ctrl args s
           else if c = 46 then print_fmt (Conv p True lng) ctrl args s
           else if c = 108 then print_fmt (Conv p dot True) ctrl args s
           else if c = 100 then (case args of ArgInt n # as \<Rightarrow> outnum n 10 p s \<bind> print_fmt Plain ctrl as | _ \<Rightarrow> None)
           else if c = 120 then (case args of ArgInt n # as \<Rightarrow> outnum n 16 p s \<bind> print_fmt Plain ctrl as | _ \<Rightarrow> None)
           else if c = 115 then (case args of ArgStr t # as \<Rightarrow> outs t p s \<bind> print_fmt Plain ctrl as | _ \<Rightarrow> None)
           else if c = 99 then (case args of ArgInt n # as \<Rightarrow> outbyte (ucast n) s \<bind> print_fmt Plain ctrl as | _ \<Rightarrow> None)
           else if c = 92 then outbyte ch s \<bind> print_fmt (Conv p dot lng) (tl ctrl) args
           else print_fmt Plain ctrl args s)"
  by pat_completeness auto

lemma getnum_shorter: "isdigit c \<Longrightarrow> length (snd (getnum (c # cs))) < Suc (length cs)"
  using length_dropWhile_le [of isdigit cs] by (simp add: getnum_def)

termination print_fmt
proof (relation "measure (\<lambda>(m, ctrl, args, s). length ctrl)", goal_cases)
  case (4 p dot lng ch ctrl args s x n rest)
  then show ?case using getnum_shorter [of ch ctrl] by (metis (no_types, lifting) case_prod_conv in_measure length_Cons snd_conv)
next
  case (5 p dot lng ch ctrl args s x n rest)
  then show ?case using getnum_shorter [of ch ctrl] by (metis (no_types, lifting) case_prod_conv in_measure length_Cons snd_conv)
qed auto

definition xil_printf :: "u8 list \<Rightarrow> arg list \<Rightarrow> 'a board_scheme \<Rightarrow> 'a board_scheme option" where
  "xil_printf ctrl args s = print_fmt Plain (ctrl @ [0]) args s"

section \<open>Numbers\<close>

lemma outbyte_returns: "\<exists>s'. outbyte b s = Some s'"
  by (simp add: outbyte_def write_fd_def Let_def split: prod.split)

lemma outbytes_returns: "\<exists>s'. outbytes bs s = Some s'"
proof (induction bs arbitrary: s)
  case (Cons b bs)
  obtain s1 where "outbyte b s = Some s1" using outbyte_returns by blast
  with Cons [of s1] show ?case by simp
qed simp

text \<open>Upper case hexadecimal, what a base of 16 gives.\<close>

definition HEX_byte :: "nat \<Rightarrow> u8" where
  "HEX_byte d = of_nat (if d < 10 then 48 + d else 55 + d)"

definition hexupper :: "u32 \<Rightarrow> u8 list" where
  "hexupper w = map HEX_byte (digits16 (unat w))"

lemma digits_at:
  assumes "d < 16"
  shows "aget digits d = Some (HEX_byte d)"
proof -
  have "digits = map HEX_byte [0..<16]" by (simp add: digits_def cstr_def HEX_byte_def upt_rec)
  moreover have "length (map HEX_byte [0..<16]) = 16" "map HEX_byte [0..<16] ! d = HEX_byte d"
    using assms by (simp_all del: upt_rec_numeral)
  ultimately show ?thesis using assms by (simp only: aget_def if_True)
qed

text \<open>The loop gives the digits of a positional notation, last digit first.\<close>

lemma num_loop_digits:
  fixes base :: u32
  assumes "2 \<le> unat base" and dg: "\<And>n. dg n = (if n < unat base then [n] else dg (n div unat base) @ [n mod unat base])"
    and f: "\<And>d. d < unat base \<Longrightarrow> aget digits d = Some (f d)"
  shows "num_loop num base = Some (rev (map f (dg (unat num))))"
proof (induction "unat num" arbitrary: num rule: less_induct)
  case less
  have m: "unat (num mod base) = unat num mod unat base" "unat (num div base) = unat num div unat base"
    by (simp_all add: unat_mod unat_div)
  have d: "aget digits (unat num mod unat base) = Some (f (unat num mod unat base))" and b: "base \<noteq> 0"
    using assms(1) f by auto
  show ?case
  proof (cases "unat num < unat base")
    case True
    then have "num div base = 0" using m(2) by (simp add: unat_eq_0 [symmetric] del: unat_eq_0)
    with True m d b show ?thesis by (subst num_loop.simps) (simp add: dg [of "unat num"])
  next
    case False
    then have "0 < unat num div unat base" "unat num div unat base < unat num"
      using assms(1) by (auto simp: div_greater_zero_iff intro!: div_less_dividend)
    then have "unat (num div base) < unat num" "num div base > 0"
      using m(2) by (simp_all add: word_gt_0 unat_eq_0 [symmetric] del: unat_eq_0)
    with less(1) [OF this(1)] m d b False show ?thesis
      by (subst num_loop.simps) (simp add: dg [of "unat num"])
  qed
qed

lemma num_loop_dec: "num_loop num 10 = Some (rev (map digit_byte (digits10 (unat num))))"
proof (rule num_loop_digits)
  show "digits10 n = (if n < unat (10::u32) then [n] else digits10 (n div unat (10::u32)) @ [n mod unat (10::u32)])" for n
    by (subst digits10.simps) simp
qed (simp_all add: digits_at HEX_byte_def digit_byte_def)

lemma num_loop_hex: "num_loop num 16 = Some (rev (hexupper num))"
  unfolding hexupper_def
proof (rule num_loop_digits)
  show "digits16 n = (if n < unat (16::u32) then [n] else digits16 (n div unat (16::u32)) @ [n mod unat (16::u32)])" for n
    by (subst digits16.simps) simp
qed (simp_all add: digits_at)

lemma length_digits16: "n < 16 ^ Suc k \<Longrightarrow> length (digits16 n) \<le> Suc k"
proof (induction k arbitrary: n)
  case 0
  then show ?case by (subst digits16.simps) simp
next
  case (Suc k)
  then have "n div 16 < 16 ^ Suc k" by (simp add: less_mult_imp_div_less mult.commute)
  with Suc.IH show ?case by (subst digits16.simps) simp
qed

text \<open>A field: the text, filled up to the width on the side that the flag names.\<close>

definition field :: "params \<Rightarrow> u8 list \<Rightarrow> u8 list" where
  "field p t = (let fill = (if do_padding p then replicate (nat (sint (num1 p)) - length t) (pad_character p) else [])
     in if left_flag p then t @ fill else fill @ t)"

lemma padding_field:
  assumes "length t < 2 ^ 31"
  shows "padding b (p\<lparr>len := of_nat (length t)\<rparr>) =
    outbytes (if do_padding p \<and> b then replicate (nat (sint (num1 p)) - length t) (pad_character p) else [])"
proof -
  have "sint (of_nat (length t) :: s32) = int (length t)"
    using assms by (simp add: signed_of_nat signed_take_bit_int_eq_self)
  then show ?thesis
    by (auto simp: padding_def word_sless_alt nat_diff_distrib' fun_eq_iff split: if_splits)
qed

text \<open>A number as text, with its sign in front, in the buffer and in the field.\<close>

lemma outnum_field:
  assumes "num_loop (if base = 10 \<and> n <s 0 then - n else n) base = Some (rev ds)"
    and t: "t = (if base = 10 \<and> n <s 0 then [45] else []) @ ds" and "length t < 32"
  shows "outnum n base p s = outbytes (field p t) s"
proof -
  have "outnum n base p s = padding (\<not> left_flag p) (p\<lparr>len := of_nat (length t)\<rparr>) s \<bind> (\<lambda>s1.
      outbytes t s1 \<bind> padding (left_flag p) (p\<lparr>len := of_nat (length t)\<rparr>))"
    using assms by (simp add: outnum_def Let_def add.commute)
  also have "\<dots> = outbytes (field p t) s"
    using assms(3) by (simp add: padding_field field_def outbytes_append outbytes_Nil Let_def)
  finally show ?thesis .
qed

lemma outnum_dec: "outnum n 10 p s = outbytes (field p (dec (sint n))) s"
proof (rule outnum_field)
  let ?u = "if n <s 0 then - n else n"
  have u: "unat ?u = nat \<bar>sint n\<bar>"
  proof (cases "sint n < 0")
    case True
    have "- n = word_of_int (- sint n)" by simp
    then have "uint (- n) = - sint n"
      using True sint_s32_bounds [of n] by (simp only: uint_word_of_int) simp
    with True show ?thesis by (simp add: word_sless_alt unat_eq_nat_uint)
  next
    case False
    then have "uint n = sint n"
      using sint_s32_bounds [of n] uint_word_of_int [of "sint n", where 'a = 32] by simp
    with False show ?thesis by (simp add: word_sless_alt unat_eq_nat_uint)
  qed
  show "num_loop (if (10::s32) = 10 \<and> n <s 0 then - n else n) 10 = Some (rev (map digit_byte (digits10 (nat \<bar>sint n\<bar>))))"
    using u by (simp add: num_loop_dec)
  show "dec (sint n) = (if (10::s32) = 10 \<and> n <s 0 then [45] else []) @ map digit_byte (digits10 (nat \<bar>sint n\<bar>))"
    by (simp add: dec_def word_sless_alt)
  show "length (dec (sint n)) < 32" using length_dec_s32 [of n] by simp
qed

lemma outnum_hex: "outnum n 16 p s = outbytes (field p (hexupper n)) s"
proof (rule outnum_field)
  have "unat n < 16 ^ Suc 7" using unsigned_less [of n, where 'a = nat] by simp
  from length_digits16 [OF this] show "length (hexupper n) < 32" by (simp add: hexupper_def)
qed (simp_all add: num_loop_hex)

section \<open>What a format means\<close>

lemma put_str_take: "put_str t n s = outbytes (take (unat n) t) s"
proof (induction t n s rule: put_str.induct)
  case (2 c cs n s)
  show ?case
  proof (cases "n = 0")
    case False
    then have "unat n = Suc (unat (n - 1))" by (metis Suc_pred' unat_gt_0 unat_minus_one)
    moreover obtain s1 where "outbyte c s = Some s1" using outbyte_returns by blast
    ultimately show ?thesis using False 2 by simp
  qed simp
qed simp

text \<open>A format is a sequence of pieces: plain text, \<open>%%\<close>, and conversions with their flags, width and
  precision, each with the argument it prints.\<close>

record fspec =
  left :: bool
  zero :: bool
  width :: "nat option"

datatype piece = Text "u8 list" | Percent | Dec bool fspec s32 | Hex fspec s32
  | Str fspec "nat option" "u8 list" | Chr s32

definition num_text :: "nat \<Rightarrow> u8 list" where
  "num_text n = map digit_byte (digits10 n)"

definition spec_text :: "fspec \<Rightarrow> u8 list" where
  "spec_text f = (if left f then [45] else []) @ (case width f of None \<Rightarrow> []
     | Some w \<Rightarrow> (if zero f then [48] else []) @ num_text w)"

primrec piece_text :: "piece \<Rightarrow> u8 list" where
  "piece_text (Text t) = t"
| "piece_text Percent = [37, 37]"
| "piece_text (Dec lng f n) = [37] @ spec_text f @ (if lng then [108] else []) @ [100]"
| "piece_text (Hex f n) = [37] @ spec_text f @ [120]"
| "piece_text (Str f pr t) = [37] @ spec_text f @ (case pr of None \<Rightarrow> [] | Some k \<Rightarrow> [46] @ num_text k) @ [115]"
| "piece_text (Chr n) = [37, 99]"

primrec piece_args :: "piece \<Rightarrow> arg list" where
  "piece_args (Text t) = []"
| "piece_args Percent = []"
| "piece_args (Dec lng f n) = [ArgInt n]"
| "piece_args (Hex f n) = [ArgInt n]"
| "piece_args (Str f pr t) = [ArgStr t]"
| "piece_args (Chr n) = [ArgInt n]"

text \<open>A field is filled up to its width: \<open>k\<close> is the length that counts, \<open>t\<close> the text.\<close>

definition filled :: "fspec \<Rightarrow> nat \<Rightarrow> u8 list \<Rightarrow> u8 list" where
  "filled f k t = (let fill = (case width f of None \<Rightarrow> [] | Some w \<Rightarrow> replicate (w - k) (if zero f then 48 else 32))
     in if left f then t @ fill else fill @ t)"

text \<open>A precision shortens a string, but the field is filled as if the string were whole.\<close>

primrec printed :: "piece \<Rightarrow> u8 list" where
  "printed (Text t) = t"
| "printed Percent = [37]"
| "printed (Dec lng f n) = filled f (length (dec (sint n))) (dec (sint n))"
| "printed (Hex f n) = filled f (length (hexupper n)) (hexupper n)"
| "printed (Str f pr t) = filled f (length t) (case pr of None \<Rightarrow> take 32767 t | Some k \<Rightarrow> take k t)"
| "printed (Chr n) = [ucast n]"

definition spec_ok :: "fspec \<Rightarrow> bool" where
  "spec_ok f \<longleftrightarrow> (case width f of None \<Rightarrow> True | Some w \<Rightarrow> w < 2 ^ 31)"

primrec piece_ok :: "piece \<Rightarrow> bool" where
  "piece_ok (Text t) = list_all (\<lambda>b. b \<noteq> 0 \<and> b \<noteq> 37) t"
| "piece_ok Percent = True"
| "piece_ok (Dec lng f n) = spec_ok f"
| "piece_ok (Hex f n) = spec_ok f"
| "piece_ok (Str f pr t) = (spec_ok f \<and> 0 \<notin> set t \<and> (case pr of None \<Rightarrow> True | Some k \<Rightarrow> k < 2 ^ 31) \<and> length t < 2 ^ 31)"
| "piece_ok (Chr n) = True"

section \<open>The scan\<close>

declare print_fmt.simps [simp del]

lemma print_text:
  "list_all (\<lambda>b. b \<noteq> 0 \<and> b \<noteq> 37) t \<Longrightarrow>
    print_fmt Plain (t @ r) args s = outbytes t s \<bind> print_fmt Plain r args"
proof (induction t arbitrary: s)
  case (Cons b t)
  obtain s1 where "outbyte b s = Some s1" using outbyte_returns by blast
  with Cons show ?case by (simp add: print_fmt.simps)
qed simp

lemma num_text_digits: "list_all isdigit (num_text n)"
  using digits10_lt10 [of _ n]
  by (auto simp: num_text_def list_all_iff isdigit_def word_le_nat_alt unat_digit_byte less_Suc_eq_le [symmetric])

lemma foldl_digits:
  assumes "\<forall>d \<in> set ds. d < 10"
  shows "foldl (\<lambda>n c. n * 10 + (ucast c - 48)) (of_nat a) (map digit_byte ds) = (of_nat (foldl (\<lambda>a d. 10 * a + d) a ds) :: s32)"
  using assms
proof (induction ds arbitrary: a)
  case (Cons d ds)
  have "ucast (digit_byte d) = (of_nat (48 + d) :: s32)"
    using unat_digit_byte [of d] Cons.prems by (metis list.set_intros(1) of_nat_unat)
  then have "of_nat a * 10 + ((ucast (digit_byte d) :: s32) - 48) = of_nat (10 * a + d)"
    by (simp add: mult.commute)
  moreover have "\<forall>d \<in> set ds. d < 10" using Cons.prems by simp
  ultimately show ?case using Cons.IH [of "10 * a + d"] by (simp only: foldl_Cons list.map)
qed simp

lemma getnum_num_text:
  assumes "r = [] \<or> \<not> isdigit (hd r)"
  shows "getnum (num_text n @ r) = (of_nat n, r)" "getnum (48 # num_text n @ r) = (of_nat n, r)"
proof -
  have r: "takeWhile isdigit r = []" "dropWhile isdigit r = r" using assms by (cases r; simp)+
  have d: "takeWhile isdigit (num_text n @ r) = num_text n" "dropWhile isdigit (num_text n @ r) = r"
    using num_text_digits [of n] r by (simp_all add: takeWhile_append2 dropWhile_append2 list_all_iff)
  have "foldl (\<lambda>n c. n * 10 + (ucast c - 48)) 0 (num_text n) = (of_nat n :: s32)"
    using foldl_digits [of "digits10 n" 0] digits10_lt10 [of _ n] undigits_digits10 [of n]
    by (simp add: num_text_def undigits_def)
  with d show "getnum (num_text n @ r) = (of_nat n, r)" by (simp add: getnum_def)
  moreover have "isdigit 48" by (simp add: isdigit_def)
  ultimately show "getnum (48 # num_text n @ r) = (of_nat n, r)" by (simp add: getnum_def)
qed

text \<open>Behind a percent sign: a number ends where the digits end, and the flags are collected.\<close>

lemma num_text_head: "\<exists>c cs. num_text n = c # cs \<and> isdigit c \<and> (c = 48 \<longrightarrow> n = 0)"
proof -
  have "hd (digits10 n) = 0 \<longrightarrow> n = 0"
  proof (induction n rule: digits10.induct)
    case (1 n)
    then show ?case by (subst digits10.simps) (auto simp: hd_append)
  qed
  moreover have "digit_byte d = 48 \<longrightarrow> d = 0" if "d < 10" for d
    using unat_digit_byte [OF that] by auto
  moreover obtain d ds where "digits10 n = d # ds" by (cases "digits10 n") auto
  ultimately show ?thesis
    using num_text_digits [of n] digits10_lt10 [of d n] by (auto simp: num_text_def)
qed

lemma print_num:
  assumes "r = [] \<or> \<not> isdigit (hd r)"
  shows "print_fmt (Conv p True lng) (num_text n @ r) args s = print_fmt (Conv (p\<lparr>num2 := of_nat n\<rparr>) True lng) r args s"
    and "print_fmt (Conv p False lng) (48 # num_text n @ r) args s =
      print_fmt (Conv (p\<lparr>num1 := of_nat n, do_padding := True, pad_character := 48\<rparr>) False lng) r args s"
    and "print_fmt (Conv p False lng) (num_text n @ r) args s = print_fmt (Conv (p\<lparr>num1 := of_nat n, do_padding := True,
      pad_character := (if n = 0 then 48 else pad_character p)\<rparr>) False lng) r args s"
proof -
  obtain c cs where c: "num_text n = c # cs" "isdigit c" "c = 48 \<longrightarrow> n = 0" using num_text_head by blast
  have z: "n = 0 \<longrightarrow> c = 48" using c(1) by (auto simp: num_text_def digits10.simps digit_byte_def)
  note g = getnum_num_text [OF assms, of n]
  show "print_fmt (Conv p True lng) (num_text n @ r) args s = print_fmt (Conv (p\<lparr>num2 := of_nat n\<rparr>) True lng) r args s"
    using c g by (simp add: print_fmt.simps)
  show "print_fmt (Conv p False lng) (num_text n @ r) args s = print_fmt (Conv (p\<lparr>num1 := of_nat n, do_padding := True,
      pad_character := (if n = 0 then 48 else pad_character p)\<rparr>) False lng) r args s"
    using c z g by (simp add: print_fmt.simps)
  have "isdigit 48" by (simp add: isdigit_def)
  then show "print_fmt (Conv p False lng) (48 # num_text n @ r) args s =
      print_fmt (Conv (p\<lparr>num1 := of_nat n, do_padding := True, pad_character := 48\<rparr>) False lng) r args s"
    using g by (simp add: print_fmt.simps)
qed

definition conv_params :: "fspec \<Rightarrow> params" where
  "conv_params f = \<lparr>len = 0, num1 = (case width f of None \<Rightarrow> 0 | Some w \<Rightarrow> of_nat w), num2 = 32767,
     pad_character = (case width f of None \<Rightarrow> 32 | Some w \<Rightarrow> if zero f \<or> w = 0 then 48 else 32),
     do_padding = (width f \<noteq> None), left_flag = left f\<rparr>"

lemma isdigit_literals [simp]:
  "\<not> isdigit 37" "\<not> isdigit 45" "\<not> isdigit 46" "\<not> isdigit 92" "\<not> isdigit 99" "\<not> isdigit 100" "\<not> isdigit 108"
  "\<not> isdigit 115" "\<not> isdigit 120" "\<not> isdigit 0"
  by (simp_all add: isdigit_def)

lemma tolower_literals [simp]:
  "tolower 37 = 37" "tolower 45 = 45" "tolower 46 = 46" "tolower 92 = 92" "tolower 99 = 99" "tolower 100 = 100"
  "tolower 108 = 108" "tolower 115 = 115" "tolower 120 = 120" "tolower 0 = 0"
  by (simp_all add: tolower_def)

lemma print_spec:
  assumes "\<not> isdigit c"
  shows "print_fmt Plain (37 # spec_text f @ c # r) args s = print_fmt (Conv (conv_params f) False False) (c # r) args s"
proof -
  let ?p = "\<lparr>len = 0, num1 = 0, num2 = 32767, pad_character = 32, do_padding = False, left_flag = left f\<rparr>"
  let ?w = "case width f of None \<Rightarrow> [] | Some w \<Rightarrow> (if zero f then [48] else []) @ num_text w"
  have "print_fmt Plain (37 # spec_text f @ c # r) args s = print_fmt (Conv ?p False False) (?w @ c # r) args s"
    by (simp add: print_fmt.simps start_conv_def spec_text_def)
  also have "\<dots> = print_fmt (Conv (conv_params f) False False) (c # r) args s"
    using assms by (cases "width f") (simp_all add: conv_params_def print_num)
  finally show ?thesis .
qed

text \<open>What the parameters of a conversion fill a field with.\<close>

definition fill :: "fspec \<Rightarrow> nat \<Rightarrow> u8 list" where
  "fill f k = (case width f of None \<Rightarrow> [] | Some w \<Rightarrow> replicate (w - k) (if zero f then 48 else 32))"

lemma fill_params:
  "spec_ok f \<Longrightarrow> (if do_padding (conv_params f) then replicate (nat (sint (num1 (conv_params f))) - k) (pad_character (conv_params f))
     else []) = fill f k"
  by (auto simp: fill_def conv_params_def spec_ok_def signed_of_nat signed_take_bit_int_eq_self split: option.splits)

lemma left_flag_conv [simp]: "left_flag (conv_params f) = left f"
  by (simp add: conv_params_def)

lemma filled_fill: "filled f k t = (if left f then t @ fill f k else fill f k @ t)"
  by (simp add: filled_def fill_def)

lemma field_filled: "spec_ok f \<Longrightarrow> field (conv_params f) t = filled f (length t) t"
  by (simp only: field_def fill_params filled_fill left_flag_conv Let_def)

lemma outs_filled:
  fixes s :: "'a board_scheme"
  assumes "spec_ok f" "length t < 2 ^ 31"
  shows "outs t (conv_params f\<lparr>num2 := n\<rparr>) s = outbytes (filled f (length t) (take (unat n) t)) s"
proof -
  let ?p = "conv_params f\<lparr>num2 := n\<rparr>"
  have "(padding b (?p\<lparr>len := of_nat (length t)\<rparr>) :: 'a board_scheme \<Rightarrow> _) =
      outbytes (if b then fill f (length t) else [])" for b
    using padding_field [OF assms(2), of b ?p] fill_params [OF assms(1), of "length t"] by (auto split: if_splits)
  then show ?thesis
    by (simp add: outs_def put_str_take filled_fill outbytes_append outbytes_Nil Let_def)
qed

text \<open>The conversions.\<close>

lemma print_conv:
  "print_fmt (Conv p dot lng) (100 # r) (ArgInt n # as) s = outnum n 10 p s \<bind> print_fmt Plain r as"
  "print_fmt (Conv p dot lng) (120 # r) (ArgInt n # as) s = outnum n 16 p s \<bind> print_fmt Plain r as"
  "print_fmt (Conv p dot lng) (115 # r) (ArgStr t # as) s = outs t p s \<bind> print_fmt Plain r as"
  "print_fmt (Conv p dot lng) (99 # r) (ArgInt n # as) s = outbyte (ucast n) s \<bind> print_fmt Plain r as"
  "print_fmt (Conv p dot lng) (37 # r) as s = outbyte 37 s \<bind> print_fmt Plain r as"
  "print_fmt (Conv p dot lng) (108 # r) as s = print_fmt (Conv p dot True) r as s"
  "print_fmt (Conv p dot lng) (46 # r) as s = print_fmt (Conv p True lng) r as s"
  by (simp_all add: print_fmt.simps)

lemma print_percent: "print_fmt Plain (37 # r) as s = print_fmt start_conv r as s"
  by (simp add: print_fmt.simps)

text \<open>One piece, and then the rest of the format.\<close>

lemma print_piece:
  assumes "piece_ok p"
  shows "print_fmt Plain (piece_text p @ r) (piece_args p @ as) s = outbytes (printed p) s \<bind> print_fmt Plain r as"
proof (cases p)
  case (Text t)
  then show ?thesis using assms print_text by simp
next
  case (Dec lng f n)
  then show ?thesis using assms by (cases lng) (simp_all add: print_spec print_conv outnum_dec field_filled)
next
  case (Hex f n)
  then show ?thesis using assms by (simp add: print_spec print_conv outnum_hex field_filled)
next
  case (Str f pr t)
  have "outs t (conv_params f) s = outs t (conv_params f\<lparr>num2 := 32767\<rparr>) s" by (simp add: conv_params_def)
  with Str show ?thesis using assms
    by (cases pr) (simp_all add: print_spec print_conv print_num outs_filled unat_of_nat)
qed (simp_all add: print_percent start_conv_def print_conv outbytes_Nil)

lemma print_pieces:
  "list_all piece_ok ps \<Longrightarrow> print_fmt Plain (concat (map piece_text ps) @ r) (concat (map piece_args ps) @ as) =
    (\<lambda>s. outbytes (concat (map printed ps)) s \<bind> print_fmt Plain r as)"
proof (induction ps)
  case (Cons p ps)
  show ?case by (rule ext) (use Cons in \<open>simp add: print_piece outbytes_append\<close>)
qed simp

lemma print_end: "print_fmt Plain [0] as = Some"
  by (rule ext) (simp add: print_fmt.simps)



text \<open>A percent sign at the very end of the format takes the terminating zero for a conversion, and the scan
  goes on behind it.\<close>

theorem xil_printf_lone_percent:
  fixes s :: "'a board_scheme"
  assumes "list_all piece_ok ps"
  shows "xil_printf (concat (map piece_text ps) @ [37]) (concat (map piece_args ps)) s = None"
proof -
  have "print_fmt Plain [37, 0] [] = (\<lambda>s' :: 'a board_scheme. None)"
    by (rule ext) (simp add: print_fmt.simps start_conv_def)
  then show ?thesis
    using print_pieces [OF assms, of "[37, 0]" "[]", where 'a = 'a] by (simp add: xil_printf_def)
qed

section \<open>Where the text goes\<close>

text \<open>\<open>outbyte\<close> collects a line and writes it to \<open>stderr\<close> in one piece.\<close>

lemma outbytes_collect:
  "10 \<notin> set t \<Longrightarrow> length (outbyte_buf s) + length t < 494 \<Longrightarrow>
    outbytes t s = Some (s\<lparr>outbyte_buf := outbyte_buf s @ t\<rparr>)"
  by (induction t arbitrary: s) (auto simp: outbyte_def Let_def)

lemma outbytes_line:
  assumes "10 \<notin> set t" "length t < 494" "outbyte_buf s = []"
  shows "outbytes (t @ [10]) s = Some (fprintf_stderr (t @ [10]) s)"
  using outbytes_collect [of t s] assms
  by (auto simp: outbytes_append outbyte_def Let_def write_fd_def fprintf_stderr_def trace_write_def trace_setup_def
      rpmsg_get_trace_buf_settings_def split: if_splits prod.splits)

text \<open>A line that is printed reaches the trace buffer in one write.\<close>

theorem xil_printf_line:
  assumes "list_all piece_ok ps" and t: "concat (map printed ps) = t" "10 \<notin> set t" "length t < 494"
    and "outbyte_buf s = []"
  shows "xil_printf (concat (map piece_text ps) @ [10]) (concat (map piece_args ps)) s = Some (fprintf_stderr (t @ [10]) s)"
proof -
  have "print_fmt Plain [10, 0] [] s' = outbytes [10] s'" for s' :: "'a board_scheme"
    by (simp add: print_fmt.simps print_end outbytes_Nil)
  then have "xil_printf (concat (map piece_text ps) @ [10]) (concat (map piece_args ps)) s = outbytes (t @ [10]) s"
    using t(1) by (simp add: xil_printf_def print_pieces [OF assms(1), of "[10, 0]" "[]", simplified] outbytes_append
      cong: Option.bind_cong)
  with outbytes_line [OF t(2,3) assms(5)] show ?thesis by simp
qed

theorem xil_printf_line_witness:
  "\<forall>s. xil_printf (cstr ''irq %d'' @ [10]) [ArgInt 61] (s\<lparr>outbyte_buf := []\<rparr>) =
     Some (fprintf_stderr (cstr ''irq 61'' @ [10]) (s\<lparr>outbyte_buf := []\<rparr>))"
proof
  fix s :: "'a board_scheme"
  let ?ps = "[Text (cstr ''irq ''), Dec False \<lparr>left = False, zero = False, width = None\<rparr> 61]"
  show "xil_printf (cstr ''irq %d'' @ [10]) [ArgInt 61] (s\<lparr>outbyte_buf := []\<rparr>) =
     Some (fprintf_stderr (cstr ''irq 61'' @ [10]) (s\<lparr>outbyte_buf := []\<rparr>))"
    using xil_printf_line [of ?ps "cstr ''irq 61''" "s\<lparr>outbyte_buf := []\<rparr>"]
    by (simp add: cstr_def spec_ok_def spec_text_def filled_def dec_def digits10.simps digit_byte_def)
qed

text \<open>\<open>putnum\<close> prints what \<open>%08x\<close> prints.\<close>

lemma fixed_digits16:
  "n < 16 ^ Suc k \<Longrightarrow> replicate (Suc k - length (digits16 n)) 48 @ map hex_byte (digits16 n) =
     map (\<lambda>i. hex_byte (n div 16 ^ i mod 16)) (rev [0..<Suc k])"
proof (induction k arbitrary: n)
  case 0
  then show ?case by (simp add: digits16.simps [of n])
next
  case (Suc k)
  then have IH: "replicate (Suc k - length (digits16 (n div 16))) 48 @ map hex_byte (digits16 (n div 16)) =
      map (\<lambda>i. hex_byte (n div 16 div 16 ^ i mod 16)) (rev [0..<Suc k])"
    by (simp add: less_mult_imp_div_less mult.commute del: upt_Suc)
  have "[0..<Suc (Suc k)] = 0 # map Suc [0..<Suc k]"
    by (simp only: map_Suc_upt) (simp add: upt_conv_Cons del: upt_Suc)
  then have "rev [0..<Suc (Suc k)] = map Suc (rev [0..<Suc k]) @ [0]"
    by (simp only: rev.simps rev_map)
  then have r: "map (\<lambda>i. hex_byte (n div 16 ^ i mod 16)) (rev [0..<Suc (Suc k)]) =
      map (\<lambda>i. hex_byte (n div 16 div 16 ^ i mod 16)) (rev [0..<Suc k]) @ [hex_byte (n mod 16)]"
    by (simp add: div_mult2_eq del: upt_Suc)
  show ?case
  proof (cases "n < 16")
    case True
    then have "replicate (Suc k) 48 = map (\<lambda>i. hex_byte (n div 16 div 16 ^ i mod 16)) (rev [0..<Suc k])"
      using IH by (simp add: digits16.simps [of 0] hex_byte_def replicate_append_same del: upt_Suc)
    with True r show ?thesis by (simp add: digits16.simps [of n] del: upt_Suc)
  next
    case False
    with IH r show ?thesis by (simp add: digits16.simps [of n] append_assoc [symmetric] del: upt_Suc append_assoc)
  qed
qed

lemma hex_digit_byte:
  assumes "x < 16"
  shows "(if (of_nat x :: u32) \<le> 9 then ucast (48 + (of_nat x :: u32)) else ucast (97 - 10 + (of_nat x :: u32))) = hex_byte x"
proof -
  have "x \<in> set [0..<16]" using assms by simp
  then show ?thesis by (simp add: upt_rec) (elim disjE; simp add: hex_byte_def)
qed

theorem putnum_prints: "putnum num s = outbytes (hex08 num) s"
proof -
  let ?digit = "\<lambda>cnt :: nat. drop_bit (cnt * 4) num AND 0xF"
  have d: "unat (?digit cnt) = unat num div 16 ^ cnt mod 16" for cnt
  proof -
    have "?digit cnt = take_bit 4 (drop_bit (cnt * 4) num)" by (simp add: take_bit_eq_mask mask_eq_exp_minus_1)
    then have "unat (?digit cnt) = take_bit 4 (drop_bit (cnt * 4) (unat num))"
      by (simp only: unsigned_take_bit_eq unat_drop_bit_eq)
    then show ?thesis by (simp add: take_bit_eq_mod drop_bit_eq_div mult.commute [of cnt] power_mult)
  qed
  have "(if ?digit cnt \<le> 9 then ucast (48 + ?digit cnt) else ucast (97 - 10 + ?digit cnt)) =
      hex_byte (unat num div 16 ^ cnt mod 16)" for cnt
  proof -
    have "?digit cnt = of_nat (unat num div 16 ^ cnt mod 16)"
      using d [of cnt] by (auto intro: word_unat_eq_iff [THEN iffD2] simp: unat_of_nat take_bit_nat_eq_self)
    then show ?thesis using hex_digit_byte [of "unat num div 16 ^ cnt mod 16"] by (simp split: if_splits)
  qed
  then have "putnum num s = outbytes (map (\<lambda>i. hex_byte (unat num div 16 ^ i mod 16)) (rev [0..<Suc 7])) s"
    by (simp add: putnum_def print_def Let_def)
  also have "\<dots> = outbytes (hex08 num) s"
    using fixed_digits16 [of "unat num" 7] unsigned_less [of num, where 'a = nat]
    by (simp add: hex08_def hexstr_def del: upt_Suc)
  finally show ?thesis .
qed

end
