(* ===== verification/Counters.thy ===== *)
theory Counters
  imports Cache
begin

text \<open>
  The event counters of the processor (bsp/cortexa9/xpm_counter.c) and of the second level cache
  controller (xl2cc_counter.c). A read of a counter register takes its value from the tape. The last
  part gives the coprocessor writes their meaning on an abstract performance monitor.
\<close>

section \<open>Event counters of the processor\<close>

definition mfcp :: "cp_reg \<Rightarrow> 'a cpu_scheme \<Rightarrow> (u32 \<times> 'a cpu_scheme) option" where
  "mfcp r s = (case io_tape s of [] \<Rightarrow> None | v # t \<Rightarrow> Some (v, emit (CpRead r v) (s\<lparr>io_tape := t\<rparr>)))"

text \<open>The configurations: six events each, with the numbers of xpm_counter.h.\<close>

definition PmcrEvents :: "u32 list list" where
  "PmcrEvents =
    [[0x00, 0x01, 0x02, 0x03, 0x04, 0x05],
     [0x06, 0x07, 0x09, 0x0A, 0x0B, 0x0C],
     [0x0D, 0x0F, 0x10, 0x11, 0x12, 0x40],
     [0x41, 0x42, 0x50, 0x51, 0x60, 0x61],
     [0x62, 0x63, 0x64, 0x65, 0x66, 0x67],
     [0x68, 0x6E, 0x70, 0x71, 0x72, 0x73],
     [0x74, 0x80, 0x81, 0x82, 0x83, 0x84],
     [0x85, 0x86, 0x8A, 0x8B, 0x90, 0x91],
     [0x92, 0x93, 0xA0, 0xA1, 0xA2, 0xA3],
     [0xA4, 0xA5, 0xA0, 0xA1, 0xA2, 0xA3],
     [0x61, 0x01, 0x02, 0x03, 0x04, 0x05]]"

definition Xpm_DisableEventCounters :: "'a cpu_scheme \<Rightarrow> 'a cpu_scheme" where
  "Xpm_DisableEventCounters s = mtcp XREG_CP15_COUNT_ENABLE_CLR 0x3F s"

definition Xpm_EnableEventCounters :: "'a cpu_scheme \<Rightarrow> 'a cpu_scheme" where
  "Xpm_EnableEventCounters s = mtcp XREG_CP15_COUNT_ENABLE_SET 0x3F s"

definition Xpm_ResetEventCounters :: "'a cpu_scheme \<Rightarrow> 'a cpu_scheme option" where
  "Xpm_ResetEventCounters s = do {
     (Reg, s1) \<leftarrow> mfcp XREG_CP15_PERF_MONITOR_CTRL s;
     Some (mtcp XREG_CP15_PERF_MONITOR_CTRL (Reg OR 2) s1)
   }"

primrec set_events :: "u32 list \<Rightarrow> u32 \<Rightarrow> 'a cpu_scheme \<Rightarrow> 'a cpu_scheme" where
  "set_events [] c s = s"
| "set_events (e # es) c s = set_events es (c + 1) (mtcp XREG_CP15_EVENT_TYPE_SEL e (mtcp XREG_CP15_EVENT_CNTR_SEL c s))"

text \<open>A configuration that is not in the table has no value.\<close>

definition Xpm_SetEvents :: "s32 \<Rightarrow> 'a cpu_scheme \<Rightarrow> 'a cpu_scheme option" where
  "Xpm_SetEvents PmcrCfg s = do {
     Ptr \<leftarrow> (if PmcrCfg <s 0 then None else aget PmcrEvents (unat PmcrCfg));
     s1 \<leftarrow> Xpm_ResetEventCounters (set_events Ptr 0 (Xpm_DisableEventCounters s));
     Some (Xpm_EnableEventCounters s1)
   }"

primrec get_counters :: "nat \<Rightarrow> u32 \<Rightarrow> 'a cpu_scheme \<Rightarrow> (u32 list \<times> 'a cpu_scheme) option" where
  "get_counters 0 c s = Some ([], s)"
| "get_counters (Suc n) c s = do {
     (v, s1) \<leftarrow> mfcp XREG_CP15_PERF_MONITOR_COUNT (mtcp XREG_CP15_EVENT_CNTR_SEL c s);
     (vs, s2) \<leftarrow> get_counters n (c + 1) s1;
     Some (v # vs, s2)
   }"

definition Xpm_GetEventCounters :: "'a cpu_scheme \<Rightarrow> (u32 list \<times> 'a cpu_scheme) option" where
  "Xpm_GetEventCounters s = get_counters 6 0 (Xpm_DisableEventCounters s)"

section \<open>Event counters of the second level cache\<close>

abbreviation (input) "XPS_L2CC_EVNT_CNTRL_OFFSET \<equiv> (0x200 :: u32)"
abbreviation (input) "XPS_L2CC_EVNT_CNT1_CTRL_OFFSET \<equiv> (0x204 :: u32)"
abbreviation (input) "XPS_L2CC_EVNT_CNT0_CTRL_OFFSET \<equiv> (0x208 :: u32)"
abbreviation (input) "XPS_L2CC_EVNT_CNT1_VAL_OFFSET \<equiv> (0x20C :: u32)"
abbreviation (input) "XPS_L2CC_EVNT_CNT0_VAL_OFFSET \<equiv> (0x210 :: u32)"

definition XL2cc_EventCtrReset :: "'a machine_scheme \<Rightarrow> 'a machine_scheme" where
  "XL2cc_EventCtrReset s = Xil_Out32 (XPS_L2CC_BASEADDR + XPS_L2CC_EVNT_CNTRL_OFFSET) 6 s"

definition XL2cc_EventCtrInit :: "s32 \<Rightarrow> s32 \<Rightarrow> 'a machine_scheme \<Rightarrow> 'a machine_scheme" where
  "XL2cc_EventCtrInit Event0 Event1 s = XL2cc_EventCtrReset
     (Xil_Out32 (XPS_L2CC_BASEADDR + XPS_L2CC_EVNT_CNT0_CTRL_OFFSET) (push_bit 2 Event0)
       (Xil_Out32 (XPS_L2CC_BASEADDR + XPS_L2CC_EVNT_CNT1_CTRL_OFFSET) (push_bit 2 Event1) s))"

definition XL2cc_EventCtrStart :: "'a machine_scheme \<Rightarrow> 'a machine_scheme" where
  "XL2cc_EventCtrStart s = Xil_Out32 (XPS_L2CC_BASEADDR + XPS_L2CC_EVNT_CNTRL_OFFSET) 1 (XL2cc_EventCtrReset s)"

definition XL2cc_EventCtrStop :: "'a machine_scheme \<Rightarrow> (u32 \<times> u32 \<times> 'a machine_scheme) option" where
  "XL2cc_EventCtrStop s = do {
     (c1, s1) \<leftarrow> Xil_In32 (XPS_L2CC_BASEADDR + XPS_L2CC_EVNT_CNT1_VAL_OFFSET)
                 (Xil_Out32 (XPS_L2CC_BASEADDR + XPS_L2CC_EVNT_CNTRL_OFFSET) 0 s);
     (c0, s2) \<leftarrow> Xil_In32 (XPS_L2CC_BASEADDR + XPS_L2CC_EVNT_CNT0_VAL_OFFSET) s1;
     Some (c0, c1, XL2cc_EventCtrReset s2)
   }"

section \<open>A performance monitor\<close>

text \<open>Which counters run, which one is selected, the event and the value of each, and whether an event was ever
  chosen for a counter that was running.\<close>

record pmu =
  running :: u32
  selected :: u32
  event :: "u32 \<Rightarrow> u32"
  changed_live :: bool

fun pmu_step :: "pmu \<Rightarrow> io_event \<Rightarrow> pmu" where
  "pmu_step p (CpWrite XREG_CP15_COUNT_ENABLE_CLR v) = p\<lparr>running := running p AND NOT v\<rparr>"
| "pmu_step p (CpWrite XREG_CP15_COUNT_ENABLE_SET v) = p\<lparr>running := running p OR v\<rparr>"
| "pmu_step p (CpWrite XREG_CP15_EVENT_CNTR_SEL v) = p\<lparr>selected := v\<rparr>"
| "pmu_step p (CpWrite XREG_CP15_EVENT_TYPE_SEL v) = p\<lparr>event := (event p)(selected p := v),
     changed_live := changed_live p \<or> bit (running p) (unat (selected p))\<rparr>"
| "pmu_step p _ = p"

definition pmu_run :: "io_event list \<Rightarrow> pmu \<Rightarrow> pmu" where
  "pmu_run l p = foldl pmu_step p l"

lemma pmu_run_simps [simp]:
  "pmu_run [] p = p" "pmu_run (e # l) p = pmu_run l (pmu_step p e)" "pmu_run (l @ l') p = pmu_run l' (pmu_run l p)"
  by (simp_all add: pmu_run_def)

lemma word_less_6: "(k :: u32) < 6 \<longleftrightarrow> k \<in> {0, 1, 2, 3, 4, 5}"
proof
  assume "k < 6"
  then have "unat k < 6" by (simp add: word_less_nat_alt)
  then have "unat k \<in> {0, 1, 2, 3, 4, 5}" by auto
  then show "k \<in> {0, 1, 2, 3, 4, 5}" by (auto simp: word_unat_eq_iff)
qed auto

lemma events_6: "xs \<in> set PmcrEvents \<Longrightarrow> \<exists>a b c d e f. xs = [a, b, c, d, e, f]"
  by (auto simp: PmcrEvents_def)

lemma mtcp_counter_log [simp]: "io_log (mtcp r v s) = io_log s @ [CpWrite r v]" "io_tape (mtcp r v s) = io_tape s"
  by (simp_all add: mtcp_def emit_def split: cp_reg.split)

text \<open>A configuration gives the six counters their events while none of them runs, and starts them all.\<close>

theorem set_events_programs:
  assumes "Xpm_SetEvents cfg s = Some s'" and "io_log s = []"
  shows "pmu_run (io_log s') p = p\<lparr>running := running p OR 0x3F, selected := 5,
    event := (\<lambda>k. if k < 6 then PmcrEvents ! unat cfg ! unat k else event p k)\<rparr>"
proof -
  have cfg: "unat cfg < length PmcrEvents"
    using assms(1) by (auto simp: Xpm_SetEvents_def aget_def split: bind_splits if_splits)
  then obtain a b c d e f where es: "PmcrEvents ! unat cfg = [a, b, c, d, e, f]"
    using events_6 nth_mem by metis
  from assms(1) cfg obtain r t where
    "io_log s' = io_log (set_events [a, b, c, d, e, f] 0 (Xpm_DisableEventCounters s)) @
      [CpRead XREG_CP15_PERF_MONITOR_CTRL r, CpWrite XREG_CP15_PERF_MONITOR_CTRL (r OR 2), CpWrite XREG_CP15_COUNT_ENABLE_SET 0x3F]"
    by (auto simp: Xpm_SetEvents_def aget_def es Xpm_ResetEventCounters_def Xpm_EnableEventCounters_def mfcp_def emit_def
        split: bind_splits if_splits list.splits)
  then have log: "io_log s' = CpWrite XREG_CP15_COUNT_ENABLE_CLR 0x3F #
      concat (map (\<lambda>(k, x). [CpWrite XREG_CP15_EVENT_CNTR_SEL k, CpWrite XREG_CP15_EVENT_TYPE_SEL x])
        [(0, a), (1, b), (2, c), (3, d), (4, e), (5, f)]) @
      [CpRead XREG_CP15_PERF_MONITOR_CTRL r, CpWrite XREG_CP15_PERF_MONITOR_CTRL (r OR 2), CpWrite XREG_CP15_COUNT_ENABLE_SET 0x3F]"
    using assms(2) by (simp add: Xpm_DisableEventCounters_def)
  have off: "\<not> bit (running p AND NOT 0x3F) k" if "k \<in> {0, 1, 2, 3, 4, 5}" for k
    using that by (auto simp: bit_simps)
  have on: "running p AND NOT 0x3F OR 0x3F = running p OR 0x3F"
    by (rule bit_word_eqI) (auto simp: bit_simps)
  have ev: "(event p)(0 := a, 1 := b, 2 := c, 3 := d, 4 := e, 5 := f) =
      (\<lambda>k. if k < 6 then PmcrEvents ! unat cfg ! unat k else event p k)"
    by (rule ext) (auto simp: es word_less_6)
  show ?thesis
    by (cases p) (use off on ev in \<open>simp add: log\<close>)
qed

text \<open>The third configuration: afterwards counter 3 counts clock cycles.\<close>

theorem set_events_programs_witness:
  "\<exists>(s :: cpu) s'. Xpm_SetEvents 2 s = Some s' \<and>
     event (pmu_run (io_log s') \<lparr>running = 0x3F, selected = 0, event = (\<lambda>_. 0), changed_live = False\<rparr>) 3 = 0x11"
proof -
  let ?s = "\<lparr>mem = (\<lambda>_. 0), io_tape = [0x41002000], io_log = [], tlb = (\<lambda>_. 0), XExc_VectorTable = exc_table_init, cpsr = 0x13,
     sys_control = 5, size_sel = 0, size_id = (\<lambda>_. 0x701FE019)\<rparr> :: cpu"
  let ?p = "\<lparr>running = 0x3F, selected = 0, event = (\<lambda>_. 0), changed_live = False\<rparr> :: pmu"
  have "\<exists>s'. Xpm_SetEvents 2 ?s = Some s'"
    by (simp add: Xpm_SetEvents_def aget_def PmcrEvents_def Xpm_ResetEventCounters_def Xpm_DisableEventCounters_def mfcp_def word_sless_alt)
  then obtain s' where s': "Xpm_SetEvents 2 ?s = Some s'" by blast
  from set_events_programs [OF s', of ?p] have "event (pmu_run (io_log s') ?p) 3 = 0x11"
    by (simp add: PmcrEvents_def)
  with s' show ?thesis by blast
qed

end
