(* ===== verification/PsReset.thy ===== *)
theory PsReset
  imports Machine
begin

text \<open>
  Reset of the peripherals through the system level control registers
  (bsp/cortexa9/xil_misc_psreset_api.c, with the constants of its header). Every function first
  writes the unlock code; a reset sets the reset bits of a register and then clears them. The last
  part gives the registers themselves a meaning, as storage behind a lock, and shows what a reset does to them.
\<close>

section \<open>Registers\<close>

definition XDDRC_CTRL_BASEADDR :: u32 where "XDDRC_CTRL_BASEADDR = 0xF8006000"
definition XSLCR_BASEADDR :: u32 where "XSLCR_BASEADDR = 0xF8000000"
definition XSLCR_UNLOCK_ADDR :: u32 where "XSLCR_UNLOCK_ADDR = XSLCR_BASEADDR + 0x8"
definition XSLCR_UNLOCK_CODE :: u32 where "XSLCR_UNLOCK_CODE = 0x0000DF0D"
definition XSLCR_OCM_CFG_ADDR :: u32 where "XSLCR_OCM_CFG_ADDR = XSLCR_BASEADDR + 0x910"
definition XSLCR_LVL_SHFTR_EN_ADDR :: u32 where "XSLCR_LVL_SHFTR_EN_ADDR = XSLCR_BASEADDR + 0x900"
definition XSLCR_MIO_PIN_00_ADDR :: u32 where "XSLCR_MIO_PIN_00_ADDR = XSLCR_BASEADDR + 0x700"
definition XSLCR_MIO_PIN_00_RESET_VAL :: u32 where "XSLCR_MIO_PIN_00_RESET_VAL = 0x00001601"
definition XSLCR_MIO_PIN_02_RESET_VAL :: u32 where "XSLCR_MIO_PIN_02_RESET_VAL = 0x00000601"

lemmas slcr_defs = XDDRC_CTRL_BASEADDR_def XSLCR_BASEADDR_def XSLCR_UNLOCK_ADDR_def XSLCR_UNLOCK_CODE_def
  XSLCR_OCM_CFG_ADDR_def XSLCR_LVL_SHFTR_EN_ADDR_def XSLCR_MIO_PIN_00_ADDR_def XSLCR_MIO_PIN_00_RESET_VAL_def
  XSLCR_MIO_PIN_02_RESET_VAL_def

definition slcr_unlock :: "'a machine_scheme \<Rightarrow> 'a machine_scheme" where
  "slcr_unlock s = Xil_Out32 XSLCR_UNLOCK_ADDR XSLCR_UNLOCK_CODE s"

section \<open>Memory controllers, pins and clocks\<close>

definition XDdr_ResetHw :: "'a machine_scheme \<Rightarrow> 'a machine_scheme option" where
  "XDdr_ResetHw s = do {
     (r, s1) \<leftarrow> Xil_In32 XDDRC_CTRL_BASEADDR (slcr_unlock s);
     let r1 = r AND NOT 1;
     let s2 = Xil_Out32 XDDRC_CTRL_BASEADDR r1 s1;
     Some (Xil_Out32 XDDRC_CTRL_BASEADDR (r1 OR 1) s2)
   }"

definition XOcm_Remap :: "'a machine_scheme \<Rightarrow> 'a machine_scheme option" where
  "XOcm_Remap s = do {
     (r, s1) \<leftarrow> Xil_In32 XSLCR_OCM_CFG_ADDR (slcr_unlock s);
     Some (Xil_Out32 XSLCR_OCM_CFG_ADDR (r AND NOT 0xF OR 8) s1)
   }"

text \<open>The three error correction registers have the same offset in the header.\<close>

definition XSmc_ResetHw :: "u32 \<Rightarrow> 'a machine_scheme \<Rightarrow> 'a machine_scheme option" where
  "XSmc_ResetHw base s = do {
     (r, s1) \<leftarrow> Xil_In32 (base + 0x0C) s;
     let s2 = Xil_Out32 (base + 0x0C) (r OR 0x5F) s1;
     let s3 = Xil_Out32 (base + 0x20) 0 s2;
     let s4 = Xil_Out32 (base + 0x24) 0 s3;
     let s5 = Xil_Out32 (base + 0x404) 0x43 s4;
     let s6 = Xil_Out32 (base + 0x404) 0x01300080 s5;
     Some (Xil_Out32 (base + 0x404) 0x01E00585 s6)
   }"

text \<open>\<open>for (; i<=b;i++);\<close>: a semicolon is the whole body of the loop, and the block behind it runs once.\<close>

function empty_loop :: "nat \<Rightarrow> nat \<Rightarrow> nat" where
  "empty_loop i b = (if i \<le> b then empty_loop (i + 1) b else i)"
  by auto
termination by (relation "measure (\<lambda>(i, b). b + 1 - i)") auto

definition XSlcr_MioWriteResetValues :: "'a machine_scheme \<Rightarrow> 'a machine_scheme" where
  "XSlcr_MioWriteResetValues s = (
     let s1 = slcr_unlock s;
         i = empty_loop 0 1;
         s2 = Xil_Out32 (XSLCR_MIO_PIN_00_ADDR + of_nat i * 4) XSLCR_MIO_PIN_00_RESET_VAL s1;
         j = empty_loop i 8;
         s3 = Xil_Out32 (XSLCR_MIO_PIN_00_ADDR + of_nat j * 4) XSLCR_MIO_PIN_02_RESET_VAL s2;
         k = empty_loop j 53
     in Xil_Out32 (XSLCR_MIO_PIN_00_ADDR + of_nat k * 4) XSLCR_MIO_PIN_00_RESET_VAL s3)"

definition XSlcr_PllWriteResetValues :: "'a machine_scheme \<Rightarrow> 'a machine_scheme" where
  "XSlcr_PllWriteResetValues s = fold (\<lambda>(a, v). Xil_Out32 (XSLCR_BASEADDR + a) v)
     [(0x108, 0x0001A008), (0x100, 0x0001A008), (0x104, 0x0001A008),
      (0x118, 0x00177EA0), (0x110, 0x00177EA0), (0x114, 0x00177EA0),
      (0x120, 0x1F000400), (0x124, 0x18400003)] (slcr_unlock s)"

definition XSlcr_DisableLevelShifters :: "'a machine_scheme \<Rightarrow> 'a machine_scheme option" where
  "XSlcr_DisableLevelShifters s = do {
     (r, s1) \<leftarrow> Xil_In32 XSLCR_LVL_SHFTR_EN_ADDR (slcr_unlock s);
     Some (Xil_Out32 XSLCR_LVL_SHFTR_EN_ADDR (r AND NOT 0xF) s1)
   }"

section \<open>Software resets\<close>

text \<open>Assert the reset, release the reset: the body of every function below, with its register and mask.\<close>

definition soft_reset :: "u32 \<Rightarrow> u32 \<Rightarrow> 'a machine_scheme \<Rightarrow> 'a machine_scheme option" where
  "soft_reset a val s = do {
     (r, s1) \<leftarrow> Xil_In32 a (slcr_unlock s);
     let s2 = Xil_Out32 a (r OR val) s1;
     (r2, s3) \<leftarrow> Xil_In32 a s2;
     Some (Xil_Out32 a (r2 AND NOT val) s3)
   }"

definition XSlcr_OcmReset :: "'a machine_scheme \<Rightarrow> 'a machine_scheme option" where
  "XSlcr_OcmReset s = soft_reset (XSLCR_BASEADDR + 0x238) 0x1 s"
definition XSlcr_EmacPsReset :: "'a machine_scheme \<Rightarrow> 'a machine_scheme option" where
  "XSlcr_EmacPsReset s = soft_reset (XSLCR_BASEADDR + 0x214) 0xF3 s"
definition XSlcr_UsbPsReset :: "'a machine_scheme \<Rightarrow> 'a machine_scheme option" where
  "XSlcr_UsbPsReset s = soft_reset (XSLCR_BASEADDR + 0x210) 0x3 s"
definition XSlcr_QspiPsReset :: "'a machine_scheme \<Rightarrow> 'a machine_scheme option" where
  "XSlcr_QspiPsReset s = soft_reset (XSLCR_BASEADDR + 0x230) 0x3 s"
definition XSlcr_SpiPsReset :: "'a machine_scheme \<Rightarrow> 'a machine_scheme option" where
  "XSlcr_SpiPsReset s = soft_reset (XSLCR_BASEADDR + 0x21C) 0xF s"
definition XSlcr_I2cPsReset :: "'a machine_scheme \<Rightarrow> 'a machine_scheme option" where
  "XSlcr_I2cPsReset s = soft_reset (XSLCR_BASEADDR + 0x224) 0x3 s"
definition XSlcr_UartPsReset :: "'a machine_scheme \<Rightarrow> 'a machine_scheme option" where
  "XSlcr_UartPsReset s = soft_reset (XSLCR_BASEADDR + 0x228) 0xF s"
definition XSlcr_CanPsReset :: "'a machine_scheme \<Rightarrow> 'a machine_scheme option" where
  "XSlcr_CanPsReset s = soft_reset (XSLCR_BASEADDR + 0x220) 0x3 s"
definition XSlcr_SmcPsReset :: "'a machine_scheme \<Rightarrow> 'a machine_scheme option" where
  "XSlcr_SmcPsReset s = soft_reset (XSLCR_BASEADDR + 0x234) 0x3 s"
definition XSlcr_DmaPsReset :: "'a machine_scheme \<Rightarrow> 'a machine_scheme option" where
  "XSlcr_DmaPsReset s = soft_reset (XSLCR_BASEADDR + 0x20C) 0x1 s"
definition XSlcr_GpioPsReset :: "'a machine_scheme \<Rightarrow> 'a machine_scheme option" where
  "XSlcr_GpioPsReset s = soft_reset (XSLCR_BASEADDR + 0x22C) 0x1 s"

section \<open>Registers behind a lock\<close>

text \<open>A register file answers a read with what was written last, and a write while it is locked has
  no effect. Reads that the registers would have answered otherwise have no replay.\<close>

record slcr =
  slcr_locked :: bool
  slcr_reg :: "u32 \<Rightarrow> u32"

definition slcr_step :: "io_event \<Rightarrow> slcr \<Rightarrow> slcr option" where
  "slcr_step e d = (case e of
     IoRead a v \<Rightarrow> (if v = slcr_reg d a then Some d else None)
   | IoWrite a v \<Rightarrow> Some (if a = XSLCR_UNLOCK_ADDR then (if v = XSLCR_UNLOCK_CODE then d\<lparr>slcr_locked := False\<rparr> else d)
       else if slcr_locked d then d else d\<lparr>slcr_reg := (slcr_reg d)(a := v)\<rparr>)
   | _ \<Rightarrow> Some d)"

primrec replay :: "io_event list \<Rightarrow> slcr \<Rightarrow> slcr option" where
  "replay [] d = Some d"
| "replay (e # es) d = slcr_step e d \<bind> replay es"

text \<open>What a run adds to the record of accesses.\<close>

definition accesses :: "'a machine_scheme \<Rightarrow> 'a machine_scheme \<Rightarrow> io_event list" where
  "accesses s s' = drop (length (io_log s)) (io_log s')"

section \<open>The software resets\<close>

declare empty_loop.simps [simp del]

lemma soft_reset_cases:
  "soft_reset a val s = Some s' \<longleftrightarrow> (\<exists>r1 r2 t. io_tape s = r1 # r2 # t \<and> s' = s\<lparr>io_tape := t, io_log := io_log s @
     [IoWrite XSLCR_UNLOCK_ADDR XSLCR_UNLOCK_CODE, IoRead a r1, IoWrite a (r1 OR val), IoRead a r2, IoWrite a (r2 AND NOT val)]\<rparr>)"
  by (auto simp: soft_reset_def slcr_unlock_def Xil_In32_def Xil_Out32_def Let_def split: list.splits)

text \<open>The functions, with the register and the bits each is documented to reset.\<close>

definition peripheral_resets :: "((machine \<Rightarrow> machine option) \<times> u32 \<times> u32) list" where
  "peripheral_resets =
    [(XSlcr_OcmReset, 0xF8000238, 0x1), (XSlcr_EmacPsReset, 0xF8000214, 0xF3), (XSlcr_UsbPsReset, 0xF8000210, 0x3),
     (XSlcr_QspiPsReset, 0xF8000230, 0x3), (XSlcr_SpiPsReset, 0xF800021C, 0xF), (XSlcr_I2cPsReset, 0xF8000224, 0x3),
     (XSlcr_UartPsReset, 0xF8000228, 0xF), (XSlcr_CanPsReset, 0xF8000220, 0x3), (XSlcr_SmcPsReset, 0xF8000234, 0x3),
     (XSlcr_DmaPsReset, 0xF800020C, 0x1), (XSlcr_GpioPsReset, 0xF800022C, 0x1)]"

lemma peripheral_reset_soft:
  "(f, a, val) \<in> set peripheral_resets \<Longrightarrow> f = soft_reset a val \<and> a \<noteq> XSLCR_UNLOCK_ADDR"
  by (auto simp: peripheral_resets_def fun_eq_iff slcr_defs XSlcr_OcmReset_def XSlcr_EmacPsReset_def XSlcr_UsbPsReset_def
      XSlcr_QspiPsReset_def XSlcr_SpiPsReset_def XSlcr_I2cPsReset_def XSlcr_UartPsReset_def XSlcr_CanPsReset_def
      XSlcr_SmcPsReset_def XSlcr_DmaPsReset_def XSlcr_GpioPsReset_def)

text \<open>C39: On registers that store what is written once the lock is open, each of the eleven reset functions first sets
  exactly the documented reset bits of its register, whether the registers were locked or not, and in the
  end has cleared them; all other bits and registers keep their values.\<close>

theorem peripheral_reset_pulses:
  assumes "(f, a, val) \<in> set peripheral_resets" and "f s = Some s'" and "replay (accesses s s') d = Some d'"
  shows "\<exists>d1. replay (take 3 (accesses s s')) d = Some d1 \<and> slcr_reg d1 = (slcr_reg d)(a := slcr_reg d a OR val) \<and>
    d' = \<lparr>slcr_locked = False, slcr_reg = (slcr_reg d)(a := slcr_reg d a AND NOT val)\<rparr>"
proof -
  have f: "f = soft_reset a val" and a: "a \<noteq> XSLCR_UNLOCK_ADDR"
    using peripheral_reset_soft [OF assms(1)] by simp_all
  then obtain r1 r2 t where "s' = s\<lparr>io_tape := t, io_log := io_log s @
     [IoWrite XSLCR_UNLOCK_ADDR XSLCR_UNLOCK_CODE, IoRead a r1, IoWrite a (r1 OR val), IoRead a r2, IoWrite a (r2 AND NOT val)]\<rparr>"
    using assms(2) by (auto simp: soft_reset_cases)
  then have acc: "accesses s s' =
     [IoWrite XSLCR_UNLOCK_ADDR XSLCR_UNLOCK_CODE, IoRead a r1, IoWrite a (r1 OR val), IoRead a r2, IoWrite a (r2 AND NOT val)]"
    by (simp add: accesses_def)
  have mask: "(x OR val) AND NOT val = x AND NOT val" for x by (rule bit_eqI) (auto simp: bit_simps)
  show ?thesis
    using assms(3) a by (cases d) (auto simp: acc slcr_step_def mask split: if_splits)
qed

theorem peripheral_reset_pulses_witness:
  "\<exists>(s :: machine) s' d d' d1. XSlcr_UartPsReset s = Some s' \<and> replay (accesses s s') d = Some d' \<and>
     slcr_reg d1 0xF8000228 = 0xFFFF \<and> replay (take 3 (accesses s s')) d = Some d1 \<and> slcr_reg d' 0xF8000228 = 0xFFF0"
proof -
  let ?d = "\<lparr>slcr_locked = True, slcr_reg = (\<lambda>_. 0xFFF5)\<rparr>"
  let ?s = "\<lparr>mem = (\<lambda>_. 0), io_tape = [0xFFF5, 0xFFFF], io_log = [], tlb = (\<lambda>_. 0)\<rparr> :: machine"
  let ?d' = "\<lparr>slcr_locked = False, slcr_reg = (\<lambda>_. 0xFFF5)(0xF8000228 := 0xFFF0)\<rparr>"
  let ?es = "[IoWrite 0xF8000008 0xDF0D, IoRead 0xF8000228 0xFFF5, IoWrite 0xF8000228 0xFFFF, IoRead 0xF8000228 0xFFFF,
    IoWrite 0xF8000228 0xFFF0]"
  let ?s' = "?s\<lparr>io_tape := [], io_log := ?es\<rparr>"
  have run: "XSlcr_UartPsReset ?s = Some ?s'"
    by (simp add: XSlcr_UartPsReset_def soft_reset_cases slcr_defs)
  have rep: "replay (accesses ?s ?s') ?d = Some ?d'"
    by (simp add: accesses_def slcr_step_def slcr_defs)
  have "peripheral_resets ! 6 = (XSlcr_UartPsReset, 0xF8000228, 0xF)" "6 < length peripheral_resets"
    by (simp_all add: peripheral_resets_def)
  then have mem: "(XSlcr_UartPsReset, 0xF8000228, 0xF) \<in> set peripheral_resets"
    using nth_mem by metis
  obtain d1 where d1: "replay (take 3 (accesses ?s ?s')) ?d = Some d1" "slcr_reg d1 = (\<lambda>_. 0xFFF5)(0xF8000228 := 0xFFFF)"
    using peripheral_reset_pulses [OF mem run rep] by auto
  show ?thesis
    by (rule exI [of _ ?s], rule exI [of _ ?s'], rule exI [of _ ?d], rule exI [of _ ?d'], rule exI [of _ d1],
        intro conjI run rep d1(1)) (simp_all add: d1(2))
qed

section \<open>The pins\<close>

text \<open>The loops are empty, so three registers are written in all: those of the pins 2 and 9, pin 2 with the value
  of pin 0, and a word behind the last pin.\<close>

theorem mio_writes_three_registers:
  "XSlcr_MioWriteResetValues s = s\<lparr>io_log := io_log s @ [IoWrite XSLCR_UNLOCK_ADDR XSLCR_UNLOCK_CODE,
     IoWrite (XSLCR_MIO_PIN_00_ADDR + 2 * 4) XSLCR_MIO_PIN_00_RESET_VAL,
     IoWrite (XSLCR_MIO_PIN_00_ADDR + 9 * 4) XSLCR_MIO_PIN_02_RESET_VAL,
     IoWrite (XSLCR_MIO_PIN_00_ADDR + 54 * 4) XSLCR_MIO_PIN_00_RESET_VAL]\<rparr>"
proof -
  have loop: "i \<le> b + 1 \<Longrightarrow> empty_loop i b = b + 1" for i b
    by (induction i b rule: empty_loop.induct) (subst empty_loop.simps, auto)
  show ?thesis
    by (simp add: XSlcr_MioWriteResetValues_def slcr_unlock_def Xil_Out32_def loop)
qed

end
