(* ===== verification/MemTest.thy ===== *)
theory MemTest
  imports Machine
begin

text \<open>
  The memory tests of the board support package (bsp/common/xil_testmem.c). The tests are the same for
  words of 32, 16 and 8 bits, so the model has the five subtests once, over the width of a word, and a
  function for each width. The memory under test is hardware: it is given by the functions that read
  and write a word, so a theorem can be about a sound memory or about a broken one. A failed assertion
  loops for ever and has no value.
\<close>

section \<open>Loops over the block\<close>

text \<open>\<open>for (I = 0; I < n; I++) { Addr[I] = Val; Val = ...; }\<close>: the next value may depend on the
  address it is written to. Then the same loop with \<open>if (Addr[I] != Val) return -1\<close>.\<close>

primrec mem_fill :: "(u32 \<Rightarrow> 'w::len word \<Rightarrow> 'm \<Rightarrow> 'm) \<Rightarrow> nat \<Rightarrow> (u32 \<Rightarrow> 'w word \<Rightarrow> 'w word) \<Rightarrow>
    nat \<Rightarrow> u32 \<Rightarrow> 'w word \<Rightarrow> 'm \<Rightarrow> 'm" where
  "mem_fill wr sz nxt 0 p v m = m"
| "mem_fill wr sz nxt (Suc n) p v m = mem_fill wr sz nxt n (p + of_nat sz) (nxt (p + of_nat sz) v) (wr p v m)"

primrec mem_check :: "(u32 \<Rightarrow> 'm \<Rightarrow> 'w::len word) \<Rightarrow> nat \<Rightarrow> (u32 \<Rightarrow> 'w word \<Rightarrow> 'w word) \<Rightarrow>
    nat \<Rightarrow> u32 \<Rightarrow> 'w word \<Rightarrow> 'm \<Rightarrow> bool" where
  "mem_check rd sz nxt 0 p v m = True"
| "mem_check rd sz nxt (Suc n) p v m = (rd p m = v \<and> mem_check rd sz nxt n (p + of_nat sz) (nxt (p + of_nat sz) v) m)"

definition fill_check :: "(u32 \<Rightarrow> 'm \<Rightarrow> 'w::len word) \<Rightarrow> (u32 \<Rightarrow> 'w word \<Rightarrow> 'm \<Rightarrow> 'm) \<Rightarrow> nat \<Rightarrow>
    (u32 \<Rightarrow> 'w word \<Rightarrow> 'w word) \<Rightarrow> nat \<Rightarrow> u32 \<Rightarrow> 'w word \<Rightarrow> 'm \<Rightarrow> bool \<times> 'm" where
  "fill_check rd wr sz nxt n p v m = (let m1 = mem_fill wr sz nxt n p v m in (mem_check rd sz nxt n p v m1, m1))"

definition RotateLeft :: "u32 \<Rightarrow> u8 \<Rightarrow> u32" where
  "RotateLeft Input Width =
     (let MsbMask = push_bit (unat (Width - 1)) 1;
          WidthMask = push_bit 1 MsbMask - 1;
          Input1 = Input AND WidthMask;
          Msb = Input1 AND MsbMask;
          ReturnVal = push_bit 1 Input1;
          ReturnVal1 = (if Msb \<noteq> 0 then ReturnVal OR 1 else ReturnVal)
      in ReturnVal1 AND WidthMask)"

section \<open>The subtests\<close>

definition test_increment :: "(u32 \<Rightarrow> 'm \<Rightarrow> 'w::len word) \<Rightarrow> (u32 \<Rightarrow> 'w word \<Rightarrow> 'm \<Rightarrow> 'm) \<Rightarrow> nat \<Rightarrow> u32 \<Rightarrow> u32 \<Rightarrow> 'm \<Rightarrow> bool \<times> 'm" where
  "test_increment rd wr sz a words m = fill_check rd wr sz (\<lambda>_ v. v + 1) (unat words) a 1 m"

text \<open>The walking tests write as many words as a word has bits, whatever the length of the block.\<close>

primrec walk :: "(u32 \<Rightarrow> 'm \<Rightarrow> 'w::len word) \<Rightarrow> (u32 \<Rightarrow> 'w word \<Rightarrow> 'm \<Rightarrow> 'm) \<Rightarrow> nat \<Rightarrow> (nat \<Rightarrow> 'w word) \<Rightarrow>
    ('w word \<Rightarrow> 'w word) \<Rightarrow> u32 \<Rightarrow> nat list \<Rightarrow> 'm \<Rightarrow> bool \<times> 'm" where
  "walk rd wr sz start nxt a [] m = (True, m)"
| "walk rd wr sz start nxt a (J # Js) m = (case fill_check rd wr sz (\<lambda>_. nxt) LENGTH('w) a (start J) m of
     (ok, m1) \<Rightarrow> if ok then walk rd wr sz start nxt a Js m1 else (False, m1))"

definition next_one :: "'w::len word \<Rightarrow> 'w word" where
  "next_one v = ucast (RotateLeft (ucast v) (of_nat LENGTH('w)))"

definition next_zero :: "'w::len word \<Rightarrow> 'w word" where
  "next_zero v = NOT (ucast (RotateLeft (NOT (ucast v)) (of_nat LENGTH('w))))"

definition test_walkones :: "(u32 \<Rightarrow> 'm \<Rightarrow> 'w::len word) \<Rightarrow> (u32 \<Rightarrow> 'w word \<Rightarrow> 'm \<Rightarrow> 'm) \<Rightarrow> nat \<Rightarrow> u32 \<Rightarrow> 'm \<Rightarrow> bool \<times> 'm" where
  "test_walkones rd wr sz a m = walk rd wr sz (\<lambda>J. push_bit J 1) next_one a [0..<LENGTH('w)] m"

definition test_walkzeros :: "(u32 \<Rightarrow> 'm \<Rightarrow> 'w::len word) \<Rightarrow> (u32 \<Rightarrow> 'w word \<Rightarrow> 'm \<Rightarrow> 'm) \<Rightarrow> nat \<Rightarrow> u32 \<Rightarrow> 'm \<Rightarrow> bool \<times> 'm" where
  "test_walkzeros rd wr sz a m = walk rd wr sz (\<lambda>J. NOT (push_bit J 1)) next_zero a [0..<LENGTH('w)] m"

definition test_inverseaddr :: "(u32 \<Rightarrow> 'm \<Rightarrow> 'w::len word) \<Rightarrow> (u32 \<Rightarrow> 'w word \<Rightarrow> 'm \<Rightarrow> 'm) \<Rightarrow> nat \<Rightarrow> u32 \<Rightarrow> u32 \<Rightarrow> 'm \<Rightarrow> bool \<times> 'm" where
  "test_inverseaddr rd wr sz a words m = fill_check rd wr sz (\<lambda>p _. ucast (NOT p)) (unat words) a (ucast (NOT a)) m"

definition test_fixedpattern :: "(u32 \<Rightarrow> 'm \<Rightarrow> 'w::len word) \<Rightarrow> (u32 \<Rightarrow> 'w word \<Rightarrow> 'm \<Rightarrow> 'm) \<Rightarrow> nat \<Rightarrow> 'w word \<Rightarrow>
    u32 \<Rightarrow> u32 \<Rightarrow> 'w word \<Rightarrow> 'm \<Rightarrow> bool \<times> 'm" where
  "test_fixedpattern rd wr sz dflt a words Pattern m =
     fill_check rd wr sz (\<lambda>_ v. v) (unat words) a (if Pattern = 0 then dflt else Pattern) m"

text \<open>The switch: \<open>XIL_TESTMEM_ALLMEMTESTS\<close> falls through all cases and stops at the first failure.\<close>

definition subtest :: "(u32 \<Rightarrow> 'm \<Rightarrow> 'w::len word) \<Rightarrow> (u32 \<Rightarrow> 'w word \<Rightarrow> 'm \<Rightarrow> 'm) \<Rightarrow> nat \<Rightarrow> 'w word \<Rightarrow>
    u32 \<Rightarrow> u32 \<Rightarrow> 'w word \<Rightarrow> u8 \<Rightarrow> 'm \<Rightarrow> bool \<times> 'm" where
  "subtest rd wr sz dflt a words Pattern k m =
     (if k = 1 then test_increment rd wr sz a words m
      else if k = 2 then test_walkones rd wr sz a m
      else if k = 3 then test_walkzeros rd wr sz a m
      else if k = 4 then test_inverseaddr rd wr sz a words m
      else test_fixedpattern rd wr sz dflt a words Pattern m)"

primrec run_subtests :: "(u8 \<Rightarrow> 'm \<Rightarrow> bool \<times> 'm) \<Rightarrow> u8 list \<Rightarrow> 'm \<Rightarrow> s32 \<times> 'm" where
  "run_subtests t [] m = (0, m)"
| "run_subtests t (k # ks) m = (case t k m of (ok, m1) \<Rightarrow> if ok then run_subtests t ks m1 else (- 1, m1))"

definition mem_test :: "(u32 \<Rightarrow> 'm \<Rightarrow> 'w::len word) \<Rightarrow> (u32 \<Rightarrow> 'w word \<Rightarrow> 'm \<Rightarrow> 'm) \<Rightarrow> nat \<Rightarrow> 'w word \<Rightarrow>
    u32 \<Rightarrow> u32 \<Rightarrow> 'w word \<Rightarrow> u8 \<Rightarrow> 'm \<Rightarrow> (s32 \<times> 'm) option" where
  "mem_test rd wr sz dflt a words Pattern Subtest m =
     (if words = 0 \<or> Subtest > 5 then None
      else Some (run_subtests (subtest rd wr sz dflt a words Pattern) (if Subtest = 0 then [1, 2, 3, 4, 5] else [Subtest]) m))"

definition Xil_TestMem32 :: "(u32 \<Rightarrow> 'm \<Rightarrow> u32) \<Rightarrow> (u32 \<Rightarrow> u32 \<Rightarrow> 'm \<Rightarrow> 'm) \<Rightarrow> u32 \<Rightarrow> u32 \<Rightarrow> u32 \<Rightarrow> u8 \<Rightarrow> 'm \<Rightarrow> (s32 \<times> 'm) option" where
  "Xil_TestMem32 rd wr Addr Words Pattern Subtest m = mem_test rd wr 4 0xDEADBEEF Addr Words Pattern Subtest m"

definition Xil_TestMem16 :: "(u32 \<Rightarrow> 'm \<Rightarrow> u16) \<Rightarrow> (u32 \<Rightarrow> u16 \<Rightarrow> 'm \<Rightarrow> 'm) \<Rightarrow> u32 \<Rightarrow> u32 \<Rightarrow> u16 \<Rightarrow> u8 \<Rightarrow> 'm \<Rightarrow> (s32 \<times> 'm) option" where
  "Xil_TestMem16 rd wr Addr Words Pattern Subtest m = mem_test rd wr 2 0xDEAD Addr Words Pattern Subtest m"

definition Xil_TestMem8 :: "(u32 \<Rightarrow> 'm \<Rightarrow> u8) \<Rightarrow> (u32 \<Rightarrow> u8 \<Rightarrow> 'm \<Rightarrow> 'm) \<Rightarrow> u32 \<Rightarrow> u32 \<Rightarrow> u8 \<Rightarrow> u8 \<Rightarrow> 'm \<Rightarrow> (s32 \<times> 'm) option" where
  "Xil_TestMem8 rd wr Addr Words Pattern Subtest m = mem_test rd wr 1 0xA5 Addr Words Pattern Subtest m"

section \<open>A sound memory\<close>

text \<open>The words of a block do not overlap, if the block fits the address space.\<close>

lemma block_apart:
  assumes "0 < i" and "(i + 1) * sz \<le> 4294967296"
  shows "apart p sz (p + of_nat (i * sz)) sz"
proof -
  have "apart (p + of_nat (i * sz)) sz p (i * sz)"
    using assms(2) by (intro apart_next) (simp add: algebra_simps)
  then have "apart p (i * sz) (p + of_nat (i * sz)) sz" by (simp only: apart_sym)
  moreover have "sz \<le> i * sz" using assms(1) by (cases i) auto
  ultimately show ?thesis using apart_sub by blast
qed

text \<open>What reading gives after writing, and its consequence for the tests.\<close>

locale sound_memory =
  fixes rd :: "u32 \<Rightarrow> 'm \<Rightarrow> 'w::len word" and wr :: "u32 \<Rightarrow> 'w word \<Rightarrow> 'm \<Rightarrow> 'm" and sz :: nat
  assumes read_own: "rd p (wr p v m) = v"
    and read_other: "apart p sz q sz \<Longrightarrow> rd p (wr q v m) = rd p m"
begin

lemma fill_other:
  "\<forall>i < n. apart q sz (p + of_nat (i * sz)) sz \<Longrightarrow> rd q (mem_fill wr sz nxt n p v m) = rd q m"
proof (induction n arbitrary: p v m)
  case (Suc n)
  have "apart q sz (p + of_nat sz + of_nat (i * sz)) sz" if "i < n" for i
    using Suc.prems that by (auto simp: algebra_simps dest: spec [of _ "Suc i"])
  moreover have "apart q sz p sz" using Suc.prems by (auto dest: spec [of _ 0])
  ultimately show ?case by (simp add: Suc.IH read_other)
qed simp

lemma fill_checks:
  "n * sz \<le> 4294967296 \<Longrightarrow> mem_check rd sz nxt n p v (mem_fill wr sz nxt n p v m)"
proof (induction n arbitrary: p v m)
  case (Suc n)
  have "apart p sz (p + of_nat sz + of_nat (i * sz)) sz" if "i < n" for i
  proof -
    have "(i + 2) * sz \<le> (n + 1) * sz" using that by (intro mult_le_mono1) simp
    then show ?thesis using block_apart [of "Suc i" sz p] Suc.prems by (simp add: algebra_simps)
  qed
  then have "rd p (mem_fill wr sz nxt (Suc n) p v m) = v" by (simp add: fill_other read_own)
  with Suc show ?case by simp
qed simp

lemma fill_check_ok: "n * sz \<le> 4294967296 \<Longrightarrow> fst (fill_check rd wr sz nxt n p v m)"
  by (simp add: fill_check_def fill_checks)

lemma walk_ok: "LENGTH('w) * sz \<le> 4294967296 \<Longrightarrow> fst (walk rd wr sz start nxt p Js m)"
  by (induction Js arbitrary: m) (auto simp: case_prod_unfold fill_check_ok)

lemma subtest_ok:
  "unat words * sz \<le> 4294967296 \<Longrightarrow> LENGTH('w) * sz \<le> 4294967296 \<Longrightarrow> fst (subtest rd wr sz dflt p words pat k m)"
  by (simp add: subtest_def test_increment_def test_walkones_def test_walkzeros_def test_inverseaddr_def
      test_fixedpattern_def fill_check_ok walk_ok)

end

section \<open>Byte addressed memory\<close>

definition wr16 :: "memory \<Rightarrow> u32 \<Rightarrow> u16 \<Rightarrow> memory" where
  "wr16 m a w = wr_bytes m a (le16 w)"

definition wr8 :: "memory \<Rightarrow> u32 \<Rightarrow> u8 \<Rightarrow> memory" where
  "wr8 m a w = wr_bytes m a [w]"

interpretation ram32: sound_memory "\<lambda>p m. rd32 m p" "\<lambda>p v m. wr32 m p v" 4
proof
  show "rd32 (wr32 m p v) p = v" for p v m by (rule rd32_wr32)
qed (auto simp: rd32_def wr32_def rd_wr_apart)

interpretation ram16: sound_memory "\<lambda>p m. rd16 m p" "\<lambda>p v m. wr16 m p v" 2
proof
  show "rd16 (wr16 m p v) p = v" for p v m
    using rd_wr_bytes [of "le16 v" m p] by (simp add: rd16_def wr16_def un16_le16)
qed (auto simp: rd16_def wr16_def rd_wr_apart)

interpretation ram8: sound_memory "\<lambda>p m :: memory. m p" "\<lambda>p v m. wr8 m p v" 1
proof
  show "wr8 m p v p = v" for p v and m :: memory by (simp add: wr8_def wr_bytes_def)
  show "wr8 m q v p = m p" if "apart p 1 q 1" for p q v and m :: memory
    using rd_wr_apart [of p 1 q "[v]" m] that by (simp add: wr8_def rd_bytes_def)
qed

text \<open>What the tests leave alone.\<close>

lemma fill_outside:
  assumes len: "\<And>v. length (enc v) = sz"
  shows "n * sz \<le> unat (x - p) \<Longrightarrow> mem_fill (\<lambda>p v m. wr_bytes m p (enc v)) sz nxt n p v m x = m x"
proof (induction n arbitrary: p v m)
  case (Suc n)
  have "unat (x - (p + of_nat sz)) = unat (x - p) - sz"
  proof -
    have "sz \<le> unat (x - p)" using Suc.prems by simp
    then have "unat (of_nat sz :: u32) = sz" using unat_u32_less [of "x - p"] by (simp add: unat_of_nat)
    with \<open>sz \<le> unat (x - p)\<close> show ?thesis
      by (simp add: diff_diff_eq [symmetric] unat_sub word_le_nat_alt)
  qed
  with Suc show ?case by (simp add: wr_bytes_def len)
qed simp

lemma fill_check_outside:
  assumes "\<And>v. length (enc v) = sz" and "n * sz \<le> unat (x - p)"
  shows "snd (fill_check rd (\<lambda>p v m. wr_bytes m p (enc v)) sz nxt n p v m) x = m x"
  using fill_outside [OF assms] by (simp add: fill_check_def Let_def)

lemma walk_outside:
  fixes enc :: "'w::len word \<Rightarrow> u8 list"
  assumes "\<And>v. length (enc v) = sz" and "LENGTH('w) * sz \<le> unat (x - p)"
  shows "snd (walk rd (\<lambda>p v m. wr_bytes m p (enc v)) sz start nxt p Js m) x = m x"
proof (induction Js arbitrary: m)
  case (Cons J Js)
  have "snd (fill_check rd (\<lambda>p v m. wr_bytes m p (enc v)) sz (\<lambda>_. nxt) LENGTH('w) p (start J) m) x = m x"
    by (rule fill_check_outside [OF assms])
  with Cons show ?case by (simp add: case_prod_unfold)
qed simp

definition touched :: "nat \<Rightarrow> u32 \<Rightarrow> u8 \<Rightarrow> nat" where
  "touched W words Subtest = (if Subtest \<in> {1, 4, 5} then unat words else max W (unat words))"

lemma subtest_outside:
  fixes enc :: "'w::len word \<Rightarrow> u8 list"
  assumes "\<And>v. length (enc v) = sz" and "touched LENGTH('w) words k * sz \<le> unat (x - p)"
  shows "snd (subtest rd (\<lambda>p v m. wr_bytes m p (enc v)) sz dflt p words pat k m) x = m x"
proof -
  have "unat words * sz \<le> touched LENGTH('w) words k * sz" "k = 2 \<or> k = 3 \<Longrightarrow> LENGTH('w) * sz \<le> touched LENGTH('w) words k * sz"
    by (auto simp: touched_def intro: mult_le_mono1)
  then have "unat words * sz \<le> unat (x - p)" "k = 2 \<or> k = 3 \<Longrightarrow> LENGTH('w) * sz \<le> unat (x - p)"
    using assms(2) by linarith+
  then show ?thesis
    by (auto simp: subtest_def test_increment_def test_walkones_def test_walkzeros_def test_inverseaddr_def
        test_fixedpattern_def fill_check_outside walk_outside assms(1))
qed

lemma run_subtests_ok: "\<forall>k m. fst (t k m) \<Longrightarrow> fst (run_subtests t ks m) = 0"
  by (induction ks arbitrary: m) (auto simp: case_prod_unfold)

lemma run_subtests_outside:
  "\<forall>k \<in> set ks. \<forall>m. snd (t k m) x = m x \<Longrightarrow> snd (run_subtests t ks m) x = m x"
  by (induction ks arbitrary: m) (auto simp: case_prod_unfold)

abbreviation "rdw \<equiv> \<lambda>p m. rd32 m p"
abbreviation "wrw \<equiv> \<lambda>p v m. wr32 m p v"

theorem sound_memory_passes:
  assumes "words \<noteq> 0" and "Subtest \<le> 5" and "unat words * 4 \<le> 4294967296"
  shows "\<exists>m'. Xil_TestMem32 rdw wrw a words pat Subtest m = Some (0, m') \<and>
    (\<forall>x. touched 32 words Subtest * 4 \<le> unat (x - a) \<longrightarrow> m' x = m x)"
proof -
  let ?t = "subtest rdw wrw 4 0xDEADBEEF a words pat" and ?ks = "if Subtest = 0 then [1, 2, 3, 4, 5] else [Subtest]"
  let ?r = "run_subtests ?t ?ks m"
  have "fst ?r = 0"
    using assms(3) by (intro run_subtests_ok) (simp add: ram32.subtest_ok)
  moreover have "snd ?r x = m x" if "touched 32 words Subtest * 4 \<le> unat (x - a)" for x
  proof (rule run_subtests_outside, intro ballI allI)
    fix k m'
    assume "k \<in> set ?ks"
    then have "touched 32 words k * 4 \<le> unat (x - a)" using that by (auto simp: touched_def split: if_splits)
    then show "snd (?t k m') x = m' x" by (simp add: wr32_def subtest_outside)
  qed
  ultimately show ?thesis
    using assms(1,2) by (intro exI [of _ "snd ?r"]) (simp add: Xil_TestMem32_def mem_test_def prod_eq_iff not_less)
qed

theorem sound_memory_passes_witness:
  "\<exists>m'. Xil_TestMem32 rdw wrw 0x1000 100 0 1 (\<lambda>_. 7) = Some (0, m') \<and> m' 0x1190 = 7"
  using sound_memory_passes [of 100 1 "0x1000" 0 "\<lambda>_. 7"] by (auto simp: touched_def)

section \<open>Broken memory\<close>

lemma check_value:
  "mem_check rd sz (\<lambda>_. f) n p v m \<Longrightarrow> k < n \<Longrightarrow> rd (p + of_nat (k * sz)) m = (f ^^ k) v"
proof (induction n arbitrary: k p v)
  case (Suc n)
  show ?case
  proof (cases k)
    case (Suc j)
    then have "rd (p + of_nat sz + of_nat (j * sz)) m = (f ^^ j) (f v)" using Suc.IH Suc.prems by simp
    with Suc show ?thesis by (simp add: funpow_swap1 algebra_simps)
  qed (use Suc.prems in simp)
qed simp

lemma next_one_32: "j < 32 \<Longrightarrow> next_one (push_bit j 1 :: u32) = push_bit ((j + 1) mod 32) 1"
proof -
  have "\<forall>j \<in> set [0..<32]. next_one (push_bit j 1 :: u32) = push_bit ((j + 1) mod 32) 1" by code_simp
  then show "j < 32 \<Longrightarrow> next_one (push_bit j 1 :: u32) = push_bit ((j + 1) mod 32) 1" by simp
qed

lemma walking_one: "J < 32 \<Longrightarrow> (next_one ^^ k) (push_bit J 1 :: u32) = push_bit ((J + k) mod 32) 1"
  by (induction k) (simp_all add: next_one_32 mod_Suc_eq del: push_bit_of_1)

lemma walk_check:
  "fst (walk rd wr sz start nxt p Js m) \<Longrightarrow> J \<in> set Js \<Longrightarrow>
    \<exists>m1. mem_check rd sz (\<lambda>_. nxt) LENGTH('w) p (start J) (m1 :: 'm)"
  for rd :: "u32 \<Rightarrow> 'm \<Rightarrow> 'w::len word"
  by (induction Js arbitrary: m) (auto simp: case_prod_unfold fill_check_def Let_def split: if_splits)

lemma walk_last:
  "fst (walk rd wr sz start nxt p (Js @ [J]) m) \<Longrightarrow>
    mem_check rd sz (\<lambda>_. nxt) LENGTH('w) p (start J) (snd (walk rd wr sz start nxt p (Js @ [J]) m))"
  for rd :: "u32 \<Rightarrow> 'm \<Rightarrow> 'w::len word"
  by (induction Js arbitrary: m) (auto simp: case_prod_unfold fill_check_def Let_def split: if_splits)

lemma run_subtests_fails:
  "k \<in> set ks \<Longrightarrow> \<forall>m. \<not> fst (t k m) \<Longrightarrow> fst (run_subtests t ks m) = - 1"
  by (induction ks arbitrary: m) (auto simp: case_prod_unfold)

lemma walking_ones_values:
  fixes rd :: "u32 \<Rightarrow> 'm \<Rightarrow> u32"
  assumes "fst (test_walkones rd wr sz a m)" and "k < 32" and "i < 32"
  shows "\<exists>m1. rd (a + of_nat (k * sz)) m1 = push_bit i 1"
proof -
  define J where "J = (i + 32 - k) mod 32"
  have "J < 32" "(J + k) mod 32 = i"
    using assms(2,3) by (auto simp: J_def mod_simps)
  then obtain m1 where "mem_check rd sz (\<lambda>_. next_one) 32 a (push_bit J 1) m1"
    using walk_check [OF assms(1) [unfolded test_walkones_def], of J] by (auto simp del: push_bit_of_1)
  from check_value [OF this assms(2)] show ?thesis
    using walking_one [OF \<open>J < 32\<close>, of k] \<open>(J + k) mod 32 = i\<close> by (auto simp del: push_bit_of_1)
qed

text \<open>C38: Walking ones put every bit of the first 32 words to both values, so they find a bit that always reads the same,
  whatever else is wrong with the memory.\<close>

theorem stuck_bit_found:
  fixes rd :: "u32 \<Rightarrow> 'm \<Rightarrow> u32"
  assumes "\<forall>m. bit (rd (a + of_nat (k * 4)) m) b = c" and "k < 32" and "b < 32"
    and "words \<noteq> 0" and "Subtest = 0 \<or> Subtest = 2"
  shows "\<exists>m'. Xil_TestMem32 rd wr a words pat Subtest m = Some (- 1, m')"
proof -
  let ?t = "subtest rd wr 4 0xDEADBEEF a words pat" and ?ks = "if Subtest = 0 then [1, 2, 3, 4, 5] else [Subtest]"
  let ?i = "if c then (b + 1) mod 32 else b"
  have "\<not> fst (?t 2 m)" for m
  proof
    assume "fst (?t 2 m)"
    then have "fst (test_walkones rd wr 4 a m)" by (simp add: subtest_def)
    moreover have "?i < 32" using assms(3) by simp
    ultimately obtain m1 where "rd (a + of_nat (k * 4)) m1 = push_bit ?i 1"
      using walking_ones_values [of rd wr 4 a m k ?i] assms(2) by blast
    then have "bit (rd (a + of_nat (k * 4)) m1) b \<longleftrightarrow> ?i = b"
      using assms(3) by (auto simp: bit_simps simp del: push_bit_of_1)
    moreover have "(b + 1) mod 32 \<noteq> b" using assms(3) by (cases "b = 31") auto
    ultimately show False using assms(1) by (cases c) auto
  qed
  then have "fst (run_subtests ?t ?ks m) = - 1"
    using assms(5) by (intro run_subtests_fails [of 2]) auto
  then show ?thesis
    using assms(4,5) by (intro exI [of _ "snd (run_subtests ?t ?ks m)"]) (auto simp: Xil_TestMem32_def mem_test_def prod_eq_iff)
qed

text \<open>Bit 3 of every word reads as zero.\<close>

theorem stuck_bit_found_witness:
  "\<exists>m'. Xil_TestMem32 (\<lambda>p m. rd32 m p AND NOT 8) wrw 0x1000 64 0 0 (\<lambda>_. 0) = Some (- 1, m')"
  by (rule stuck_bit_found [where k = 5 and b = 3 and c = False]) (simp_all add: bit_simps)

text \<open>The length of the block does not bound the walking tests: 32 words are lost in a block of any length.\<close>

theorem walking_ones_overrun:
  assumes "words \<noteq> 0" and "k < 32"
  shows "\<exists>m'. Xil_TestMem32 rdw wrw a words pat 2 m = Some (0, m') \<and> rd32 m' (a + of_nat (k * 4)) = push_bit ((31 + k) mod 32) 1"
proof -
  obtain Js where Js: "[0..<32] = Js @ [31]" using upt_add_eq_append [of 0 31 1] by simp
  let ?w = "walk rdw wrw 4 (\<lambda>J. push_bit J 1) next_one a (Js @ [31]) m"
  from Js have w: "test_walkones rdw wrw 4 a m = ?w" by (simp add: test_walkones_def del: upt_rec_numeral)
  have ok: "fst ?w" by (rule ram32.walk_ok) simp
  from walk_last [OF this] have "mem_check rdw 4 (\<lambda>_. next_one) 32 a (push_bit 31 1) (snd ?w)" by simp
  from check_value [OF this assms(2)] walking_one [of 31 k]
  have "rd32 (snd ?w) (a + of_nat (k * 4)) = push_bit ((31 + k) mod 32) 1" by (simp del: push_bit_of_1)
  moreover have "Xil_TestMem32 rdw wrw a words pat 2 m = Some (0, snd ?w)"
    using assms(1) ok by (simp add: Xil_TestMem32_def mem_test_def subtest_def w case_prod_unfold)
  ultimately show ?thesis by blast
qed

text \<open>A block of one word.\<close>

theorem walking_ones_overrun_witness:
  "\<exists>m'. Xil_TestMem32 rdw wrw 0x1000 1 0 2 (\<lambda>_. 0) = Some (0, m') \<and> rd32 m' 0x107C = 0x40000000"
  using walking_ones_overrun [of 1 31 "0x1000" 0 "\<lambda>_. 0"] by simp

end
