(* ===== verification/XilIo.thy ===== *)
theory XilIo
  imports Machine
begin

text \<open>
  The other register accesses of xil_io.c: bytes and half words, big-endian registers, and the
  byte swaps; and the register tests of xil_testio.c. The processor is little-endian, so the
  \<open>LE\<close> macros of xil_io.h are the plain accesses. A narrow read takes its value from the tape
  too, cut to its width.
\<close>

section \<open>Bytes and half words\<close>

definition Xil_In8 :: "u32 \<Rightarrow> 'a machine_scheme \<Rightarrow> (u8 \<times> 'a machine_scheme) option" where
  "Xil_In8 a s = (case io_tape s of [] \<Rightarrow> None
     | v # t \<Rightarrow> Some (ucast v, s\<lparr>io_tape := t, io_log := io_log s @ [IoRead8 a (ucast v)]\<rparr>))"

definition Xil_In16 :: "u32 \<Rightarrow> 'a machine_scheme \<Rightarrow> (u16 \<times> 'a machine_scheme) option" where
  "Xil_In16 a s = (case io_tape s of [] \<Rightarrow> None
     | v # t \<Rightarrow> Some (ucast v, s\<lparr>io_tape := t, io_log := io_log s @ [IoRead16 a (ucast v)]\<rparr>))"

definition Xil_Out8 :: "u32 \<Rightarrow> u8 \<Rightarrow> 'a machine_scheme \<Rightarrow> 'a machine_scheme" where
  "Xil_Out8 a v s = s\<lparr>io_log := io_log s @ [IoWrite8 a v]\<rparr>"

definition Xil_Out16 :: "u32 \<Rightarrow> u16 \<Rightarrow> 'a machine_scheme \<Rightarrow> 'a machine_scheme" where
  "Xil_Out16 a v s = s\<lparr>io_log := io_log s @ [IoWrite16 a v]\<rparr>"

section \<open>Byte order\<close>

definition Xil_EndianSwap16 :: "u16 \<Rightarrow> u16" where
  "Xil_EndianSwap16 Data = drop_bit 8 (Data AND 0xFF00) OR push_bit 8 (Data AND 0x00FF)"

definition Xil_EndianSwap32 :: "u32 \<Rightarrow> u32" where
  "Xil_EndianSwap32 Data =
     (let LoWord = ucast (Data AND 0x0000FFFF) :: u16;
          HiWord = ucast (drop_bit 16 (Data AND 0xFFFF0000)) :: u16;
          LoWord1 = drop_bit 8 (LoWord AND 0xFF00) OR push_bit 8 (LoWord AND 0x00FF);
          HiWord1 = drop_bit 8 (HiWord AND 0xFF00) OR push_bit 8 (HiWord AND 0x00FF)
      in push_bit 16 (ucast LoWord1) OR ucast HiWord1)"

definition Xil_In16BE :: "u32 \<Rightarrow> 'a machine_scheme \<Rightarrow> (u16 \<times> 'a machine_scheme) option" where
  "Xil_In16BE a s = do { (temp, s1) \<leftarrow> Xil_In16 a s; Some (Xil_EndianSwap16 temp, s1) }"

definition Xil_In32BE :: "u32 \<Rightarrow> 'a machine_scheme \<Rightarrow> (u32 \<times> 'a machine_scheme) option" where
  "Xil_In32BE a s = do { (temp, s1) \<leftarrow> Xil_In32 a s; Some (Xil_EndianSwap32 temp, s1) }"

definition Xil_Out16BE :: "u32 \<Rightarrow> u16 \<Rightarrow> 'a machine_scheme \<Rightarrow> 'a machine_scheme" where
  "Xil_Out16BE a v s = Xil_Out16 a (Xil_EndianSwap16 v) s"

definition Xil_Out32BE :: "u32 \<Rightarrow> u32 \<Rightarrow> 'a machine_scheme \<Rightarrow> 'a machine_scheme" where
  "Xil_Out32BE a v s = Xil_Out32 a (Xil_EndianSwap32 v) s"

section \<open>Register tests\<close>

definition Swap16 :: "u16 \<Rightarrow> u16" where
  "Swap16 Data = drop_bit 8 Data AND 0x00FF OR push_bit 8 Data AND 0xFF00"

definition Swap32 :: "u32 \<Rightarrow> u32" where
  "Swap32 Data = push_bit 16 (ucast (Swap16 (ucast (Data AND 0x0000FFFF))))
     OR ucast (Swap16 (ucast (drop_bit 16 Data AND 0x0000FFFF)))"

abbreviation (input) "XIL_TESTIO_BE \<equiv> (2 :: s32)"

text \<open>The argument \<open>n\<close> counts the rounds that are left.\<close>

primrec testio8_loop :: "nat \<Rightarrow> u32 \<Rightarrow> u8 \<Rightarrow> 'a machine_scheme \<Rightarrow> (s32 \<times> 'a machine_scheme) option" where
  "testio8_loop 0 a v s = Some (0, s)"
| "testio8_loop (Suc n) a v s = do {
     (x, s1) \<leftarrow> Xil_In8 a (Xil_Out8 a v s);
     if v \<noteq> x then Some (- 1, s1) else testio8_loop n a v s1
   }"

definition Xil_TestIO8 :: "u32 \<Rightarrow> s32 \<Rightarrow> u8 \<Rightarrow> 'a machine_scheme \<Rightarrow> (s32 \<times> 'a machine_scheme) option" where
  "Xil_TestIO8 Addr Len Value s = testio8_loop (nat (sint Len)) Addr Value s"

primrec testio16_loop :: "nat \<Rightarrow> u32 \<Rightarrow> u16 \<Rightarrow> s32 \<Rightarrow> s32 \<Rightarrow> 'a machine_scheme \<Rightarrow> (s32 \<times> 'a machine_scheme) option" where
  "testio16_loop 0 a v Kind Swap s = Some (0, s)"
| "testio16_loop (Suc n) a v Kind Swap s = do {
     (x, s1) \<leftarrow> Xil_In16 a (if Kind = XIL_TESTIO_BE then Xil_Out16BE a v s else Xil_Out16 a v s);
     let x1 = (if Kind \<noteq> 0 \<and> Swap \<noteq> 0 then Swap16 x else x);
     if v \<noteq> x1 then Some (- 1, s1) else do {
       (y, s2) \<leftarrow> (if Kind = XIL_TESTIO_BE then Xil_In16BE a (Xil_Out16 a v s1) else Xil_In16 a (Xil_Out16 a v s1));
       let y1 = (if Kind \<noteq> 0 \<and> Swap \<noteq> 0 then Swap16 y else y);
       if v \<noteq> y1 then Some (- 1, s2) else testio16_loop n (a + 2) v Kind Swap s2
     }
   }"

definition Xil_TestIO16 :: "u32 \<Rightarrow> s32 \<Rightarrow> u16 \<Rightarrow> s32 \<Rightarrow> s32 \<Rightarrow> 'a machine_scheme \<Rightarrow> (s32 \<times> 'a machine_scheme) option" where
  "Xil_TestIO16 Addr Len Value Kind Swap s = testio16_loop (nat (sint Len)) Addr Value Kind Swap s"

primrec testio32_loop :: "nat \<Rightarrow> u32 \<Rightarrow> u32 \<Rightarrow> s32 \<Rightarrow> s32 \<Rightarrow> 'a machine_scheme \<Rightarrow> (s32 \<times> 'a machine_scheme) option" where
  "testio32_loop 0 a v Kind Swap s = Some (0, s)"
| "testio32_loop (Suc n) a v Kind Swap s = do {
     (x, s1) \<leftarrow> Xil_In32 a (if Kind = XIL_TESTIO_BE then Xil_Out32BE a v s else Xil_Out32 a v s);
     let x1 = (if Kind \<noteq> 0 \<and> Swap \<noteq> 0 then Swap32 x else x);
     if v \<noteq> x1 then Some (- 1, s1) else do {
       (y, s2) \<leftarrow> (if Kind = XIL_TESTIO_BE then Xil_In32BE a (Xil_Out32 a v s1) else Xil_In32 a (Xil_Out32 a v s1));
       let y1 = (if Kind \<noteq> 0 \<and> Swap \<noteq> 0 then Swap32 y else y);
       if v \<noteq> y1 then Some (- 1, s2) else testio32_loop n (a + 4) v Kind Swap s2
     }
   }"

definition Xil_TestIO32 :: "u32 \<Rightarrow> s32 \<Rightarrow> u32 \<Rightarrow> s32 \<Rightarrow> s32 \<Rightarrow> 'a machine_scheme \<Rightarrow> (s32 \<times> 'a machine_scheme) option" where
  "Xil_TestIO32 Addr Len Value Kind Swap s = testio32_loop (nat (sint Len)) Addr Value Kind Swap s"

section \<open>Swapping\<close>

text \<open>The swap of a word reverses its bytes in memory.\<close>

lemma swap_masks:
  "(0xFF :: u16) = mask 8" "(0xFF00 :: u16) = push_bit 8 (mask 8)"
  "(0xFFFF :: u32) = mask 16" "(0xFFFF0000 :: u32) = push_bit 16 (mask 16)"
  by (simp_all add: mask_eq_exp_minus_1)

lemma swap16_forms:
  "drop_bit 8 (d AND 0xFF00) OR push_bit 8 (d AND 0xFF) = drop_bit 8 d OR push_bit 8 (d :: u16)"
  "drop_bit 8 d AND 0xFF OR push_bit 8 d AND 0xFF00 = drop_bit 8 d OR push_bit 8 (d :: u16)"
  unfolding swap_masks by (rule bit_word_eqI; auto simp: bit_simps dest: bit_imp_le_length)+

lemma half_forms: "ucast (w AND 0xFFFF) = (ucast w :: u16)"
  "ucast (drop_bit 16 (w AND 0xFFFF0000)) = (ucast (drop_bit 16 w) :: u16)"
  "ucast (drop_bit 16 w AND 0xFFFF) = (ucast (drop_bit 16 w) :: u16)" for w :: u32
  unfolding swap_masks by (rule bit_word_eqI; auto simp: bit_simps dest: bit_imp_le_length)+

definition swapped :: "u16 \<Rightarrow> u16" where
  "swapped d = drop_bit 8 d OR push_bit 8 d"

lemma swap32_forms:
  "Xil_EndianSwap32 w = push_bit 16 (ucast (swapped (ucast w))) OR ucast (swapped (ucast (drop_bit 16 w)))"
  "Swap32 w = push_bit 16 (ucast (swapped (ucast w))) OR ucast (swapped (ucast (drop_bit 16 w)))"
  by (simp_all only: Xil_EndianSwap32_def Swap32_def Swap16_def Let_def half_forms swap16_forms swapped_def)

lemma swap32_eq: "Swap32 w = Xil_EndianSwap32 w"
  by (simp only: swap32_forms)

theorem endian_swap_reverses: "le32 (Xil_EndianSwap32 w) = rev (le32 w)"
proof -
  let ?s = "Xil_EndianSwap32 w"
  have "ucast ?s = (ucast (drop_bit 24 w) :: u8)" "ucast (drop_bit 8 ?s) = (ucast (drop_bit 16 w) :: u8)"
    "ucast (drop_bit 16 ?s) = (ucast (drop_bit 8 w) :: u8)" "ucast (drop_bit 24 ?s) = (ucast w :: u8)"
    unfolding swap32_forms swapped_def by (rule bit_word_eqI; auto simp: bit_simps dest: bit_imp_le_length)+
  then show ?thesis by (simp add: le32_def)
qed

lemma swap_involution: "Xil_EndianSwap32 (Xil_EndianSwap32 w) = w"
proof -
  have "le32 (Xil_EndianSwap32 (Xil_EndianSwap32 w)) = le32 w" by (simp add: endian_swap_reverses)
  then show ?thesis using un32_le32 by metis
qed

text \<open>A register that answers with what was written last. The first round of each word reads what the
  chosen kind of write stored, the second what the plain write stored.\<close>

definition plain_answers :: "u32 \<Rightarrow> s32 \<Rightarrow> u32 list" where
  "plain_answers v Kind = [if Kind = XIL_TESTIO_BE then Xil_EndianSwap32 v else v, v]"

lemma testio32_rounds:
  assumes "io_tape s = concat (replicate n (plain_answers v Kind)) @ t"
  shows "map_option fst (testio32_loop n a v Kind Swap s) =
    Some (if n = 0 \<or> (Kind = XIL_TESTIO_BE \<longleftrightarrow> Kind \<noteq> 0 \<and> Swap \<noteq> 0) \<or> Xil_EndianSwap32 v = v then 0 else - 1)"
  using assms
proof (induction n arbitrary: a s)
  case (Suc n)
  then obtain t' where t: "io_tape s = (if Kind = XIL_TESTIO_BE then Xil_EndianSwap32 v else v) # v # t'"
      "t' = concat (replicate n (plain_answers v Kind)) @ t"
    by (simp add: plain_answers_def)
  have eq: "v = Xil_EndianSwap32 v \<longleftrightarrow> Xil_EndianSwap32 v = v" by auto
  show ?case
    using Suc.IH t
    by (auto simp: Xil_In32BE_def Xil_In32_def Xil_Out32BE_def Xil_Out32_def swap32_eq swap_involution eq Let_def)
qed simp

theorem testio32_plain_register:
  assumes "io_tape s = concat (replicate (nat (sint Len)) (plain_answers v Kind)) @ t"
  shows "map_option fst (Xil_TestIO32 a Len v Kind Swap s) =
    Some (if sint Len \<le> 0 \<or> (Kind = XIL_TESTIO_BE \<longleftrightarrow> Kind \<noteq> 0 \<and> Swap \<noteq> 0) \<or> Xil_EndianSwap32 v = v then 0 else - 1)"
  using testio32_rounds [OF assms] by (simp add: Xil_TestIO32_def)

text \<open>Two big-endian registers, with the swap asked for.\<close>

theorem testio32_plain_register_witness:
  "map_option fst (Xil_TestIO32 0x1000 2 0x12345678 2 1 \<lparr>mem = (\<lambda>_. 0),
     io_tape = [0x78563412, 0x12345678, 0x78563412, 0x12345678], io_log = [], tlb = (\<lambda>_. 0)\<rparr>) = Some 0"
proof -
  have "Xil_EndianSwap32 0x12345678 = 0x78563412" by code_simp
  then have "[0x78563412, 0x12345678, 0x78563412, 0x12345678] = concat (replicate (nat (sint (2 :: s32))) (plain_answers 0x12345678 2)) @ []"
    by (simp add: plain_answers_def eval_nat_numeral)
  then show ?thesis
    by (subst testio32_plain_register [where t = "[]"]) simp_all
qed

end
