(* ===== verification/Heap.thy ===== *)
theory Heap
  imports Prelude
begin

text \<open>
  The memory behind \<open>malloc\<close>: the system calls of bsp/cortexa9/gcc/_sbrk.c and sbrk.c, which hand out the
  heap between two symbols of the linker. Their state is one pointer, null before the first call. The
  result \<open>(caddr_t) -1\<close> is the all-ones word.
\<close>

section \<open>The calls\<close>

text \<open>\<open>_sbrk\<close>: the pointer has moved even if the request fails.\<close>

definition newlib_sbrk :: "u32 \<Rightarrow> u32 \<Rightarrow> s32 \<Rightarrow> u32 \<Rightarrow> u32 \<times> u32" where
  "newlib_sbrk heap_start heap_end incr heap =
     (let prev_heap = (if heap = 0 then heap_start else heap);
          heap1 = prev_heap + incr
      in if heap1 > heap_end then (- 1, heap1) else (prev_heap, heap1))"

text \<open>\<open>sbrk\<close>, with \<open>errno = ENOMEM\<close> as a flag.\<close>

definition sbrk :: "u32 \<Rightarrow> u32 \<Rightarrow> s32 \<Rightarrow> u32 \<Rightarrow> u32 \<times> bool \<times> u32" where
  "sbrk HeapBase HeapLimit nbytes heap_ptr =
     (let base = (if heap_ptr = 0 then HeapBase else heap_ptr);
          heap_ptr1 = base + nbytes
      in if heap_ptr1 \<le> HeapLimit + 1 then (base, False, heap_ptr1) else (- 1, True, heap_ptr1))"

primrec sbrk_run :: "u32 \<Rightarrow> u32 \<Rightarrow> s32 list \<Rightarrow> u32 \<Rightarrow> u32 list" where
  "sbrk_run heap_start heap_end [] heap = []"
| "sbrk_run heap_start heap_end (r # rs) heap = (case newlib_sbrk heap_start heap_end r heap of
     (p, heap1) \<Rightarrow> p # sbrk_run heap_start heap_end rs heap1)"

section \<open>What a sequence of requests gets\<close>

lemma sbrk_run_from:
  assumes "heap \<noteq> 0" and "unat heap + sum_list rs < 4294967296"
  shows "sbrk_run hs he (map of_nat rs) heap = map (\<lambda>i. if unat heap + sum_list (take (Suc i) rs) \<le> unat he
    then heap + of_nat (sum_list (take i rs)) else - 1) [0..<length rs]"
  using assms
proof (induction rs arbitrary: heap)
  case (Cons r rs)
  have u: "unat (heap + of_nat r) = unat heap + r"
    using Cons.prems(2) by (simp add: unat_word_ariths unat_of_nat)
  then have "heap + of_nat r \<noteq> 0" using Cons.prems(1) by (metis add_eq_0_iff_both_eq_0 unat_eq_0)
  with Cons u have "sbrk_run hs he (map of_nat rs) (heap + of_nat r) = map (\<lambda>i. if unat heap + (r + sum_list (take (Suc i) rs)) \<le> unat he
      then heap + of_nat (r + sum_list (take i rs)) else - 1) [0..<length rs]"
    by (simp add: add.assoc)
  with u Cons.prems(1) show ?case
    by (simp add: newlib_sbrk_def Let_def word_less_nat_alt upt_conv_Cons map_Suc_upt [symmetric] o_def del: upt_Suc)
qed simp



text \<open>\<open>sbrk\<close> compares with one byte too many, and hands out the byte behind the heap.\<close>

lemma sbrk_off_by_one:
  "HeapBase \<noteq> 0 \<Longrightarrow> HeapLimit \<noteq> - 1 \<Longrightarrow> sbrk HeapBase HeapLimit (HeapLimit + 1 - HeapBase) 0 = (HeapBase, False, HeapLimit + 1)"
  by (simp add: sbrk_def)

end
