(* ===== verification/Profile.thy ===== *)
theory Profile
  imports Exceptions
begin

text \<open>
  The profiler of the board support package (bsp/profile/profile_cg.c, profile_hist.c, _profile_clean.c and the
  macros of _profile_timer_hw.h for the Cortex A9). \<open>mcount\<close> counts calls in two arrays that grow towards each other:
  callers upwards, callees downwards. A callee is linked by its number, counted from the first one; the links
  have 16 bits. The debugger sets up the sections and their arrays; the room between the arrays is part
  of a section here, and a call that needs more than is left has no value, because the code does not check.
\<close>

section \<open>Data\<close>

type_synonym s16 = "16 word"

record from_ent =
  frompc :: u32
  from_link :: s16

record to_ent =
  selfpc :: u32
  tcount :: s32
  to_link :: s16

text \<open>\<open>tos\<close> is the array of callees as the pointer sees it, the newest first.\<close>

record gmon =
  gstate :: s32
  kcount :: "u16 list"
  froms :: "from_ent list"
  tos :: "to_ent list"
  lowpc :: u32
  highpc :: u32
  cg_room :: nat

record prof = exc +
  gmonparam :: "gmon list"
  binsize :: s32
  prof_pc :: u32

section \<open>The timer\<close>

abbreviation (input) "PROFILE_TIMER_BASEADDR \<equiv> (0x00608000 :: u32)"
abbreviation (input) "XSCUTIMER_CONTROL_OFFSET \<equiv> (0x08 :: u32)"
abbreviation (input) "XSCUTIMER_ISR_OFFSET \<equiv> (0x0C :: u32)"

definition disable_timer :: "'a machine_scheme \<Rightarrow> 'a machine_scheme option" where
  "disable_timer s = do {
     (Reg, s1) \<leftarrow> Xil_In32 (PROFILE_TIMER_BASEADDR + XSCUTIMER_CONTROL_OFFSET) s;
     Some (Xil_Out32 (PROFILE_TIMER_BASEADDR + XSCUTIMER_CONTROL_OFFSET) (Reg AND NOT 1) s1)
   }"

definition enable_timer :: "'a machine_scheme \<Rightarrow> 'a machine_scheme option" where
  "enable_timer s = do {
     (Reg, s1) \<leftarrow> Xil_In32 (PROFILE_TIMER_BASEADDR + XSCUTIMER_CONTROL_OFFSET) s;
     Some (Xil_Out32 (PROFILE_TIMER_BASEADDR + XSCUTIMER_CONTROL_OFFSET) (Reg OR 1) s1)
   }"

definition timer_ack :: "'a machine_scheme \<Rightarrow> 'a machine_scheme" where
  "timer_ack s = Xil_Out32 (PROFILE_TIMER_BASEADDR + XSCUTIMER_ISR_OFFSET) 1 s"

definition profile_clean :: "'a exc_scheme \<Rightarrow> 'a exc_scheme option" where
  "profile_clean s = disable_timer (Xil_ExceptionDisable s)"

section \<open>Call graph\<close>

definition searchpc :: "from_ent list \<Rightarrow> u32 \<Rightarrow> nat option" where
  "searchpc fs pc = find_index (\<lambda>e. frompc e = pc) fs"

text \<open>The loop over the callees of a caller. The links come from memory, so the loop need not end.\<close>

partial_function (option) follow :: "to_ent list \<Rightarrow> u32 \<Rightarrow> int \<Rightarrow> nat option option" where
  "follow ts pc toindex = (if toindex = - 1 then Some None
     else let i = int (length ts) - toindex - 1
       in if i < 0 \<or> int (length ts) \<le> i then None
          else if selfpc (ts ! nat i) = pc then Some (Some (nat i))
          else follow ts pc (sint (to_link (ts ! nat i))))"

text \<open>A new callee of the caller \<open>i\<close>.\<close>

definition add_arc :: "u32 \<Rightarrow> nat \<Rightarrow> gmon \<Rightarrow> gmon option" where
  "add_arc pc i p =
     (let ts = \<lparr>selfpc = pc, tcount = 1, to_link = from_link (froms p ! i)\<rparr> # tos p;
          fs = (froms p)[i := (froms p ! i)\<lparr>from_link := of_nat (length ts - 1)\<rparr>]
      in if 8 * length fs + 12 * length ts > cg_room p then None else Some (p\<lparr>tos := ts, froms := fs\<rparr>))"

definition record_arc :: "u32 \<Rightarrow> u32 \<Rightarrow> gmon \<Rightarrow> gmon option" where
  "record_arc frm self p = (case searchpc (froms p) frm of
     None \<Rightarrow> add_arc self (length (froms p)) (p\<lparr>froms := froms p @ [\<lparr>frompc = frm, from_link = - 1\<rparr>]\<rparr>)
   | Some i \<Rightarrow> do {
       r \<leftarrow> follow (tos p) self (sint (from_link (froms p ! i)));
       case r of Some k \<Rightarrow> Some (p\<lparr>tos := (tos p)[k := (tos p ! k)\<lparr>tcount := tcount (tos p ! k) + 1\<rparr>]\<rparr>)
       | None \<Rightarrow> add_arc self i p
     })"

definition section_of :: "u32 \<Rightarrow> gmon list \<Rightarrow> nat option" where
  "section_of pc gs = find_index (\<lambda>g. lowpc g \<le> pc \<and> pc < highpc g) gs"

text \<open>A caller outside of all sections is a write through a null pointer at the end.\<close>

definition mcount :: "u32 \<Rightarrow> u32 \<Rightarrow> 'a prof_scheme \<Rightarrow> 'a prof_scheme option" where
  "mcount frm self s = do {
     s1 \<leftarrow> disable_timer s;
     j \<leftarrow> section_of frm (gmonparam s1);
     g \<leftarrow> record_arc frm self (gmonparam s1 ! j);
     enable_timer (s1\<lparr>gmonparam := (gmonparam s1)[j := g\<lparr>gstate := 0\<rparr>]\<rparr>)
   }"

section \<open>Histogram\<close>

text \<open>The division is unsigned. \<open>binsize\<close> is an \<open>int\<close> that is never zero in the code, a zero has no value.\<close>

definition profile_intr_handler :: "'a prof_scheme \<Rightarrow> 'a prof_scheme option" where
  "profile_intr_handler s = (case section_of (prof_pc s) (gmonparam s) of
     None \<Rightarrow> Some (timer_ack s)
   | Some j \<Rightarrow> (let g = gmonparam s ! j in if 4 * binsize s = 0 then None else do {
       let bin = unat ((prof_pc s - lowpc g) div (4 * binsize s));
       c \<leftarrow> aget (kcount g) bin;
       Some (timer_ack (s\<lparr>gmonparam := (gmonparam s)[j := g\<lparr>kcount := (kcount g)[bin := c + 1]\<rparr>]\<rparr>))
     }))"

section \<open>The arcs of a section\<close>

definition link_of :: "s16 \<Rightarrow> nat option" where
  "link_of w = (if sint w = - 1 then None else Some (nat (sint w)))"

definition link_below :: "s16 \<Rightarrow> nat \<Rightarrow> bool" where
  "link_below w n \<longleftrightarrow> sint w = - 1 \<or> 0 \<le> sint w \<and> sint w < int n"

text \<open>The callees in order of their numbers: a link leads to an older one.\<close>

definition links_ok :: "to_ent list \<Rightarrow> bool" where
  "links_ok es \<longleftrightarrow> (\<forall>k < length es. link_below (to_link (es ! k)) k)"

function chain :: "to_ent list \<Rightarrow> nat option \<Rightarrow> nat list" where
  "chain es None = []"
| "chain es (Some k) = (if k < length es then k # chain es (case link_of (to_link (es ! k)) of
     Some j \<Rightarrow> if j < k then Some j else None | None \<Rightarrow> None) else [])"
  by pat_completeness auto
termination chain
  by (relation "measure (\<lambda>(es, k). case k of None \<Rightarrow> 0 | Some k \<Rightarrow> Suc k)") (auto split: option.splits)

declare chain.simps(2) [simp del]

definition callees :: "gmon \<Rightarrow> u32 \<Rightarrow> nat list" where
  "callees g f = (case searchpc (froms g) f of None \<Rightarrow> [] | Some i \<Rightarrow> chain (rev (tos g)) (link_of (from_link (froms g ! i))))"

definition arcs :: "gmon \<Rightarrow> u32 \<Rightarrow> u32 \<Rightarrow> s32" where
  "arcs g f t = (case find (\<lambda>k. selfpc (rev (tos g) ! k) = t) (callees g f) of
     None \<Rightarrow> 0 | Some k \<Rightarrow> tcount (rev (tos g) ! k))"

definition gmon_ok :: "gmon \<Rightarrow> bool" where
  "gmon_ok g \<longleftrightarrow> links_ok (rev (tos g)) \<and> (\<forall>e \<in> set (froms g). link_below (from_link e) (length (tos g))) \<and>
     distinct (map frompc (froms g)) \<and> (\<forall>f f'. f \<noteq> f' \<longrightarrow> set (callees g f) \<inter> set (callees g f') = {})"

lemma chain_Some:
  assumes "links_ok es" "k < length es"
  shows "chain es (Some k) = k # chain es (link_of (to_link (es ! k)))"
proof -
  have "link_below (to_link (es ! k)) k" using assms by (simp add: links_ok_def)
  then have "(case link_of (to_link (es ! k)) of Some j \<Rightarrow> if j < k then Some j else None | None \<Rightarrow> None) =
      link_of (to_link (es ! k))"
    by (auto simp: link_of_def link_below_def)
  with assms(2) show ?thesis by (simp add: chain.simps)
qed

lemma chain_less: "k \<in> set (chain es l) \<Longrightarrow> k < length es"
  by (induction es l rule: chain.induct) (auto simp: chain.simps split: if_splits)

lemma chain_cong:
  "length es' = length es \<Longrightarrow> \<forall>k < length es. to_link (es' ! k) = to_link (es ! k) \<Longrightarrow> chain es' l = chain es l"
  by (induction es l rule: chain.induct) (auto simp: chain.simps split: option.splits)

lemma chain_append: "(\<forall>k. l = Some k \<longrightarrow> k < length es) \<Longrightarrow> chain (es @ xs) l = chain es l"
proof (induction es l rule: chain.induct)
  case (2 es k)
  then show ?case by (auto simp: chain.simps nth_append split: option.splits)
qed simp

text \<open>The loop of the code finds the callee in the chain.\<close>

lemma follow_chain:
  assumes "links_ok (rev ts)"
  shows "link_below w (length ts) \<Longrightarrow> follow ts pc (sint w) =
    Some (map_option (\<lambda>k. length ts - Suc k) (find (\<lambda>k. selfpc (rev ts ! k) = pc) (chain (rev ts) (link_of w))))"
proof (induction "nat (sint w)" arbitrary: w rule: less_induct)
  case less
  show ?case
  proof (cases "sint w = - 1")
    case True
    then show ?thesis by (simp add: follow.simps link_of_def)
  next
    case False
    define k where "k = nat (sint w)"
    have k: "sint w = int k" "k < length ts" using less.prems False by (auto simp: link_below_def k_def)
    let ?i = "length ts - Suc k"
    have i: "nat (int (length ts) - int k - 1) = ?i" "rev ts ! k = ts ! ?i"
      using k(2) by (auto simp: rev_nth)
    let ?w = "to_link (ts ! ?i)"
    have b: "link_below ?w k" using assms k(2) i(2) by (auto simp: links_ok_def)
    have ch: "chain (rev ts) (link_of w) = k # chain (rev ts) (link_of ?w)"
      using chain_Some [OF assms, of k] k i(2) by (simp add: link_of_def)
    have step: "follow ts pc (sint w) = (if selfpc (ts ! ?i) = pc then Some (Some ?i) else follow ts pc (sint ?w))"
      using k i(1) by (subst follow.simps) (auto simp: Let_def)
    have IH: "follow ts pc (sint ?w) = Some (map_option (\<lambda>k. length ts - Suc k)
        (find (\<lambda>k. selfpc (rev ts ! k) = pc) (chain (rev ts) (link_of ?w))))"
    proof (cases "sint ?w = - 1")
      case True
      then show ?thesis by (simp add: follow.simps link_of_def)
    next
      case False
      with b k show ?thesis by (intro less.hyps) (auto simp: link_below_def)
    qed
    show ?thesis using IH by (simp add: step ch i(2))
  qed
qed

section \<open>What a call adds\<close>

lemma searchpc_Some: "searchpc fs pc = Some i \<Longrightarrow> i < length fs \<and> frompc (fs ! i) = pc"
  by (auto simp: searchpc_def dest: find_index_SomeD)

lemma searchpc_link:
  "frompc e = frompc (fs ! i) \<Longrightarrow> i < length fs \<Longrightarrow> searchpc (fs[i := e]) pc = searchpc fs pc"
  unfolding searchpc_def
  by (induction fs arbitrary: i) (auto split: nat.splits)

lemma find_cong_set: "(\<And>k. k \<in> set ks \<Longrightarrow> P k = Q k) \<Longrightarrow> find P ks = find Q ks"
  by (induction ks) auto

lemma find_Some_mem: "find P ks = Some k \<Longrightarrow> k \<in> set ks \<and> P k"
  by (auto simp: find_Some_iff)

lemma callees_at:
  "searchpc (froms g) f = Some i \<Longrightarrow> callees g f = chain (rev (tos g)) (link_of (from_link (froms g ! i)))"
  "searchpc (froms g) f = None \<Longrightarrow> callees g f = []"
  by (simp_all add: callees_def)

lemma callees_less: "k \<in> set (callees g f) \<Longrightarrow> k < length (tos g)"
  using chain_less by (fastforce simp: callees_def split: option.splits)

text \<open>A known arc: one counter goes up.\<close>

lemma count_known:
  assumes ok: "gmon_ok g" and k: "find (\<lambda>k. selfpc (rev (tos g) ! k) = t) (callees g f) = Some k"
    and g': "rev (tos g') = (rev (tos g))[k := (rev (tos g) ! k)\<lparr>tcount := tcount (rev (tos g) ! k) + 1\<rparr>]"
      "froms g' = froms g"
  shows "gmon_ok g' \<and> arcs g' = (arcs g)(f := (arcs g f)(t := arcs g f t + 1))"
proof -
  let ?es = "rev (tos g)" and ?es' = "rev (tos g')"
  have km: "k \<in> set (callees g f)" "selfpc (?es ! k) = t" using find_Some_mem [OF k] by simp_all
  have kl: "k < length ?es" using callees_less [OF km(1)] by simp
  have len: "length (tos g') = length (tos g)" using arg_cong [OF g'(1), of length] by simp
  have same: "selfpc (?es' ! i) = selfpc (?es ! i)" "to_link (?es' ! i) = to_link (?es ! i)" for i
    using kl by (cases "i = k"; simp add: g'(1))+
  have cnt: "tcount (?es' ! i) = (if i = k then tcount (?es ! i) + 1 else tcount (?es ! i))" for i
    using kl by (simp add: g'(1))
  have "chain ?es' l = chain ?es l" for l using same(2) len by (intro chain_cong) simp_all
  then have c: "callees g' f' = callees g f'" for f' by (simp add: callees_def g'(2) split: option.split)
  have "gmon_ok g'" using ok same(2) len by (simp add: gmon_ok_def links_ok_def c g'(2))
  moreover have "arcs g' f' t' = ((arcs g)(f := (arcs g f)(t := arcs g f t + 1))) f' t'" for f' t'
  proof (cases "find (\<lambda>k. selfpc (?es ! k) = t') (callees g f')")
    case None
    then have "\<not> (f' = f \<and> t' = t)" using k by auto
    with None show ?thesis by (auto simp: arcs_def c same(1))
  next
    case (Some k')
    from find_Some_mem [OF this] have k': "k' \<in> set (callees g f')" "selfpc (?es ! k') = t'" by simp_all
    have "k' = k \<longleftrightarrow> f' = f \<and> t' = t"
    proof
      assume "k' = k"
      then show "f' = f \<and> t' = t" using k' km ok by (auto simp: gmon_ok_def)
    next
      assume "f' = f \<and> t' = t"
      then show "k' = k" using k Some by simp
    qed
    then show ?thesis using Some k by (auto simp: arcs_def c same(1) cnt)
  qed
  ultimately show ?thesis by (intro conjI ext)
qed

text \<open>A new arc: the counter starts at one, in front of the other callees of its caller.\<close>

lemma link_of_nat: "n < 32768 \<Longrightarrow> link_of (of_nat n) = Some n \<and> sint (of_nat n :: s16) = int n"
  by (simp add: link_of_def signed_of_nat signed_take_bit_int_eq_self)

lemma count_new:
  assumes ok: "gmon_ok g" and i: "searchpc (froms g) f = Some i"
    and k: "find (\<lambda>k. selfpc (rev (tos g) ! k) = t) (callees g f) = None"
    and room: "length (tos g) < 32768" and add: "add_arc t i g = Some g'"
  shows "gmon_ok g' \<and> arcs g' = (arcs g)(f := (arcs g f)(t := 1)) \<and> arcs g f t = 0"
proof -
  let ?es = "rev (tos g)" and ?n = "length (tos g)"
  let ?l = "from_link (froms g ! i)"
  let ?x = "\<lparr>selfpc = t, tcount = 1, to_link = ?l\<rparr>"
  let ?e = "(froms g ! i)\<lparr>from_link := of_nat ?n\<rparr>"
  have il: "i < length (froms g)" "frompc (froms g ! i) = f" using searchpc_Some [OF i] by simp_all
  have g': "rev (tos g') = ?es @ [?x]" "froms g' = (froms g)[i := ?e]" "length (tos g') = Suc ?n"
    using add by (auto simp: add_arc_def Let_def split: if_splits)
  have s: "searchpc (froms g') f' = searchpc (froms g) f'" for f'
    using il by (simp add: g'(2) searchpc_link)
  have n: "link_of (of_nat ?n) = Some ?n" "sint (of_nat ?n :: s16) = int ?n" using link_of_nat [OF room] by simp_all
  have below: "link_below (from_link (froms g ! j)) ?n" if "j < length (froms g)" for j
    using ok that by (simp add: gmon_ok_def)
  have old: "chain (?es @ [?x]) (link_of w) = chain ?es (link_of w)" if "link_below w ?n" for w
    using that by (intro chain_append) (auto simp: link_of_def link_below_def split: if_splits)
  have lk: "links_ok (?es @ [?x])"
    using ok below [OF il(1)] by (auto simp: gmon_ok_def links_ok_def nth_append less_Suc_eq)
  have cf: "callees g' f = ?n # callees g f"
  proof -
    have "searchpc (froms g') f = Some i" by (simp only: s i)
    then have "callees g' f = chain (?es @ [?x]) (Some ?n)" using il(1) by (simp add: callees_at g' n)
    also have "\<dots> = ?n # chain ?es (link_of ?l)"
      using chain_Some [OF lk, of ?n] old [OF below [OF il(1)]] by (simp add: nth_append)
    finally show ?thesis by (simp add: callees_at(1) [OF i])
  qed
  have co: "callees g' f' = callees g f'" if "f' \<noteq> f" for f'
  proof (cases "searchpc (froms g) f'")
    case (Some j)
    from searchpc_Some [OF this] have j: "j < length (froms g)" "j \<noteq> i" using that il by auto
    have "searchpc (froms g') f' = Some j" by (simp only: s Some)
    then show ?thesis using old [OF below [OF j(1)]] j by (simp add: callees_at(1) callees_at(1) [OF Some] g')
  next
    case None
    have "searchpc (froms g') f' = None" by (simp only: s None)
    with None show ?thesis by (simp add: callees_at)
  qed
  have disj: "set (callees g' f1) \<inter> set (callees g' f2) = {}" if "f1 \<noteq> f2" for f1 f2
    using ok that cf co [of f1] co [of f2] callees_less [of ?n g]
    by (cases "f1 = f"; cases "f2 = f") (auto simp: gmon_ok_def)
  have lb: "link_below w (Suc ?n)" if "link_below w ?n" for w using that by (auto simp: link_below_def)
  have "\<forall>e \<in> set (froms g'). link_below (from_link e) (Suc ?n)"
    using ok lb n(2) by (auto simp: g'(2) gmon_ok_def link_below_def dest!: set_update_subset_insert [THEN subsetD])
  moreover have "map frompc (froms g') = map frompc (froms g)"
    using il list_update_id [of "map frompc (froms g)" i] by (simp add: g'(2) map_update)
  ultimately have "gmon_ok g'" using ok lk disj by (simp add: gmon_ok_def g'(1,3))
  moreover have at: "(?es @ [?x]) ! k = ?es ! k" if "k \<in> set (callees g f')" for k f'
    using callees_less [OF that] by (simp add: nth_append)
  have "arcs g' f' t' = ((arcs g)(f := (arcs g f)(t := 1))) f' t'" for f' t'
  proof -
    have fd: "find (\<lambda>k. selfpc ((?es @ [?x]) ! k) = t') (callees g f') = find (\<lambda>k. selfpc (?es ! k) = t') (callees g f')"
      by (rule find_cong_set) (simp add: at)
    show ?thesis
      using fd at find_Some_mem k
      by (cases "f' = f") (fastforce simp: arcs_def g'(1) cf co nth_append split: option.splits)+
  qed
  then have "arcs g' = (arcs g)(f := (arcs g f)(t := 1))" by (intro ext)
  moreover have "arcs g f t = 0" using k by (simp add: arcs_def)
  ultimately show ?thesis by blast
qed

text \<open>A new caller has no callees yet.\<close>

lemma new_caller:
  assumes ok: "gmon_ok g" and new: "searchpc (froms g) f = None"
    and h: "h = g\<lparr>froms := froms g @ [\<lparr>frompc = f, from_link = - 1\<rparr>]\<rparr>"
  shows "gmon_ok h \<and> arcs h = arcs g \<and> callees h = callees g \<and> searchpc (froms h) f = Some (length (froms g))"
proof -
  let ?e = "\<lparr>frompc = f, from_link = - 1\<rparr>"
  have fs: "frompc e \<noteq> f" if "e \<in> set (froms g)" for e
    using new that by (auto simp: searchpc_def find_index_None_iff)
  have app: "find_index P (xs @ [x]) = (case find_index P xs of None \<Rightarrow> if P x then Some (length xs) else None | Some i \<Rightarrow> Some i)"
    for P and xs :: "from_ent list" and x
    by (induction xs) (auto split: option.splits)
  have s: "searchpc (froms h) f' = (if f' = f then Some (length (froms g)) else searchpc (froms g) f')" for f'
    using new by (auto simp: h searchpc_def app split: option.split)
  have "callees h f' = callees g f'" for f'
  proof (cases "f' = f")
    case True
    have "searchpc (froms h) f = Some (length (froms g))" by (simp add: s)
    from callees_at(1) [OF this] show ?thesis
      using True callees_at(2) [OF new] by (simp add: h link_of_def)
  next
    case False
    then have f': "searchpc (froms h) f' = searchpc (froms g) f'" by (simp only: s if_False)
    show ?thesis
    proof (cases "searchpc (froms g) f'")
      case None
      with f' show ?thesis by (simp only: callees_at(2))
    next
      case (Some j)
      from searchpc_Some [OF this] have "froms h ! j = froms g ! j" by (simp add: h nth_append)
      with Some f' show ?thesis by (simp only: callees_at(1)) (simp add: h)
    qed
  qed
  then have c: "callees h = callees g" by (rule ext)
  have "tos h = tos g" by (simp add: h)
  with c have "arcs h = arcs g" by (intro ext) (simp only: arcs_def)
  moreover have "gmon_ok h" using ok fs by (auto simp: gmon_ok_def c) (auto simp: h link_below_def)
  ultimately show ?thesis using c s by simp
qed

lemma record_arc_counts:
  assumes ok: "gmon_ok g" and room: "length (tos g) < 32768" and run: "record_arc f t g = Some g'"
  shows "gmon_ok g' \<and> arcs g' = (arcs g)(f := (arcs g f)(t := arcs g f t + 1))"
proof (cases "searchpc (froms g) f")
  case None
  let ?h = "g\<lparr>froms := froms g @ [\<lparr>frompc = f, from_link = - 1\<rparr>]\<rparr>"
  have h: "gmon_ok ?h" "arcs ?h = arcs g" "callees ?h = callees g" "searchpc (froms ?h) f = Some (length (froms g))"
    using new_caller [OF ok None refl] by simp_all
  have "callees ?h f = []" using None by (simp add: h(3)) (simp add: callees_def)
  then have "find (\<lambda>k. selfpc (rev (tos ?h) ! k) = t) (callees ?h f) = None" by simp
  from count_new [OF h(1,4) this] h(2) room run None show ?thesis by (simp add: record_arc_def)
next
  case (Some i)
  from searchpc_Some [OF this] have il: "i < length (froms g)" by simp
  then have "link_below (from_link (froms g ! i)) (length (tos g))" using ok by (simp add: gmon_ok_def)
  then have fl: "follow (tos g) t (sint (from_link (froms g ! i))) =
      Some (map_option (\<lambda>k. length (tos g) - Suc k) (find (\<lambda>k. selfpc (rev (tos g) ! k) = t) (callees g f)))"
    using follow_chain [of "tos g" "from_link (froms g ! i)" t] ok Some by (simp add: gmon_ok_def callees_def)
  show ?thesis
  proof (cases "find (\<lambda>k. selfpc (rev (tos g) ! k) = t) (callees g f)")
    case None
    with run fl Some have "add_arc t i g = Some g'" by (simp add: record_arc_def)
    from count_new [OF ok Some None room this] show ?thesis by simp
  next
    case k: (Some k)
    have kl: "k < length (tos g)" using find_Some_mem [OF k] callees_less by blast
    with run fl Some k have "g' = g\<lparr>tos := (tos g)[length (tos g) - Suc k :=
        (rev (tos g) ! k)\<lparr>tcount := tcount (rev (tos g) ! k) + 1\<rparr>]\<rparr>"
      by (simp add: record_arc_def rev_nth)
    then show ?thesis using kl by (intro count_known [OF ok k]) (simp_all add: rev_update)
  qed
qed

lemma record_arc_returns:
  assumes ok: "gmon_ok g" and room: "8 * length (froms g) + 12 * length (tos g) + 20 \<le> cg_room g"
  shows "\<exists>g'. record_arc f t g = Some g'"
proof (cases "searchpc (froms g) f")
  case None
  then show ?thesis using room by (simp add: record_arc_def add_arc_def Let_def)
next
  case (Some i)
  from searchpc_Some [OF this] have "i < length (froms g)" by simp
  then have "link_below (from_link (froms g ! i)) (length (tos g))" using ok by (simp add: gmon_ok_def)
  then obtain r where "follow (tos g) t (sint (from_link (froms g ! i))) = Some r"
    using follow_chain ok by (metis gmon_ok_def)
  then show ?thesis using Some room by (cases r) (simp_all add: record_arc_def add_arc_def Let_def)
qed

section \<open>Properties\<close>

text \<open>C36: With the arrays in order and room for one more caller and callee in the first section that holds the
  caller, \<open>mcount\<close> returns and has counted exactly one call from the caller to the callee there: the count
  of no other pair changes in any section, and the arrays stay in order.\<close>

theorem mcount_counts_call:
  assumes ok: "\<forall>g \<in> set (gmonparam s). gmon_ok g" and j: "section_of frm (gmonparam s) = Some j"
    and room: "length (tos (gmonparam s ! j)) < 32768"
      "8 * length (froms (gmonparam s ! j)) + 12 * length (tos (gmonparam s ! j)) + 20 \<le> cg_room (gmonparam s ! j)"
    and tape: "io_tape s = r1 # r2 # t"
  shows "\<exists>s'. mcount frm self s = Some s' \<and> (\<forall>g \<in> set (gmonparam s'). gmon_ok g) \<and>
    map arcs (gmonparam s') = (map arcs (gmonparam s))[j := (arcs (gmonparam s ! j))(frm :=
      (arcs (gmonparam s ! j) frm)(self := arcs (gmonparam s ! j) frm self + 1))]"
proof -
  let ?g = "gmonparam s ! j"
  have jl: "j < length (gmonparam s)" using j by (auto simp: section_of_def dest: find_index_SomeD)
  then have gok: "gmon_ok ?g" using ok by simp
  obtain g where g: "record_arc frm self ?g = Some g" using record_arc_returns [OF gok room(2)] by blast
  have c: "gmon_ok g" "arcs g = (arcs ?g)(frm := (arcs ?g frm)(self := arcs ?g frm self + 1))"
    using record_arc_counts [OF gok room(1) g] by simp_all
  let ?h = "g\<lparr>gstate := 0\<rparr>"
  have "arcs ?h = arcs g" "gmon_ok ?h \<longleftrightarrow> gmon_ok g"
    by (simp_all add: fun_eq_iff arcs_def callees_def gmon_ok_def cong: option.case_cong)
  moreover have "\<exists>s'. mcount frm self s = Some s' \<and> gmonparam s' = (gmonparam s)[j := ?h]"
    using tape j g by (simp add: mcount_def disable_timer_def enable_timer_def Xil_In32_def Xil_Out32_def)
  moreover have "\<forall>x \<in> set ((gmonparam s)[j := ?h]). gmon_ok x"
    using ok c calculation(2) by (auto dest!: set_update_subset_insert [THEN subsetD])
  ultimately show ?thesis using c by (auto simp: map_update)
qed

text \<open>Two calls from the same function, the second to a callee that is already known.\<close>

theorem mcount_counts_call_witness:
  "\<exists>(s :: prof) s'. map (\<lambda>g. arcs g 0x100104 0x100200) (gmonparam s) = [1] \<and> mcount 0x100104 0x100200 s = Some s' \<and>
     map (\<lambda>g. arcs g 0x100104 0x100200) (gmonparam s') = [2] \<and> map (\<lambda>g. arcs g 0x100104 0x100300) (gmonparam s') = [0]"
proof -
  let ?g = "\<lparr>gstate = 0, kcount = [], froms = [\<lparr>frompc = 0x100104, from_link = 0\<rparr>],
    tos = [\<lparr>selfpc = 0x100200, tcount = 1, to_link = - 1\<rparr>], lowpc = 0x100000, highpc = 0x200000, cg_room = 4096\<rparr>"
  let ?s = "\<lparr>mem = (\<lambda>_. 0), io_tape = [1, 0], io_log = [], tlb = (\<lambda>_. 0), XExc_VectorTable = exc_table_init, cpsr = 0x13,
    gmonparam = [?g], binsize = 4, prof_pc = 0\<rparr> :: prof"
  have cs: "callees ?g f = (if f = 0x100104 then [0] else [])" for f
    by (simp add: callees_def searchpc_def link_of_def chain.simps)
  have ar: "arcs ?g f x = (if f = 0x100104 \<and> x = 0x100200 then 1 else 0)" for f x
    by (simp add: arcs_def cs)
  have ok: "\<forall>g \<in> set (gmonparam ?s). gmon_ok g" by (auto simp: gmon_ok_def cs links_ok_def link_below_def)
  have j: "section_of 0x100104 (gmonparam ?s) = Some 0" by (simp add: section_of_def)
  obtain s' where s': "mcount 0x100104 0x100200 ?s = Some s'" "map arcs (gmonparam s') = (map arcs (gmonparam ?s))
      [0 := (arcs ?g)(0x100104 := (arcs ?g 0x100104)(0x100200 := arcs ?g 0x100104 0x100200 + 1))]"
    using mcount_counts_call [OF ok j, of 1 0 "[]" "0x100200"] by auto
  then have "map (\<lambda>a. a 0x100104 x) (map arcs (gmonparam s')) = [if x = 0x100200 then 2 else 0]" for x
    by (simp add: ar)
  then have "map (\<lambda>g. arcs g 0x100104 x) (gmonparam s') = [if x = 0x100200 then 2 else 0]" for x
    by (simp add: o_def)
  with s'(1) ar show ?thesis by (intro exI [of _ ?s] exI [of _ s']) simp
qed

text \<open>Outside of all sections the function writes through a null pointer.\<close>

lemma mcount_outside: "section_of frm (gmonparam s) = None \<Longrightarrow> mcount frm self s = None"
  by (cases "io_tape s") (simp_all add: mcount_def disable_timer_def Xil_In32_def Xil_Out32_def)

text \<open>If every histogram covers its section, a sample never misses it.\<close>

lemma sample_in_histogram:
  assumes "\<forall>g \<in> set (gmonparam s). unat (highpc g - lowpc g) \<le> length (kcount g) * unat (4 * binsize s)" and "4 * binsize s \<noteq> 0"
  shows "\<exists>s'. profile_intr_handler s = Some s'"
proof (cases "section_of (prof_pc s) (gmonparam s)")
  case None
  then show ?thesis by (simp add: profile_intr_handler_def)
next
  case (Some j)
  let ?g = "gmonparam s ! j" and ?b = "4 * binsize s"
  have j: "j < length (gmonparam s)" "lowpc ?g \<le> prof_pc s" "prof_pc s < highpc ?g"
    using Some by (auto simp: section_of_def dest: find_index_SomeD)
  then have "unat (prof_pc s - lowpc ?g) < unat (highpc ?g - lowpc ?g)"
    by (simp add: unat_sub word_le_nat_alt word_less_nat_alt diff_less_mono)
  also have "\<dots> \<le> length (kcount ?g) * unat ?b" using assms(1) j(1) by simp
  finally have "unat ((prof_pc s - lowpc ?g) div ?b) < length (kcount ?g)"
    by (simp add: unat_div less_mult_imp_div_less)
  then show ?thesis using Some assms(2) by (simp add: profile_intr_handler_def Let_def aget_def)
qed

end
