(* ===== verification/Spec2Isabelle.thy ===== *)
theory Spec2Isabelle
  imports FwServe Timer CfgMgmt Clist BmStdio UartApp CacheModel XilPrintf Counters PsReset MemTest XilIo Heap Profile
begin

text \<open>
  A verification library for cfg\_mgmt: configuration variables that live in bare metal firmware
  on one core of a Zynq and are read and written by users of the Linux that runs on the other.

  The program.  The firmware (src/bm\_fw/src) keeps a table of integer variables with limits.
  Linux loads the firmware through its remoteproc framework, which sets up two virtio rings in
  shared memory and kicks the firmware by software interrupts; rpmsg messages in the buffers of
  the rings connect named channels of both sides. On the channel for configuration the firmware
  serves fixed size requests (src/bm\_fw/src/config.c). In the kernel the module
  src/kernel\_mod turns every variable into debugfs files (val, min, max, desc); opening, reading,
  writing and closing them sends requests and waits for the replies, which are matched by a
  sequence number. The tool clist (src/tools/clist) prints the files as a table. A second
  channel carries the firmware's standard output to a character device (src/bm\_stdio\_mod). The
  drivers of the interrupt controller (iplib/scugic\_v2\_1) and of the serial port
  (iplib/uartps\_v2\_2) come with the firmware.

  The theories, in the order they build on each other.

  \<^item> Prelude: arrays with a bounds check, byte addressed memory, little endian numbers, C
    strings, decimal text, and the collections \<open>defined_simps\<close>, \<open>frame_simps\<close>, \<open>codec_simps\<close>.
  \<^item> Machine: the device registers. A read takes the next word of a tape (\<open>io_tape\<close>), so a device
    may answer anything; every access goes to a log (\<open>io_log\<close>), so theorems speak about the order
    of accesses. \<open>Xil_SetTlbAttributes\<close> writes the translation table.
  \<^item> XilIo: the other accessors of xil\_io.c, the byte swaps, and the register tests of xil\_testio.c.
  \<^item> Exceptions: xil\_exception.c and vectors.c of the board support package: the table of exception
    handlers, the interrupt mask of the processor, and the dispatchers behind the vectors.
  \<^item> Cache: xil\_cache.c and the rest of xil\_mmu.c, as sequences of recorded cache operations.
    CacheModel: what such a sequence does to a data cache (\<open>dcache\<close>, \<open>dc_run\<close>), and what an observer of the
    memory finds afterwards (\<open>cpu_sees\<close>).
  \<^item> Gic: xscugic.c, xscugic\_hw.c, xscugic\_intr.c, xscugic\_sinit.c, xscugic\_selftest.c. The handler
    table is a list, a handler a value of \<open>isr\<close>. The invariant \<open>gic_inv\<close> gives every
    interrupt a handler; the locale \<open>vector_table\<close> is the contract of connect and lookup.
  \<^item> Irq: the interrupt service routines of the firmware (remoteproc.c, main.c) and one interrupt
    from the processor through vector and controller to its routine.
  \<^item> VirtioRing: virtio\_ring.c. The driver's state is \<open>vring\<close>, the shared ring memory
    \<open>vmem\<close>; \<open>pending_bufs\<close> is the abstract queue of offered buffers, \<open>used_since\<close> the sequence of
    returned ones. The locale \<open>buf_queue\<close> is the contract of a queue of buffers.
  \<^item> Remoteproc: remoteproc.c, remoteproc\_kernel.h, and the trace output of main.c. \<open>tx_sent\<close>
    is the abstract queue of messages handed to the kernel; \<open>link_ok\<close> says rings, buffers and channels
    are in order; the locale \<open>rx_client\<close> is what the receive loop needs of a callback.
  \<^item> MilliFloat: the two conversions of \<open>cfgFloatMilliCB\<close> on the bits of a \<open>float\<close>.
  \<^item> Config: config.c, config\_vars.c. \<open>answer\<close> is the abstract variable server
    that \<open>config_msg_handler\<close> refines; the locale \<open>keyed_lookup\<close> covers searches by id and by name.
  \<^item> FwMain: main.c, with the callbacks of both channels plugged into the receive loop. The locale
    \<open>output_steps\<close> is what every kind of output has in common: it is a sequence of sends, trace writes and
    register writes, so a relation these keep holds from before to after.
  \<^item> FwOutput: output on the stdio channel leaves the configuration channel, the waiting requests and their
    replies alone (\<open>tx_frame\<close>, \<open>sent_from\<close>); an interpretation of \<open>output_steps\<close>.
  \<^item> FwServe: one call of \<open>rpmsg_poll\<close> on a ring full of requests is the abstract server on the
    list of them (\<open>serve_all\<close>), with callbacks that print while requests are served.
  \<^item> Timer: xtime\_l.c, usleep.c, sleep.c. The global timer as a counter that runs while its halves
    are read.
  \<^item> RpmsgLink: rpmsg\_link.c. Transactions live in a heap; two lists and three locks as
    the code has them. \<open>link_inv\<close> and \<open>seqs_ok\<close> are the invariants; the locale \<open>struct_pool\<close> is
    the contract of allocating and returning a transaction.
  \<^item> CfgMgmt: cfg\_mgmt\_main.c. The relation \<open>kmod_step\<close> lets processes open, read, write, poll and
    close files while messages arrive.
  \<^item> Clist: clist.c with the system calls it makes.
  \<^item> BmStdio: bm\_stdio.c.
  \<^item> UartPs, UartTransfer, UartOptions: the driver of the serial port, what it transfers, and
    its options and formats.
  \<^item> UartApp: the driver's self test and the application of uart.c, from its initialisation to the
    events its interrupt delivers.
  \<^item> XilPrintf: xil\_printf.c, print.c, putnum.c over the \<open>outbyte\<close> of main.c. A format is a list of
    \<open>piece\<close>s, and \<open>printed\<close> says what each means.
  \<^item> Counters: xpm\_counter.c and xl2cc\_counter.c, and an abstract performance monitor (\<open>pmu\<close>).
  \<^item> PsReset: xil\_misc\_psreset\_api.c, and registers behind a lock (\<open>slcr\<close>, \<open>replay\<close>).
  \<^item> MemTest: xil\_testmem.c, over a memory given by its functions to read and write; the locale
    \<open>sound_memory\<close> is the contract of a memory that works.
  \<^item> Heap: the system calls behind \<open>malloc\<close>, \_sbrk.c and sbrk.c.
  \<^item> Profile: the call graph of profile\_cg.c and the histogram of profile\_hist.c. The linked arrays
    implement a counter for each pair of caller and callee (\<open>arcs\<close>, with the invariant \<open>gmon_ok\<close>).
  \<^item> This theory: the path of a value from the firmware to the user, and of a number from the user
    to the firmware. The locale \<open>variable_peer\<close> is what the
    module relies on; the polling firmware is its interpretation.

  Conventions.  A state is a record that grows along the imports (\<open>machine\<close>, \<open>exc\<close>, \<open>gic\<close>, \<open>irq\<close>, \<open>rproc\<close>,
  \<open>cfg\<close>, \<open>board\<close>; \<open>klink\<close>, \<open>kmod\<close>). An operation is a function from the state to an \<open>option\<close>
  of its result and the new state. \<open>None\<close> is undefined behaviour (an access outside an array, a
  null pointer, a division by zero), a failed assertion of the drivers, or a wait that nothing
  ends. Machine integers have their width, so that indices, counters and lengths wrap where the
  code's do. Errors are the code's own return values.

  The environment.  What the other side does is part of the state: the
  schedule \<open>sched\<close> of the firmware holds the actions of the kernel at every wait, \<open>k_sched\<close> of the
  module holds the messages and signals that arrive while a process sleeps, \<open>k_outcomes\<close> and
  \<open>k_send_rets\<close> the results of allocations and of \<open>rpmsg_send\<close>. A loop that waits consumes the
  schedule or the tape; it has no result exactly when that is used up, so no bound is
  chosen for it, and theorems of liveness say which schedule suffices. A delay in the main loop is
  such a wait; that the delay itself ends is shown for the timer. Loops that might not end for
  other reasons are partial functions of the option monad. Functions
  of the kernel and the C library that take part only by their documented behaviour are fields
  of \<open>kapi\<close>, \<open>bapi\<close> and \<open>fsys\<close>; theorems that use them name what they rely on
  (\<open>simple_read_ok\<close>, \<open>kstrtol_ok\<close>, \<open>fifo_in_ok\<close> and so on), and witnesses instantiate them.

  What is shown.  Refinement of abstract specifications (the variable server, for one request and
  for all that wait at a poll, the queue of messages, the queue of buffers, the paths between the firmware and the user); invariants of
  every reachable state (ownership of transactions, lists and locks, the handler table, the
  byte streams of both serial connections); functional behaviour on every branch that
  matters, error replies and refused arguments included; round trips (messages, decimal text,
  options, formats); that waits end and polling finishes; bounds of the trace buffer,
  of reads and of indices. Some theorems state where the code departs from what it means
  to do; their text says so.

  Not modelled.  The memory of the firmware is coherent in the model: the caches have a model of their own,
  which the maintenance functions act on, and what the calls of \<open>Xil_L1DCacheFlush\<close> in
  virtio\_ring.c and remoteproc.c are for is the theorem on that function; they are not part of the models
  of their callers. The vendor test of the caches, which depends on when the
  processor brings lines into them; start code and the assembler part of exception entry (the C functions
  behind the vectors are modelled); the copies of the board support package for other compilers and its
  headers; the stubs of system calls that return a constant; the start of the profiler, whose
  arrays the debugger sets up; the function
  called by a failed assertion, which loops for ever; preemption of firmware code by its own
  interrupts between two waits, other than the kicks the schedule delivers; the interleaving of
  two kernel threads inside one operation, which the locks of the code exclude where it takes
  them.
\<close>

section \<open>What the kernel module needs of the firmware\<close>

text \<open>The field of a variable an access kind stands for.\<close>

definition field_of :: "access_t \<Rightarrow> cfgVar \<Rightarrow> s32" where
  "field_of a v = (case a of ACC_MIN \<Rightarrow> cv_min v | ACC_MAX \<Rightarrow> cv_max v | _ \<Rightarrow> cv_val v)"

text \<open>What arrives later does not matter to the invariants of the module.\<close>

lemma sched_irrelevant:
  "link_inv (x\<lparr>k_sched := e\<rparr>) = link_inv x" "seqs_ok (x\<lparr>k_sched := e\<rparr>) = seqs_ok x"
  "seq_of (x\<lparr>k_sched := e\<rparr>) = seq_of x"
proof -
  have "seq_of (x\<lparr>k_sched := e\<rparr>) = seq_of x" by (rule ext) (simp add: seq_of_def)
  then show "link_inv (x\<lparr>k_sched := e\<rparr>) = link_inv x" "seqs_ok (x\<lparr>k_sched := e\<rparr>) = seqs_ok x"
    "seq_of (x\<lparr>k_sched := e\<rparr>) = seq_of x"
    by (simp_all add: link_inv_def linked_def seqs_ok_def)
qed

lemma request_for_sched [simp]: "request_for i a r v (s\<lparr>k_sched := e\<rparr>) = request_for i a r v s"
  by (simp add: request_for_def)

lemma request_for_sel [simp]:
  "m_ind (request_for i a r v s) = i" "m_type (request_for i a r v s) = req_type a r"
  "m_seq (request_for i a r v s) = k_seq s" "m_val (request_for i a r v s) = v"
  by (simp_all add: request_for_def)

text \<open>The interface between the two programs is the exchange of messages. The module relies on a peer
  that answers a request it is ready for with one message of the right length, sequence number and
  type; what a user sees follows from that.\<close>

definition is_reply :: "cfgMsg \<Rightarrow> u8 list \<Rightarrow> bool" where
  "is_reply m d \<longleftrightarrow> length d = 420 \<and> m_seq (dec_msg d) = m_seq m"

abbreviation (input) "readable a \<equiv> a = ACC_VAL \<or> a = ACC_MIN \<or> a = ACC_MAX"

locale variable_peer =
  fixes ready :: "cfgMsg \<Rightarrow> 'u \<Rightarrow> bool"
    and answers :: "cfgMsg \<Rightarrow> 'u \<Rightarrow> u8 list \<Rightarrow> 'u \<Rightarrow> bool"
    and variable :: "s32 \<Rightarrow> 'u \<Rightarrow> cfgVar"
  assumes answers_read: "ready m u \<Longrightarrow> m_type m = req_type a True \<Longrightarrow> readable a \<Longrightarrow>
      \<exists>d u'. answers m u d u' \<and> is_reply m d \<and> m_val (dec_msg d) = field_of a (variable (m_ind m) u) \<and>
        (m_type (dec_msg d) = RES_RD_VAL \<or> m_type (dec_msg d) = RES_RD_MIN \<or> m_type (dec_msg d) = RES_RD_MAX)"
    and answers_write: "ready m u \<Longrightarrow> m_type m = REQ_WR \<Longrightarrow>
      \<exists>d u'. answers m u d u' \<and> is_reply m d \<and> m_type (dec_msg d) = RES_OK"
begin

text \<open>Opening and reading a file.\<close>

lemma read_through:
  fixes s :: "'a kmod_scheme"
  assumes "link_inv s" and "seqs_ok s" and "unused_list s = t # ts" and "rpmsg_chnl s"
    and "inode_info (f_inode f) s = Some \<lparr>acc_index = i, acc_type = a\<rparr>" and "readable a"
    and "f_read f" and "\<not> f_nonblock f" and "f_pos f = 0" and "k_send_rets s = 0 # rs"
    and "k_seq s + 1 \<notin> seq_of s ` set (pending_list s)" and "simple_read_ok k" and "12 \<le> n"
    and "ready m u" and "m = request_for i a True 0 s"
  defines "line \<equiv> dec (sint (field_of a (variable i u))) @ [10]"
  shows "\<exists>d u' f1 s1 f2 s2. answers m u d u' \<and> debugfs_open_var k f (s\<lparr>k_sched := KMsg d # es\<rparr>) = Some (0, f1, s1) \<and>
    k_sent s1 = k_sent s @ [m] \<and> debugfs_read_var k n f1 s1 = Some (int (length line), line, f2, s2)"
proof -
  have q: "m_type m = req_type a True" "m_seq m = k_seq s" "m_ind m = i" by (simp_all add: assms(15))
  obtain u' d where u: "answers m u d u'"
    and d: "length d = 420" "m_seq (dec_msg d) = k_seq s" "m_val (dec_msg d) = field_of a (variable i u)"
      "m_type (dec_msg d) = RES_RD_VAL \<or> m_type (dec_msg d) = RES_RD_MIN \<or> m_type (dec_msg d) = RES_RD_MAX"
    using answers_read [OF assms(14) q(1) assms(6)] q(2,3) unfolding is_reply_def by metis
  let ?s = "s\<lparr>k_sched := KMsg d # es\<rparr>" and ?acc = "\<lparr>acc_index = i, acc_type = a\<rparr>"
  have h: "link_inv ?s" "seqs_ok ?s" "unused_list ?s = t # ts" "rpmsg_chnl ?s"
    "inode_info (f_inode f) ?s = Some ?acc" "k_send_rets ?s = 0 # rs"
    "k_seq ?s + 1 \<notin> seq_of ?s ` set (pending_list ?s)" "k_sched ?s = KMsg d # es" "m_seq (dec_msg d) = k_seq ?s"
    using assms(1-5,10,11) d(2) by (simp_all add: sched_irrelevant)
  from open_read_ok(1) [OF h(1-5) assms(7) h(6,7), of k] open_read_ok(6) [OF h(1-5) assms(7) h(6,7)]
       read_file_returns_value [OF h(1-5) assms(7) h(6,7) assms(8,9,12,13) h(8) d(1) h(9) d(4)]
  have "\<exists>f1 s1 f2 s2. debugfs_open_var k f ?s = Some (0, f1, s1) \<and> k_sent s1 = k_sent s @ [m] \<and>
      debugfs_read_var k n f1 s1 = Some (int (length line), line, f2, s2)"
    by (auto simp: assms(15) line_def d(3) Let_def)
  with u show ?thesis by blast
qed

text \<open>Opening, writing and closing a file.\<close>

lemma write_through:
  fixes s :: "'a kmod_scheme" and v :: s32
  assumes "link_inv s" and "seqs_ok s" and "unused_list s = t # ts" and "rpmsg_chnl s"
    and "inode_info (f_inode f) s = Some \<lparr>acc_index = i, acc_type = ACC_VAL\<rparr>"
    and "\<not> f_read f" and "f_write f" and "f_pos f = 0" and "k_send_rets s = 0 # rs"
    and "k_seq s + 1 \<notin> seq_of s ` set (pending_list s)" and "simple_write_ok k" and "kstrtol_ok k"
    and "ready m u" and "m = request_for i ACC_VAL False v s"
  defines "line \<equiv> dec (sint v) @ [10]"
  shows "\<exists>d u' f1 s1 f2 s2 s3. answers m u d u' \<and> debugfs_open_var k f (s\<lparr>k_sched := KMsg d # es\<rparr>) = Some (0, f1, s1) \<and>
    debugfs_write_var k line f1 s1 = Some (int (length line), f2, s2) \<and> debugfs_release_var k f2 s2 = Some (0, s3) \<and>
    k_sent s3 = k_sent s @ [m] \<and> link_inv s3 \<and> pending_list s3 = pending_list s \<and> unused_list s3 = unused_list s"
proof -
  have q: "m_type m = REQ_WR" "m_seq m = k_seq s" by (simp_all add: assms(14) req_type_def)
  obtain u' d where u: "answers m u d u'"
    and d: "length d = 420" "m_seq (dec_msg d) = k_seq s" "m_type (dec_msg d) = RES_OK"
    using answers_write [OF assms(13) q(1)] q(2) unfolding is_reply_def by metis
  let ?s = "s\<lparr>k_sched := KMsg d # es\<rparr>" and ?acc = "\<lparr>acc_index = i, acc_type = ACC_VAL\<rparr>"
  have h: "link_inv ?s" "seqs_ok ?s" "unused_list ?s = t # ts" "rpmsg_chnl ?s"
    "inode_info (f_inode f) ?s = Some ?acc" "acc_type ?acc = ACC_VAL" "k_send_rets ?s = 0 # rs"
    "k_seq ?s + 1 \<notin> seq_of ?s ` set (pending_list ?s)" "k_sched ?s = KMsg d # es" "m_seq (dec_msg d) = k_seq ?s"
    using assms(1-5,9,10) d(2) by (simp_all add: sched_irrelevant)
  from write_file_sends_value [OF h(1-6) assms(6-8) h(7,8) assms(11,12) h(9) d(1) h(10) disjI1 [OF d(3)], of v]
  have "\<exists>f1 s1 f2 s2 s3. debugfs_open_var k f ?s = Some (0, f1, s1) \<and>
      debugfs_write_var k line f1 s1 = Some (int (length line), f2, s2) \<and>
      debugfs_release_var k f2 s2 = Some (0, s3) \<and> k_sent s3 = k_sent s @ [m] \<and> link_inv s3 \<and>
      pending_list s3 = pending_list s \<and> unused_list s3 = unused_list s"
    using d(3) by (auto simp: assms(14) line_def Let_def)
  with u show ?thesis by blast
qed

end

section \<open>The firmware is such a peer\<close>

text \<open>The kernel has put the message \<open>m\<close> of the sender \<open>src\<close> into a receive buffer of the firmware
  \<open>u\<close> and kicked it; the firmware serves, and has two buffers to send from.\<close>

definition takes :: "u16 \<Rightarrow> u32 \<Rightarrow> u32 \<Rightarrow> cfgMsg \<Rightarrow> 'a board_scheme \<Rightarrow> bool" where
  "takes u0 base src m u \<longleftrightarrow> serving u0 base u \<and> rxvring_kicks u \<noteq> rx_processed u \<and> heads_ok (rx_vring u) \<and>
     2 \<le> length (pending_bufs (tx_vring u)) \<and> waiting u = [(src, fst (cfg_ends u), m)]"

lemma poll_answers:
  assumes "takes u0 base src m u"
  shows "\<exists>u'. rpmsg_poll run_rx u = Some (True, u') \<and> vars u' = fst (answer (vars u) (cfgMsgTxBuf u) m) \<and>
    sent_from (fst (cfg_ends u)) u0 u' = sent_from (fst (cfg_ends u)) u0 u @ [(fst (cfg_ends u), src, 0, enc_msg (snd (answer (vars u) (cfgMsgTxBuf u) m)))]"
proof -
  have w: "waiting u = [(src, fst (cfg_ends u), m)]" and s: "serving u0 base u" "rxvring_kicks u \<noteq> rx_processed u"
    "heads_ok (rx_vring u)" using assms by (simp_all add: takes_def)
  have "length (pending_bufs (rx_vring u)) = 1" using arg_cong [OF w, of length] by (simp add: waiting_def)
  then have "2 * length (pending_bufs (rx_vring u)) \<le> length (pending_bufs (tx_vring u))"
    using assms by (simp add: takes_def del: length_pending)
  from poll_serves [OF s this] w show ?thesis by (auto simp: serve_all_Cons)
qed

lemma takes_reply_data:
  "takes u0 base src m u \<Longrightarrow> length (m_data (snd (answer (vars u) (cfgMsgTxBuf u) m))) = MSG_DATA_SIZE"
  by (simp add: takes_def serving_def server_ok_def answer_data)

text \<open>One poll answers the message and sends the payload \<open>d\<close> back.\<close>

definition polled :: "u16 \<Rightarrow> u32 \<Rightarrow> cfgMsg \<Rightarrow> 'a board_scheme \<Rightarrow> u8 list \<Rightarrow> 'a board_scheme \<Rightarrow> bool" where
  "polled u0 src m u d u' \<longleftrightarrow> rpmsg_poll run_rx u = Some (True, u') \<and>
     vars u' = fst (answer (vars u) (cfgMsgTxBuf u) m) \<and> sent_from (fst (cfg_ends u)) u0 u' = sent_from (fst (cfg_ends u)) u0 u @ [(fst (cfg_ends u), src, 0, d)]"

lemma poll_replies:
  assumes "takes u0 base src m u"
  defines "r \<equiv> snd (answer (vars u) (cfgMsgTxBuf u) m)"
  shows "\<exists>u'. polled u0 src m u (enc_msg r) u'" and "dec_msg (enc_msg r) = r" and "is_reply m (enc_msg r)"
proof -
  have "length (m_data r) = MSG_DATA_SIZE" "m_seq r = m_seq m"
    unfolding r_def using takes_reply_data [OF assms(1)] by (simp_all add: answer_def put_text_def Let_def)
  then show "dec_msg (enc_msg r) = r" "is_reply m (enc_msg r)" by (simp_all add: dec_enc_msg is_reply_def)
  show "\<exists>u'. polled u0 src m u (enc_msg r) u'" using poll_answers [OF assms(1)] by (auto simp: polled_def r_def)
qed

interpretation peer: variable_peer "\<lambda>m (u :: 'b board_scheme). takes u0 base src m u \<and> valid_ind (vars u) (m_ind m)" "polled u0 src"
    "\<lambda>i u. vars u ! unat i" for u0 base src
proof unfold_locales
  fix m a and u :: "'b board_scheme"
  let ?r = "snd (answer (vars u) (cfgMsgTxBuf u) m)"
  assume t: "takes u0 base src m u \<and> valid_ind (vars u) (m_ind m)"
  note r = poll_replies [OF conjunct1 [OF t]]
  show "\<exists>d u'. polled u0 src m u d u' \<and> is_reply m d \<and> m_val (dec_msg d) = field_of a (vars u ! unat (m_ind m)) \<and>
      (m_type (dec_msg d) = RES_RD_VAL \<or> m_type (dec_msg d) = RES_RD_MIN \<or> m_type (dec_msg d) = RES_RD_MAX)"
    if "m_type m = req_type a True" "readable a"
  proof -
    have "m_val ?r = field_of a (vars u ! unat (m_ind m)) \<and>
        (m_type ?r = RES_RD_VAL \<or> m_type ?r = RES_RD_MIN \<or> m_type ?r = RES_RD_MAX)"
      using that t by (auto simp: answer_def req_type_def field_of_def Let_def)
    with r show ?thesis by metis
  qed
  show "\<exists>d u'. polled u0 src m u d u' \<and> is_reply m d \<and> m_type (dec_msg d) = RES_OK" if "m_type m = REQ_WR"
  proof -
    have "m_type ?r = RES_OK" using that t by (simp add: answer_def Let_def)
    with r show ?thesis by metis
  qed
qed

text \<open>What the poll does to the variables.\<close>

lemma polled_vars:
  assumes "polled u0 src m u d u'" and "takes u0 base src m u" and "valid_ind (vars u) (m_ind m)"
  defines "x \<equiv> vars u ! unat (m_ind m)"
  shows "m_type m = req_type a True \<Longrightarrow> vars u' = vars u"
    and "m_type m = REQ_WR \<Longrightarrow> \<exists>w. vars u' = (vars u)[unat (m_ind m) := x\<lparr>cv_val := w\<rparr>] \<and>
      sint w = max (sint (cv_min x)) (min (sint (cv_max x)) (sint (m_val m)))"
proof -
  have v: "vars u' = fst (answer (vars u) (cfgMsgTxBuf u) m)" using assms(1) by (simp add: polled_def)
  show "m_type m = req_type a True \<Longrightarrow> vars u' = vars u"
    unfolding v by (cases a) (simp_all add: answer_def req_type_def Let_def)
  have "vars_inv u" using assms(2) by (simp add: takes_def serving_def server_ok_def)
  then have lim: "sint (cv_min x) \<le> sint (cv_max x)"
    using limits_order [OF vars_inv_nth [OF _ valid_ind_unat [OF assms(3)]]] by (simp add: x_def)
  show "m_type m = REQ_WR \<Longrightarrow> \<exists>w. vars u' = (vars u)[unat (m_ind m) := x\<lparr>cv_val := w\<rparr>] \<and>
      sint w = max (sint (cv_min x)) (min (sint (cv_max x)) (sint (m_val m)))"
    unfolding v using assms(3) clamp_sint [OF lim] by (auto simp: answer_def x_def Let_def)
qed

section \<open>From the firmware to the user\<close>

text \<open>The tool reads the line the kernel module serves.\<close>

lemma clist_reads_value_line:
  assumes "content segs (dec (sint (v :: s32)) @ [10])" and "length buf = 12"
  shows "\<exists>c b. read_fd segs buf 12 = Some (c, b) \<and> cstring_of b = dec (sint v)"
proof -
  have "take 11 (dec (sint v) @ [10]) = (if length (dec (sint v)) \<le> 10 then dec (sint v) @ [10] else dec (sint v))"
    using length_dec_s32 [of v] by auto
  then have "chomp (take 11 (dec (sint v) @ [10])) = dec (sint v)"
    by (simp add: chomp_def last_dec_not_newline)
  moreover have "0 \<notin> set (dec (sint v) @ [10])" by (simp add: dec_no_nul)
  ultimately show ?thesis
    using read_fd_content [OF assms(1), of 12 buf] assms(2) by auto
qed

text \<open>C2: The value, minimum or maximum of a variable travels from the firmware to the user. Opening
  the file sends one request; the firmware into whose ring the kernel puts this request polls it,
  answers it with one reply and changes no variable; when the reply arrives, the blocked read of the file returns
  the number the firmware holds as a line of decimal text; and \<open>clist\<close> reads from such a line, in
  whatever pieces it gets it, exactly the digits of the number.\<close>

theorem value_reaches_user:
  fixes s :: "'a kmod_scheme" and u :: "'b board_scheme"
  assumes "link_inv s" and "seqs_ok s" and "unused_list s = t # ts" and "rpmsg_chnl s"
    and "inode_info (f_inode f) s = Some \<lparr>acc_index = i, acc_type = a\<rparr>" and "a = ACC_VAL \<or> a = ACC_MIN \<or> a = ACC_MAX"
    and "f_read f" and "\<not> f_nonblock f" and "f_pos f = 0" and "k_send_rets s = 0 # rs"
    and "k_seq s + 1 \<notin> seq_of s ` set (pending_list s)" and "simple_read_ok k" and "12 \<le> n"
    and "takes u0 base src m u" and "m = request_for i a True 0 s" and "valid_ind (vars u) i"
  defines "line \<equiv> dec (sint (field_of a (vars u ! unat i))) @ [10]"
  shows "\<exists>u' d f1 s1 f2 s2. rpmsg_poll run_rx u = Some (True, u') \<and> vars u' = vars u \<and>
    sent_from (fst (cfg_ends u)) u0 u' = sent_from (fst (cfg_ends u)) u0 u @ [(fst (cfg_ends u), src, 0, d)] \<and>
    debugfs_open_var k f (s\<lparr>k_sched := KMsg d # es\<rparr>) = Some (0, f1, s1) \<and>
    k_sent s1 = k_sent s @ [m] \<and>
    debugfs_read_var k n f1 s1 = Some (int (length line), line, f2, s2) \<and>
    (content segs line \<and> length buf = 12 \<longrightarrow>
      (\<exists>c txt. read_fd segs buf 12 = Some (c, txt) \<and> cstring_of txt @ [10] = line))"
proof -
  have v: "takes u0 base src m u \<and> valid_ind (vars u) (m_ind m)" using assms(14-16) by simp
  have r: "m_type m = req_type a True" by (simp add: assms(15))
  from peer.read_through [OF assms(1-13) v assms(15), of es] obtain d u' f1 s1 f2 s2 where
    p: "polled u0 src m u d u'" and k: "debugfs_open_var k f (s\<lparr>k_sched := KMsg d # es\<rparr>) = Some (0, f1, s1)"
      "k_sent s1 = k_sent s @ [m]" "debugfs_read_var k n f1 s1 = Some (int (length line), line, f2, s2)"
    unfolding line_def by blast
  from polled_vars(1) [OF p assms(14) conjunct2 [OF v] r] p k
    clist_reads_value_line [of segs "field_of a (vars u ! unat i)" buf]
  show ?thesis unfolding line_def polled_def by blast
qed

lemma asked_takes:
  assumes "length (m_data q) = MSG_DATA_SIZE"
  shows "takes 0 0x50 0x401 q (asked [q])"
proof -
  have l: "length [q] \<le> 2" "\<forall>r \<in> set [q]. length (m_data r) = MSG_DATA_SIZE" using assms by simp_all
  note a = asked_ok [OF l]
  have "length (pending_bufs (rx_vring (asked [q]))) = 1" using arg_cong [OF a(4), of length] by (simp add: waiting_def)
  with a(3) have "2 \<le> length (pending_bufs (tx_vring (asked [q])))" by simp
  with a(1,2,4) show ?thesis by (simp add: takes_def asked_sel)
qed

lemma value_reaches_user_witness:
  "\<exists>u' d f1 s1 f2 s2. rpmsg_poll run_rx (asked [zero_msg\<lparr>m_type := REQ_RD_MAX\<rparr>]) = Some (True, u') \<and>
     sent_from 0x51 0 u' = [(0x51, 0x401, 0, d)] \<and>
     debugfs_open_var kapi_ref (file_of True False False (InMax 0)) ((kmod_demo [] [0] [])\<lparr>k_sched := [KMsg d]\<rparr>) = Some (0, f1, s1) \<and>
     debugfs_read_var kapi_ref 64 f1 s1 = Some (2, [49, 10], f2, s2)"
proof -
  let ?s = "kmod_demo [] [0] []" and ?f = "file_of True False False (InMax 0)"
    and ?q = "zero_msg\<lparr>m_type := REQ_RD_MAX\<rparr>"
  let ?u = "asked [?q]"
  have h: "link_inv ?s" "seqs_ok ?s" "unused_list ?s = 1 # [0]" "rpmsg_chnl ?s"
    "inode_info (f_inode ?f) ?s = Some \<lparr>acc_index = 0, acc_type = ACC_MAX\<rparr>"
    "ACC_MAX = ACC_VAL \<or> ACC_MAX = ACC_MIN \<or> ACC_MAX = ACC_MAX"
    "f_read ?f" "\<not> f_nonblock ?f" "f_pos ?f = 0" "k_send_rets ?s = 0 # []"
    "k_seq ?s + 1 \<notin> seq_of ?s ` set (pending_list ?s)" "simple_read_ok kapi_ref" "12 \<le> (64 :: nat)"
    by (simp_all add: kmod_demo_sel file_of_def kapi_ref_copies)
  have d: "takes 0 0x50 0x401 ?q ?u" by (rule asked_takes) (simp add: zero_msg_def)
  have m: "?q = request_for 0 ACC_MAX True 0 ?s"
    by (simp add: request_for_def req_type_def kmod_demo_sel zero_msg_def)
  have i: "valid_ind (vars ?u) 0" by (simp add: asked_sel valid_ind_def vars_main_def vars_init_def)
  have v: "dec (sint (field_of ACC_MAX (vars ?u ! unat (0 :: s32)))) @ [10] = [49, 10]"
    by (simp add: field_of_def asked_sel vars_main_def vars_init_def dflt_var_def dec_def digits10.simps digit_byte_def)
  have "sent_from 0x51 0 ?u = []" by (rule asked_ok) (simp_all add: zero_msg_def)
  with value_reaches_user [OF h d m i, of "[]" "[]" "[]"] show ?thesis unfolding v by (auto simp: asked_sel)
qed

section \<open>From the user to the firmware\<close>

text \<open>C3: A number travels from the user to the variable. Opening the value file for writing, writing a
  line of decimal text and closing the file send one request; the firmware into whose ring the kernel
  puts it polls it, sets the variable to the number, cut to the variable's limits, leaves all other
  variables alone and replies once; this reply lets the waiting close succeed and gives the
  transaction back to the pool.\<close>

theorem value_reaches_firmware:
  fixes s :: "'a kmod_scheme" and u :: "'b board_scheme" and v :: s32
  assumes "link_inv s" and "seqs_ok s" and "unused_list s = t # ts" and "rpmsg_chnl s"
    and "inode_info (f_inode f) s = Some \<lparr>acc_index = i, acc_type = ACC_VAL\<rparr>"
    and "\<not> f_read f" and "f_write f" and "f_pos f = 0" and "k_send_rets s = 0 # rs"
    and "k_seq s + 1 \<notin> seq_of s ` set (pending_list s)" and "simple_write_ok k" and "kstrtol_ok k"
    and "takes u0 base src m u" and "m = request_for i ACC_VAL False v s" and "valid_ind (vars u) i"
  defines "x \<equiv> vars u ! unat i" and "line \<equiv> dec (sint v) @ [10]"
  shows "\<exists>u' d w f1 s1 f2 s2 s3. rpmsg_poll run_rx u = Some (True, u') \<and>
    vars u' = (vars u)[unat i := x\<lparr>cv_val := w\<rparr>] \<and>
    sint w = max (sint (cv_min x)) (min (sint (cv_max x)) (sint v)) \<and>
    sent_from (fst (cfg_ends u)) u0 u' = sent_from (fst (cfg_ends u)) u0 u @ [(fst (cfg_ends u), src, 0, d)] \<and>
    debugfs_open_var k f (s\<lparr>k_sched := KMsg d # es\<rparr>) = Some (0, f1, s1) \<and>
    debugfs_write_var k line f1 s1 = Some (int (length line), f2, s2) \<and>
    debugfs_release_var k f2 s2 = Some (0, s3) \<and>
    k_sent s3 = k_sent s @ [m] \<and> link_inv s3 \<and>
    pending_list s3 = pending_list s \<and> unused_list s3 = unused_list s"
proof -
  have v: "takes u0 base src m u \<and> valid_ind (vars u) (m_ind m)" using assms(13-15) by simp
  have r: "m_type m = REQ_WR" "m_ind m = i" "m_val m = v" by (simp_all add: assms(14) req_type_def)
  from peer.write_through [OF assms(1-12) v assms(14), of es] obtain d u' f1 s1 f2 s2 s3 where
    p: "polled u0 src m u d u'" and k: "debugfs_open_var k f (s\<lparr>k_sched := KMsg d # es\<rparr>) = Some (0, f1, s1)"
      "debugfs_write_var k line f1 s1 = Some (int (length line), f2, s2)" "debugfs_release_var k f2 s2 = Some (0, s3)"
      "k_sent s3 = k_sent s @ [m]" "link_inv s3" "pending_list s3 = pending_list s" "unused_list s3 = unused_list s"
    unfolding line_def by blast
  from polled_vars(2) [OF p assms(13) conjunct2 [OF v] r(1)] obtain w where
    "vars u' = (vars u)[unat i := x\<lparr>cv_val := w\<rparr>]" "sint w = max (sint (cv_min x)) (min (sint (cv_max x)) (sint v))"
    by (auto simp: r(2,3) x_def)
  with p k show ?thesis unfolding polled_def by blast
qed

lemma value_reaches_firmware_witness:
  "\<exists>u' d f1 s1 f2 s2 s3. rpmsg_poll run_rx (asked [zero_msg\<lparr>m_type := REQ_WR, m_val := 9\<rparr>]) = Some (True, u') \<and> sint (cv_val (vars u' ! 0)) = 1 \<and>
     debugfs_open_var kapi_ref (file_of False True False (InVal 0)) ((kmod_demo [] [0] [])\<lparr>k_sched := [KMsg d]\<rparr>) = Some (0, f1, s1) \<and>
     debugfs_write_var kapi_ref [57, 10] f1 s1 = Some (2, f2, s2) \<and> debugfs_release_var kapi_ref f2 s2 = Some (0, s3)"
proof -
  let ?s = "kmod_demo [] [0] []" and ?f = "file_of False True False (InVal 0)"
    and ?q = "zero_msg\<lparr>m_type := REQ_WR, m_val := 9\<rparr>"
  let ?u = "asked [?q]"
  have h: "link_inv ?s" "seqs_ok ?s" "unused_list ?s = 1 # [0]" "rpmsg_chnl ?s"
    "inode_info (f_inode ?f) ?s = Some \<lparr>acc_index = 0, acc_type = ACC_VAL\<rparr>"
    "\<not> f_read ?f" "f_write ?f" "f_pos ?f = 0" "k_send_rets ?s = 0 # []"
    "k_seq ?s + 1 \<notin> seq_of ?s ` set (pending_list ?s)" "simple_write_ok kapi_ref" "kstrtol_ok kapi_ref"
    by (simp_all add: kmod_demo_sel file_of_def kapi_ref_copies kapi_ref_kstrtol)
  have d: "takes 0 0x50 0x401 ?q ?u" by (rule asked_takes) (simp add: zero_msg_def)
  have m: "?q = request_for 0 ACC_VAL False 9 ?s"
    by (simp add: request_for_def req_type_def kmod_demo_sel zero_msg_def)
  have i: "valid_ind (vars ?u) 0" by (simp add: asked_sel valid_ind_def vars_main_def vars_init_def)
  have v: "dec (sint (9 :: s32)) @ [10] = [57, 10]"
    by (simp add: dec_def digits10.simps digit_byte_def)
  have x: "sint (cv_min (vars ?u ! unat (0 :: s32))) = 0"
    "sint (cv_max (vars ?u ! unat (0 :: s32))) = 1" "vars ?u \<noteq> []"
    by (simp_all add: asked_sel vars_main_def vars_init_def dflt_var_def)
  from value_reaches_firmware [OF h d m i, of "[]"]
  obtain u' d w f1 s1 f2 s2 s3 where u: "rpmsg_poll run_rx ?u = Some (True, u')"
      "vars u' = (vars ?u)[unat (0 :: s32) := (vars ?u ! unat (0 :: s32))\<lparr>cv_val := w\<rparr>]" "sint w = max 0 (min 1 (sint (9 :: s32)))"
    and f: "debugfs_open_var kapi_ref ?f (?s\<lparr>k_sched := [KMsg d]\<rparr>) = Some (0, f1, s1)"
      "debugfs_write_var kapi_ref [57, 10] f1 s1 = Some (2, f2, s2)" "debugfs_release_var kapi_ref f2 s2 = Some (0, s3)"
    unfolding v x by auto
  have "sint (cv_val (vars u' ! 0)) = 1" using u(2,3) x(3) by simp
  with u(1) f show ?thesis by blast
qed

end
